(* ===== verification/Sandbox_Base.thy ===== *)
theory Sandbox_Base
  imports Main "HOL-Library.Word" "HOL-Library.List_Lexorder"
begin

unbundle bit_operations_syntax

text \<open>
  The prelude of the development: the machine types of the sources (fixed-width words,
  UTF-16 wide strings, byte buffers), the parts of the C/C++ standard library the sources call
  on them (\<open>towupper\<close>, \<open>towlower\<close>, \<open>wcslen\<close>, \<open>_wcsnicmp\<close>, \<open>_wcsicmp\<close>,
  \<open>std::wstring::find_last_of\<close>), little-endian reads and writes of a byte buffer, and the
  lemmas on lists, words and buffers that the component theories share.

  The case mappings are those of the "C" locale, which is the locale the C runtime starts in and
  which no file of the sources changes (there is no call of \<open>setlocale\<close>).
\<close>

named_theorems wchar_defs "definitions of characters and string literals"
named_theorems bytes_simps "sizes and contents of byte encodings"


section \<open>Machine types\<close>

type_synonym u8 = "8 word"
type_synonym u16 = "16 word"
type_synonym u32 = "32 word"
type_synonym u64 = "64 word"
type_synonym wchar = "16 word"
type_synonym wstr = "wchar list"
type_synonym bytes = "u8 list"

text \<open>A wide string literal \<open>L"..."\<close> with ASCII characters.\<close>

definition wide :: "string \<Rightarrow> wstr" where
  [wchar_defs]: "wide s = map of_char s"

abbreviation BACKSLASH :: wchar where "BACKSLASH \<equiv> 0x5C"
abbreviation SLASH :: wchar where "SLASH \<equiv> 0x2F"
abbreviation COLON :: wchar where "COLON \<equiv> 0x3A"
abbreviation QUESTION :: wchar where "QUESTION \<equiv> 0x3F"
abbreviation DOT :: wchar where "DOT \<equiv> 0x2E"
abbreviation SPACE :: wchar where "SPACE \<equiv> 0x20"
abbreviation DQUOTE :: wchar where "DQUOTE \<equiv> 0x22"
abbreviation STAR :: wchar where "STAR \<equiv> 0x2A"

text \<open>The prefixes \<open>\\?\\<close> and \<open>\??\\<close>.\<close>

definition ext_prefix :: wstr where
  [wchar_defs]: "ext_prefix = [BACKSLASH, BACKSLASH, QUESTION, BACKSLASH]"

definition nt_prefix :: wstr where
  [wchar_defs]: "nt_prefix = [BACKSLASH, QUESTION, QUESTION, BACKSLASH]"

abbreviation MAX_PATH :: nat where "MAX_PATH \<equiv> 260"


section \<open>Standard library functions\<close>

definition towupper :: "wchar \<Rightarrow> wchar" where
  "towupper c = (if 0x61 \<le> c \<and> c \<le> 0x7A then c - 0x20 else c)"

definition towlower :: "wchar \<Rightarrow> wchar" where
  "towlower c = (if 0x41 \<le> c \<and> c \<le> 0x5A then c + 0x20 else c)"

text \<open>The characters of a buffer up to its terminating NUL, as every \<open>wcs...\<close> function
  sees it; \<open>wcslen\<close> is its length.\<close>

definition cstr :: "wstr \<Rightarrow> wstr" where
  "cstr s = takeWhile (\<lambda>c. c \<noteq> 0) s"

text \<open>\<open>_wcsnicmp(a, b, n) == 0\<close> and \<open>_wcsicmp(a, b) == 0\<close>: both fold to lower case.\<close>

definition wcsnicmp_eq :: "wstr \<Rightarrow> wstr \<Rightarrow> nat \<Rightarrow> bool" where
  "wcsnicmp_eq a b n \<longleftrightarrow>
     map towlower (take n (cstr a)) = map towlower (take n (cstr b))"

definition wcsicmp_eq :: "wstr \<Rightarrow> wstr \<Rightarrow> bool" where
  "wcsicmp_eq a b \<longleftrightarrow> map towlower (cstr a) = map towlower (cstr b)"

text \<open>\<open>_wcsicmp(a, b) < 0\<close>.\<close>

definition wcsicmp_less :: "wstr \<Rightarrow> wstr \<Rightarrow> bool" where
  "wcsicmp_less a b \<longleftrightarrow> map towlower (cstr a) < map towlower (cstr b)"

text \<open>\<open>find_last_of(set)\<close>: the last position of a character of the set, \<open>None\<close> for
  \<open>npos\<close>.\<close>

fun find_last_of :: "wstr \<Rightarrow> wchar set \<Rightarrow> nat option" where
  "find_last_of [] S = None"
| "find_last_of (c # cs) S =
     (case find_last_of cs S of
        Some i \<Rightarrow> Some (Suc i)
      | None \<Rightarrow> if c \<in> S then Some 0 else None)"

text \<open>\<open>while (!s.empty() && s.back() is in the set) s.pop_back();\<close>\<close>

definition pop_back_while :: "(wchar \<Rightarrow> bool) \<Rightarrow> wstr \<Rightarrow> wstr" where
  "pop_back_while P s = rev (dropWhile P (rev s))"


section \<open>Little-endian buffers\<close>

definition u16_le :: "u16 \<Rightarrow> bytes" where
  "u16_le v = [ucast v, ucast (drop_bit 8 v)]"

definition u32_le :: "u32 \<Rightarrow> bytes" where
  "u32_le v = [ucast v, ucast (drop_bit 8 v), ucast (drop_bit 16 v), ucast (drop_bit 24 v)]"

definition le16 :: "u8 \<Rightarrow> u8 \<Rightarrow> u16" where
  "le16 b0 b1 = ucast b0 OR push_bit 8 (ucast b1)"

definition le32 :: "u8 \<Rightarrow> u8 \<Rightarrow> u8 \<Rightarrow> u8 \<Rightarrow> u32" where
  "le32 b0 b1 b2 b3 =
     ucast b0 OR push_bit 8 (ucast b1) OR push_bit 16 (ucast b2) OR push_bit 24 (ucast b3)"

text \<open>Typed reads of a buffer at a byte offset; \<open>None\<close> is a read outside the buffer.\<close>

definition rd_u16 :: "bytes \<Rightarrow> nat \<Rightarrow> u16 option" where
  "rd_u16 mem i = (if i + 2 \<le> length mem then Some (le16 (mem ! i) (mem ! (i + 1))) else None)"

definition rd_u32 :: "bytes \<Rightarrow> nat \<Rightarrow> u32 option" where
  "rd_u32 mem i =
     (if i + 4 \<le> length mem
      then Some (le32 (mem ! i) (mem ! (i + 1)) (mem ! (i + 2)) (mem ! (i + 3))) else None)"

text \<open>The buffer holds the given bytes at the offset.\<close>

definition bytes_at :: "bytes \<Rightarrow> nat \<Rightarrow> bytes \<Rightarrow> bool" where
  "bytes_at mem a bs \<longleftrightarrow> a + length bs \<le> length mem \<and> take (length bs) (drop a mem) = bs"


section \<open>Lemmas on characters and strings\<close>

lemma wide_Nil [simp]: "wide [] = []"
  by (simp add: wide_def)

lemma wide_Cons [simp]: "wide (c # cs) = of_char c # wide cs"
  by (simp add: wide_def)

lemma towupper_idem [simp]: "towupper (towupper c) = towupper c"
  unfolding towupper_def by (auto simp: word_le_nat_alt unat_sub_if_size)

lemma towlower_idem [simp]: "towlower (towlower c) = towlower c"
  unfolding towlower_def by (auto simp: word_le_nat_alt unat_word_ariths)

lemma towupper_eq_iff_towlower_eq: "towupper c = towupper d \<longleftrightarrow> towlower c = towlower d"
  unfolding towupper_def towlower_def word_le_nat_alt word_unat_eq_iff
  by (auto simp: unat_word_ariths unat_sub_if_size)

lemma towupper_sep [simp]:
  "towupper c = BACKSLASH \<longleftrightarrow> c = BACKSLASH" "towupper c = SLASH \<longleftrightarrow> c = SLASH"
  "towupper c = 0 \<longleftrightarrow> c = 0" "towupper c = COLON \<longleftrightarrow> c = COLON"
  unfolding towupper_def word_le_nat_alt word_unat_eq_iff
  by (auto simp: unat_word_ariths unat_sub_if_size)

lemma towlower_sep [simp]:
  "towlower c = BACKSLASH \<longleftrightarrow> c = BACKSLASH" "towlower c = SLASH \<longleftrightarrow> c = SLASH"
  "towlower c = 0 \<longleftrightarrow> c = 0" "towlower c = COLON \<longleftrightarrow> c = COLON"
  unfolding towlower_def word_le_nat_alt word_unat_eq_iff
  by (auto simp: unat_word_ariths)

lemma cstr_id: "0 \<notin> set s \<Longrightarrow> cstr s = s"
  unfolding cstr_def by (auto simp: takeWhile_eq_all_conv)

lemma zero_notin_cstr [simp]: "0 \<notin> set (cstr s)"
  unfolding cstr_def by (auto dest: set_takeWhileD)

lemma wcsnicmp_eq_refl [simp]: "wcsnicmp_eq s s n"
  by (simp add: wcsnicmp_eq_def)

lemma wcsnicmp_eq_sym: "wcsnicmp_eq a b n \<Longrightarrow> wcsnicmp_eq b a n"
  by (simp add: wcsnicmp_eq_def)

lemma wcsnicmp_eq_trans: "wcsnicmp_eq a b n \<Longrightarrow> wcsnicmp_eq b c n \<Longrightarrow> wcsnicmp_eq a c n"
  by (simp add: wcsnicmp_eq_def)

lemma wcsnicmp_eq_noNUL:
  "0 \<notin> set a \<Longrightarrow> 0 \<notin> set b \<Longrightarrow>
   wcsnicmp_eq a b n \<longleftrightarrow> map towlower (take n a) = map towlower (take n b)"
  by (simp add: wcsnicmp_eq_def cstr_id)

lemma find_last_of_None: "find_last_of s S = None \<longleftrightarrow> set s \<inter> S = {}"
  by (induction s) (auto split: option.splits)

lemma find_last_of_Some:
  "find_last_of s S = Some i \<Longrightarrow> i < length s \<and> s ! i \<in> S \<and> (\<forall>j. i < j \<and> j < length s \<longrightarrow> s ! j \<notin> S)"
proof (induction s arbitrary: i)
  case (Cons c s)
  show ?case
  proof (cases "find_last_of s S")
    case None
    with Cons.prems have "i = 0" "c \<in> S" by (auto split: if_splits)
    moreover have "s ! k \<notin> S" if "k < length s" for k
      using None that by (auto simp: find_last_of_None disjoint_iff)
    ultimately show ?thesis by (auto simp: nth_Cons split: nat.splits)
  next
    case (Some k)
    with Cons show ?thesis by (fastforce simp: nth_Cons split: nat.splits)
  qed
qed simp

lemma find_last_of_less: "find_last_of s S = Some i \<Longrightarrow> i < length s"
  by (simp add: find_last_of_Some)

lemma pop_back_while_Nil [simp]: "pop_back_while P [] = []"
  by (simp add: pop_back_while_def)

lemma pop_back_while_snoc [simp]:
  "pop_back_while P (s @ [c]) = (if P c then pop_back_while P s else s @ [c])"
  by (simp add: pop_back_while_def)

lemma pop_back_while_decomp:
  "\<exists>t. s = pop_back_while P s @ t \<and> (\<forall>c \<in> set t. P c)"
proof -
  have "s = rev (dropWhile P (rev s)) @ rev (takeWhile P (rev s))"
    by (metis rev_append rev_rev_ident takeWhile_dropWhile_id)
  then show ?thesis
    unfolding pop_back_while_def
    by (metis set_rev set_takeWhileD)
qed

lemma pop_back_while_last:
  "pop_back_while P s \<noteq> [] \<Longrightarrow> \<not> P (last (pop_back_while P s))"
  unfolding pop_back_while_def
  by (simp add: last_rev hd_dropWhile)

lemma set_pop_back_while: "set (pop_back_while P s) \<subseteq> set s"
  unfolding pop_back_while_def by (auto dest: set_dropWhileD)


section \<open>Lemmas on buffers\<close>

lemma length_u16_le [simp, bytes_simps]: "length (u16_le v) = 2"
  by (simp add: u16_le_def)

lemma length_u32_le [simp, bytes_simps]: "length (u32_le v) = 4"
  by (simp add: u32_le_def)

lemma le16_u16_le: "le16 (u16_le v ! 0) (u16_le v ! 1) = v"
  by (rule bit_eqI) (auto simp: u16_le_def le16_def bit_simps)

lemma le32_u32_le: "le32 (u32_le v ! 0) (u32_le v ! 1) (u32_le v ! 2) (u32_le v ! 3) = v"
proof (rule bit_eqI)
  fix n
  assume "possible_bit TYPE(u32) n"
  then have "n < 32" by (simp add: possible_bit_def)
  then consider "n < 8" | "8 \<le> n" "n < 16" | "16 \<le> n" "n < 24" | "24 \<le> n" "n < 32"
    by linarith
  then show "bit (le32 (u32_le v ! 0) (u32_le v ! 1) (u32_le v ! 2) (u32_le v ! 3)) n = bit v n"
    by cases (auto simp: u32_le_def le32_def bit_simps)
qed

lemma u32_le_inject [simp]: "u32_le v = u32_le w \<longleftrightarrow> v = w"
  by (metis le32_u32_le)

lemma bytes_at_Nil [simp]: "bytes_at mem a [] \<longleftrightarrow> a \<le> length mem"
  by (simp add: bytes_at_def)

lemma bytes_at_length: "bytes_at mem a bs \<Longrightarrow> a + length bs \<le> length mem"
  by (simp add: bytes_at_def)

lemma bytes_at_append:
  "bytes_at mem a (xs @ ys) \<longleftrightarrow> bytes_at mem a xs \<and> bytes_at mem (a + length xs) ys"
proof (cases "a + length xs + length ys \<le> length mem")
  case True
  then have "length (take (length xs) (drop a mem)) = length xs" by simp
  with True show ?thesis
    by (auto simp: bytes_at_def take_add add.commute add.left_commute append_eq_append_conv)
next
  case False
  then show ?thesis by (auto simp: bytes_at_def)
qed

lemma bytes_at_here: "bytes_at (pre @ bs @ post) (length pre) bs"
  by (simp add: bytes_at_def)

lemma bytes_at_nth:
  assumes "bytes_at mem a bs" "i < length bs"
  shows "a + i < length mem \<and> mem ! (a + i) = bs ! i"
proof -
  have le: "a + length bs \<le> length mem"
    using assms by (intro bytes_at_length) auto
  have "bs ! i = take (length bs) (drop a mem) ! i"
    using assms(1) by (simp add: bytes_at_def)
  with assms(2) le show ?thesis by simp
qed

lemma bytes_at_prefix: "bytes_at mem a bs \<Longrightarrow> bytes_at (mem @ more) a bs"
  by (simp add: bytes_at_def)

lemma bytes_at_shift: "bytes_at mem a bs \<Longrightarrow> bytes_at (pre @ mem) (length pre + a) bs"
  by (simp add: bytes_at_def)

lemma rd_u32_bytes_at:
  assumes "bytes_at mem a (u32_le v)"
  shows "rd_u32 mem a = Some v"
proof -
  have nth: "a + i < length mem \<and> mem ! (a + i) = u32_le v ! i" if "i < 4" for i
    using assms that by (intro bytes_at_nth) simp_all
  show ?thesis
    using nth [of 0] nth [of 1] nth [of 2] nth [of 3] le32_u32_le [of v]
    by (simp add: rd_u32_def)
qed

lemma rd_u16_bytes_at:
  assumes "bytes_at mem a (u16_le v)"
  shows "rd_u16 mem a = Some v"
proof -
  have nth: "a + i < length mem \<and> mem ! (a + i) = u16_le v ! i" if "i < 2" for i
    using assms that by (intro bytes_at_nth) simp_all
  show ?thesis
    using nth [of 0] nth [of 1] le16_u16_le [of v]
    by (simp add: rd_u16_def)
qed

end
