(* ===== verification/String_Operations.thy ===== *)
theory String_Operations
  imports Sandbox_Base "HOL-Library.Sublist"
begin

text \<open>
  The path-string routines of \<open>vendor/detours-services/StringOperations.h\<close> and
  \<open>StringOperations.cpp\<close>: character classification, the FNV-1 path hash, prefix and suffix
  tests, containment of a path in a directory tree, root length, named streams and path
  combination. A \<open>PCPathChar\<close> argument is the list of the characters before its NUL; \<open>at\<close>
  reads one of them, or the NUL at the end.
\<close>

section \<open>Characters and path forms\<close>

definition at :: "wstr \<Rightarrow> nat \<Rightarrow> wchar" where
  "at s i = (if i < length s then s ! i else 0)"

definition NormalizePathChar :: "wchar \<Rightarrow> wchar" where
  "NormalizePathChar c = towupper c"

definition IsPathCharEqual :: "wchar \<Rightarrow> wchar \<Rightarrow> bool" where
  "IsPathCharEqual c1 c2 \<longleftrightarrow> c1 = c2 \<or> NormalizePathChar c1 = NormalizePathChar c2"

definition IsDirectorySeparator :: "wchar \<Rightarrow> bool" where
  "IsDirectorySeparator c \<longleftrightarrow> c = BACKSLASH \<or> c = SLASH"

definition IsDriveLetter :: "wchar \<Rightarrow> bool" where
  "IsDriveLetter c \<longleftrightarrow> (0x61 \<le> c \<and> c \<le> 0x7A) \<or> (0x41 \<le> c \<and> c \<le> 0x5A)"

definition IsDriveBasedAbsolutePath :: "wstr \<Rightarrow> bool" where
  "IsDriveBasedAbsolutePath path \<longleftrightarrow>
     at path 0 \<noteq> 0 \<and> IsDriveLetter (at path 0) \<and> at path 1 = COLON \<and>
     IsDirectorySeparator (at path 2)"

definition IsWin32NtPathName :: "wstr \<Rightarrow> bool" where
  "IsWin32NtPathName path \<longleftrightarrow>
     at path 0 = BACKSLASH \<and> (at path 1 = BACKSLASH \<or> at path 1 = QUESTION) \<and>
     at path 2 = QUESTION \<and> at path 3 = BACKSLASH"

definition IsLocalDevicePathName :: "wstr \<Rightarrow> bool" where
  "IsLocalDevicePathName path \<longleftrightarrow>
     at path 0 = BACKSLASH \<and> at path 1 = BACKSLASH \<and> at path 2 = DOT \<and> at path 3 = BACKSLASH"

definition IsNtObjectPath :: "wstr \<Rightarrow> bool" where
  "IsNtObjectPath path \<longleftrightarrow>
     at path 0 = BACKSLASH \<and> at path 1 = QUESTION \<and> at path 2 = QUESTION \<and> at path 3 = BACKSLASH"

definition IsPipeDevice :: "wstr \<Rightarrow> bool" where
  "IsPipeDevice path \<longleftrightarrow>
     (IsLocalDevicePathName path \<or> IsNtObjectPath path) \<and>
     at path 4 = of_char (CHR ''p'') \<and> at path 5 = of_char (CHR ''i'') \<and>
     at path 6 = of_char (CHR ''p'') \<and> at path 7 = of_char (CHR ''e'') \<and>
     at path 8 = BACKSLASH"

definition IsSpecialDeviceName :: "wstr \<Rightarrow> bool" where
  "IsSpecialDeviceName path \<longleftrightarrow> IsPipeDevice path"


section \<open>The path hash\<close>

definition Fnv1Prime32 :: u32 where "Fnv1Prime32 = 16777619"
definition Fnv1Basis32 :: u32 where "Fnv1Basis32 = 2166136261"

definition Fold_byte :: "u32 \<Rightarrow> u8 \<Rightarrow> u32" where
  "Fold_byte hash value = (hash * Fnv1Prime32) XOR ucast value"

definition Fold :: "u32 \<Rightarrow> u16 \<Rightarrow> u32" where
  "Fold hash value = Fold_byte (Fold_byte hash (ucast value)) (ucast (drop_bit 8 value))"

fun HashPath_loop :: "u32 \<Rightarrow> wstr \<Rightarrow> u32" where
  "HashPath_loop hash [] = hash"
| "HashPath_loop hash (c # cs) = HashPath_loop (Fold hash (NormalizePathChar c)) cs"

definition HashPath :: "wstr \<Rightarrow> u32" where
  "HashPath path = HashPath_loop Fnv1Basis32 path"

text \<open>Returns the hash and the characters written to the buffer, without the final NUL.\<close>

fun NormalizeAndHashPath_loop :: "u32 \<Rightarrow> wstr \<Rightarrow> u32 \<times> wstr" where
  "NormalizeAndHashPath_loop hash [] = (hash, [])"
| "NormalizeAndHashPath_loop hash (p # ps) =
     (let c = NormalizePathChar p;
          (h, buf) = NormalizeAndHashPath_loop (Fold hash c) ps
      in (h, c # buf))"

definition NormalizeAndHashPath :: "wstr \<Rightarrow> u32 \<times> wstr" where
  "NormalizeAndHashPath path = NormalizeAndHashPath_loop Fnv1Basis32 path"


section \<open>Prefix, suffix and equality\<close>

fun HasPrefix :: "wstr \<Rightarrow> wstr \<Rightarrow> bool" where
  "HasPrefix [] pre = (pre = [])"
| "HasPrefix (s # str) [] = True"
| "HasPrefix (s # str) (p # pre) = (IsPathCharEqual s p \<and> HasPrefix str pre)"

text \<open>The loop of \<open>HasSuffix\<close> over \<open>i < n\<close>, comparing the \<open>i\<close>-th characters from the end.\<close>

definition HasSuffix :: "wstr \<Rightarrow> wstr \<Rightarrow> bool" where
  "HasSuffix str suf \<longleftrightarrow>
     length suf \<le> length str \<and>
     list_all (\<lambda>i. IsPathCharEqual (str ! (length str - i - 1)) (suf ! (length suf - i - 1)))
       [0..<length suf]"

definition AreEqualCaseInsensitively :: "wstr \<Rightarrow> wstr \<Rightarrow> bool" where
  "AreEqualCaseInsensitively s1 s2 \<longleftrightarrow>
     length s1 = length s2 \<and> list_all2 (\<lambda>a b. towlower a = towlower b) s1 s2"

text \<open>\<open>std::search\<close>: the position of the first match, or the length of the string (\<open>end()\<close>).\<close>

fun FindCaseInsensitively :: "wstr \<Rightarrow> wstr \<Rightarrow> nat" where
  "FindCaseInsensitively string value =
     (if length value \<le> length string \<and>
         list_all2 (\<lambda>c1 c2. towlower c1 = towlower c2) (take (length value) string) value
      then 0
      else case string of [] \<Rightarrow> 0 | _ # cs \<Rightarrow> Suc (FindCaseInsensitively cs value))"

declare FindCaseInsensitively.simps [simp del]

fun GetCommandLineFromArgv_loop :: "nat \<Rightarrow> wstr list \<Rightarrow> wstr \<Rightarrow> wstr" where
  "GetCommandLineFromArgv_loop n [] cmd_line = cmd_line"
| "GetCommandLineFromArgv_loop n (a # argv) cmd_line =
     GetCommandLineFromArgv_loop (Suc n) argv ((if 0 < n then cmd_line @ [SPACE] else cmd_line) @ a)"

definition GetCommandLineFromArgv :: "wstr list option \<Rightarrow> wstr" where
  "GetCommandLineFromArgv argv =
     (case argv of None \<Rightarrow> [] | Some as \<Rightarrow> GetCommandLineFromArgv_loop 0 as [])"


section \<open>Containment in a tree\<close>

text \<open>
  The loop of \<open>IsPathWithinTree\<close>. The positions \<open>treepos\<close> and \<open>pathpos\<close> are the remaining
  characters of the two strings. Reading an element stops behind the one separator that ends it.
\<close>

definition skip_seps :: "wstr \<Rightarrow> wstr" where
  "skip_seps s = dropWhile IsDirectorySeparator s"

definition path_element :: "wstr \<Rightarrow> wstr" where
  "path_element s = takeWhile (\<lambda>c. \<not> IsDirectorySeparator c) s"

definition after_element :: "wstr \<Rightarrow> wstr" where
  "after_element s = drop 1 (dropWhile (\<lambda>c. \<not> IsDirectorySeparator c) s)"

definition elements_equal :: "wstr \<Rightarrow> wstr \<Rightarrow> bool" where
  "elements_equal te pe \<longleftrightarrow> length te = length pe \<and> list_all2 IsPathCharEqual te pe"

lemma after_element_shorter: "s \<noteq> [] \<Longrightarrow> length (after_element s) < length s"
  unfolding after_element_def
  by (cases s) (auto simp: length_dropWhile_le le_imp_less_Suc less_Suc_eq_le diff_le_self
      intro: le_trans [OF diff_le_self])

function IsPathWithinTree_loop :: "wstr \<Rightarrow> wstr \<Rightarrow> bool" where
  "IsPathWithinTree_loop tree path =
     (let t = skip_seps tree; p = skip_seps path
      in if t = [] then True
         else if p = [] then False
         else if \<not> elements_equal (path_element t) (path_element p) then False
         else IsPathWithinTree_loop (after_element t) (after_element p))"
  by pat_completeness auto
termination
proof (relation "measure (\<lambda>(t, p). length t)", goal_cases)
  case (2 tree path t p)
  then have "length (after_element t) < length t" by (intro after_element_shorter) simp
  moreover have "length t \<le> length tree"
    using 2 by (simp add: skip_seps_def length_dropWhile_le)
  ultimately show ?case by simp
qed simp

declare IsPathWithinTree_loop.simps [simp del]

definition IsPathWithinTree :: "wstr \<Rightarrow> wstr \<Rightarrow> bool" where
  "IsPathWithinTree tree path =
     (if tree = [] then True
      else if \<not> IsDriveBasedAbsolutePath tree \<or> \<not> IsDriveBasedAbsolutePath path then False
      else if \<not> IsPathCharEqual (at tree 0) (at path 0) then False
      else IsPathWithinTree_loop (drop 3 tree) (drop 3 path))"


section \<open>Separators, streams and roots\<close>

fun FindFinalPathSeparator_loop :: "nat \<Rightarrow> nat \<Rightarrow> wstr \<Rightarrow> nat" where
  "FindFinalPathSeparator_loop found pos [] = found"
| "FindFinalPathSeparator_loop found pos (c # cs) =
     FindFinalPathSeparator_loop (if IsDirectorySeparator c then pos else found) (Suc pos) cs"

definition FindFinalPathSeparator :: "wstr \<Rightarrow> nat" where
  "FindFinalPathSeparator path = FindFinalPathSeparator_loop 0 0 path"

text \<open>
  The backward scan of \<open>IsPathToNamedStream\<close>, over the reversed path. The counters are
  \<open>segmentLength[0..2]\<close>; \<open>None\<close> is the early return on a third colon.
\<close>

fun NamedStream_scan :: "nat \<Rightarrow> nat list \<Rightarrow> wstr \<Rightarrow> (nat \<times> nat list) option" where
  "NamedStream_scan segment lens [] = Some (segment, lens)"
| "NamedStream_scan segment lens (c # cs) =
     (if IsDirectorySeparator c then Some (segment, lens)
      else if c = COLON then
        (if Suc segment = 3 then None else NamedStream_scan (Suc segment) lens cs)
      else NamedStream_scan segment (lens[segment := Suc (lens ! segment)]) cs)"

definition IsPathToNamedStream :: "wstr \<Rightarrow> bool" where
  "IsPathToNamedStream path =
     (case NamedStream_scan 0 [0, 0, 0] (rev path) of
        None \<Rightarrow> False
      | Some (segment, lens) \<Rightarrow>
          if segment = 2 then 0 < lens ! 1 \<and> 0 < lens ! 2
          else if segment = 1 then 0 < lens ! 0 \<and> 0 < lens ! 1
          else False)"

definition LONG_UNC_PATH_PREFIX :: wstr where
  "LONG_UNC_PATH_PREFIX = ext_prefix @ wide ''UNC'' @ [BACKSLASH]"

text \<open>\<open>while (i < pathLength && (!IsDirectorySeparator(path[i]) || --n > 0)) ++i;\<close>, as the
  number of characters it advances over.\<close>

fun skip_unc_root :: "nat \<Rightarrow> wstr \<Rightarrow> nat" where
  "skip_unc_root n [] = 0"
| "skip_unc_root n (c # cs) =
     (if \<not> IsDirectorySeparator c then Suc (skip_unc_root n cs)
      else if 0 < n - 1 then Suc (skip_unc_root (n - 1) cs)
      else 0)"

definition GetRootLength :: "wstr \<Rightarrow> nat" where
  "GetRootLength path =
     (let extendedSyntax = HasPrefix path ext_prefix \<or> HasPrefix path nt_prefix;
          extendedUncSyntax = HasPrefix path LONG_UNC_PATH_PREFIX;
          pathLength = length path;
          uncRootLength =
            (if extendedSyntax \<and> extendedUncSyntax then length LONG_UNC_PATH_PREFIX else 2);
          volumeSeparatorLength =
            (if extendedSyntax \<and> \<not> extendedUncSyntax then 2 + length ext_prefix else 2)
      in if (\<not> extendedSyntax \<or> extendedUncSyntax) \<and> 0 < pathLength \<and>
            IsDirectorySeparator (at path 0)
         then (if extendedUncSyntax \<or> (1 < pathLength \<and> IsDirectorySeparator (at path 1))
               then uncRootLength + skip_unc_root 2 (drop uncRootLength path)
               else 1)
         else if volumeSeparatorLength \<le> pathLength \<and> at path (volumeSeparatorLength - 1) = COLON
         then (if volumeSeparatorLength + 1 \<le> pathLength \<and>
                  IsDirectorySeparator (at path volumeSeparatorLength)
               then volumeSeparatorLength + 1 else volumeSeparatorLength)
         else 0)"

text \<open>Returns the characters of the path behind the prefix (the pointer \<open>path + 4\<close>).\<close>

definition GetPathWithoutPrefix :: "wstr \<Rightarrow> wstr" where
  "GetPathWithoutPrefix path =
     (if HasPrefix path ext_prefix \<or> HasPrefix path nt_prefix \<or>
         HasPrefix path LONG_UNC_PATH_PREFIX \<or>
         HasPrefix path [BACKSLASH, BACKSLASH, DOT, BACKSLASH]
      then drop 4 path else path)"

definition PathCombine :: "wstr \<Rightarrow> wstr \<Rightarrow> wstr" where
  "PathCombine fragment1 fragment2 =
     (if fragment2 = [] then fragment1
      else if fragment1 = [] then fragment2
      else if 0 < GetRootLength fragment2 then fragment2
      else (let ch = last fragment1
            in if ch \<noteq> BACKSLASH \<and> ch \<noteq> SLASH \<and> ch \<noteq> COLON
               then fragment1 @ [BACKSLASH] @ fragment2
               else fragment1 @ fragment2))"


section \<open>Lemmas: characters, prefixes, hashes\<close>

lemma IsPathCharEqual_iff [simp]: "IsPathCharEqual c d \<longleftrightarrow> towupper c = towupper d"
  by (auto simp: IsPathCharEqual_def NormalizePathChar_def)

lemma list_all2_IsPathCharEqual:
  "list_all2 IsPathCharEqual xs ys \<longleftrightarrow> map towupper xs = map towupper ys"
  by (induction xs arbitrary: ys) (auto simp: list_all2_Cons1 Cons_eq_map_conv)

lemma IsDirectorySeparator_towupper [simp]:
  "IsDirectorySeparator (towupper c) \<longleftrightarrow> IsDirectorySeparator c"
  by (simp add: IsDirectorySeparator_def)

lemma not_IsDirectorySeparator_0 [simp]: "\<not> IsDirectorySeparator 0"
  by (simp add: IsDirectorySeparator_def)

lemma HasPrefix_iff:
  "HasPrefix s p \<longleftrightarrow> length p \<le> length s \<and> map towupper (take (length p) s) = map towupper p"
  by (induction s p rule: HasPrefix.induct) auto

lemma HasSuffix_iff:
  "HasSuffix s t \<longleftrightarrow>
     length t \<le> length s \<and> map towupper (drop (length s - length t) s) = map towupper t"
proof (cases "length t \<le> length s")
  case True
  have "(\<forall>i < length t. towupper (s ! (length s - i - 1)) = towupper (t ! (length t - i - 1)))
      \<longleftrightarrow> (\<forall>j < length t. towupper (s ! (length s - length t + j)) = towupper (t ! j))"
    (is "?L \<longleftrightarrow> ?R")
  proof
    assume L: ?L
    show ?R
    proof (intro allI impI)
      fix j assume j: "j < length t"
      then have "length s - (length t - j - 1) - 1 = length s - length t + j"
        using True by simp
      with j L [rule_format, of "length t - j - 1"]
      show "towupper (s ! (length s - length t + j)) = towupper (t ! j)" by simp
    qed
  next
    assume R: ?R
    show ?L
    proof (intro allI impI)
      fix i assume i: "i < length t"
      then have "length s - length t + (length t - i - 1) = length s - i - 1"
        using True by simp
      with i R [rule_format, of "length t - i - 1"]
      show "towupper (s ! (length s - i - 1)) = towupper (t ! (length t - i - 1))" by simp
    qed
  qed
  moreover have "map towupper (drop (length s - length t) s) = map towupper t \<longleftrightarrow> ?R"
    using True by (simp add: list_eq_iff_nth_eq)
  moreover have "HasSuffix s t \<longleftrightarrow> ?L"
    using True by (auto simp: HasSuffix_def list_all_iff)
  ultimately show ?thesis using True by blast
qed (simp add: HasSuffix_def)

lemma HashPath_loop_towupper: "HashPath_loop h (map towupper p) = HashPath_loop h p"
  by (induction p arbitrary: h) (auto simp: NormalizePathChar_def)

lemma HashPath_cong: "map towupper p = map towupper q \<Longrightarrow> HashPath p = HashPath q"
  unfolding HashPath_def by (metis HashPath_loop_towupper)

lemma HashPath_towupper [simp]: "HashPath (map towupper p) = HashPath p"
  by (simp add: HashPath_def HashPath_loop_towupper)

lemma NormalizeAndHashPath_loop_eq:
  "NormalizeAndHashPath_loop h p = (HashPath_loop h p, map towupper p)"
  by (induction p arbitrary: h) (auto simp: NormalizePathChar_def Let_def)

lemma NormalizeAndHashPath_eq: "NormalizeAndHashPath p = (HashPath p, map towupper p)"
  by (simp add: NormalizeAndHashPath_def HashPath_def NormalizeAndHashPath_loop_eq)

lemma FindCaseInsensitively_le: "FindCaseInsensitively s v \<le> length s"
  by (induction s v rule: FindCaseInsensitively.induct)
    (subst FindCaseInsensitively.simps, auto split: list.splits)

lemma GetCommandLineFromArgv_loop_append:
  "0 < n \<Longrightarrow> GetCommandLineFromArgv_loop n as cmd = cmd @ concat (map (\<lambda>a. SPACE # a) as)"
  by (induction as arbitrary: n cmd) auto


section \<open>Lemmas: containment in a tree\<close>

text \<open>The non-empty elements between the separators of a path.\<close>

function components :: "wstr \<Rightarrow> wstr list" where
  "components s =
     (let t = skip_seps s in if t = [] then [] else path_element t # components (after_element t))"
  by pat_completeness auto
termination
proof (relation "measure length", goal_cases)
  case (2 s t)
  then have "length (after_element t) < length t" by (intro after_element_shorter) simp
  moreover have "length t \<le> length s"
    using 2 by (simp add: skip_seps_def length_dropWhile_le)
  ultimately show ?case by simp
qed simp

declare components.simps [simp del]

lemma skip_seps_hd: "skip_seps s \<noteq> [] \<Longrightarrow> \<not> IsDirectorySeparator (hd (skip_seps s))"
  by (simp add: skip_seps_def hd_dropWhile)

lemma path_element_nonempty: "skip_seps s \<noteq> [] \<Longrightarrow> path_element (skip_seps s) \<noteq> []"
  using skip_seps_hd [of s] by (cases "skip_seps s") (auto simp: path_element_def)

lemma elements_equal_iff: "elements_equal te pe \<longleftrightarrow> map towupper te = map towupper pe"
  by (auto simp: elements_equal_def list_all2_IsPathCharEqual dest: map_eq_imp_length_eq)

lemma IsPathWithinTree_loop_iff:
  "IsPathWithinTree_loop tree path \<longleftrightarrow>
     prefix (map (map towupper) (components tree)) (map (map towupper) (components path))"
proof (induction tree path rule: IsPathWithinTree_loop.induct)
  case (1 tree path)
  show ?case
  proof (cases "skip_seps tree = [] \<or> skip_seps path = [] \<or>
      \<not> elements_equal (path_element (skip_seps tree)) (path_element (skip_seps path))")
    case True
    then show ?thesis
      by (auto simp: IsPathWithinTree_loop.simps [of tree path] components.simps [of tree]
          components.simps [of path] elements_equal_iff Let_def)
  next
    case False
    with 1 show ?thesis
      by (auto simp: IsPathWithinTree_loop.simps [of tree path] components.simps [of tree]
          components.simps [of path] elements_equal_iff Let_def)
  qed
qed


section \<open>Lemmas: separators, streams, roots\<close>

lemma FindFinalPathSeparator_loop_eq:
  "FindFinalPathSeparator_loop found pos s =
     (case find_last_of s {BACKSLASH, SLASH} of Some i \<Rightarrow> pos + i | None \<Rightarrow> found)"
  by (induction s arbitrary: found pos) (auto simp: IsDirectorySeparator_def split: option.splits)

lemma FindFinalPathSeparator_eq:
  "FindFinalPathSeparator s = (case find_last_of s {BACKSLASH, SLASH} of Some i \<Rightarrow> i | None \<Rightarrow> 0)"
  by (simp add: FindFinalPathSeparator_def FindFinalPathSeparator_loop_eq split: option.splits)

text \<open>The segments between the colons of a file name.\<close>

fun colon_segments :: "wstr \<Rightarrow> wstr list" where
  "colon_segments [] = [[]]"
| "colon_segments (c # cs) =
     (if c = COLON then [] # colon_segments cs
      else (c # hd (colon_segments cs)) # tl (colon_segments cs))"

lemma colon_segments_nonempty [simp]: "colon_segments s \<noteq> []"
  by (induction s) auto

fun add_lengths :: "nat list \<Rightarrow> nat \<Rightarrow> wstr list \<Rightarrow> nat list" where
  "add_lengths lens k [] = lens"
| "add_lengths lens k (s # ss) = add_lengths (lens[k := lens ! k + length s]) (Suc k) ss"

lemma NamedStream_scan_eq:
  assumes "k < 3" "length lens = 3"
  shows "NamedStream_scan k lens s =
     (let segs = colon_segments (takeWhile (\<lambda>c. \<not> IsDirectorySeparator c) s)
      in if 3 < k + length segs then None else Some (k + length segs - 1, add_lengths lens k segs))"
  using assms
proof (induction s arbitrary: k lens)
  case Nil
  then show ?case by simp
next
  case (Cons c s)
  obtain x xs where seg: "colon_segments (takeWhile (\<lambda>c. \<not> IsDirectorySeparator c) s) = x # xs"
    by (cases "colon_segments (takeWhile (\<lambda>c. \<not> IsDirectorySeparator c) s)") auto
  consider (sep) "IsDirectorySeparator c"
    | (last) "\<not> IsDirectorySeparator c" "c = COLON" "k = 2"
    | (colon) "\<not> IsDirectorySeparator c" "c = COLON" "Suc k < 3"
    | (other) "\<not> IsDirectorySeparator c" "c \<noteq> COLON"
    using Cons.prems by linarith
  then show ?case
  proof cases
    case other
    with Cons.IH [of k "lens[k := Suc (lens ! k)]"] Cons.prems seg show ?thesis
      by (simp add: Let_def)
  next
    case colon
    with Cons.IH [of "Suc k" lens] Cons.prems seg show ?thesis
      by (simp add: Let_def)
  qed (use Cons.prems seg in \<open>simp_all add: Let_def\<close>)
qed

text \<open>A named stream is \<open>file:stream\<close> or \<open>file:stream:type\<close> with a non-empty file and stream.
  The scan meets the segments from the last to the first.\<close>

lemma IsPathToNamedStream_iff:
  "IsPathToNamedStream path \<longleftrightarrow>
     (case colon_segments (takeWhile (\<lambda>c. \<not> IsDirectorySeparator c) (rev path)) of
        [stream, file] \<Rightarrow> stream \<noteq> [] \<and> file \<noteq> []
      | [_, stream, file] \<Rightarrow> stream \<noteq> [] \<and> file \<noteq> []
      | _ \<Rightarrow> False)"
  by (simp add: IsPathToNamedStream_def NamedStream_scan_eq Let_def split: list.split)

lemma skip_unc_root_le: "skip_unc_root n s \<le> length s"
  by (induction n s rule: skip_unc_root.induct) auto

lemma GetRootLength_le: "GetRootLength path \<le> length path"
proof -
  have unc: "length LONG_UNC_PATH_PREFIX \<le> length path" if "HasPrefix path LONG_UNC_PATH_PREFIX"
    using that by (simp add: HasPrefix_iff)
  have len: "length LONG_UNC_PATH_PREFIX = 8"
    by (simp add: LONG_UNC_PATH_PREFIX_def ext_prefix_def)
  have skip: "n + skip_unc_root 2 (drop n path) \<le> length path" if "n \<le> length path" for n
    using that skip_unc_root_le [of 2 "drop n path"] by simp
  show ?thesis
  proof (cases "HasPrefix path LONG_UNC_PATH_PREFIX")
    case True
    with unc have "8 \<le> length path" by (simp add: len)
    then show ?thesis
      using True skip [of 8] skip [of 2] by (auto simp: GetRootLength_def Let_def len at_def)
  next
    case False
    have "Suc 0 \<le> length path" if "path \<noteq> []"
      using that by (cases path) auto
    then show ?thesis
      using False skip [of 2]
      by (cases "path = []") (auto simp: GetRootLength_def Let_def at_def)
  qed
qed

end
