(* ===== verification/Win32_Paths.thy ===== *)
theory Win32_Paths
  imports Sandbox_Base
begin

text \<open>
  The Win32 path services the sources call and do not contain: a call returns its \<open>DWORD\<close> result
  and the characters it wrote to the caller's buffer. They are arguments of the definitions that
  use them. \<open>returns_string\<close> is their documented buffer contract: 0 on failure; the length
  without the NUL when the buffer is big enough; otherwise the size needed, with the NUL.

  Four places of the sources call such a service twice, first with a buffer of \<open>MAX_PATH\<close>
  characters and then with one of the size the first call asked for. \<open>two_call\<close> is what they
  share; each place adds its own treatment of errors.
\<close>

type_synonym buffer_api = "wstr \<Rightarrow> nat \<Rightarrow> nat \<times> wstr"

definition returns_string :: "buffer_api \<Rightarrow> (wstr \<Rightarrow> wstr option) \<Rightarrow> bool" where
  "returns_string api f \<longleftrightarrow>
     (\<forall>p sz. api p sz =
        (case f p of
           None \<Rightarrow> (0, [])
         | Some s \<Rightarrow> if length s < sz then (length s, s) else (length s + 1, [])))
     \<and> (\<forall>p s. f p = Some s \<longrightarrow> s \<noteq> [] \<and> 0 \<notin> set s)"

lemma returns_stringD:
  assumes "returns_string api f"
  shows "f p = None \<Longrightarrow> api p sz = (0, [])"
    and "f p = Some s \<Longrightarrow> length s < sz \<Longrightarrow> api p sz = (length s, s)"
    and "f p = Some s \<Longrightarrow> sz \<le> length s \<Longrightarrow> api p sz = (length s + 1, [])"
    and "f p = Some s \<Longrightarrow> s \<noteq> []"
    and "f p = Some s \<Longrightarrow> 0 \<notin> set s"
  using assms unfolding returns_string_def by (auto simp: not_less)

text \<open>A service that satisfies the contract for a given path function.\<close>

definition string_api :: "(wstr \<Rightarrow> wstr option) \<Rightarrow> buffer_api" where
  "string_api f = (\<lambda>p sz.
     case f p of
       None \<Rightarrow> (0, [])
     | Some s \<Rightarrow> if length s < sz then (length s, s) else (length s + 1, []))"

lemma returns_string_string_api:
  "(\<And>p s. f p = Some s \<Longrightarrow> s \<noteq> [] \<and> 0 \<notin> set s) \<Longrightarrow> returns_string (string_api f) f"
  unfolding returns_string_def string_api_def by auto

text \<open>A path function for examples: every path that is a C string is already full.\<close>

definition identity_full :: "wstr \<Rightarrow> wstr option" where
  "identity_full p = (if p \<noteq> [] \<and> 0 \<notin> set p then Some p else None)"

lemma returns_identity_full: "returns_string (string_api identity_full) identity_full"
  by (rule returns_string_string_api) (auto simp: identity_full_def split: if_splits)

text \<open>\<open>n == 0\<close> and the refusal of a second result that does not fit are \<open>None\<close>.\<close>

definition two_call :: "buffer_api \<Rightarrow> wstr \<Rightarrow> wstr option" where
  "two_call api path =
     (let (n, buf) = api path MAX_PATH
      in if n = 0 then None
         else if n < MAX_PATH then Some (take n buf)
         else (let (n2, big) = api path n
               in if n2 = 0 \<or> n \<le> n2 then None else Some (take n2 big)))"

lemma two_call_eq: "returns_string api f \<Longrightarrow> two_call api path = f path"
proof -
  assume api: "returns_string api f"
  show ?thesis
  proof (cases "f path")
    case None
    with returns_stringD(1) [OF api None] show ?thesis by (simp add: two_call_def)
  next
    case (Some s)
    note D = returns_stringD(2-4) [OF api Some]
    show ?thesis
    proof (cases "length s < MAX_PATH")
      case True
      with D Some show ?thesis by (simp add: two_call_def)
    next
      case False
      with D(1) [of "length s + 1"] D(2) [of MAX_PATH] D(3) Some show ?thesis
        by (simp add: two_call_def)
    qed
  qed
qed

end
