(* ===== verification/Manifest_Tree.thy ===== *)
theory Manifest_Tree
  imports String_Operations Win32_Paths "HOL-Library.Multiset"
begin

text \<open>
  The policy tree of \<open>src/manifest_builder.{h,cpp}\<close>: the node structure, the scope operations
  \<open>AddRootScope\<close>, \<open>AddScope\<close> and \<open>AddNodeScope\<close> with the path splitting they share, and
  \<open>Finalize\<close>. The lemmas show that the operations keep the tree well formed (children in key
  order, every key the normalised fragment of its node, every hash the hash of its fragment) and
  compute the policy of a path from the list of the scopes that were added.
\<close>

section \<open>Policy bits\<close>

definition Policy_Deny :: u32 where "Policy_Deny = 0x0"
definition Policy_AllowRead :: u32 where "Policy_AllowRead = 0x1"
definition Policy_AllowWrite :: u32 where "Policy_AllowWrite = 0x2"
definition Policy_AllowReadIfNonExistent :: u32 where "Policy_AllowReadIfNonExistent = 0x4"
definition Policy_AllowCreateDirectory :: u32 where "Policy_AllowCreateDirectory = 0x8"
definition Policy_AllowSymlinkCreation :: u32 where "Policy_AllowSymlinkCreation = 0x100"
definition Policy_OverrideAllowWriteForExistingFiles :: u32 where
  "Policy_OverrideAllowWriteForExistingFiles = 0x400"
definition Policy_AllowAll :: u32 where
  "Policy_AllowAll = Policy_AllowRead OR Policy_AllowReadIfNonExistent OR Policy_AllowWrite OR
     Policy_AllowCreateDirectory OR Policy_AllowSymlinkCreation"
definition Policy_DeclaredInput :: u32 where "Policy_DeclaredInput = 0x2000"
definition Policy_MaskAll :: u32 where "Policy_MaskAll = 0x0"
definition Policy_MaskNothing :: u32 where "Policy_MaskNothing = 0xFFFF"

lemmas policy_bits = Policy_Deny_def Policy_AllowRead_def Policy_AllowWrite_def
  Policy_AllowReadIfNonExistent_def Policy_AllowCreateDirectory_def
  Policy_AllowSymlinkCreation_def Policy_OverrideAllowWriteForExistingFiles_def
  Policy_AllowAll_def Policy_DeclaredInput_def Policy_MaskAll_def Policy_MaskNothing_def


section \<open>Nodes\<close>

text \<open>The scope accumulators of a node, and their defaults.\<close>

record scope_acc =
  coneMask :: u32
  coneValues :: u32
  nodeMask :: u32
  nodeValues :: u32

definition default_acc :: scope_acc where
  "default_acc = \<lparr>coneMask = Policy_MaskNothing, coneValues = Policy_Deny,
     nodeMask = Policy_MaskNothing, nodeValues = Policy_Deny\<rparr>"

text \<open>\<open>struct Node\<close>; the children are the \<open>std::map\<close> in key order.\<close>

datatype mnode = MNode
  (normalizedFragment: wstr)
  (node_hash: u32)
  (node_acc: scope_acc)
  (conePolicy: u32)
  (nodePolicy: u32)
  (node_children: "(wstr \<times> mnode) list")

definition fresh_node :: "wstr \<Rightarrow> u32 \<Rightarrow> mnode" where
  "fresh_node fragment h = MNode fragment h default_acc 0 0 []"

definition root_node :: mnode where
  "root_node = fresh_node [] 0"

definition IsSep :: "wchar \<Rightarrow> bool" where
  "IsSep c \<longleftrightarrow> c = BACKSLASH \<or> c = SLASH"

fun NormalizeAndHashFragment_loop :: "u32 \<Rightarrow> wstr \<Rightarrow> u32 \<times> wstr" where
  "NormalizeAndHashFragment_loop hash [] = (hash, [])"
| "NormalizeAndHashFragment_loop hash (ch # fragment) =
     (let c = towupper ch;
          hash1 = (hash * 16777619) XOR ucast (ucast (c AND 0xFF) :: u8);
          hash2 = (hash1 * 16777619) XOR ucast (ucast (drop_bit 8 c AND 0xFF) :: u8);
          (h, normalizedOut) = NormalizeAndHashFragment_loop hash2 fragment
      in (h, c # normalizedOut))"

definition NormalizeAndHashFragment :: "wstr \<Rightarrow> u32 \<times> wstr" where
  "NormalizeAndHashFragment fragment = NormalizeAndHashFragment_loop 2166136261 fragment"


section \<open>Scopes\<close>

text \<open>
  \<open>children.find(key)\<close>, and the emplace of a new child where it is absent; both are followed by a
  change \<open>f\<close> of the child through the returned pointer.
\<close>

fun child_find :: "wstr \<Rightarrow> (wstr \<times> mnode) list \<Rightarrow> mnode option" where
  "child_find key [] = None"
| "child_find key ((k, n) # kvs) = (if key = k then Some n else child_find key kvs)"

fun child_update :: "wstr \<Rightarrow> mnode \<Rightarrow> (mnode \<Rightarrow> mnode) \<Rightarrow> (wstr \<times> mnode) list \<Rightarrow>
    (wstr \<times> mnode) list" where
  "child_update key new f [] = [(key, f new)]"
| "child_update key new f ((k, n) # kvs) =
     (if key = k then (k, f n) # kvs
      else if key < k then (key, f new) # (k, n) # kvs
      else (k, n) # child_update key new f kvs)"

fun map_children :: "((wstr \<times> mnode) list \<Rightarrow> (wstr \<times> mnode) list) \<Rightarrow> mnode \<Rightarrow> mnode" where
  "map_children g (MNode fr h a cp np kvs) = MNode fr h a cp np (g kvs)"

fun map_acc :: "(scope_acc \<Rightarrow> scope_acc) \<Rightarrow> mnode \<Rightarrow> mnode" where
  "map_acc g (MNode fr h a cp np kvs) = MNode fr h (g a) cp np kvs"

text \<open>
  \<open>AddPathFragments\<close> walks to the node of the path, creating what is missing; \<open>upd\<close> is what the
  caller does with the returned leaf.
\<close>

function AddPathFragments :: "(mnode \<Rightarrow> mnode) \<Rightarrow> wstr \<Rightarrow> mnode \<Rightarrow> mnode" where
  "AddPathFragments upd canonicalPath node =
     (let p = dropWhile IsSep canonicalPath;
          fragment = takeWhile (\<lambda>c. \<not> IsSep c) p
      in if fragment = [] then upd node
         else (let (hash, normalized) = NormalizeAndHashFragment fragment
               in map_children
                    (child_update normalized (fresh_node normalized hash)
                      (AddPathFragments upd (dropWhile (\<lambda>c. \<not> IsSep c) p)))
                    node))"
  by pat_completeness auto

lemma rest_shorter:
  assumes "takeWhile (\<lambda>c. \<not> P c) (dropWhile P s) \<noteq> []"
  shows "length (dropWhile (\<lambda>c. \<not> P c) (dropWhile P s)) < length s"
proof -
  obtain c cs where s: "dropWhile P s = c # cs" "\<not> P c"
    using assms by (cases "dropWhile P s") (auto split: if_splits)
  then have "length (dropWhile (\<lambda>c. \<not> P c) (dropWhile P s)) \<le> length cs"
    by (simp add: length_dropWhile_le)
  moreover have "length cs < length s"
    using s(1) length_dropWhile_le [of P s] by simp
  ultimately show ?thesis by simp
qed

termination AddPathFragments
  by (relation "measure (\<lambda>(u, p, n). length p)") (auto intro: rest_shorter)

declare AddPathFragments.simps [simp del]

definition apply_cone :: "u32 \<Rightarrow> u32 \<Rightarrow> scope_acc \<Rightarrow> scope_acc" where
  "apply_cone msk values a =
     a\<lparr>coneMask := msk AND coneMask a, coneValues := values OR coneValues a\<rparr>"

definition apply_node :: "u32 \<Rightarrow> u32 \<Rightarrow> scope_acc \<Rightarrow> scope_acc" where
  "apply_node msk values a =
     a\<lparr>nodeMask := msk AND nodeMask a, nodeValues := values OR nodeValues a\<rparr>"

text \<open>\<open>class ManifestBuilder\<close>, its constructor and setters.\<close>

record ManifestBuilder =
  mb_flags :: u32
  mb_extraFlags :: u32
  mb_dllX86 :: bytes
  mb_dllX64 :: bytes
  mb_reportPath :: wstr
  mb_writeOverlayRoot :: wstr
  mb_overlaySourceRoot :: wstr
  mb_root :: mnode

definition new_ManifestBuilder :: "u32 \<Rightarrow> u32 \<Rightarrow> bytes \<Rightarrow> bytes \<Rightarrow> ManifestBuilder" where
  "new_ManifestBuilder flags extraFlags dllX86Ansi dllX64Ansi =
     \<lparr>mb_flags = flags, mb_extraFlags = extraFlags, mb_dllX86 = dllX86Ansi, mb_dllX64 = dllX64Ansi,
      mb_reportPath = [], mb_writeOverlayRoot = [], mb_overlaySourceRoot = [],
      mb_root = root_node\<rparr>"

definition SetReportPath :: "wstr \<Rightarrow> ManifestBuilder \<Rightarrow> ManifestBuilder" where
  "SetReportPath reportPath mb = mb\<lparr>mb_reportPath := reportPath\<rparr>"

definition SetWriteOverlayRoot :: "wstr \<Rightarrow> ManifestBuilder \<Rightarrow> ManifestBuilder" where
  "SetWriteOverlayRoot root mb = mb\<lparr>mb_writeOverlayRoot := root\<rparr>"

definition SetOverlaySourceRoot :: "wstr \<Rightarrow> ManifestBuilder \<Rightarrow> ManifestBuilder" where
  "SetOverlaySourceRoot root mb = mb\<lparr>mb_overlaySourceRoot := root\<rparr>"

definition AddRootScope :: "u32 \<Rightarrow> u32 \<Rightarrow> ManifestBuilder \<Rightarrow> ManifestBuilder" where
  "AddRootScope msk values mb =
     mb\<lparr>mb_root := map_acc (apply_cone msk values) (mb_root mb)\<rparr>"

text \<open>\<open>GetFullPathNameW\<close> is the argument \<open>fullPathName\<close>.\<close>

definition CanonicalizeForTree :: "buffer_api \<Rightarrow> wstr \<Rightarrow> wstr option" where
  "CanonicalizeForTree fullPathName path =
     (if 4 \<le> length path \<and> path ! 0 = BACKSLASH \<and>
         (path ! 1 = BACKSLASH \<or> path ! 1 = QUESTION) \<and>
         (path ! 2 = QUESTION \<or> path ! 2 = DOT) \<and> path ! 3 = BACKSLASH
      then (let out = drop 4 path in if out = [] then None else Some out)
      else (case two_call fullPathName path of
              None \<Rightarrow> None
            | Some out \<Rightarrow>
                if 4 \<le> length out \<and> out ! 0 = BACKSLASH \<and> out ! 1 = BACKSLASH \<and>
                   out ! 2 = DOT \<and> out ! 3 = BACKSLASH
                then Some (drop 4 out) else Some out))"

definition AddScope :: "buffer_api \<Rightarrow> wstr \<Rightarrow> u32 \<Rightarrow> u32 \<Rightarrow> ManifestBuilder \<Rightarrow>
    bool \<times> ManifestBuilder" where
  "AddScope fullPathName path msk values mb =
     (case CanonicalizeForTree fullPathName path of
        None \<Rightarrow> (False, mb)
      | Some canonical \<Rightarrow>
          (True, mb\<lparr>mb_root :=
             AddPathFragments (map_acc (apply_cone msk values)) canonical (mb_root mb)\<rparr>))"

definition AddNodeScope :: "buffer_api \<Rightarrow> wstr \<Rightarrow> u32 \<Rightarrow> u32 \<Rightarrow> ManifestBuilder \<Rightarrow>
    bool \<times> ManifestBuilder" where
  "AddNodeScope fullPathName path msk values mb =
     (case CanonicalizeForTree fullPathName path of
        None \<Rightarrow> (False, mb)
      | Some canonical \<Rightarrow>
          (True, mb\<lparr>mb_root :=
             AddPathFragments (map_acc (apply_node msk values)) canonical (mb_root mb)\<rparr>))"

text \<open>\<open>Finalize\<close>, and its loop over the children.\<close>

fun Finalize :: "u32 \<Rightarrow> mnode \<Rightarrow> mnode"
  and Finalize_children :: "u32 \<Rightarrow> (wstr \<times> mnode) list \<Rightarrow> (wstr \<times> mnode) list" where
  "Finalize parentPolicy (MNode fr h a cp np kvs) =
     (let cone = (parentPolicy AND coneMask a) OR coneValues a;
          nodep = (cone AND nodeMask a) OR nodeValues a
      in MNode fr h a cone nodep (Finalize_children cone kvs))"
| "Finalize_children parentPolicy [] = []"
| "Finalize_children parentPolicy ((k, n) # kvs) =
     (k, Finalize parentPolicy n) # Finalize_children parentPolicy kvs"


section \<open>The tree as a map from key paths to accumulators\<close>

text \<open>The key path of a canonical path, and \<open>AddPathFragments\<close> as an update at a key path.\<close>

definition path_keys :: "wstr \<Rightarrow> wstr list" where
  "path_keys p = map (map towupper) (components p)"

fun update_at :: "(mnode \<Rightarrow> mnode) \<Rightarrow> wstr list \<Rightarrow> mnode \<Rightarrow> mnode" where
  "update_at upd [] node = upd node"
| "update_at upd (k # ks) node =
     map_children (child_update k (fresh_node k (HashPath k)) (update_at upd ks)) node"

lemma IsSep_eq: "IsSep = IsDirectorySeparator"
  by (auto simp: fun_eq_iff IsSep_def IsDirectorySeparator_def)

lemma ucast_low_byte: "(ucast (x AND 0xFF) :: u8) = ucast (x :: u16)"
proof -
  have "(0xFF :: u16) = mask 8" by (simp add: mask_eq_exp_minus_1)
  then show ?thesis by (intro bit_word_eqI) (simp only: bit_simps, auto)
qed

lemma NormalizeAndHashFragment_loop_eq:
  "NormalizeAndHashFragment_loop h s = NormalizeAndHashPath_loop h s"
proof (induction s arbitrary: h)
  case (Cons c s)
  then show ?case
    by (simp add: Fold_def Fold_byte_def Fnv1Prime32_def NormalizePathChar_def Let_def
        ucast_low_byte)
qed simp

lemma NormalizeAndHashFragment_eq:
  "NormalizeAndHashFragment s = (HashPath s, map towupper s)"
  using NormalizeAndHashPath_eq [of s]
  by (simp add: NormalizeAndHashFragment_def NormalizeAndHashFragment_loop_eq
      NormalizeAndHashPath_def Fnv1Basis32_def)

lemma path_keys_unfold:
  "path_keys p = (let t = skip_seps p in if t = [] then []
     else map towupper (path_element t) # path_keys (after_element t))"
  by (simp add: path_keys_def components.simps [of p] Let_def)

lemma path_keys_skip: "path_keys (dropWhile (\<lambda>c. \<not> IsDirectorySeparator c) s) = path_keys (after_element s)"
proof (cases "dropWhile (\<lambda>c. \<not> IsDirectorySeparator c) s")
  case (Cons c cs)
  then have "IsDirectorySeparator c" by (auto simp: dropWhile_eq_Cons_conv)
  with Cons have "skip_seps (c # cs) = skip_seps (after_element s)"
    by (simp add: after_element_def skip_seps_def)
  with Cons show ?thesis
    by (simp add: path_keys_unfold [of "c # cs"] path_keys_unfold [of "after_element s"])
next
  case Nil
  then show ?thesis unfolding after_element_def by (simp only: drop_Nil)
qed

lemma path_element_Nil_iff: "path_element (skip_seps p) = [] \<longleftrightarrow> skip_seps p = []"
  using path_element_nonempty [of p] by (auto simp: path_element_def)

lemma AddPathFragments_eq: "AddPathFragments upd p node = update_at upd (path_keys p) node"
proof (induction upd p node rule: AddPathFragments.induct)
  case (1 upd p node)
  let ?t = "skip_seps p"
  have IH: "AddPathFragments upd (dropWhile (\<lambda>c. \<not> IsSep c) ?t)
      = update_at upd (path_keys (after_element ?t))" if "?t \<noteq> []"
  proof (rule ext)
    fix x
    have "takeWhile (\<lambda>c. \<not> IsSep c) (dropWhile IsSep p) \<noteq> []"
      using path_element_nonempty [OF that] by (simp add: path_element_def skip_seps_def IsSep_eq)
    from 1 [OF refl refl this NormalizeAndHashFragment_eq [symmetric] refl]
    show "AddPathFragments upd (dropWhile (\<lambda>c. \<not> IsSep c) ?t) x
        = update_at upd (path_keys (after_element ?t)) x"
      by (simp add: IsSep_eq skip_seps_def path_keys_skip)
  qed
  show ?case
    using IH path_element_Nil_iff [of p]
    by (auto simp: AddPathFragments.simps [of upd p] path_keys_unfold [of p] Let_def
        NormalizeAndHashFragment_eq skip_seps_def path_element_def IsSep_eq)
qed


subsection \<open>Well-formed trees\<close>

definition key_ok :: "wstr \<Rightarrow> bool" where
  "key_ok k \<longleftrightarrow> k \<noteq> [] \<and> map towupper k = k \<and> (\<forall>c \<in> set k. \<not> IsDirectorySeparator c \<and> c \<noteq> 0)"

fun tree_wf :: "mnode \<Rightarrow> bool" where
  "tree_wf (MNode fr h a cp np kvs) \<longleftrightarrow>
     sorted_wrt (<) (map fst kvs) \<and>
     (\<forall>kv \<in> set kvs. key_ok (fst kv) \<and> normalizedFragment (snd kv) = fst kv \<and>
        node_hash (snd kv) = HashPath (fst kv) \<and> tree_wf (snd kv))"

lemma tree_wf_iff:
  "tree_wf n \<longleftrightarrow> sorted_wrt (<) (map fst (node_children n)) \<and>
     (\<forall>kv \<in> set (node_children n). key_ok (fst kv) \<and> normalizedFragment (snd kv) = fst kv \<and>
        node_hash (snd kv) = HashPath (fst kv) \<and> tree_wf (snd kv))"
  by (cases n) simp

lemma set_components:
  "x \<in> set (components p) \<Longrightarrow> x \<noteq> [] \<and> (\<forall>c \<in> set x. \<not> IsDirectorySeparator c \<and> c \<in> set p)"
proof (induction p rule: components.induct)
  case (1 p)
  let ?t = "skip_seps p"
  have sub: "set (after_element ?t) \<subseteq> set p" "set ?t \<subseteq> set p"
    by (auto simp: after_element_def skip_seps_def dest!: in_set_dropD set_dropWhileD)
  have elem: "c \<in> set (path_element ?t) \<Longrightarrow> \<not> IsDirectorySeparator c \<and> c \<in> set ?t" for c
    by (auto simp: path_element_def dest: set_takeWhileD)
  show ?case
  proof (cases "?t = []")
    case True
    with 1 show ?thesis by (simp add: components.simps [of p])
  next
    case False
    with 1(2) consider "x = path_element ?t" | "x \<in> set (components (after_element ?t))"
      by (auto simp: components.simps [of p] Let_def)
    then show ?thesis
      using 1(1) [OF refl False] False sub elem path_element_nonempty [of p] by cases (auto dest!: subsetD)
  qed
qed

lemma path_keys_ok: "0 \<notin> set p \<Longrightarrow> k \<in> set (path_keys p) \<Longrightarrow> key_ok k"
  by (auto simp: path_keys_def key_ok_def dest!: set_components)

lemma map_children_sel [simp]:
  "normalizedFragment (map_children g n) = normalizedFragment n"
  "node_hash (map_children g n) = node_hash n"
  "node_acc (map_children g n) = node_acc n"
  "node_children (map_children g n) = g (node_children n)"
  by (cases n; simp)+

lemma map_acc_sel [simp]:
  "normalizedFragment (map_acc g n) = normalizedFragment n"
  "node_hash (map_acc g n) = node_hash n"
  "node_acc (map_acc g n) = g (node_acc n)"
  "node_children (map_acc g n) = node_children n"
  by (cases n; simp)+

lemma fst_child_update: "fst ` set (child_update key new f kvs) = insert key (fst ` set kvs)"
  by (induction key new f kvs rule: child_update.induct) auto

lemma child_update_sorted:
  "sorted_wrt (<) (map fst kvs) \<Longrightarrow> sorted_wrt (<) (map fst (child_update key new f kvs))"
proof (induction key new f kvs rule: child_update.induct)
  case (2 key new f k n kvs)
  then have "x \<in> fst ` set (child_update key new f kvs) \<Longrightarrow> x = key \<or> k < x" for x
    by (auto simp: fst_child_update)
  with 2 show ?case by force
qed simp

lemma child_update_elem:
  assumes "(k, n) \<in> set (child_update key new f kvs)"
  shows "(k, n) \<in> set kvs \<or> (k = key \<and> (n = f new \<or> (\<exists>m. (key, m) \<in> set kvs \<and> n = f m)))"
  using assms by (induction kvs) (auto split: if_splits)

lemma child_find_Some: "child_find k kvs = Some n \<Longrightarrow> (k, n) \<in> set kvs"
  by (induction kvs) (auto split: if_splits)

lemma child_find_None: "child_find k kvs = None \<longleftrightarrow> k \<notin> fst ` set kvs"
  by (induction kvs) (auto split: if_splits)

lemma child_find_update:
  assumes "sorted_wrt (<) (map fst kvs)"
  shows "child_find k (child_update key new f kvs) =
     (if k = key then Some (f (case child_find key kvs of Some n \<Rightarrow> n | None \<Rightarrow> new))
      else child_find k kvs)"
  using assms
proof (induction kvs)
  case (Cons kv kvs)
  obtain k1 n1 where kv: "kv = (k1, n1)" by (cases kv)
  have "child_find key kvs = None" if "key < k1"
    using that Cons.prems by (auto simp: kv child_find_None)
  with Cons kv show ?case by (auto split: option.splits)
qed simp

lemma tree_wf_fresh [simp]: "tree_wf (fresh_node k h)"
  by (simp add: fresh_node_def)

lemma update_at_sel [simp]:
  assumes "\<And>n. normalizedFragment (upd n) = normalizedFragment n \<and> node_hash (upd n) = node_hash n"
  shows "normalizedFragment (update_at upd ks n) = normalizedFragment n"
    "node_hash (update_at upd ks n) = node_hash n"
  using assms by (cases ks; simp)+

lemma tree_wf_update_at:
  assumes upd: "\<And>n. normalizedFragment (upd n) = normalizedFragment n \<and> node_hash (upd n) = node_hash n"
    and wf: "\<And>n. tree_wf n \<Longrightarrow> tree_wf (upd n)"
  shows "tree_wf n \<Longrightarrow> (\<And>k. k \<in> set ks \<Longrightarrow> key_ok k) \<Longrightarrow> tree_wf (update_at upd ks n)"
proof (induction ks arbitrary: n)
  case (Cons k ks)
  have sorted: "sorted_wrt (<) (map fst (node_children n))" and
    kids: "\<And>k m. (k, m) \<in> set (node_children n) \<Longrightarrow>
      key_ok k \<and> normalizedFragment m = k \<and> node_hash m = HashPath k \<and> tree_wf m"
    using Cons.prems(1) by (auto simp: tree_wf_iff [of n])
  have IH: "tree_wf m \<Longrightarrow> tree_wf (update_at upd ks m)" for m
    using Cons by simp
  have fresh: "tree_wf (update_at upd ks (fresh_node k (HashPath k)))"
    "normalizedFragment (fresh_node k (HashPath k)) = k" "node_hash (fresh_node k (HashPath k)) = HashPath k"
    using IH by (auto simp: fresh_node_def)
  show ?case
    unfolding update_at.simps
    apply (subst tree_wf_iff)
    unfolding map_children_sel
    using child_update_sorted [OF sorted] kids IH fresh Cons.prems(2) upd
    by (auto dest!: child_update_elem)
qed (use wf in auto)


subsection \<open>Accumulators by key path\<close>

lemma child_wf:
  assumes "tree_wf n" "child_find k (node_children n) = Some c"
  shows "key_ok k \<and> normalizedFragment c = k \<and> node_hash c = HashPath k \<and> tree_wf c"
  using assms(1) child_find_Some [OF assms(2)] unfolding tree_wf_iff [of n] by fastforce

fun node_at :: "wstr list \<Rightarrow> mnode \<Rightarrow> mnode option" where
  "node_at [] n = Some n"
| "node_at (k # ks) n =
     (case child_find k (node_children n) of None \<Rightarrow> None | Some c \<Rightarrow> node_at ks c)"

definition acc_of :: "mnode \<Rightarrow> wstr list \<Rightarrow> scope_acc" where
  "acc_of n ks = (case node_at ks n of Some m \<Rightarrow> node_acc m | None \<Rightarrow> default_acc)"

lemma acc_of_simps:
  "acc_of n [] = node_acc n"
  "acc_of n (k # ks) =
     (case child_find k (node_children n) of None \<Rightarrow> default_acc | Some c \<Rightarrow> acc_of c ks)"
  by (auto simp: acc_of_def split: option.splits)

lemma acc_of_fresh: "acc_of (fresh_node k h) ks = default_acc"
  by (cases ks) (simp_all add: acc_of_simps fresh_node_def)

lemma acc_of_update_at:
  "tree_wf n \<Longrightarrow>
   acc_of (update_at (map_acc g) ks' n) ks = (if ks = ks' then g (acc_of n ks) else acc_of n ks)"
proof (induction ks' arbitrary: ks n)
  case Nil
  then show ?case by (cases ks) (simp_all add: acc_of_simps)
next
  case (Cons k' ks')
  then have sorted: "sorted_wrt (<) (map fst (node_children n))"
    and kids: "child_find k (node_children n) = Some c \<Longrightarrow> tree_wf c" for k c
    using child_wf tree_wf_iff [of n] by blast+
  have IH: "tree_wf c \<Longrightarrow> acc_of (update_at (map_acc g) ks' c) l =
      (if l = ks' then g (acc_of c l) else acc_of c l)" for c l
    using Cons.IH .
  show ?case
    using kids
    by (cases ks) (auto simp: acc_of_simps child_find_update [OF sorted] IH acc_of_fresh
        split: option.splits)
qed


section \<open>Scope calls\<close>

text \<open>
  A launcher's use of the builder is a sequence of calls of \<open>AddRootScope\<close>, \<open>AddScope\<close> and
  \<open>AddNodeScope\<close>; a call whose path has no canonical form changes nothing.
\<close>

datatype scope_call =
    RootScope u32 u32
  | ConeScope wstr u32 u32
  | NodeScope wstr u32 u32

fun scope_step :: "buffer_api \<Rightarrow> scope_call \<Rightarrow> ManifestBuilder \<Rightarrow> ManifestBuilder" where
  "scope_step fullPathName (RootScope msk vals) mb = AddRootScope msk vals mb"
| "scope_step fullPathName (ConeScope p msk vals) mb = snd (AddScope fullPathName p msk vals mb)"
| "scope_step fullPathName (NodeScope p msk vals) mb =
     snd (AddNodeScope fullPathName p msk vals mb)"

definition add_scopes :: "buffer_api \<Rightarrow> scope_call list \<Rightarrow> ManifestBuilder \<Rightarrow> ManifestBuilder" where
  "add_scopes fullPathName calls = fold (scope_step fullPathName) calls"

fun call_path :: "scope_call \<Rightarrow> wstr" where
  "call_path (RootScope msk vals) = []"
| "call_path (ConeScope p msk vals) = p"
| "call_path (NodeScope p msk vals) = p"

fun call_values :: "scope_call \<Rightarrow> u32" where
  "call_values (RootScope msk vals) = vals"
| "call_values (ConeScope p msk vals) = vals"
| "call_values (NodeScope p msk vals) = vals"

text \<open>The key path a call acts on, and what it does to the accumulator there.\<close>

fun call_keys :: "buffer_api \<Rightarrow> scope_call \<Rightarrow> wstr list option" where
  "call_keys fullPathName (RootScope msk vals) = Some []"
| "call_keys fullPathName (ConeScope p msk vals) =
     map_option path_keys (CanonicalizeForTree fullPathName p)"
| "call_keys fullPathName (NodeScope p msk vals) =
     map_option path_keys (CanonicalizeForTree fullPathName p)"

fun call_apply :: "scope_call \<Rightarrow> scope_acc \<Rightarrow> scope_acc" where
  "call_apply (RootScope msk vals) = apply_cone msk vals"
| "call_apply (ConeScope p msk vals) = apply_cone msk vals"
| "call_apply (NodeScope p msk vals) = apply_node msk vals"

definition call_at :: "buffer_api \<Rightarrow> wstr list \<Rightarrow> scope_call \<Rightarrow> scope_acc \<Rightarrow> scope_acc" where
  "call_at fullPathName ks call a =
     (if call_keys fullPathName call = Some ks then call_apply call a else a)"

definition scope_acc_at :: "buffer_api \<Rightarrow> scope_call list \<Rightarrow> wstr list \<Rightarrow> scope_acc" where
  "scope_acc_at fullPathName calls ks = fold (call_at fullPathName ks) calls default_acc"

lemma scope_step_root:
  "mb_root (scope_step fullPathName call mb) =
     (case call_keys fullPathName call of
        None \<Rightarrow> mb_root mb
      | Some ks \<Rightarrow> update_at (map_acc (call_apply call)) ks (mb_root mb))"
  by (cases call)
    (simp_all add: AddRootScope_def AddScope_def AddNodeScope_def AddPathFragments_eq
      split: option.split)

text \<open>What is assumed of \<open>GetFullPathNameW\<close> in the rest: the buffer contract. A result has no NUL.\<close>

lemma canonical_shape:
  assumes "(if b then (let out = x in if out = [] then None else Some out)
      else (case t of None \<Rightarrow> None | Some out \<Rightarrow> if c out then Some (drop 4 out) else Some out)) = Some q"
  shows "q = x \<or> (\<exists>s. t = Some s \<and> (q = s \<or> q = drop 4 s))"
  using assms by (auto split: if_splits option.splits)

lemma CanonicalizeForTree_cases:
  assumes "returns_string fullPathName full" "CanonicalizeForTree fullPathName p = Some q"
  shows "q = drop 4 p \<or> (\<exists>s. full p = Some s \<and> (q = s \<or> q = drop 4 s))"
  using assms(2) unfolding CanonicalizeForTree_def two_call_eq [OF assms(1)]
  by (rule canonical_shape)

lemma CanonicalizeForTree_noNUL:
  assumes "returns_string fullPathName full" "0 \<notin> set p"
    "CanonicalizeForTree fullPathName p = Some q"
  shows "0 \<notin> set q"
proof -
  have "0 \<notin> set s" if "full p = Some s" for s
    using returns_stringD(5) [OF assms(1) that] .
  then show ?thesis
    using CanonicalizeForTree_cases [OF assms(1,3)] assms(2) by (auto dest!: in_set_dropD)
qed

lemma call_keys_cases:
  "call_keys fullPathName call = Some ks \<Longrightarrow>
     ks = [] \<or> (\<exists>q. CanonicalizeForTree fullPathName (call_path call) = Some q \<and> ks = path_keys q)"
  by (cases call) auto

lemma call_keys_ok:
  assumes "returns_string fullPathName full" "0 \<notin> set (call_path call)"
    "call_keys fullPathName call = Some ks" "k \<in> set ks"
  shows "key_ok k"
proof -
  obtain q where q: "CanonicalizeForTree fullPathName (call_path call) = Some q" "ks = path_keys q"
    using call_keys_cases [OF assms(3)] assms(4) by auto
  show ?thesis
    using path_keys_ok [OF CanonicalizeForTree_noNUL [OF assms(1,2) q(1)]] assms(4) q(2) by simp
qed

lemma tree_wf_scope_step:
  assumes "returns_string fullPathName full" "0 \<notin> set (call_path call)" "tree_wf (mb_root mb)"
  shows "tree_wf (mb_root (scope_step fullPathName call mb))"
proof (cases "call_keys fullPathName call")
  case (Some ks)
  have wf: "tree_wf (map_acc g n) = tree_wf n" for g n
    by (cases n) simp
  from Some show ?thesis
    using call_keys_ok [OF assms(1,2)] assms(3)
    by (auto simp: scope_step_root wf intro!: tree_wf_update_at)
qed (simp add: scope_step_root assms(3))

lemma tree_wf_new [simp]: "tree_wf (mb_root (new_ManifestBuilder fl ex d86 d64))"
  by (simp add: new_ManifestBuilder_def root_node_def)

lemma tree_wf_scope_steps:
  assumes "returns_string fullPathName full" "\<forall>call \<in> set calls. 0 \<notin> set (call_path call)"
    "tree_wf (mb_root mb)"
  shows "tree_wf (mb_root (add_scopes fullPathName calls mb))"
  using assms(2,3) tree_wf_scope_step [OF assms(1)]
  by (induction calls arbitrary: mb) (auto simp: add_scopes_def)

lemma acc_of_add_scopes:
  assumes "returns_string fullPathName full" "\<forall>call \<in> set calls. 0 \<notin> set (call_path call)"
    "tree_wf (mb_root mb)"
  shows "acc_of (mb_root (add_scopes fullPathName calls mb)) ks =
    fold (call_at fullPathName ks) calls (acc_of (mb_root mb) ks)"
  using assms(2,3)
proof (induction calls arbitrary: mb)
  case (Cons call calls)
  have "acc_of (mb_root (scope_step fullPathName call mb)) ks =
      call_at fullPathName ks call (acc_of (mb_root mb) ks)"
    using Cons.prems(2)
    by (auto simp: scope_step_root call_at_def acc_of_update_at split: option.split)
  moreover have "tree_wf (mb_root (scope_step fullPathName call mb))"
    using Cons.prems by (intro tree_wf_scope_step [OF assms(1)]) auto
  ultimately show ?case
    using Cons by (simp add: add_scopes_def)
qed (simp add: add_scopes_def)


section \<open>Finalised policies\<close>

text \<open>The deepest node on a key path, and whether keys were left over; the policy that applies.\<close>

fun tree_search :: "wstr list \<Rightarrow> mnode \<Rightarrow> mnode \<times> bool" where
  "tree_search [] n = (n, False)"
| "tree_search (k # ks) n =
     (case child_find k (node_children n) of None \<Rightarrow> (n, True) | Some c \<Rightarrow> tree_search ks c)"

definition policy_of :: "mnode \<times> bool \<Rightarrow> u32" where
  "policy_of r = (if snd r then conePolicy (fst r) else nodePolicy (fst r))"

definition narrow :: "u32 \<Rightarrow> bool" where
  "narrow v \<longleftrightarrow> v AND Policy_MaskNothing = v"

fun cone_along :: "(wstr list \<Rightarrow> scope_acc) \<Rightarrow> u32 \<Rightarrow> wstr list \<Rightarrow> u32" where
  "cone_along A p [] = (p AND coneMask (A [])) OR coneValues (A [])"
| "cone_along A p (k # ks) =
     cone_along (\<lambda>l. A (k # l)) ((p AND coneMask (A [])) OR coneValues (A [])) ks"

definition policy_along :: "(wstr list \<Rightarrow> scope_acc) \<Rightarrow> u32 \<Rightarrow> wstr list \<Rightarrow> u32" where
  "policy_along A p ks = (cone_along A p ks AND nodeMask (A ks)) OR nodeValues (A ks)"

lemma Finalize_children_eq:
  "Finalize_children p kvs = map (\<lambda>kv. (fst kv, Finalize p (snd kv))) kvs"
  by (induction kvs) auto

lemma Finalize_sel [simp]:
  "normalizedFragment (Finalize p n) = normalizedFragment n"
  "node_hash (Finalize p n) = node_hash n"
  "conePolicy (Finalize p n) = (p AND coneMask (node_acc n)) OR coneValues (node_acc n)"
  "nodePolicy (Finalize p n) =
     (conePolicy (Finalize p n) AND nodeMask (node_acc n)) OR nodeValues (node_acc n)"
  "node_children (Finalize p n) =
     map (\<lambda>kv. (fst kv, Finalize (conePolicy (Finalize p n)) (snd kv))) (node_children n)"
  by (cases n; simp add: Let_def Finalize_children_eq)+

lemma tree_wf_Finalize: "tree_wf n \<Longrightarrow> tree_wf (Finalize p n)"
proof (induction n arbitrary: p rule: tree_wf.induct)
  case (1 fr h a cp np kvs)
  then show ?case
    by (auto simp: Let_def Finalize_children_eq comp_def)
qed

lemma child_find_map: "child_find k (map (\<lambda>kv. (fst kv, f (snd kv))) kvs) = map_option f (child_find k kvs)"
  by (induction kvs) auto

lemma narrow_simps [simp]:
  "narrow v \<Longrightarrow> v AND 0xFFFF = v" "narrow 0"
  by (simp_all add: narrow_def Policy_MaskNothing_def)

lemma narrow_or: "narrow v \<Longrightarrow> narrow w \<Longrightarrow> narrow (v OR w)"
  by (simp add: narrow_def bit.conj_disj_distrib2)

lemma narrow_and: "narrow v \<Longrightarrow> narrow (v AND w)"
  unfolding narrow_def by (metis and.assoc and.commute)

lemma cone_along_default: "narrow p \<Longrightarrow> cone_along (\<lambda>l. default_acc) p ks = p"
  by (induction ks) (simp_all add: default_acc_def policy_bits)

lemma policy_of_tree_search:
  assumes "narrow p" "\<And>l. narrow (coneValues (acc_of n l))"
  shows "policy_of (tree_search ks (Finalize p n)) = policy_along (acc_of n) p ks"
  using assms
proof (induction ks arbitrary: p n)
  case Nil
  then show ?case by (simp add: policy_of_def policy_along_def acc_of_simps)
next
  case (Cons k ks)
  let ?c = "conePolicy (Finalize p n)"
  have c: "narrow ?c"
    using Cons.prems(1) Cons.prems(2) [of "[]"] by (simp add: acc_of_simps narrow_or narrow_and)
  show ?case
  proof (cases "child_find k (node_children n)")
    case None
    then have "acc_of n (k # l) = default_acc" for l by (simp add: acc_of_simps)
    with None cone_along_default [OF c, of ks] c show ?thesis
      by (simp add: policy_of_def policy_along_def child_find_map acc_of_simps)
        (simp add: default_acc_def policy_bits)
  next
    case (Some m)
    then have sub: "acc_of n (k # l) = acc_of m l" for l by (simp add: acc_of_simps)
    with Cons.prems(2) have "narrow (coneValues (acc_of m l))" for l by metis
    from Cons.IH [OF c this] Some sub show ?thesis
      by (simp add: policy_along_def child_find_map acc_of_simps)
  qed
qed

lemma scope_acc_at_narrow:
  assumes "\<forall>call \<in> set calls. narrow (call_values call)"
  shows "narrow (coneValues (scope_acc_at fullPathName calls ks))"
proof -
  have step: "narrow (coneValues (call_at fullPathName ks call a))"
    if "narrow (call_values call)" "narrow (coneValues a)" for call a
    using that by (cases call) (auto simp: call_at_def apply_cone_def apply_node_def narrow_or)
  have "narrow (coneValues (fold (call_at fullPathName ks) calls a))"
    if "narrow (coneValues a)" for a
    using assms that by (induction calls arbitrary: a) (auto simp: step)
  then show ?thesis
    by (simp add: scope_acc_at_def default_acc_def policy_bits)
qed

text \<open>The order of the scope calls does not matter.\<close>

lemma call_apply_commute: "call_apply c (call_apply d a) = call_apply d (call_apply c a)"
  by (cases c; cases d) (simp_all add: apply_cone_def apply_node_def and.left_commute or.left_commute)

lemma scope_acc_at_perm:
  assumes "mset calls = mset calls'"
  shows "scope_acc_at fullPathName calls ks = scope_acc_at fullPathName calls' ks"
  unfolding scope_acc_at_def
proof (rule fun_cong [OF fold_multiset_equiv [OF _ assms]])
  show "call_at fullPathName ks x \<circ> call_at fullPathName ks y =
      call_at fullPathName ks y \<circ> call_at fullPathName ks x" for x y
    by (simp add: fun_eq_iff call_at_def call_apply_commute)
qed

section \<open>Properties\<close>

text \<open>
  C17: whatever scopes the launcher adds, in whatever order, the tree stays well formed: children in
  the order of their keys without duplicates, every key a non-empty upper-case fragment without
  separators that names its node, and every stored hash the FNV-1 hash of its fragment; finalising
  keeps that.
\<close>
theorem builder_tree_well_formed:
  assumes "returns_string fullPathName full" "\<forall>call \<in> set calls. 0 \<notin> set (call_path call)"
  shows "tree_wf (mb_root (add_scopes fullPathName calls (new_ManifestBuilder fl ex d86 d64))) \<and>
    tree_wf (Finalize Policy_Deny
      (mb_root (add_scopes fullPathName calls (new_ManifestBuilder fl ex d86 d64))))"
  using tree_wf_scope_steps [OF assms tree_wf_new] tree_wf_Finalize by blast

theorem builder_tree_well_formed_witness:
  "tree_wf (mb_root (add_scopes (string_api identity_full)
     [ConeScope (wide ''C:/b'') 0 3, RootScope 0 5, NodeScope (wide ''c:/B/a'') 0 1]
     (new_ManifestBuilder 0 0 [] [])))"
  using builder_tree_well_formed [OF returns_identity_full,
      of "[ConeScope (wide ''C:/b'') 0 3, RootScope 0 5, NodeScope (wide ''c:/B/a'') 0 1]"]
  by simp

text \<open>
  C16: the order in which the launcher adds its scopes does not matter: two sequences with the same
  scopes give every path the same policy. In particular a later scope does not override an earlier
  one on the same path.
\<close>
theorem scope_order_irrelevant:
  assumes "returns_string fullPathName full" "mset calls = mset calls'"
    and "\<forall>call \<in> set calls. 0 \<notin> set (call_path call) \<and> narrow (call_values call)"
  shows "policy_of (tree_search ks (Finalize Policy_Deny
      (mb_root (add_scopes fullPathName calls (new_ManifestBuilder fl ex d86 d64))))) =
    policy_of (tree_search ks (Finalize Policy_Deny
      (mb_root (add_scopes fullPathName calls' (new_ManifestBuilder fl ex d86 d64)))))"
proof -
  have sets: "set calls' = set calls" using assms(2) by (metis set_mset_mset)
  have policy: "policy_of (tree_search ks (Finalize Policy_Deny
      (mb_root (add_scopes fullPathName cs (new_ManifestBuilder fl ex d86 d64))))) =
      policy_along (scope_acc_at fullPathName cs) Policy_Deny ks" if "set cs = set calls" for cs
  proof -
    have nul: "\<forall>call \<in> set cs. 0 \<notin> set (call_path call)" using assms(3) that by blast
    have acc: "acc_of (mb_root (add_scopes fullPathName cs (new_ManifestBuilder fl ex d86 d64))) =
        scope_acc_at fullPathName cs"
      using acc_of_add_scopes [OF assms(1) nul tree_wf_new]
      by (simp add: fun_eq_iff scope_acc_at_def new_ManifestBuilder_def root_node_def acc_of_fresh)
    have "narrow (coneValues (scope_acc_at fullPathName cs l))" for l
      by (rule scope_acc_at_narrow) (use assms(3) that in blast)
    then show ?thesis
      using policy_of_tree_search [of Policy_Deny] acc by (simp add: Policy_Deny_def)
  qed
  have "scope_acc_at fullPathName calls = scope_acc_at fullPathName calls'"
    by (rule ext) (rule scope_acc_at_perm [OF assms(2)])
  then show ?thesis using policy [OF refl] policy [OF sets] by simp
qed

theorem scope_order_irrelevant_witness:
  "policy_of (tree_search [wide ''C:''] (Finalize Policy_Deny (mb_root
     (add_scopes (string_api identity_full) [ConeScope (wide ''C:'') 0 0, ConeScope (wide ''c:'') 0 3]
       (new_ManifestBuilder 0 0 [] []))))) =
   policy_of (tree_search [wide ''C:''] (Finalize Policy_Deny (mb_root
     (add_scopes (string_api identity_full) [ConeScope (wide ''c:'') 0 3, ConeScope (wide ''C:'') 0 0]
       (new_ManifestBuilder 0 0 [] [])))))"
  by (rule scope_order_irrelevant [OF returns_identity_full])
    (simp_all add: narrow_def Policy_MaskNothing_def)

end
