(* ===== verification/Bucket_Table.thy ===== *)
theory Bucket_Table
  imports Sandbox_Base
begin

text \<open>
  The hash table of children inside a manifest record, from both sides. The launcher fills it in
  \<open>ManifestBuilder::SerializeNode\<close> (\<open>src/manifest_builder.cpp\<close>): open addressing with linear
  probing, where a bucket holds a child's offset and two flag bits that say whether a collision
  chain starts or continues there. The DLL probes it in \<open>ManifestRecord::FindChild\<close>
  (\<open>vendor/detours-services/PolicySearch.cpp\<close>). \<open>chained_table\<close> is the interface between the two;
  its interpretation on the builder's buckets shows that every insertion finds a free bucket, and
  that a probe ends, meets no empty bucket inside a chain and finds what was inserted.
\<close>

section \<open>The builder's insertion\<close>

definition kChainStart :: u32 where "kChainStart = 0x01"
definition kChainContinuation :: u32 where "kChainContinuation = 0x02"

text \<open>
  \<open>static_cast<uint32_t>(static_cast<double>(childCount) / 0.7)\<close>. For a count below \<open>2^32\<close> the
  quotient rounded to 53 bits has the integer part of the exact \<open>10 * childCount / 7\<close>: the
  fraction of that number is 0 or at most 6/7, \<open>0.7\<close> rounds down, and the relative error is below
  \<open>2^-52\<close>.
\<close>

definition bucketCount_of :: "nat \<Rightarrow> nat" where
  "bucketCount_of childCount = (10 * childCount) div 7"

text \<open>\<open>while (offsets[index] != 0)\<close>: \<open>None\<close> is running out of the given number of rounds.\<close>

fun probe_free :: "nat \<Rightarrow> u32 list \<Rightarrow> nat \<Rightarrow> (nat \<times> u32 list) option" where
  "probe_free 0 offsets index = None"
| "probe_free (Suc rounds) offsets index =
     (if offsets ! index \<noteq> 0
      then probe_free rounds (offsets[index := offsets ! index OR kChainContinuation])
             ((index + 1) mod length offsets)
      else Some (index, offsets))"

definition place_child :: "u32 list \<Rightarrow> u32 \<Rightarrow> (nat \<times> u32 list) option" where
  "place_child offsets hash =
     (let index = unat hash mod length offsets
      in if offsets ! index \<noteq> 0
         then probe_free (length offsets)
                (offsets[index := offsets ! index OR kChainStart])
                ((index + 1) mod length offsets)
         else Some (index, offsets))"

definition insert_child :: "u32 list \<Rightarrow> u32 \<Rightarrow> u32 \<Rightarrow> u32 list option" where
  "insert_child offsets hash childOffset =
     (case place_child offsets hash of
        None \<Rightarrow> None
      | Some (index, offsets') \<Rightarrow> Some (offsets'[index := childOffset]))"


section \<open>The reader's probe\<close>

definition ChainMask :: u32 where "ChainMask = 0x03"

definition chain_start :: "u32 \<Rightarrow> bool" where
  "chain_start w \<longleftrightarrow> w AND kChainStart \<noteq> 0"

definition chain_continuation :: "u32 \<Rightarrow> bool" where
  "chain_continuation w \<longleftrightarrow> w AND kChainContinuation \<noteq> 0"

definition chain_base :: "u32 \<Rightarrow> u32" where
  "chain_base w = w AND NOT ChainMask"

text \<open>
  The probe over a list of buckets, for a test \<open>matches\<close> of a child given by its offset. The outer
  \<open>None\<close> is an empty bucket inside a chain, where the code would read through a null pointer, or
  running out of rounds.
\<close>

fun probe_chain :: "nat \<Rightarrow> (u32 \<Rightarrow> bool) \<Rightarrow> u32 list \<Rightarrow> nat \<Rightarrow> u32 option option" where
  "probe_chain 0 matches buckets index = None"
| "probe_chain (Suc rounds) matches buckets index =
     (let index = (index + 1) mod length buckets; w = buckets ! index
      in if w = 0 then None
         else if matches (chain_base w) then Some (Some (chain_base w))
         else if chain_continuation w then probe_chain rounds matches buckets index
         else Some None)"

definition probe_buckets :: "(u32 \<Rightarrow> bool) \<Rightarrow> u32 list \<Rightarrow> u32 \<Rightarrow> u32 option option" where
  "probe_buckets matches buckets hash =
     (let index = unat hash mod length buckets; w = buckets ! index
      in if w = 0 then Some None
         else if matches (chain_base w) then Some (Some (chain_base w))
         else if \<not> chain_start w then Some None
         else probe_chain (length buckets) matches buckets index)"


section \<open>The interface\<close>

text \<open>
  \<open>holds t kvs\<close> says that the table \<open>t\<close> holds the (hash, offset) pairs \<open>kvs\<close>; \<open>offset_ok\<close> is what an
  offset has to satisfy to be stored.
\<close>

locale chained_table =
  fixes empty_table :: "nat \<Rightarrow> 'tab"
    and place :: "'tab \<Rightarrow> u32 \<Rightarrow> u32 \<Rightarrow> 'tab option"
    and probe :: "(u32 \<Rightarrow> bool) \<Rightarrow> 'tab \<Rightarrow> u32 \<Rightarrow> u32 option option"
    and slots :: "'tab \<Rightarrow> nat"
    and holds :: "'tab \<Rightarrow> (u32 \<times> u32) list \<Rightarrow> bool"
    and offset_ok :: "u32 \<Rightarrow> bool"
  assumes holds_empty: "0 < b \<Longrightarrow> holds (empty_table b) [] \<and> slots (empty_table b) = b"
    and place_holds: "\<lbrakk>holds t kvs; length kvs < slots t; offset_ok x\<rbrakk> \<Longrightarrow>
      \<exists>t'. place t h x = Some t' \<and> slots t' = slots t \<and> holds t' ((h, x) # kvs)"
    and probe_sound: "\<lbrakk>holds t kvs; probe P t h = Some (Some x)\<rbrakk> \<Longrightarrow> P x \<and> x \<in> snd ` set kvs"
    and probe_complete: "\<lbrakk>holds t kvs; (h, x) \<in> set kvs; P x\<rbrakk> \<Longrightarrow> probe P t h \<noteq> Some None"
    and probe_returns: "holds t kvs \<Longrightarrow> probe P t h \<noteq> None"
begin

fun place_all :: "'tab \<Rightarrow> (u32 \<times> u32) list \<Rightarrow> 'tab option" where
  "place_all t [] = Some t"
| "place_all t ((h, x) # kvs) =
     (case place t h x of None \<Rightarrow> None | Some t' \<Rightarrow> place_all t' kvs)"

lemma place_all_holds:
  assumes "holds t old" "length old + length kvs \<le> slots t" "\<forall>kv \<in> set kvs. offset_ok (snd kv)"
  shows "\<exists>t'. place_all t kvs = Some t' \<and> slots t' = slots t \<and> holds t' (rev kvs @ old)"
  using assms
proof (induction kvs arbitrary: t old)
  case (Cons kv kvs)
  obtain h x where kv: "kv = (h, x)" by (cases kv)
  with Cons.prems place_holds [of t old x h] obtain t' where
    t': "place t h x = Some t'" "slots t' = slots t" "holds t' ((h, x) # old)" by auto
  with Cons.IH [of t' "(h, x) # old"] Cons.prems kv show ?case by auto
qed simp

text \<open>A key with at most one match is found exactly when it was stored.\<close>

lemma probe_unique:
  assumes "holds t kvs" "(h, x) \<in> set kvs" "P x"
    and "\<And>y. y \<in> snd ` set kvs \<Longrightarrow> P y \<Longrightarrow> y = x"
  shows "probe P t h = Some (Some x)"
proof -
  obtain r where r: "probe P t h = Some r" using probe_returns [OF assms(1)] by blast
  have "probe P t h \<noteq> Some None" by (rule probe_complete) (use assms in auto)
  with r obtain y where y: "r = Some y" by (cases r) auto
  have "P y \<and> y \<in> snd ` set kvs"
    by (rule probe_sound [OF assms(1)]) (use r y in simp)
  then have "y = x" using assms(4) by blast
  with r y show ?thesis by simp
qed

lemma probe_none:
  assumes "holds t kvs" "\<And>y. y \<in> snd ` set kvs \<Longrightarrow> \<not> P y"
  shows "probe P t h = Some None"
proof -
  obtain r where r: "probe P t h = Some r" using probe_returns [OF assms(1)] by blast
  have False if "r = Some y" for y
  proof -
    have "P y \<and> y \<in> snd ` set kvs"
      by (rule probe_sound [OF assms(1)]) (use r that in simp)
    with assms(2) show False by blast
  qed
  with r show ?thesis by (cases r) auto
qed

end


section \<open>Flag bits\<close>

lemma chain_start_bit: "chain_start w = bit w 0"
  by (simp add: chain_start_def kChainStart_def and_one_eq bit_0 odd_iff_mod_2_eq_one)

lemma chain_continuation_bit: "chain_continuation w = bit w 1"
proof -
  have "w AND 2 = w AND push_bit 1 1" by simp
  then show ?thesis
    unfolding chain_continuation_def kChainContinuation_def bit_iff_and_push_bit_not_eq_0 by simp
qed

lemma bit_chain_base: "bit (chain_base w) n \<longleftrightarrow> bit w n \<and> 2 \<le> n"
proof -
  have mask: "ChainMask = mask 2" by (simp add: ChainMask_def mask_eq_exp_minus_1)
  show ?thesis
    unfolding chain_base_def mask by (auto simp: bit_simps dest: bit_imp_le_length)
qed

lemma flag_simps [simp]:
  "chain_start (w OR kChainStart)" "chain_start (w OR kChainContinuation) = chain_start w"
  "chain_continuation (w OR kChainStart) = chain_continuation w"
  "chain_continuation (w OR kChainContinuation)"
  "chain_base (w OR kChainStart) = chain_base w"
  "chain_base (w OR kChainContinuation) = chain_base w"
  "\<not> chain_start 0" "\<not> chain_continuation 0"
proof -
  have two: "kChainContinuation = push_bit 1 1" by (simp add: kChainContinuation_def)
  show "chain_base (w OR kChainStart) = chain_base w"
    "chain_base (w OR kChainContinuation) = chain_base w"
    unfolding two kChainStart_def
    by (rule bit_word_eqI; auto simp: bit_chain_base bit_simps)+
  show "chain_start (w OR kChainStart)" "chain_start (w OR kChainContinuation) = chain_start w"
    "chain_continuation (w OR kChainStart) = chain_continuation w"
    "chain_continuation (w OR kChainContinuation)"
    "\<not> chain_start 0" "\<not> chain_continuation 0"
    unfolding two kChainStart_def chain_start_bit chain_continuation_bit
    by (auto simp: bit_simps)
qed

text \<open>An offset that can be stored: not 0, and a multiple of 4.\<close>

definition storable :: "u32 \<Rightarrow> bool" where
  "storable x \<longleftrightarrow> x \<noteq> 0 \<and> x AND ChainMask = 0"

lemma storable_simps:
  assumes "storable x"
  shows "x \<noteq> 0" "\<not> chain_start x" "\<not> chain_continuation x" "chain_base x = x"
proof -
  have mask: "ChainMask = mask 2" by (simp add: ChainMask_def mask_eq_exp_minus_1)
  from assms have "x AND ChainMask = 0" by (simp add: storable_def)
  then have low: "\<not> bit x n" if "n < 2" for n
  proof -
    have "bit (x AND mask 2) n = bit x n" using that by (simp add: bit_simps)
    with \<open>x AND ChainMask = 0\<close> show ?thesis by (simp add: mask)
  qed
  from low [of 0] low [of 1] show "\<not> chain_start x" "\<not> chain_continuation x"
    by (simp_all add: chain_start_bit chain_continuation_bit)
  show "chain_base x = x"
    by (rule bit_word_eqI) (use low not_le in \<open>auto simp: bit_chain_base\<close>)
qed (use assms in \<open>simp add: storable_def\<close>)


section \<open>The invariant of the builder's buckets\<close>

text \<open>The bucket \<open>s\<close> is met by a probe that starts at the home bucket \<open>h\<close>.\<close>

definition on_chain :: "u32 list \<Rightarrow> nat \<Rightarrow> nat \<Rightarrow> bool" where
  "on_chain bs h s \<longleftrightarrow> s = h \<or>
     (chain_start (bs ! h) \<and>
      (\<exists>d. s = (h + 1 + d) mod length bs \<and>
        (\<forall>j < d. chain_continuation (bs ! ((h + 1 + j) mod length bs)))))"

definition chains_ok :: "u32 list \<Rightarrow> bool" where
  "chains_ok bs \<longleftrightarrow>
     (\<forall>s < length bs. chain_start (bs ! s) \<or> chain_continuation (bs ! s) \<longrightarrow>
        bs ! ((s + 1) mod length bs) \<noteq> 0) \<and>
     (\<exists>s < length bs. \<not> chain_continuation (bs ! s))"

definition stored_at :: "u32 list \<Rightarrow> u32 \<Rightarrow> u32 \<Rightarrow> bool" where
  "stored_at bs h x \<longleftrightarrow> storable x \<and>
     (\<exists>s < length bs. chain_base (bs ! s) = x \<and> on_chain bs (unat h mod length bs) s)"

definition buckets_hold :: "u32 list \<Rightarrow> (u32 \<times> u32) list \<Rightarrow> bool" where
  "buckets_hold bs kvs \<longleftrightarrow> bs \<noteq> [] \<and> chains_ok bs \<and>
     (\<forall>(h, x) \<in> set kvs. stored_at bs h x) \<and>
     (\<forall>w \<in> set bs. w \<noteq> 0 \<longrightarrow> chain_base w \<in> snd ` set kvs) \<and>
     length (filter (\<lambda>w. w \<noteq> 0) bs) = length kvs"

text \<open>Raising flags: the same buckets in use, the same offsets, no flag lost.\<close>

definition flags_raised :: "u32 list \<Rightarrow> u32 list \<Rightarrow> bool" where
  "flags_raised bs bs' \<longleftrightarrow> length bs' = length bs \<and>
     (\<forall>s < length bs. (bs' ! s = 0 \<longleftrightarrow> bs ! s = 0) \<and> chain_base (bs' ! s) = chain_base (bs ! s) \<and>
        (chain_start (bs ! s) \<longrightarrow> chain_start (bs' ! s)) \<and>
        (chain_continuation (bs ! s) \<longrightarrow> chain_continuation (bs' ! s)))"

lemma flags_raised_refl [simp]: "flags_raised bs bs"
  by (simp add: flags_raised_def)

lemma flags_raised_trans: "flags_raised a b \<Longrightarrow> flags_raised b c \<Longrightarrow> flags_raised a c"
  by (simp add: flags_raised_def)

lemma flags_raised_set:
  assumes "bs ! i \<noteq> 0" "f = kChainStart \<or> f = kChainContinuation"
  shows "flags_raised bs (bs[i := bs ! i OR f])"
proof (cases "i < length bs")
  case True
  with assms show ?thesis by (auto simp: flags_raised_def nth_list_update or_eq_0_iff)
qed (simp add: list_update_beyond)

lemma mod_add_one_shift: "((i + 1) mod n + j) mod n = (i + Suc j) mod (n :: nat)"
  by (simp add: mod_simps)

text \<open>The loop stops at the first free bucket, with the buckets before it flagged.\<close>

lemma probe_free_spec:
  assumes "i < length bs" "d < rounds" "bs ! ((i + d) mod length bs) = 0"
    "\<forall>j < d. bs ! ((i + j) mod length bs) \<noteq> 0" "d < length bs"
  shows "\<exists>bs'. probe_free rounds bs i = Some ((i + d) mod length bs, bs') \<and> flags_raised bs bs' \<and>
     (\<forall>j < d. chain_continuation (bs' ! ((i + j) mod length bs))) \<and>
     (\<forall>s < length bs. bs' ! s \<noteq> bs ! s \<longrightarrow> (\<exists>j < d. s = (i + j) mod length bs)) \<and>
     (\<forall>s < length bs. chain_start (bs' ! s) = chain_start (bs ! s))"
  using assms
proof (induction rounds arbitrary: bs i d)
  case 0
  then show ?case by simp
next
  case (Suc rounds)
  show ?case
  proof (cases d)
    case 0
    with Suc.prems show ?thesis by (auto intro!: exI [of _ bs])
  next
    case (Suc e)
    define bs1 where "bs1 = bs[i := bs ! i OR kChainContinuation]"
    have i: "bs ! i \<noteq> 0"
      using Suc.prems(1) Suc.prems(4) Suc by (metis add_0_right mod_less zero_less_Suc)
    have raised: "flags_raised bs bs1"
      unfolding bs1_def by (rule flags_raised_set [OF i]) simp
    have len: "length bs1 = length bs" by (simp add: bs1_def)
    have zero: "bs1 ! s = 0 \<longleftrightarrow> bs ! s = 0" if "s < length bs" for s
      using raised that by (simp add: flags_raised_def)
    have pos: "0 < length bs" using Suc.prems(1) by linarith
    have used: "\<forall>j < e. bs ! ((i + Suc j) mod length bs) \<noteq> 0"
      using Suc.prems(4) Suc by (metis Suc_less_eq)
    obtain bs' where IH: "probe_free rounds bs1 ((i + 1) mod length bs) =
        Some ((i + d) mod length bs, bs')" "flags_raised bs1 bs'"
      "\<forall>j < e. chain_continuation (bs' ! ((i + Suc j) mod length bs))"
      "\<forall>s < length bs. bs' ! s \<noteq> bs1 ! s \<longrightarrow> (\<exists>j < e. s = (i + Suc j) mod length bs)"
      "\<forall>s < length bs. chain_start (bs' ! s) = chain_start (bs1 ! s)"
      using Suc.IH [of "(i + 1) mod length bs" bs1 e] Suc.prems Suc pos used
      unfolding len mod_add_one_shift by (auto simp: zero)
    have flagged: "chain_continuation (bs' ! i)"
      using IH(2) Suc.prems(1) by (simp add: flags_raised_def bs1_def)
    have "chain_continuation (bs' ! ((i + j) mod length bs))" if "j < d" for j
      using that IH(3) flagged Suc Suc.prems(1) by (cases j) auto
    moreover have "\<exists>j < d. s = (i + j) mod length bs" if "s < length bs" "bs' ! s \<noteq> bs ! s" for s
    proof (cases "s = i")
      case True
      with Suc Suc.prems(1) show ?thesis by (intro exI [of _ 0]) simp
    next
      case False
      with that IH(4) obtain j where "j < e" "s = (i + Suc j) mod length bs"
        by (auto simp: bs1_def)
      with Suc show ?thesis by (intro exI [of _ "Suc j"]) simp
    qed
    moreover have "chain_start (bs' ! s) = chain_start (bs ! s)" if "s < length bs" for s
      using that IH(5) by (cases "s = i") (auto simp: bs1_def)
    ultimately show ?thesis
      using IH(1) flags_raised_trans [OF raised IH(2)] i
      by (intro exI [of _ bs']) (simp add: bs1_def)
  qed
qed

text \<open>A table with a free bucket has one at some distance below its length, and a first one.\<close>

lemma reach_index:
  fixes n :: nat
  assumes "s < n" "i < n"
  shows "\<exists>d < n. (i + d) mod n = (s :: nat)"
proof (cases "i \<le> s")
  case True
  with assms show ?thesis by (intro exI [of _ "s - i"]) auto
next
  case False
  with assms show ?thesis
    by (intro exI [of _ "n - i + s"]) auto
qed

lemma first_index:
  fixes n :: nat
  assumes "s < n" "i < n" "P s"
  shows "\<exists>d < n. P ((i + d) mod n) \<and> (\<forall>j < d. \<not> P ((i + j) mod n))"
proof -
  obtain d where d: "d < n" "P ((i + d) mod n)"
    using reach_index [OF assms(1,2)] assms(3) by metis
  define e where "e = (LEAST d. P ((i + d) mod n))"
  have "P ((i + e) mod n)" unfolding e_def by (rule LeastI [of _ d]) (rule d)
  moreover have "e \<le> d" unfolding e_def by (rule Least_le) (rule d)
  moreover have "\<not> P ((i + j) mod n)" if "j < e" for j
    using not_less_Least that unfolding e_def by blast
  ultimately show ?thesis using d(1) by (intro exI [of _ e]) auto
qed


section \<open>Insertion keeps the invariant\<close>

lemma on_chain_raised:
  assumes "flags_raised bs bs'" "bs \<noteq> []" "h < length bs" "on_chain bs h s"
  shows "on_chain bs' h s"
  using assms by (auto simp: flags_raised_def on_chain_def)

lemma flags_raised_update:
  assumes "flags_raised bs bs'" "t < length bs" "bs ! t = 0" "storable x" "s < length bs"
  shows "chain_start (bs ! s) \<Longrightarrow> chain_start (bs'[t := x] ! s)"
    and "chain_continuation (bs ! s) \<Longrightarrow> chain_continuation (bs'[t := x] ! s)"
    and "bs ! s \<noteq> 0 \<Longrightarrow> bs'[t := x] ! s \<noteq> 0"
    and "bs ! s \<noteq> 0 \<Longrightarrow> chain_base (bs'[t := x] ! s) = chain_base (bs ! s)"
  using assms by (auto simp: flags_raised_def nth_list_update storable_simps)

lemma length_filter_update:
  assumes "t < length bs" "bs ! t = 0" "x \<noteq> 0"
  shows "length (filter (\<lambda>w. w \<noteq> 0) (bs[t := x])) = Suc (length (filter (\<lambda>w. w \<noteq> (0::u32)) bs))"
  using assms
proof (induction bs arbitrary: t)
  case (Cons b bs)
  then show ?case by (cases t) auto
qed simp

lemma filter_raised:
  assumes "flags_raised bs bs'"
  shows "length (filter (\<lambda>w. w \<noteq> 0) bs') = length (filter (\<lambda>w. w \<noteq> 0) bs)"
  using assms unfolding flags_raised_def length_filter_conv_card by (intro arg_cong [of _ _ card]) auto

text \<open>Where \<open>place_child\<close> ends: the home bucket, or the end of a chain that starts there.\<close>

lemma place_child_spec:
  assumes "bs \<noteq> []" "\<exists>s < length bs. bs ! s = 0"
  shows "\<exists>t bs'. place_child bs hash = Some (t, bs') \<and> t < length bs \<and> bs ! t = 0 \<and>
     flags_raised bs bs' \<and>
     (\<forall>x. storable x \<longrightarrow> on_chain (bs'[t := x]) (unat hash mod length bs) t) \<and>
     (\<forall>s < length bs. bs' ! s \<noteq> bs ! s \<longrightarrow>
        bs' ! ((s + 1) mod length bs) \<noteq> 0 \<or> (s + 1) mod length bs = t)"
proof -
  let ?n = "length bs" and ?h = "unat hash mod length bs"
  have n: "0 < ?n" using assms(1) by simp
  then have h: "?h < ?n" by simp
  show ?thesis
  proof (cases "bs ! ?h = 0")
    case True
    with h show ?thesis
      by (auto simp: place_child_def on_chain_def intro!: exI [of _ ?h] exI [of _ bs])
  next
    case False
    define bs1 where "bs1 = bs[?h := bs ! ?h OR kChainStart]"
    have raised1: "flags_raised bs bs1"
      unfolding bs1_def by (rule flags_raised_set [OF False]) simp
    have len1: "length bs1 = ?n" by (simp add: bs1_def)
    have zero1: "bs1 ! s = 0 \<longleftrightarrow> bs ! s = 0" if "s < ?n" for s
      using raised1 that by (simp add: flags_raised_def)
    obtain s where s: "s < ?n" "bs1 ! s = 0" using assms(2) zero1 by auto
    define i where "i = (?h + 1) mod ?n"
    have i: "i < ?n" using n by (simp add: i_def)
    obtain d where d: "d < ?n" "bs1 ! ((i + d) mod ?n) = 0"
      "\<forall>j < d. bs1 ! ((i + j) mod ?n) \<noteq> 0"
      using first_index [where P = "\<lambda>s. bs1 ! s = 0", OF s(1) i s(2)] by auto
    define t where "t = (i + d) mod ?n"
    obtain bs' where free: "probe_free ?n bs1 i = Some (t, bs')" "flags_raised bs1 bs'"
      "\<forall>j < d. chain_continuation (bs' ! ((i + j) mod ?n))"
      "\<forall>s < ?n. bs' ! s \<noteq> bs1 ! s \<longrightarrow> (\<exists>j < d. s = (i + j) mod ?n)"
      using probe_free_spec [of i bs1 d ?n] i d unfolding len1 t_def by auto
    have place: "place_child bs hash = Some (t, bs')"
      using False free(1) by (simp add: place_child_def Let_def bs1_def i_def)
    have t: "t < ?n" "bs ! t = 0" using d(2) zero1 n by (auto simp: t_def)
    have raised: "flags_raised bs bs'" by (rule flags_raised_trans [OF raised1 free(2)])
    have ht: "?h \<noteq> t" using False t(2) by auto
    have start: "chain_start (bs' ! ?h)"
      using free(2) h by (simp add: flags_raised_def bs1_def)
    have step: "(?h + 1 + j) mod ?n = (i + j) mod ?n" for j
      unfolding i_def by (rule mod_add_left_eq [symmetric])
    have not_t: "(i + j) mod ?n \<noteq> t" if "j < d" for j
      using that d(2,3) by (auto simp: t_def)
    have len': "length bs' = ?n" using raised by (simp add: flags_raised_def)
    have flags: "chain_start (bs'[t := x] ! ?h)"
      "j < d \<Longrightarrow> chain_continuation (bs'[t := x] ! ((i + j) mod ?n))" for x j
      using start ht free(3) not_t [of j] by (simp_all add: nth_list_update_neq [OF not_sym])
    have "on_chain (bs'[t := x]) ?h t" for x
      unfolding on_chain_def length_list_update len' step
      using flags t_def by blast
    moreover have "bs' ! ((s + 1) mod ?n) \<noteq> 0 \<or> (s + 1) mod ?n = t"
      if "s < ?n" "bs' ! s \<noteq> bs ! s" for s
    proof -
      have next_used: "bs' ! ((i + j) mod ?n) \<noteq> 0 \<or> (i + j) mod ?n = t" if "j \<le> d" for j
        using that d(3) free(2) n by (cases "j = d") (auto simp: t_def flags_raised_def len1)
      show ?thesis
      proof (cases "bs' ! s = bs1 ! s")
        case True
        with that have "s = ?h" by (metis bs1_def nth_list_update_neq)
        with next_used [of 0] i show ?thesis by (simp add: i_def)
      next
        case False
        with free(4) that(1) obtain j where "j < d" "s = (i + j) mod ?n" by auto
        with next_used [of "Suc j"] show ?thesis by (simp add: mod_simps)
      qed
    qed
    ultimately show ?thesis
      using place t raised by (intro exI [of _ t] exI [of _ bs']) blast
  qed
qed


lemma insert_child_holds:
  assumes inv: "buckets_hold bs kvs" and room: "length kvs < length bs" and x: "storable x"
  shows "\<exists>bs'. insert_child bs hash x = Some bs' \<and> length bs' = length bs \<and>
    buckets_hold bs' ((hash, x) # kvs)"
proof -
  let ?n = "length bs"
  have ne: "bs \<noteq> []" and chains: "chains_ok bs"
    and stored: "\<And>h y. (h, y) \<in> set kvs \<Longrightarrow> stored_at bs h y"
    and origin: "\<And>w. w \<in> set bs \<Longrightarrow> w \<noteq> 0 \<Longrightarrow> chain_base w \<in> snd ` set kvs"
    and count: "length (filter (\<lambda>w. w \<noteq> 0) bs) = length kvs"
    using inv by (auto simp: buckets_hold_def)
  have "\<exists>s < ?n. bs ! s = 0"
  proof (rule ccontr)
    assume "\<not> ?thesis"
    then have "filter (\<lambda>w. w \<noteq> 0) bs = bs" by (auto simp: filter_id_conv in_set_conv_nth)
    with count room show False by simp
  qed
  from place_child_spec [OF ne this, of hash] obtain t bs1 where
    place: "place_child bs hash = Some (t, bs1)" and t: "t < ?n" "bs ! t = 0"
    and raised: "flags_raised bs bs1"
    and home: "on_chain (bs1[t := x]) (unat hash mod ?n) t"
    and changed: "\<And>s. s < ?n \<Longrightarrow> bs1 ! s \<noteq> bs ! s \<Longrightarrow>
        bs1 ! ((s + 1) mod ?n) \<noteq> 0 \<or> (s + 1) mod ?n = t"
    using x by blast
  let ?bs = "bs1[t := x]"
  have len1: "length bs1 = ?n" using raised by (simp add: flags_raised_def)
  note up = flags_raised_update [OF raised t x]
  have at_t: "?bs ! t = x" using t len1 by simp
  have pos: "0 < ?n" using ne by simp
  have "chains_ok ?bs"
    unfolding chains_ok_def
  proof (intro conjI allI impI)
    fix s
    assume s: "s < length ?bs" and flag: "chain_start (?bs ! s) \<or> chain_continuation (?bs ! s)"
    have sn: "s < ?n" using s len1 by simp
    have st: "s \<noteq> t" using flag at_t storable_simps [OF x] by auto
    let ?m = "(s + 1) mod ?n"
    have m: "?m < ?n" using pos by simp
    have "?m = t \<or> bs1 ! ?m \<noteq> 0"
    proof (cases "bs1 ! s = bs ! s")
      case True
      with flag st have "chain_start (bs ! s) \<or> chain_continuation (bs ! s)" by simp
      with chains sn have "bs ! ?m \<noteq> 0" unfolding chains_ok_def by blast
      with raised m show ?thesis by (auto simp: flags_raised_def)
    next
      case False
      with changed [OF sn] show ?thesis by auto
    qed
    then show "?bs ! ((s + 1) mod length ?bs) \<noteq> 0"
      using storable_simps(1) [OF x] at_t by (cases "?m = t") (simp_all add: len1)
  next
    show "\<exists>s < length ?bs. \<not> chain_continuation (?bs ! s)"
      using t(1) at_t storable_simps(3) [OF x] len1 by (intro exI [of _ t]) simp
  qed
  moreover have "stored_at ?bs h y" if elem: "(h, y) \<in> set ((hash, x) # kvs)" for h y
  proof (cases "(h, y) = (hash, x)")
    case True
    with home x t at_t len1 storable_simps(4) [OF x] show ?thesis
      by (auto simp: stored_at_def intro!: exI [of _ t])
  next
    case False
    with elem stored have "stored_at bs h y" by auto
    then obtain s where s: "storable y" "s < ?n" "chain_base (bs ! s) = y"
      "on_chain bs (unat h mod ?n) s" by (auto simp: stored_at_def)
    have nz: "bs ! s \<noteq> 0"
      using s(1,3) storable_simps(1) [OF s(1)] by (auto simp: chain_base_def)
    have hm: "unat h mod ?n < ?n" using pos by simp
    have "on_chain ?bs (unat h mod ?n) s"
      using s(4) up(1) [OF hm] up(2) pos
      by (auto simp: on_chain_def len1)
    with s up(4) [OF s(2) nz] show ?thesis
      by (auto simp: stored_at_def len1 intro!: exI [of _ s])
  qed
  moreover have "chain_base w \<in> snd ` set ((hash, x) # kvs)" if "w \<in> set ?bs" "w \<noteq> 0" for w
  proof -
    from that(1) obtain s where s: "s < ?n" "w = ?bs ! s" by (auto simp: in_set_conv_nth len1)
    show ?thesis
    proof (cases "s = t")
      case True
      with s at_t storable_simps(4) [OF x] show ?thesis by simp
    next
      case False
      with s that(2) have "bs ! s \<noteq> 0" "w = bs1 ! s"
        using raised by (auto simp: flags_raised_def)
      with origin [of "bs ! s"] s(1) up(4) [OF s(1)] s(2) show ?thesis by auto
    qed
  qed
  moreover have "length (filter (\<lambda>w. w \<noteq> 0) ?bs) = length ((hash, x) # kvs)"
    using length_filter_update [of t bs1 x] filter_raised [OF raised] count t raised
      storable_simps(1) [OF x]
    by (simp add: flags_raised_def)
  ultimately have "buckets_hold ?bs ((hash, x) # kvs)"
    using ne len1 unfolding buckets_hold_def by auto
  with place len1 show ?thesis by (simp add: insert_child_def)
qed


section \<open>The probe\<close>

lemma probe_chain_spec:
  assumes "i < length bs" "chains_ok bs" "bs ! ((i + 1) mod length bs) \<noteq> 0" "d < rounds"
    "\<not> chain_continuation (bs ! ((i + 1 + d) mod length bs))"
    "\<forall>j < d. chain_continuation (bs ! ((i + 1 + j) mod length bs))"
  shows "\<exists>r. probe_chain rounds P bs i = Some r \<and>
     (\<forall>x. r = Some x \<longrightarrow> P x \<and> (\<exists>w \<in> set bs. w \<noteq> 0 \<and> chain_base w = x)) \<and>
     (r = None \<longrightarrow> (\<forall>j \<le> d. \<not> P (chain_base (bs ! ((i + 1 + j) mod length bs)))))"
  using assms
proof (induction rounds arbitrary: i d)
  case 0
  then show ?case by simp
next
  case (Suc rounds)
  let ?n = "length bs"
  let ?i = "(i + 1) mod ?n"
  let ?w = "bs ! ?i"
  have n: "0 < ?n" using Suc.prems(1) by linarith
  then have i: "?i < ?n" by simp
  then have w: "?w \<in> set bs" by simp
  consider (hit) "P (chain_base ?w)" | (stop) "\<not> P (chain_base ?w)" "\<not> chain_continuation ?w"
    | (more) "\<not> P (chain_base ?w)" "chain_continuation ?w" by blast
  then show ?case
  proof cases
    case hit
    with w Suc.prems(3) show ?thesis by (auto simp: Let_def)
  next
    case stop
    have "d = 0"
    proof (cases d)
      case (Suc e)
      with Suc.prems(6) have "chain_continuation (bs ! ((i + 1 + 0) mod ?n))" by blast
      with stop show ?thesis by simp
    qed
    with stop Suc.prems(3) show ?thesis by (auto simp: Let_def)
  next
    case more
    then obtain e where d: "d = Suc e"
      using Suc.prems(5) by (cases d) auto
    have next_used: "bs ! ((?i + 1) mod ?n) \<noteq> 0"
      using Suc.prems(2) i more(2) by (simp add: chains_ok_def)
    have shift: "(?i + 1 + j) mod ?n = (i + 1 + Suc j) mod ?n" for j
      using mod_add_left_eq [of "i + 1" ?n "1 + j"] by (simp add: ac_simps)
    obtain r where r: "probe_chain rounds P bs ?i = Some r"
      "\<forall>x. r = Some x \<longrightarrow> P x \<and> (\<exists>w \<in> set bs. w \<noteq> 0 \<and> chain_base w = x)"
      "r = None \<longrightarrow> (\<forall>j \<le> e. \<not> P (chain_base (bs ! ((i + 1 + Suc j) mod ?n))))"
      using Suc.IH [OF i Suc.prems(2) next_used, of e] Suc.prems(4-6) d
      unfolding shift by (metis Suc_less_eq)
    have "\<not> P (chain_base (bs ! ((i + 1 + j) mod ?n)))" if "r = None" "j \<le> d" for j
      using that r(3) more(1) d by (cases j) auto
    with r(1,2) more Suc.prems(3) show ?thesis by (auto simp: Let_def)
  qed
qed

lemma probe_buckets_spec:
  assumes inv: "buckets_hold bs kvs"
  shows "\<exists>r. probe_buckets P bs hash = Some r \<and>
     (\<forall>x. r = Some x \<longrightarrow> P x \<and> x \<in> snd ` set kvs) \<and>
     (r = None \<longrightarrow> (\<forall>(h, x) \<in> set kvs. h = hash \<longrightarrow> \<not> P x))"
proof -
  let ?n = "length bs" and ?i = "unat hash mod length bs"
  let ?w = "bs ! ?i"
  have ne: "bs \<noteq> []" and chains: "chains_ok bs"
    and stored: "\<And>h y. (h, y) \<in> set kvs \<Longrightarrow> stored_at bs h y"
    and origin: "\<And>w. w \<in> set bs \<Longrightarrow> w \<noteq> 0 \<Longrightarrow> chain_base w \<in> snd ` set kvs"
    using inv by (auto simp: buckets_hold_def)
  have i: "?i < ?n" using ne by simp
  then have w: "?w \<in> set bs" by simp
  have chain: "s = ?i \<or> chain_start ?w" if "on_chain bs ?i s" for s
    using that by (auto simp: on_chain_def)
  have home: "\<exists>s < ?n. chain_base (bs ! s) = x \<and> on_chain bs ?i s \<and> x \<noteq> 0" if "(hash, x) \<in> set kvs" for x
    using stored [OF that] storable_simps(1) by (auto simp: stored_at_def)
  consider (empty) "?w = 0" | (hit) "?w \<noteq> 0" "P (chain_base ?w)"
    | (alone) "?w \<noteq> 0" "\<not> P (chain_base ?w)" "\<not> chain_start ?w"
    | (chained) "?w \<noteq> 0" "\<not> P (chain_base ?w)" "chain_start ?w" by blast
  then show ?thesis
  proof cases
    case empty
    have "(hash, x) \<notin> set kvs" for x
    proof
      assume "(hash, x) \<in> set kvs"
      from home [OF this] obtain s where "chain_base (bs ! s) = x" "on_chain bs ?i s" "x \<noteq> 0"
        by blast
      with chain [of s] empty show False by (auto simp: chain_base_def)
    qed
    with empty show ?thesis by (auto simp: probe_buckets_def Let_def)
  next
    case hit
    with origin [OF w] show ?thesis by (auto simp: probe_buckets_def Let_def)
  next
    case alone
    have "\<not> P x" if "(hash, x) \<in> set kvs" for x
      using home [OF that] chain alone by auto
    with alone show ?thesis by (auto simp: probe_buckets_def Let_def)
  next
    case chained
    have next_used: "bs ! ((?i + 1) mod ?n) \<noteq> 0"
      using chains i chained(3) by (simp add: chains_ok_def)
    obtain s where s: "s < ?n" "\<not> chain_continuation (bs ! s)"
      using chains by (auto simp: chains_ok_def)
    have i1: "(?i + 1) mod ?n < ?n" using ne by simp
    have shift: "((?i + 1) mod ?n + j) mod ?n = (?i + 1 + j) mod ?n" for j
      by (rule mod_add_left_eq)
    have "\<exists>d < ?n. \<not> chain_continuation (bs ! ((?i + 1 + d) mod ?n)) \<and>
        (\<forall>j < d. \<not> \<not> chain_continuation (bs ! ((?i + 1 + j) mod ?n)))"
      using first_index [where P = "\<lambda>s. \<not> chain_continuation (bs ! s)", OF s(1) i1 s(2)]
      unfolding shift .
    then obtain d where d: "d < ?n" "\<not> chain_continuation (bs ! ((?i + 1 + d) mod ?n))"
      "\<forall>j < d. chain_continuation (bs ! ((?i + 1 + j) mod ?n))"
      by blast
    obtain r where r: "probe_chain ?n P bs ?i = Some r"
      "\<forall>x. r = Some x \<longrightarrow> P x \<and> (\<exists>w \<in> set bs. w \<noteq> 0 \<and> chain_base w = x)"
      "r = None \<longrightarrow> (\<forall>j \<le> d. \<not> P (chain_base (bs ! ((?i + 1 + j) mod ?n))))"
      using probe_chain_spec [OF i chains next_used d, of P] by blast
    have "\<not> P x" if none: "r = None" and x: "(hash, x) \<in> set kvs" for x
    proof -
      obtain s where s: "chain_base (bs ! s) = x" "on_chain bs ?i s" using home [OF x] by auto
      show ?thesis
      proof (cases "s = ?i")
        case True
        with s(1) chained(2) show ?thesis by simp
      next
        case False
        with s(2) obtain e where e: "s = (?i + 1 + e) mod ?n"
          "\<forall>j < e. chain_continuation (bs ! ((?i + 1 + j) mod ?n))"
          by (auto simp: on_chain_def)
        have "e \<le> d" using e(2) d(2) by (meson not_le)
        with r(3) none e(1) s(1) show ?thesis by auto
      qed
    qed
    moreover have "P x \<and> x \<in> snd ` set kvs" if "r = Some x" for x
      using r(2) that origin by blast
    moreover have "probe_buckets P bs hash = Some r"
      using r(1) chained by (simp add: probe_buckets_def Let_def)
    ultimately show ?thesis by blast
  qed
qed

text \<open>The builder's buckets implement the interface.\<close>

interpretation buckets: chained_table
  "\<lambda>n. replicate n 0" insert_child probe_buckets "length :: u32 list \<Rightarrow> nat" buckets_hold storable
proof (unfold_locales, goal_cases)
  case (1 b)
  then show ?case
    by (auto simp: buckets_hold_def chains_ok_def)
next
  case (2 t kvs x h)
  then show ?case by (intro insert_child_holds)
next
  case (3 t kvs P h x)
  then show ?case using probe_buckets_spec [of t kvs P h] by auto
next
  case (4 t kvs h x P)
  then show ?case using probe_buckets_spec [of t kvs P h] by auto
next
  case (5 t kvs P h)
  then show ?case using probe_buckets_spec [of t kvs P h] by auto
qed

section \<open>Properties\<close>

text \<open>
  C7: the launcher's hash table of children is correct for the DLL's probe. For any children with
  any hashes, as many as the table has buckets or fewer, every insertion finds a bucket; afterwards a
  probe for a stored child's hash ends, reads no empty bucket inside a chain, and returns that child's
  offset if its test accepts no other stored offset; and a probe whose test accepts no stored
  offset ends with "not found".
\<close>
theorem child_table_correct:
  assumes "kvs \<noteq> []" "\<forall>(h, x) \<in> set kvs. storable x"
  shows "\<exists>bs. buckets.place_all (replicate (bucketCount_of (length kvs)) 0) kvs = Some bs \<and>
    (\<forall>P h x. (h, x) \<in> set kvs \<longrightarrow> P x \<longrightarrow> (\<forall>y \<in> snd ` set kvs. P y \<longrightarrow> y = x) \<longrightarrow>
       probe_buckets P bs h = Some (Some x)) \<and>
    (\<forall>P h. (\<forall>y \<in> snd ` set kvs. \<not> P y) \<longrightarrow> probe_buckets P bs h = Some None)"
proof -
  let ?B = "bucketCount_of (length kvs)"
  have B: "length kvs \<le> ?B" by (simp add: bucketCount_of_def)
  then have pos: "0 < ?B" using assms(1) by (cases kvs) auto
  have empty: "buckets_hold (replicate ?B 0) []" using buckets.holds_empty [OF pos] by blast
  have room: "length ([] :: (u32 \<times> u32) list) + length kvs \<le> length (replicate ?B (0 :: u32))"
    using B by simp
  have ok: "\<forall>kv \<in> set kvs. storable (snd kv)" using assms(2) by auto
  from buckets.place_all_holds [OF empty room ok] obtain bs where
    placed: "buckets.place_all (replicate ?B 0) kvs = Some bs" and
    held: "length bs = length (replicate ?B (0 :: u32)) \<and> buckets_hold bs (rev kvs @ [])"
    by (rule exE) (rule that [OF conjunct1 conjunct2])
  have bs: "buckets_hold bs (rev kvs)" using held by simp
  have "probe_buckets P bs h = Some (Some x)"
    if "(h, x) \<in> set kvs" "P x" "\<forall>y \<in> snd ` set kvs. P y \<longrightarrow> y = x" for P h x
  proof (rule buckets.probe_unique [where P = P, OF bs])
    show "P x" by (rule that(2))
    show "(h, x) \<in> set (rev kvs)" using that(1) by simp
    show "y = x" if "y \<in> snd ` set (rev kvs)" "P y" for y
      using that \<open>\<forall>y \<in> snd ` set kvs. P y \<longrightarrow> y = x\<close> unfolding set_rev by blast
  qed
  moreover have "probe_buckets P bs h = Some None" if "\<forall>y \<in> snd ` set kvs. \<not> P y" for P h
    by (rule buckets.probe_none [OF bs]) (use that in \<open>simp only: set_rev, blast\<close>)
  ultimately show ?thesis using placed by blast
qed

theorem child_table_correct_witness:
  "\<exists>bs. buckets.place_all (replicate (bucketCount_of 3) 0) [(5, 32), (9, 64), (1, 96)] = Some bs \<and>
     probe_buckets (\<lambda>y. y = 64) bs 9 = Some (Some 64) \<and> probe_buckets (\<lambda>y. False) bs 13 = Some None"
proof -
  let ?kvs = "[(5, 32), (9, 64), (1 :: u32, 96 :: u32)]"
  have ok: "\<forall>(h, x) \<in> set ?kvs. storable x"
    by (simp add: storable_def ChainMask_def)
  have ne: "?kvs \<noteq> []" by simp
  from child_table_correct [OF ne ok] show ?thesis
  proof (rule exE)
    fix bs
    assume bs: "buckets.place_all (replicate (bucketCount_of (length ?kvs)) 0) ?kvs = Some bs \<and>
      (\<forall>P h x. (h, x) \<in> set ?kvs \<longrightarrow> P x \<longrightarrow> (\<forall>y \<in> snd ` set ?kvs. P y \<longrightarrow> y = x) \<longrightarrow>
         probe_buckets P bs h = Some (Some x)) \<and>
      (\<forall>P h. (\<forall>y \<in> snd ` set ?kvs. \<not> P y) \<longrightarrow> probe_buckets P bs h = Some None)"
    have "probe_buckets (\<lambda>y. y = 64) bs 9 = Some (Some 64)"
      by (rule bs [THEN conjunct2, THEN conjunct1, rule_format]) simp_all
    moreover have "probe_buckets (\<lambda>y. False) bs 13 = Some None"
      by (rule bs [THEN conjunct2, THEN conjunct2, rule_format]) simp
    moreover have "buckets.place_all (replicate (bucketCount_of 3) 0) ?kvs = Some bs"
    proof -
      have "length ?kvs = 3" by simp
      with bs [THEN conjunct1] show ?thesis by (simp only:)
    qed
    ultimately show ?thesis by blast
  qed
qed

end
