(* ===== verification/Manifest_Serialize.thy ===== *)
theory Manifest_Serialize
  imports Manifest_Tree Bucket_Table
begin

text \<open>
  \<open>ManifestBuilder::Build\<close> and \<open>SerializeNode\<close> of \<open>src/manifest_builder.cpp\<close>: the byte layout of
  the manifest. \<open>SerializeNode\<close> appends to a growing buffer, reserves the bucket array of a node,
  fills it while it serialises the children, and patches it afterwards; \<open>record_at\<close> says what a
  buffer holds where a node was written. The lemmas show that the result of \<open>SerializeNode\<close> is
  the old buffer followed by the record of the node, whatever comes before and after it.
\<close>

section \<open>Writers\<close>

definition PutU32 :: "bytes \<Rightarrow> u32 \<Rightarrow> bytes" where
  "PutU32 out v = out @
     [ucast (v AND 0xFF), ucast (drop_bit 8 v AND 0xFF), ucast (drop_bit 16 v AND 0xFF),
      ucast (drop_bit 24 v AND 0xFF)]"

definition PatchU32 :: "bytes \<Rightarrow> nat \<Rightarrow> u32 \<Rightarrow> bytes" where
  "PatchU32 out pos v =
     out[pos + 0 := ucast (v AND 0xFF), pos + 1 := ucast (drop_bit 8 v AND 0xFF),
         pos + 2 := ucast (drop_bit 16 v AND 0xFF), pos + 3 := ucast (drop_bit 24 v AND 0xFF)]"

definition PaddedAnsiLength :: "bytes \<Rightarrow> u32" where
  "PaddedAnsiLength s = ucast ((of_nat (length s) + 4 :: u64) AND NOT 3)"

definition PutPaddedAnsi :: "bytes \<Rightarrow> bytes \<Rightarrow> bytes" where
  "PutPaddedAnsi out s =
     out @ map (\<lambda>i. if i < length s then s ! i else 0) [0 ..< unat (PaddedAnsiLength s)]"

text \<open>\<open>while ((out.size() & 0x3) != 0) out.push_back(0);\<close>\<close>

function pad4 :: "bytes \<Rightarrow> bytes" where
  "pad4 out = (if length out mod 4 \<noteq> 0 then pad4 (out @ [0]) else out)"
  by pat_completeness auto
termination
proof (relation "measure (\<lambda>out. (4 - length out mod 4) mod 4)", goal_cases)
  case (2 out)
  then have "length out mod 4 \<in> {1, 2, 3}" by auto
  then show ?case by (auto simp: mod_Suc)
qed simp

declare pad4.simps [simp del]

definition put_wchar :: "wchar \<Rightarrow> bytes" where
  "put_wchar c = [ucast (c AND 0xFF), ucast (drop_bit 8 c AND 0xFF)]"

definition PutFragment :: "bytes \<Rightarrow> wstr \<Rightarrow> bytes" where
  "PutFragment out fragment =
     (if fragment = [] then PutU32 out 0
      else pad4 (out @ concat (map put_wchar fragment) @ [0, 0]))"

fun PatchOffsets :: "bytes \<Rightarrow> nat \<Rightarrow> u32 list \<Rightarrow> bytes" where
  "PatchOffsets out pos [] = out"
| "PatchOffsets out pos (w # ws) = PatchOffsets (PatchU32 out pos w) (pos + 4) ws"


section \<open>Nodes\<close>

text \<open>
  \<open>SerializeChildren\<close> is the loop over the children; \<open>None\<close> is a child that found no free bucket.
\<close>

fun SerializeNode :: "mnode \<Rightarrow> bytes \<Rightarrow> bytes option"
  and SerializeChildren :: "nat \<Rightarrow> (wstr \<times> mnode) list \<Rightarrow> u32 list \<Rightarrow> bytes \<Rightarrow>
    (u32 list \<times> bytes) option"
where
  "SerializeNode (MNode fragment hash acc cone node children) out =
     (let nodeStart = length out;
          out = PutU32 (PutU32 (PutU32 out hash) cone) node;
          childCount = unat (of_nat (length children) :: u32);
          bucketCount = (if childCount = 0 then 0 else bucketCount_of childCount);
          out = PutU32 out (of_nat bucketCount);
          offsetsPos = length out;
          out = fold (\<lambda>i out. PutU32 out 0) [0 ..< bucketCount] out;
          out = PutFragment out fragment
      in if bucketCount = 0 then Some out
         else (case SerializeChildren nodeStart children (replicate bucketCount 0) out of
                 None \<Rightarrow> None
               | Some (offsets, out) \<Rightarrow> Some (PatchOffsets out offsetsPos offsets)))"
| "SerializeChildren nodeStart [] offsets out = Some (offsets, out)"
| "SerializeChildren nodeStart ((key, child) # children) offsets out =
     (case place_child offsets (node_hash child) of
        None \<Rightarrow> None
      | Some (index, offsets) \<Rightarrow>
          (let childOffset = of_nat (length out - nodeStart);
               offsets = offsets[index := childOffset]
           in case SerializeNode child out of
                None \<Rightarrow> None
              | Some out \<Rightarrow> SerializeChildren nodeStart children offsets out))"

text \<open>One of the three blocks that hold a size word and a padded, NUL-terminated path.\<close>

definition PutPathBlock :: "bytes \<Rightarrow> wstr \<Rightarrow> bytes" where
  "PutPathBlock out path =
     (if path = [] then PutU32 out 0
      else (let rawBytes = (of_nat ((length path + 1) * 2) :: u32);
                paddedBytes = (rawBytes + 3) AND NOT 3;
                pb = concat (map u16_le (path @ [0]))
            in PutU32 out paddedBytes @ take (unat rawBytes) pb @
                 replicate (unat (paddedBytes - rawBytes)) 0))"

definition PutDllBlock :: "bytes \<Rightarrow> bytes \<Rightarrow> bytes \<Rightarrow> bytes" where
  "PutDllBlock out dllX86 dllX64 =
     (let l0 = PaddedAnsiLength dllX86;
          l1 = PaddedAnsiLength dllX64;
          out = PutU32 (PutU32 (PutU32 (PutU32 out (l0 + l1)) 2) 0) l0
      in PutPaddedAnsi (PutPaddedAnsi out dllX86) dllX64)"

definition Build :: "ManifestBuilder \<Rightarrow> bytes option" where
  "Build mb =
     (let root = Finalize Policy_Deny (mb_root mb);
          out = PutU32 (PutU32 [] (mb_flags mb)) (mb_extraFlags mb);
          out = PutPathBlock out (mb_reportPath mb);
          out = PutDllBlock out (mb_dllX86 mb) (mb_dllX64 mb);
          out = PutPathBlock out (mb_writeOverlayRoot mb);
          out = PutPathBlock out (mb_overlaySourceRoot mb)
      in SerializeNode root out)"


section \<open>What the writers append\<close>

lemma low_byte32: "(ucast (v AND 0xFF) :: u8) = ucast (v :: u32)"
proof -
  have "(0xFF :: u32) = mask 8" by (simp add: mask_eq_exp_minus_1)
  then show ?thesis by (intro bit_word_eqI) (simp only: bit_simps, auto)
qed

lemma PutU32_eq: "PutU32 out v = out @ u32_le v"
  by (simp add: PutU32_def u32_le_def low_byte32)

lemma put_wchar_eq: "put_wchar c = u16_le c"
  by (simp add: put_wchar_def u16_le_def ucast_low_byte)

lemma PatchU32_eq:
  assumes "length zs = 4"
  shows "PatchU32 (pre @ zs @ post) (length pre) v = pre @ u32_le v @ post"
proof -
  obtain a b c d where zs: "zs = [a, b, c, d]"
    using assms by (auto simp: numeral_eq_Suc length_Suc_conv)
  show ?thesis
    by (simp add: zs PatchU32_def u32_le_def low_byte32 list_update_append)
qed

definition table_bytes :: "u32 list \<Rightarrow> bytes" where
  "table_bytes ws = concat (map u32_le ws)"

lemma length_table_bytes [simp]: "length (table_bytes ws) = 4 * length ws"
  by (induction ws) (simp_all add: table_bytes_def)

lemma PatchOffsets_eq:
  "length zs = 4 * length ws \<Longrightarrow>
     PatchOffsets (pre @ zs @ post) (length pre) ws = pre @ table_bytes ws @ post"
proof (induction ws arbitrary: pre zs)
  case (Cons w ws)
  define z1 where "z1 = take 4 zs"
  define z2 where "z2 = drop 4 zs"
  have zs: "zs = z1 @ z2" "length z1 = 4" "length z2 = 4 * length ws"
    using Cons.prems by (simp_all add: z1_def z2_def)
  have "PatchOffsets (pre @ zs @ post) (length pre) (w # ws)
      = PatchOffsets ((pre @ u32_le w) @ z2 @ post) (length (pre @ u32_le w)) ws"
    using PatchU32_eq [OF zs(2), of pre "z2 @ post" w] by (simp add: zs(1))
  also have "\<dots> = (pre @ u32_le w) @ table_bytes ws @ post"
    by (rule Cons.IH [OF zs(3)])
  finally show ?case by (simp add: table_bytes_def)
qed (simp add: table_bytes_def)

lemma zeros_eq: "fold (\<lambda>i out. PutU32 out 0) [0 ..< n] out = out @ replicate (4 * n) 0"
proof (induction n)
  case (Suc n)
  have "u32_le 0 = replicate 4 0" by (simp add: u32_le_def numeral_eq_Suc)
  with Suc show ?case by (simp add: PutU32_eq replicate_add [symmetric])
qed simp

definition pad_length :: "nat \<Rightarrow> nat" where
  "pad_length n = (4 - n mod 4) mod 4"

lemma pad4_eq: "pad4 out = out @ replicate (pad_length (length out)) 0"
proof (induction out rule: pad4.induct)
  case (1 out)
  show ?case
  proof (cases "length out mod 4 = 0")
    case True
    then show ?thesis by (simp add: pad4.simps [of out] pad_length_def)
  next
    case False
    then have "length out mod 4 \<in> {1, 2, 3}" by auto
    then have "pad_length (length out) = Suc (pad_length (Suc (length out)))"
      by (auto simp: pad_length_def mod_Suc)
    with 1 False show ?thesis
      by (simp add: pad4.simps [of out] replicate_append_same [symmetric])
  qed
qed

definition fragment_bytes :: "wstr \<Rightarrow> bytes" where
  "fragment_bytes fragment =
     (if fragment = [] then u32_le 0
      else concat (map u16_le (fragment @ [0])) @
             replicate (pad_length (2 * (length fragment + 1))) 0)"

lemma length_u16_string: "length (concat (map u16_le s)) = 2 * length s"
  by (induction s) simp_all

lemma PutFragment_eq:
  assumes "length out mod 4 = 0"
  shows "PutFragment out fragment = out @ fragment_bytes fragment"
proof -
  have "u16_le 0 = [0, 0]" by (simp add: u16_le_def)
  moreover
  have "pad_length (length out + n) = pad_length n" for n
    using assms by (simp add: pad_length_def mod_add_eq [symmetric])
  from this [of "2 * (length fragment + 1)"]
  have "pad_length (Suc (Suc (length out + 2 * length fragment))) =
      pad_length (Suc (Suc (2 * length fragment)))" by (simp add: ac_simps)
  ultimately show ?thesis
    by (simp add: PutFragment_def fragment_bytes_def PutU32_eq pad4_eq put_wchar_eq [abs_def]
        length_u16_string)
qed

lemma length_fragment_bytes:
  "length (fragment_bytes fragment) mod 4 = 0" "4 \<le> length (fragment_bytes fragment)"
proof -
  have pad: "(n + pad_length n) mod 4 = 0" for n
  proof -
    obtain q k where "n = 4 * q + k" "k < 4"
      by (metis mult_div_mod_eq mod_less_divisor zero_less_numeral)
    then have "n + (4 - n mod 4) = 4 * (n div 4 + 1)" by simp
    then consider "n mod 4 = 0" | "n + (4 - n mod 4) = 4 * (n div 4 + 1)" "n mod 4 \<noteq> 0" by blast
    then show ?thesis
    proof cases
      case 2
      then have "pad_length n = 4 - n mod 4" by (simp add: pad_length_def)
      with 2 show ?thesis by (metis mod_mult_self1_is_0)
    qed (simp add: pad_length_def)
  qed
  have ge: "4 \<le> 2 * (length fragment + 1) + pad_length (2 * (length fragment + 1))"
    if "fragment \<noteq> []"
    using that by (cases fragment) simp_all
  show "length (fragment_bytes fragment) mod 4 = 0"
    using pad [of "2 * (length fragment + 1)"]
    by (simp add: fragment_bytes_def length_u16_string)
  show "4 \<le> length (fragment_bytes fragment)"
    using ge by (simp add: fragment_bytes_def length_u16_string)
qed



section \<open>Records\<close>

fun node_size :: "mnode \<Rightarrow> nat" where
  "node_size (MNode fragment hash acc cone node children) =
     16 + 4 * bucketCount_of (length children) + length (fragment_bytes fragment) +
     sum_list (map (\<lambda>kv. node_size (snd kv)) children)"

definition children_size :: "(wstr \<times> mnode) list \<Rightarrow> nat" where
  "children_size children = sum_list (map (\<lambda>kv. node_size (snd kv)) children)"

lemma sum_list_dvd: "(\<And>x. x \<in> set xs \<Longrightarrow> d dvd f x) \<Longrightarrow> d dvd sum_list (map f xs :: nat list)"
  by (induction xs) simp_all

lemma node_size_mod4: "node_size n mod 4 = 0"
proof (induction n rule: node_size.induct)
  case (1 fragment hash acc cone node children)
  then have "4 dvd sum_list (map (\<lambda>kv. node_size (snd kv)) children)"
    by (intro sum_list_dvd) (simp add: mod_eq_0_iff_dvd)
  moreover have "4 dvd length (fragment_bytes fragment)"
    using length_fragment_bytes(1) by (simp add: mod_eq_0_iff_dvd)
  ultimately show ?case by (simp add: mod_eq_0_iff_dvd)
qed

lemma node_size_ge: "20 \<le> node_size n"
proof (cases n)
  case (MNode fragment hash acc cone node children)
  with length_fragment_bytes(2) [of fragment] show ?thesis by simp
qed

lemma children_size_ge: "20 * length children \<le> children_size children"
proof (induction children)
  case (Cons kv children)
  then show ?case using node_size_ge [of "snd kv"] by (simp add: children_size_def)
qed (simp add: children_size_def)

text \<open>What a buffer holds at the address of a record.\<close>

definition record_head :: "mnode \<Rightarrow> u32 list \<Rightarrow> bytes" where
  "record_head n offsets =
     u32_le (node_hash n) @ u32_le (conePolicy n) @ u32_le (nodePolicy n) @
     u32_le (of_nat (length offsets)) @ table_bytes offsets @
     fragment_bytes (normalizedFragment n)"

function record_at :: "bytes \<Rightarrow> nat \<Rightarrow> mnode \<Rightarrow> bool" where
  "record_at mem r (MNode fragment hash acc cone node children) \<longleftrightarrow>
     (\<exists>offsets cs.
        length offsets = bucketCount_of (length children) \<and> length offsets < 2 ^ 32 \<and>
        length cs = length children \<and>
        bytes_at mem r (record_head (MNode fragment hash acc cone node children) offsets) \<and>
        (children \<noteq> [] \<longrightarrow>
           buckets_hold offsets (rev (zip (map (\<lambda>kv. node_hash (snd kv)) children) cs))) \<and>
        (\<forall>p \<in> set (zip cs children). record_at mem (r + unat (fst p)) (snd (snd p))))"
  by pat_completeness auto
termination
proof (relation "measure (\<lambda>(mem, r, n). size n)", goal_cases)
  case (2 mem r fragment hash acc cone node children offsets cs p)
  then have "snd p \<in> set children"
    by (metis prod.collapse set_zip_rightD)
  then have "size (snd (snd p)) \<le> size_list (size_prod (\<lambda>x. 0) size) children"
    by (intro size_list_estimation' [where y = "size (snd (snd p))"]) (auto simp: size_prod_def split: prod.split)
  then show ?case by simp
qed simp

lemma bucketCount_of_ge: "n \<le> bucketCount_of n"
  by (simp add: bucketCount_of_def)

lemma bucketCount_of_0_iff [simp]: "bucketCount_of n = 0 \<longleftrightarrow> n = 0"
  using bucketCount_of_ge [of n] by (auto simp: bucketCount_of_def)

lemma bucketCount_of_0 [simp]: "bucketCount_of 0 = 0"
  by simp

lemma storable_of_nat:
  assumes "0 < k" "k < 2 ^ 32" "k mod 4 = 0"
  shows "storable (of_nat k)"
proof -
  have "unat (of_nat k :: u32) = k" using assms(2) by (simp add: unat_of_nat)
  moreover have mask: "ChainMask = mask 2" by (simp add: ChainMask_def mask_eq_exp_minus_1)
  ultimately have "unat (of_nat k AND ChainMask :: u32) = k mod 2 ^ 2"
    unfolding mask take_bit_eq_mask [symmetric] unsigned_take_bit_eq by (simp add: take_bit_eq_mod)
  with assms(3) have "of_nat k AND ChainMask = 0" by (simp add: unat_eq_0)
  with assms(1) \<open>unat (of_nat k :: u32) = k\<close> show ?thesis by (auto simp: storable_def)
qed


lemma node_size_unfold:
  "node_size n = 16 + 4 * bucketCount_of (length (node_children n)) +
     length (fragment_bytes (normalizedFragment n)) + children_size (node_children n)"
  by (cases n) (simp add: children_size_def)

lemma children_size_Cons: "children_size ((k, c) # kvs) = node_size c + children_size kvs"
  by (simp add: children_size_def)

definition writes_node :: "mnode \<Rightarrow> bytes \<Rightarrow> bytes \<Rightarrow> bool" where
  "writes_node n out ext \<longleftrightarrow> SerializeNode n out = Some (out @ ext) \<and> length ext = node_size n \<and>
     (\<forall>mem r. bytes_at mem r ext \<longrightarrow> record_at mem r n)"

text \<open>The loop over the children, given that each child is written correctly.\<close>

lemma SerializeChildren_spec:
  assumes "\<forall>c \<in> snd ` set kvs. \<forall>out. length out mod 4 = 0 \<longrightarrow> node_size c < 2 ^ 32 \<longrightarrow>
      (\<exists>ext. writes_node c out ext)"
    and "buckets_hold offs old" "length old + length kvs \<le> length offs"
    and "length out mod 4 = 0" "nodeStart mod 4 = 0" "nodeStart < length out"
    and "length out - nodeStart + children_size kvs < 2 ^ 32"
  shows "\<exists>offs' ext cs. SerializeChildren nodeStart kvs offs out = Some (offs', out @ ext) \<and>
      length offs' = length offs \<and> length cs = length kvs \<and> length ext = children_size kvs \<and>
      buckets_hold offs' (rev (zip (map (\<lambda>kv. node_hash (snd kv)) kvs) cs) @ old) \<and>
      (\<forall>mem r. bytes_at mem (r + (length out - nodeStart)) ext \<longrightarrow>
         (\<forall>p \<in> set (zip cs kvs). record_at mem (r + unat (fst p)) (snd (snd p))))"
  using assms
proof (induction kvs arbitrary: offs old out)
  case Nil
  then show ?case by (intro exI [of _ offs] exI [of _ "[]"]) (simp add: children_size_def)
next
  case (Cons kv kvs)
  obtain k c where kv: "kv = (k, c)" by (cases kv)
  define base where "base = length out - nodeStart"
  define off where "off = (of_nat base :: u32)"
  have total: "base + (node_size c + children_size kvs) < 2 ^ 32"
    using Cons.prems(7) by (simp add: base_def kv children_size_Cons)
  then have small: "base < 2 ^ 32" "node_size c < 2 ^ 32" by simp_all
  have off: "unat off = base" unfolding off_def using small(1) by (simp add: unat_of_nat)
  have "4 dvd base"
    unfolding base_def using Cons.prems(4,5) by (intro dvd_diff_nat) (simp_all add: mod_eq_0_iff_dvd)
  then have ok: "storable off"
    unfolding off_def using small(1) Cons.prems(6)
    by (intro storable_of_nat) (simp_all add: base_def mod_eq_0_iff_dvd)
  obtain offs1 where ins: "insert_child offs (node_hash c) off = Some offs1"
    "length offs1 = length offs" "buckets_hold offs1 ((node_hash c, off) # old)"
    using buckets.place_holds [OF Cons.prems(2) _ ok, of "node_hash c"] Cons.prems(3) by auto
  have "c \<in> snd ` set (kv # kvs)" by (simp add: kv)
  from bspec [OF Cons.prems(1) this, rule_format, OF Cons.prems(4) small(2)]
  obtain ext1 where ext1: "writes_node c out ext1" by auto
  have len1: "length ext1 = node_size c" using ext1 by (simp add: writes_node_def)
  let ?out1 = "out @ ext1"
  have align: "length ?out1 mod 4 = 0"
    using Cons.prems(4) node_size_mod4 [of c] len1 by (simp add: mod_eq_0_iff_dvd)
  have base1: "length ?out1 - nodeStart = base + node_size c"
    using Cons.prems(6) len1 by (simp add: base_def)
  have start: "nodeStart < length ?out1" using Cons.prems(6) by simp
  have room: "length ((node_hash c, off) # old) + length kvs \<le> length offs1"
    using Cons.prems(3) ins(2) by simp
  have bound: "length ?out1 - nodeStart + children_size kvs < 2 ^ 32"
    using total by (simp only: base1 add.assoc)
  have kids: "\<forall>c \<in> snd ` set kvs. \<forall>out. length out mod 4 = 0 \<longrightarrow> node_size c < 2 ^ 32 \<longrightarrow>
      (\<exists>ext. writes_node c out ext)"
    using Cons.prems(1) by simp
  obtain offs' ext cs where IH:
    "SerializeChildren nodeStart kvs offs1 ?out1 = Some (offs', ?out1 @ ext)"
    "length offs' = length offs1" "length cs = length kvs" "length ext = children_size kvs"
    "buckets_hold offs' (rev (zip (map (\<lambda>kv. node_hash (snd kv)) kvs) cs) @
       (node_hash c, off) # old)"
    "\<forall>mem r. bytes_at mem (r + (base + node_size c)) ext \<longrightarrow>
       (\<forall>p \<in> set (zip cs kvs). record_at mem (r + unat (fst p)) (snd (snd p)))"
    using Cons.IH [OF kids ins(3) room align Cons.prems(5) start bound] unfolding base1 by blast
  obtain i offs0 where place: "place_child offs (node_hash c) = Some (i, offs0)"
    "offs1 = offs0[i := off]"
    using ins(1) by (auto simp: insert_child_def split: option.splits)
  have "SerializeChildren nodeStart (kv # kvs) offs out = Some (offs', out @ ext1 @ ext)"
    using place ext1 IH(1) unfolding writes_node_def off_def base_def
    by (simp add: kv Let_def del: of_nat_diff)
  moreover have "\<forall>p \<in> set (zip (off # cs) (kv # kvs)). record_at mem (r + unat (fst p)) (snd (snd p))"
    if "bytes_at mem (r + base) (ext1 @ ext)" for mem r
  proof -
    from that have "bytes_at mem (r + base) ext1" "bytes_at mem (r + (base + node_size c)) ext"
      by (simp_all add: bytes_at_append len1 add.assoc)
    with IH(6) ext1 show ?thesis by (simp add: writes_node_def kv off)
  qed
  ultimately show ?case
    using IH(2-5) ins(2) len1
    by (intro exI [of _ offs'] exI [of _ "ext1 @ ext"] exI [of _ "off # cs"])
      (simp add: kv children_size_Cons base_def)
qed


theorem SerializeNode_writes:
  assumes "length out mod 4 = 0" "node_size n < 2 ^ 32"
  shows "\<exists>ext. writes_node n out ext"
  using assms
proof (induction n arbitrary: out rule: node_size.induct)
  case (1 fragment hash acc cone node children)
  let ?n = "MNode fragment hash acc cone node children"
  define B where "B = bucketCount_of (length children)"
  define hd where "hd = u32_le hash @ u32_le cone @ u32_le node @ u32_le (of_nat B)"
  have fit: "16 + 4 * B + length (fragment_bytes fragment) + children_size children < 2 ^ 32"
    using 1(3) by (simp add: B_def children_size_def)
  then have B: "B < 2 ^ 32" by simp
  have kids: "length children < 2 ^ 32"
    using bucketCount_of_ge [of "length children"] B unfolding B_def by linarith
  have count: "unat (of_nat (length children) :: u32) = length children"
    using kids by (simp add: unat_of_nat)
  let ?out4 = "out @ hd @ replicate (4 * B) 0 @ fragment_bytes fragment"
  have head: "PutU32 (PutU32 (PutU32 (PutU32 out hash) cone) node) (of_nat B) = out @ hd"
    by (simp add: PutU32_eq hd_def)
  have len_hd: "length hd = 16" by (simp add: hd_def)
  have aligned: "length (out @ hd @ replicate (4 * B) 0) mod 4 = 0"
    using 1(2) len_hd by (simp add: mod_eq_0_iff_dvd)
  have frag: "PutFragment (out @ hd @ replicate (4 * B) 0) fragment = ?out4"
    using PutFragment_eq [OF aligned, of fragment] by simp
  have eq: "SerializeNode ?n out = (if B = 0 then Some ?out4 else
     (case SerializeChildren (length out) children (replicate B 0) ?out4 of
        None \<Rightarrow> None
      | Some (offsets, out') \<Rightarrow> Some (PatchOffsets out' (length (out @ hd)) offsets)))"
  proof -
    have bc: "(if length children = 0 then 0 else bucketCount_of (length children)) = B"
      by (simp add: B_def bucketCount_of_def)
    show ?thesis
      unfolding SerializeNode.simps Let_def count bc head zeros_eq append_assoc frag [simplified]
      by (rule refl)
  qed
  have rec_head: "record_head ?n offsets = hd @ table_bytes offsets @ fragment_bytes fragment"
    if "length offsets = B" for offsets
    using that by (simp add: record_head_def hd_def)
  show ?case
  proof (cases "children = []")
    case True
    then have "B = 0" by (simp add: B_def)
    moreover have "record_at mem r ?n"
      if "bytes_at mem r (hd @ fragment_bytes fragment)" for mem r
      using that True rec_head [of "[]"] by (auto simp: table_bytes_def B_def bucketCount_of_def)
    ultimately show ?thesis
      using eq True len_hd by (auto simp: writes_node_def B_def)
  next
    case False
    then have "0 < B" by (metis B_def bucketCount_of_0_iff length_0_conv neq0_conv)
    have hold: "buckets_hold (replicate B 0) []"
      using buckets.holds_empty [OF \<open>0 < B\<close>] by simp
    have room: "length ([] :: (u32 \<times> u32) list) + length children \<le> length (replicate B 0)"
      using bucketCount_of_ge by (simp add: B_def)
    have al4: "length ?out4 mod 4 = 0"
      using 1(2) len_hd length_fragment_bytes(1) [of fragment] by (simp add: mod_eq_0_iff_dvd)
    have base: "length ?out4 - length out = 16 + 4 * B + length (fragment_bytes fragment)"
      by (simp add: len_hd)
    have bound: "length ?out4 - length out + children_size children < 2 ^ 32"
      using fit by (simp only: base)
    have child: "\<forall>c \<in> snd ` set children. \<forall>out. length out mod 4 = 0 \<longrightarrow>
        node_size c < 2 ^ 32 \<longrightarrow> (\<exists>ext. writes_node c out ext)"
      using 1(1) by auto
    have lt: "length out < length ?out4" by (simp add: len_hd)
    from SerializeChildren_spec [OF child hold room al4 1(2) lt bound]
    obtain offs ext cs where
      ser: "SerializeChildren (length out) children (replicate B 0) ?out4 = Some (offs, ?out4 @ ext)"
      and len: "length offs = B" "length cs = length children" "length ext = children_size children"
      and holds: "buckets_hold offs (rev (zip (map (\<lambda>kv. node_hash (snd kv)) children) cs) @ [])"
      and recs: "\<And>mem r. bytes_at mem (r + (length ?out4 - length out)) ext \<Longrightarrow>
         \<forall>p \<in> set (zip cs children). record_at mem (r + unat (fst p)) (snd (snd p))"
      by auto
    let ?ext = "hd @ table_bytes offs @ fragment_bytes fragment @ ext"
    have "PatchOffsets (?out4 @ ext) (length (out @ hd)) offs = out @ ?ext"
      using PatchOffsets_eq [of "replicate (4 * B) 0" offs "out @ hd" "fragment_bytes fragment @ ext"]
      by (simp add: len)
    then have "SerializeNode ?n out = Some (out @ ?ext)"
      using \<open>0 < B\<close> ser by (simp add: eq del: SerializeNode.simps)
    moreover have "record_at mem r ?n" if "bytes_at mem r ?ext" for mem r
    proof -
      have "bytes_at mem r (record_head ?n offs)"
        using that by (simp add: rec_head [OF len(1)] bytes_at_append)
      moreover have "bytes_at mem (r + (length ?out4 - length out)) ext"
        using that by (simp add: bytes_at_append len_hd len ac_simps)
      ultimately show ?thesis
        unfolding record_at.simps
        by - (rule exI [where x = offs], rule exI [where x = cs],
          use recs [of mem r] holds len B in \<open>simp add: B_def\<close>)
    qed
    ultimately show ?thesis
      using len len_hd by (intro exI [of _ ?ext]) (simp add: writes_node_def B_def children_size_def)
  qed
qed

section \<open>Properties\<close>

text \<open>
  \<open>SerializeNode\<close> writes a relocatable record. On a 4-byte aligned buffer it always returns, only
  appends, keeps the alignment, and writes exactly \<open>node_size\<close> bytes; wherever those bytes end up
  in memory, they are the record of the node: header, hash table that holds every child's offset
  without disturbing its flag bits, fragment and the children's records.
\<close>
theorem serialize_node_relocatable:
  assumes "length out mod 4 = 0" "node_size n < 2 ^ 32"
  shows "\<exists>ext. SerializeNode n out = Some (out @ ext) \<and> length ext = node_size n \<and>
    length (out @ ext) mod 4 = 0 \<and> (\<forall>mem r. bytes_at mem r ext \<longrightarrow> record_at mem r n)"
proof -
  obtain ext where "writes_node n out ext" using SerializeNode_writes [OF assms] by blast
  moreover have "(length out + node_size n) mod 4 = 0"
    using assms(1) node_size_mod4 [of n] by (simp add: mod_eq_0_iff_dvd)
  ultimately show ?thesis by (auto simp: writes_node_def)
qed

theorem serialize_node_relocatable_witness:
  "\<exists>ext. SerializeNode (MNode [] 0 default_acc 1 2 [(wide ''A'', fresh_node (wide ''A'') 7)]) [0, 0, 0, 0] =
     Some ([0, 0, 0, 0] @ ext) \<and> length ext = 44"
proof -
  let ?n = "MNode [] 0 default_acc 1 2 [(wide ''A'', fresh_node (wide ''A'') 7)]"
  have sz: "node_size ?n = 44"
    by (simp add: fresh_node_def bucketCount_of_def fragment_bytes_def length_u16_string pad_length_def)
  show ?thesis using serialize_node_relocatable [of "[0, 0, 0, 0]" ?n] unfolding sz by auto
qed

end
