(* ===== verification/Policy_Search.thy ===== *)
theory Policy_Search
  imports Manifest_Serialize
begin

text \<open>
  The DLL's search of the policy tree in the bytes of the manifest:
  \<open>vendor/detours-services/PolicySearch.{h,cpp}\<close>, and the accessors of \<open>ManifestRecord\<close> in
  \<open>DataTypes.h\<close>. A record is its address in the buffer; every read that could leave the buffer is
  an \<open>option\<close>. The main lemma is the refinement of the tree: where the buffer holds a node of the
  builder, the search of a path ends at the record of the node that \<open>tree_search\<close> finds for the
  path's tokens.
\<close>

section \<open>Records\<close>

definition rec_Hash :: "bytes \<Rightarrow> nat \<Rightarrow> u32 option" where
  "rec_Hash mem r = rd_u32 mem r"

definition GetConePolicy :: "bytes \<Rightarrow> nat \<Rightarrow> u32 option" where
  "GetConePolicy mem r = rd_u32 mem (r + 4)"

definition GetNodePolicy :: "bytes \<Rightarrow> nat \<Rightarrow> u32 option" where
  "GetNodePolicy mem r = rd_u32 mem (r + 8)"

definition rec_BucketCount :: "bytes \<Rightarrow> nat \<Rightarrow> u32 option" where
  "rec_BucketCount mem r = rd_u32 mem (r + 12)"

definition rec_Buckets :: "bytes \<Rightarrow> nat \<Rightarrow> nat \<Rightarrow> u32 option" where
  "rec_Buckets mem r index = rd_u32 mem (r + 16 + 4 * index)"

text \<open>\<open>Some None\<close> is the null pointer.\<close>

definition GetChildRecord :: "bytes \<Rightarrow> nat \<Rightarrow> nat \<Rightarrow> nat option option" where
  "GetChildRecord mem r index =
     (case rec_Buckets mem r index of
        None \<Rightarrow> None
      | Some childOffset \<Rightarrow>
          if childOffset = 0 then Some None
          else Some (Some (r + unat (childOffset AND NOT ChainMask))))"

definition IsCollisionChainStart :: "bytes \<Rightarrow> nat \<Rightarrow> nat \<Rightarrow> bool option" where
  "IsCollisionChainStart mem r index =
     map_option (\<lambda>childOffset. childOffset AND kChainStart \<noteq> 0) (rec_Buckets mem r index)"

definition IsCollisionChainContinuation :: "bytes \<Rightarrow> nat \<Rightarrow> nat \<Rightarrow> bool option" where
  "IsCollisionChainContinuation mem r index =
     map_option (\<lambda>childOffset. childOffset AND kChainContinuation \<noteq> 0) (rec_Buckets mem r index)"

definition GetPartialPath :: "bytes \<Rightarrow> nat \<Rightarrow> nat option" where
  "GetPartialPath mem r = map_option (\<lambda>numBuckets. r + 16 + 4 * unat numBuckets) (rec_BucketCount mem r)"

text \<open>\<open>ArePathsEqual\<close>: the characters left of the path, and where the normalised path goes on.\<close>

fun ArePathsEqual :: "bytes \<Rightarrow> wstr \<Rightarrow> nat \<Rightarrow> bool option" where
  "ArePathsEqual mem [] a = map_option (\<lambda>d. d = 0) (rd_u16 mem a)"
| "ArePathsEqual mem (p # path) a =
     (case rd_u16 mem a of
        None \<Rightarrow> None
      | Some d \<Rightarrow> if NormalizePathChar p \<noteq> d then Some False else ArePathsEqual mem path (a + 2))"

text \<open>\<open>child->Hash == hash && ArePathsEqual(target, child->GetPartialPath(), targetLength)\<close>\<close>

definition child_matches :: "bytes \<Rightarrow> wstr \<Rightarrow> u32 \<Rightarrow> nat \<Rightarrow> bool option" where
  "child_matches mem target hash child =
     (case rec_Hash mem child of
        None \<Rightarrow> None
      | Some h \<Rightarrow>
          if h \<noteq> hash then Some False
          else (case GetPartialPath mem child of
                  None \<Rightarrow> None
                | Some a \<Rightarrow> ArePathsEqual mem target a))"

text \<open>The \<open>do ... while\<close> of \<open>FindChild\<close>; the first argument bounds the rounds.\<close>

fun FindChild_loop :: "nat \<Rightarrow> bytes \<Rightarrow> nat \<Rightarrow> nat \<Rightarrow> wstr \<Rightarrow> u32 \<Rightarrow> nat \<Rightarrow> nat option option" where
  "FindChild_loop 0 mem r numBuckets target hash index = None"
| "FindChild_loop (Suc rounds) mem r numBuckets target hash index =
     (let index = (index + 1) mod numBuckets in
      case GetChildRecord mem r index of
        Some (Some child) \<Rightarrow>
          (case child_matches mem target hash child of
             None \<Rightarrow> None
           | Some True \<Rightarrow> Some (Some child)
           | Some False \<Rightarrow>
               (case IsCollisionChainContinuation mem r index of
                  None \<Rightarrow> None
                | Some True \<Rightarrow> FindChild_loop rounds mem r numBuckets target hash index
                | Some False \<Rightarrow> Some None))
      | _ \<Rightarrow> None)"

definition FindChild :: "bytes \<Rightarrow> nat \<Rightarrow> wstr \<Rightarrow> nat option option" where
  "FindChild mem r target =
     (let hash = HashPath target in
      case rec_BucketCount mem r of
        None \<Rightarrow> None
      | Some bucketCount \<Rightarrow>
          (let numBuckets = unat bucketCount; index = unat hash mod numBuckets in
           if numBuckets = 0 then None
           else (case GetChildRecord mem r index of
                   None \<Rightarrow> None
                 | Some None \<Rightarrow> Some None
                 | Some (Some child) \<Rightarrow>
                     (case child_matches mem target hash child of
                        None \<Rightarrow> None
                      | Some True \<Rightarrow> Some (Some child)
                      | Some False \<Rightarrow>
                          (case IsCollisionChainStart mem r index of
                             None \<Rightarrow> None
                           | Some False \<Rightarrow> Some None
                           | Some True \<Rightarrow>
                               FindChild_loop numBuckets mem r numBuckets target hash index)))))"


section \<open>The search\<close>

datatype PolicySearchCursor = PolicySearchCursor
  (cur_Record: "nat option")
  (cur_Level: nat)
  (cur_Parent: "PolicySearchCursor option")
  (SearchWasTruncated: bool)

definition invalid_cursor :: PolicySearchCursor where
  "invalid_cursor = PolicySearchCursor None 0 None True"

definition start_cursor :: "nat \<Rightarrow> PolicySearchCursor" where
  "start_cursor r = PolicySearchCursor (Some r) 0 None False"

definition GetPartialPathAndRemainder :: "wstr \<Rightarrow> nat \<times> wstr" where
  "GetPartialPathAndRemainder absolutePath =
     (let lead = length (takeWhile IsDirectorySeparator absolutePath);
          found = lead + length (takeWhile (\<lambda>c. \<not> IsDirectorySeparator c) (drop lead absolutePath))
      in if found < length absolutePath then (found, drop (found + 1) absolutePath)
         else (found, drop found absolutePath))"

lemma remainder_shorter:
  "path \<noteq> [] \<Longrightarrow> length (snd (GetPartialPathAndRemainder path)) < length path"
  by (cases path) (auto simp: GetPartialPathAndRemainder_def Let_def)

function FindFileAccessPolicyInTreeEx ::
    "bytes \<Rightarrow> PolicySearchCursor \<Rightarrow> wstr \<Rightarrow> PolicySearchCursor option" where
  "FindFileAccessPolicyInTreeEx mem cursor absolutePath =
     (if SearchWasTruncated cursor then Some cursor
      else (case cur_Record cursor of
              None \<Rightarrow> None
            | Some r \<Rightarrow>
                (case rec_BucketCount mem r of
                   None \<Rightarrow> None
                 | Some numBuckets \<Rightarrow>
                     if numBuckets = 0 \<or> absolutePath = []
                     then Some (PolicySearchCursor (Some r) (cur_Level cursor) (cur_Parent cursor)
                                  (absolutePath \<noteq> []))
                     else (let (partialPathLength, remainder) = GetPartialPathAndRemainder absolutePath
                           in case FindChild mem r (take partialPathLength absolutePath) of
                                None \<Rightarrow> None
                              | Some None \<Rightarrow>
                                  Some (PolicySearchCursor (Some r) (cur_Level cursor)
                                          (cur_Parent cursor) True)
                              | Some (Some childRecord) \<Rightarrow>
                                  FindFileAccessPolicyInTreeEx mem
                                    (PolicySearchCursor (Some childRecord) (cur_Level cursor + 1)
                                       (Some cursor) False)
                                    remainder))))"
  by pat_completeness auto
termination
proof (relation "measure (\<lambda>(mem, cursor, path). length path)", goal_cases)
  case (2 mem cursor path r numBuckets pr partialPathLength remainder)
  then have "path \<noteq> []" "remainder = snd (GetPartialPathAndRemainder path)"
    by (auto dest: sym)
  with remainder_shorter show ?case by simp
qed simp

declare FindFileAccessPolicyInTreeEx.simps [simp del]



section \<open>One record\<close>

lemma record_reads:
  assumes "bytes_at mem r (record_head n offsets)" "length offsets < 2 ^ 32"
  shows "rec_Hash mem r = Some (node_hash n)"
    "GetConePolicy mem r = Some (conePolicy n)"
    "GetNodePolicy mem r = Some (nodePolicy n)"
    "rec_BucketCount mem r = Some (of_nat (length offsets))"
    "unat (of_nat (length offsets) :: u32) = length offsets"
    "bytes_at mem (r + 16) (table_bytes offsets)"
    "GetPartialPath mem r = Some (r + 16 + 4 * length offsets)"
    "bytes_at mem (r + 16 + 4 * length offsets) (fragment_bytes (normalizedFragment n))"
proof -
  have parts: "bytes_at mem r (u32_le (node_hash n))" "bytes_at mem (r + 4) (u32_le (conePolicy n))"
    "bytes_at mem (r + 8) (u32_le (nodePolicy n))"
    "bytes_at mem (r + 12) (u32_le (of_nat (length offsets)))"
    and table: "bytes_at mem (r + 16) (table_bytes offsets)"
    and frag: "bytes_at mem (r + 16 + 4 * length offsets) (fragment_bytes (normalizedFragment n))"
    using assms(1) by (simp_all add: record_head_def bytes_at_append add.assoc)
  show small: "unat (of_nat (length offsets) :: u32) = length offsets"
    using assms(2) by (simp add: unat_of_nat)
  show "rec_Hash mem r = Some (node_hash n)" "GetConePolicy mem r = Some (conePolicy n)"
    "GetNodePolicy mem r = Some (nodePolicy n)"
    "rec_BucketCount mem r = Some (of_nat (length offsets))"
    "GetPartialPath mem r = Some (r + 16 + 4 * length offsets)"
    unfolding GetPartialPath_def rec_Hash_def GetConePolicy_def GetNodePolicy_def rec_BucketCount_def
    using parts [THEN rd_u32_bytes_at] small by simp_all
qed (use assms(1) in \<open>simp_all add: record_head_def bytes_at_append add.assoc\<close>)

lemma rec_Buckets_table:
  assumes "bytes_at mem (r + 16) (table_bytes offsets)" "i < length offsets"
  shows "rec_Buckets mem r i = Some (offsets ! i)"
proof -
  have "table_bytes offsets =
      table_bytes (take i offsets) @ u32_le (offsets ! i) @ table_bytes (drop (Suc i) offsets)"
    by (subst id_take_nth_drop [OF assms(2)]) (simp add: table_bytes_def)
  with assms have "bytes_at mem (r + 16 + 4 * i) (u32_le (offsets ! i))"
    by (simp add: bytes_at_append)
  then show ?thesis by (simp add: rec_Buckets_def rd_u32_bytes_at)
qed

lemma ArePathsEqual_spec:
  assumes "bytes_at mem a (concat (map u16_le (k @ [0])))" "0 \<notin> set k" "0 \<notin> set t"
  shows "ArePathsEqual mem t a = Some (map towupper t = k)"
  using assms
proof (induction t arbitrary: a k)
  case Nil
  then show ?case by (cases k) (auto simp: bytes_at_append rd_u16_bytes_at)
next
  case (Cons c t)
  have c: "towupper c \<noteq> 0" using Cons.prems(3) by auto
  show ?case
  proof (cases k)
    case Nil
    with Cons.prems(1) have "rd_u16 mem a = Some 0" by (simp add: rd_u16_bytes_at)
    with c Nil show ?thesis by (simp add: NormalizePathChar_def)
  next
    case (Cons d k')
    with Cons.prems(1) have "rd_u16 mem a = Some d"
      "bytes_at mem (a + 2) (concat (map u16_le (k' @ [0])))"
      by (simp_all add: bytes_at_append rd_u16_bytes_at)
    with Cons Cons.IH [of "a + 2" k'] Cons.prems(2,3) show ?thesis
      by (simp add: NormalizePathChar_def)
  qed
qed

lemma fragment_bytes_NUL:
  "fragment \<noteq> [] \<Longrightarrow> bytes_at mem a (fragment_bytes fragment) \<Longrightarrow>
     bytes_at mem a (concat (map u16_le (fragment @ [0])))"
  by (simp add: fragment_bytes_def bytes_at_append)

text \<open>What the test of a child says about a record that holds a well-formed child.\<close>

lemma child_matches_spec:
  assumes "record_at mem r c" "key_ok k" "normalizedFragment c = k" "node_hash c = HashPath k"
    "0 \<notin> set t"
  shows "child_matches mem t (HashPath t) r = Some (map towupper t = k)"
proof -
  obtain offsets where head: "bytes_at mem r (record_head c offsets)" "length offsets < 2 ^ 32"
    using assms(1) by (cases c) (auto simp del: record_head_def)
  note R = record_reads [OF head]
  have k: "k \<noteq> []" "0 \<notin> set k" using assms(2) by (auto simp: key_ok_def)
  have "ArePathsEqual mem t (r + 16 + 4 * length offsets) = Some (map towupper t = k)"
    using R(8) k assms(3,5) by (intro ArePathsEqual_spec fragment_bytes_NUL) auto
  moreover have "map towupper t = k \<Longrightarrow> HashPath k = HashPath t"
    by (metis HashPath_towupper)
  ultimately show ?thesis
    using R(1,7) assms(4) by (auto simp: child_matches_def)
qed

text \<open>The probe over the bytes is the probe over the list of buckets.\<close>

lemma FindChild_loop_eq:
  assumes table: "bytes_at mem (r + 16) (table_bytes offsets)" and "offsets \<noteq> []"
    and test: "\<And>w. w \<in> set offsets \<Longrightarrow> w \<noteq> 0 \<Longrightarrow>
      child_matches mem t hash (r + unat (chain_base w)) = Some (P (chain_base w))"
  shows "FindChild_loop rounds mem r (length offsets) t hash i =
     map_option (map_option (\<lambda>x. r + unat x)) (probe_chain rounds P offsets i)"
proof (induction rounds arbitrary: i)
  case (Suc rounds)
  let ?i = "(i + 1) mod length offsets"
  have i: "?i < length offsets" using assms(2) by simp
  then have "offsets ! ?i \<in> set offsets" by simp
  note test = test [OF this]
  show ?case
    using rec_Buckets_table [OF table i] test Suc
    by (auto simp: Let_def GetChildRecord_def IsCollisionChainContinuation_def
        chain_continuation_def chain_base_def split: option.splits)
qed simp

lemma FindChild_eq:
  assumes head: "bytes_at mem r (record_head n offsets)" "length offsets < 2 ^ 32" and "offsets \<noteq> []"
    and test: "\<And>w. w \<in> set offsets \<Longrightarrow> w \<noteq> 0 \<Longrightarrow>
      child_matches mem t (HashPath t) (r + unat (chain_base w)) = Some (P (chain_base w))"
  shows "FindChild mem r t =
     map_option (map_option (\<lambda>x. r + unat x)) (probe_buckets P offsets (HashPath t))"
proof -
  note R = record_reads [OF head]
  let ?i = "unat (HashPath t) mod length offsets"
  have i: "?i < length offsets" using assms(3) by simp
  then have w: "offsets ! ?i \<in> set offsets" by simp
  have loop: "FindChild_loop (length offsets) mem r (length offsets) t (HashPath t) ?i =
     map_option (map_option (\<lambda>x. r + unat x)) (probe_chain (length offsets) P offsets ?i)"
    by (rule FindChild_loop_eq [OF R(6) assms(3) test])
  show ?thesis
    using rec_Buckets_table [OF R(6) i] test [OF w] R(4,5) assms(3) loop
    by (auto simp: FindChild_def probe_buckets_def Let_def GetChildRecord_def
        IsCollisionChainStart_def chain_start_def chain_base_def split: option.splits)
qed


lemma child_find_nth:
  assumes "sorted_wrt (<) (map fst kvs)" "i < length kvs"
  shows "child_find (fst (kvs ! i)) kvs = Some (snd (kvs ! i))"
  using assms
proof (induction kvs arbitrary: i)
  case (Cons kv kvs)
  have "\<forall>x \<in> set kvs. fst kv < fst x" using Cons.prems(1) by simp
  then have "fst kv \<noteq> fst (kvs ! j)" if "j < length kvs" for j
    using that by (metis less_irrefl nth_mem)
  with Cons show ?case by (cases kv; cases i) auto
qed simp

lemma FindChild_record:
  assumes rec: "record_at mem r n" and wf: "tree_wf n" and kids: "node_children n \<noteq> []"
    and t: "0 \<notin> set t"
  shows "case child_find (map towupper t) (node_children n) of
      None \<Rightarrow> FindChild mem r t = Some None
    | Some c \<Rightarrow> \<exists>r'. FindChild mem r t = Some (Some r') \<and> record_at mem r' c"
proof -
  let ?kvs = "node_children n" and ?k = "map towupper t"
  obtain offsets cs where
    len: "length offsets = bucketCount_of (length ?kvs)" "length offsets < 2 ^ 32"
      "length cs = length ?kvs"
    and head: "bytes_at mem r (record_head n offsets)"
    and holds: "buckets_hold offsets (rev (zip (map (\<lambda>kv. node_hash (snd kv)) ?kvs) cs))"
    and recs: "\<forall>p \<in> set (zip cs ?kvs). record_at mem (r + unat (fst p)) (snd (snd p))"
    using rec kids by (cases n) (auto simp del: record_head_def)
  have ne: "offsets \<noteq> []" using len(1) kids bucketCount_of_0_iff [of "length ?kvs"] by auto
  have sorted: "sorted_wrt (<) (map fst ?kvs)" using wf by (simp add: tree_wf_iff [of n])
  have child: "record_at mem (r + unat (cs ! i)) (snd (?kvs ! i))"
    "key_ok (fst (?kvs ! i))" "normalizedFragment (snd (?kvs ! i)) = fst (?kvs ! i)"
    "node_hash (snd (?kvs ! i)) = HashPath (fst (?kvs ! i))" if "i < length ?kvs" for i
  proof -
    have "(cs ! i, ?kvs ! i) \<in> set (zip cs ?kvs)" using that len(3) by (auto simp: set_zip)
    with recs show "record_at mem (r + unat (cs ! i)) (snd (?kvs ! i))" by fastforce
    have "?kvs ! i \<in> set ?kvs" using that by simp
    with wf show "key_ok (fst (?kvs ! i))" "normalizedFragment (snd (?kvs ! i)) = fst (?kvs ! i)"
      "node_hash (snd (?kvs ! i)) = HashPath (fst (?kvs ! i))"
      unfolding tree_wf_iff [of n] by blast+
  qed
  define P where "P x \<longleftrightarrow> child_matches mem t (HashPath t) (r + unat x) = Some True" for x :: u32
  have matches: "child_matches mem t (HashPath t) (r + unat (cs ! i)) = Some (?k = fst (?kvs ! i))"
    if "i < length ?kvs" for i
    by (rule child_matches_spec [OF child [OF that] t])
  let ?pairs = "rev (zip (map (\<lambda>kv. node_hash (snd kv)) ?kvs) cs)"
  have stored: "x \<in> snd ` set ?pairs \<longleftrightarrow> (\<exists>i < length ?kvs. x = cs ! i)" for x
    using len(3) by (auto simp: set_zip image_iff)
  have P_iff: "P (cs ! i) \<longleftrightarrow> ?k = fst (?kvs ! i)" if "i < length ?kvs" for i
    using matches [OF that] by (auto simp: P_def)
  have test: "child_matches mem t (HashPath t) (r + unat (chain_base w)) = Some (P (chain_base w))"
    if "w \<in> set offsets" "w \<noteq> 0" for w
  proof -
    have "chain_base w \<in> snd ` set ?pairs" using holds that by (auto simp: buckets_hold_def)
    then obtain i where "i < length ?kvs" "chain_base w = cs ! i" using stored by blast
    with matches show ?thesis by (simp add: P_def)
  qed
  have find: "FindChild mem r t =
      map_option (map_option (\<lambda>x. r + unat x)) (probe_buckets P offsets (HashPath t))"
    by (rule FindChild_eq [OF head len(2) ne test])
  show ?thesis
  proof (cases "\<exists>i < length ?kvs. fst (?kvs ! i) = ?k")
    case True
    then obtain i where i: "i < length ?kvs" "fst (?kvs ! i) = ?k" by blast
    have found: "child_find ?k ?kvs = Some (snd (?kvs ! i))"
      using child_find_nth [OF sorted i(1)] i(2) by simp
    have "(HashPath t, cs ! i) \<in> set ?pairs"
      using i child(4) [OF i(1)] len(3) by (auto simp: set_zip intro!: exI [of _ i])
    moreover have "P (cs ! i)" using P_iff i by simp
    moreover have "y = cs ! i" if "y \<in> snd ` set ?pairs" "P y" for y
    proof -
      from that(1) obtain j where j: "j < length ?kvs" "y = cs ! j" using stored by blast
      with P_iff that(2) i have "map fst ?kvs ! j = map fst ?kvs ! i" by simp
      moreover have "distinct (map fst ?kvs)"
        using sorted by (simp add: strict_sorted_iff)
      ultimately have "j = i"
        using i(1) j(1) nth_eq_iff_index_eq [of "map fst ?kvs" j i] by (metis length_map)
      with j show ?thesis by simp
    qed
    ultimately have "probe_buckets P offsets (HashPath t) = Some (Some (cs ! i))"
      by (rule buckets.probe_unique [OF holds])
    with find found child(1) [OF i(1)] show ?thesis by simp
  next
    case False
    then have "?k \<notin> fst ` set ?kvs"
      by (metis (no_types, lifting) imageE in_set_conv_nth)
    then have "child_find ?k ?kvs = None" by (simp add: child_find_None)
    moreover have "\<not> P y" if "y \<in> snd ` set ?pairs" for y
      using that stored P_iff False by metis
    then have "probe_buckets P offsets (HashPath t) = Some None"
      by (rule buckets.probe_none [OF holds])
    ultimately show ?thesis by (simp add: find)
  qed
qed


section \<open>Whole paths\<close>

text \<open>The tokens the search reads from a path: the separators before a component belong to it.\<close>

function search_tokens :: "wstr \<Rightarrow> wstr list" where
  "search_tokens path =
     (if path = [] then []
      else take (fst (GetPartialPathAndRemainder path)) path #
             search_tokens (snd (GetPartialPathAndRemainder path)))"
  by pat_completeness auto
termination by (relation "measure length") (use remainder_shorter in auto)

declare search_tokens.simps [simp del]

definition search_keys :: "wstr \<Rightarrow> wstr list" where
  "search_keys path = map (map towupper) (search_tokens path)"

lemma set_remainder: "set (snd (GetPartialPathAndRemainder path)) \<subseteq> set path"
  by (auto simp: GetPartialPathAndRemainder_def Let_def dest: in_set_dropD)

fun tree_depth :: "wstr list \<Rightarrow> mnode \<Rightarrow> nat" where
  "tree_depth [] n = 0"
| "tree_depth (k # ks) n =
     (case child_find k (node_children n) of None \<Rightarrow> 0 | Some c \<Rightarrow> Suc (tree_depth ks c))"

definition cursor_for :: "bytes \<Rightarrow> PolicySearchCursor \<Rightarrow> mnode \<Rightarrow> bool \<Rightarrow> nat \<Rightarrow> bool" where
  "cursor_for mem cur n truncated lvl \<longleftrightarrow>
     (\<exists>r. cur_Record cur = Some r \<and> record_at mem r n) \<and>
     SearchWasTruncated cur = truncated \<and> cur_Level cur = lvl"

lemma record_BucketCount:
  assumes "record_at mem r n"
  shows "\<exists>c. rec_BucketCount mem r = Some c \<and> (c = 0 \<longleftrightarrow> node_children n = [])"
proof -
  obtain offsets where head: "bytes_at mem r (record_head n offsets)"
    and len: "length offsets < 2 ^ 32" "length offsets = bucketCount_of (length (node_children n))"
    using assms by (cases n) (auto simp del: record_head_def)
  note R = record_reads [OF head len(1)]
  have "of_nat (length offsets) = (0 :: u32) \<longleftrightarrow> length offsets = 0"
    unfolding unat_eq_0 [symmetric] R(5) ..
  also have "\<dots> \<longleftrightarrow> node_children n = []"
    using bucketCount_of_0_iff [of "length (node_children n)"] unfolding len(2) by simp
  finally show ?thesis using R(4) by blast
qed

theorem search_refines:
  assumes "record_at mem r n" "tree_wf n" "0 \<notin> set path"
  shows "\<exists>cur. FindFileAccessPolicyInTreeEx mem (PolicySearchCursor (Some r) lvl par False) path = Some cur \<and>
    cursor_for mem cur (fst (tree_search (search_keys path) n))
      (snd (tree_search (search_keys path) n)) (lvl + tree_depth (search_keys path) n)"
  using assms
proof (induction path arbitrary: r n lvl par rule: search_tokens.induct)
  case (1 path)
  note simps = FindFileAccessPolicyInTreeEx.simps [of mem _ path]
  obtain c where c: "rec_BucketCount mem r = Some c" "c = 0 \<longleftrightarrow> node_children n = []"
    using record_BucketCount [OF 1(2)] by blast
  show ?case
  proof (cases "path = []")
    case True
    with 1(2) c show ?thesis
      by (simp add: FindFileAccessPolicyInTreeEx.simps [of mem _ "[]"] cursor_for_def
          search_keys_def search_tokens.simps [of "[]"])
  next
    case ne: False
    obtain len rest where part: "GetPartialPathAndRemainder path = (len, rest)"
      by (cases "GetPartialPathAndRemainder path")
    let ?t = "take len path"
    have keys: "search_keys path = map towupper ?t # search_keys rest"
      using ne part by (simp add: search_keys_def search_tokens.simps [of path])
    have t: "0 \<notin> set ?t" "0 \<notin> set rest"
      using 1(4) set_remainder [of path] part by (auto dest: in_set_takeD)
    show ?thesis
    proof (cases "node_children n = []")
      case True
      with ne c 1(2) show ?thesis by (simp add: simps keys cursor_for_def)
    next
      case False
      note child = FindChild_record [OF 1(2,3) False t(1)]
      show ?thesis
      proof (cases "child_find (map towupper ?t) (node_children n)")
        case None
        with child ne c False part 1(2) show ?thesis
          by (simp add: simps keys cursor_for_def)
      next
        case (Some m)
        with child obtain r' where r': "FindChild mem r ?t = Some (Some r')" "record_at mem r' m"
          by auto
        have "tree_wf m" using child_wf [OF 1(3) Some] by blast
        then show ?thesis
          using 1(1) [OF ne, of r' m "Suc lvl"] r' part t(2) ne c False Some
          by (simp add: simps keys)
      qed
    qed
  qed
qed


section \<open>Clean paths, and resuming a search\<close>

text \<open>A path whose components are separated by single separators and that does not begin with one
  is read as its components.\<close>

fun clean_path :: "wstr \<Rightarrow> bool" where
  "clean_path [] = True"
| "clean_path [c] = (\<not> IsDirectorySeparator c)"
| "clean_path (c # d # p) =
     (\<not> IsDirectorySeparator c \<and>
      (if IsDirectorySeparator d then clean_path p else clean_path (d # p)))"

lemma clean_path_hd: "clean_path p \<Longrightarrow> p = [] \<or> \<not> IsDirectorySeparator (hd p)"
  by (cases p rule: clean_path.cases) auto

lemma clean_path_rest:
  "clean_path p \<Longrightarrow> clean_path (drop 1 (dropWhile (\<lambda>c. \<not> IsDirectorySeparator c) p))"
  by (induction p rule: clean_path.induct) auto

lemma GetPartialPathAndRemainder_clean:
  assumes "p = [] \<or> \<not> IsDirectorySeparator (hd p)"
  shows "GetPartialPathAndRemainder p =
    (length (takeWhile (\<lambda>c. \<not> IsDirectorySeparator c) p),
     drop 1 (dropWhile (\<lambda>c. \<not> IsDirectorySeparator c) p))"
proof -
  let ?k = "length (takeWhile (\<lambda>c. \<not> IsDirectorySeparator c) p)"
  have "takeWhile IsDirectorySeparator p = []"
    using assms by (cases p) auto
  moreover have "dropWhile (\<lambda>c. \<not> IsDirectorySeparator c) p = drop ?k p"
    by (rule dropWhile_eq_drop)
  moreover have "\<not> ?k < length p \<Longrightarrow> drop (Suc ?k) p = drop ?k p" by simp
  ultimately show ?thesis
    by (simp add: GetPartialPathAndRemainder_def Let_def)
qed

lemma search_tokens_clean: "clean_path p \<Longrightarrow> search_tokens p = components p"
proof (induction p rule: search_tokens.induct)
  case (1 p)
  show ?case
  proof (cases "p = []")
    case True
    then show ?thesis
      by (simp add: search_tokens.simps [of "[]"] components.simps [of "[]"] skip_seps_def)
  next
    case False
    have hd: "\<not> IsDirectorySeparator (hd p)" using clean_path_hd [OF 1(2)] False by simp
    then have skip: "skip_seps p = p" by (cases p) (simp_all add: skip_seps_def)
    have part: "GetPartialPathAndRemainder p = (length (path_element p), after_element p)"
      using GetPartialPathAndRemainder_clean [of p] hd
      by (simp add: path_element_def after_element_def)
    have "take (length (path_element p)) p = path_element p"
      unfolding path_element_def by (rule takeWhile_eq_take [symmetric])
    moreover have "search_tokens (after_element p) = components (after_element p)"
      using 1(1) [OF False] clean_path_rest [OF 1(2)] part by (simp add: after_element_def)
    ultimately show ?thesis
      using False part skip
      by (simp add: search_tokens.simps [of p] components.simps [of p] Let_def)
  qed
qed

lemma search_keys_clean: "clean_path p \<Longrightarrow> search_keys p = path_keys p"
  by (simp add: search_keys_def path_keys_def search_tokens_clean)

text \<open>
  A path \<open>p\<close> that does not end in a separator, then a separator and more: the first token is the
  one of \<open>p\<close>, and the remainder is the remainder of \<open>p\<close> continued, unless \<open>p\<close> has one token only.
\<close>

lemma takeWhile_append_stop:
  "\<not> P s \<Longrightarrow> takeWhile P (p @ s # q) = (if \<forall>x \<in> set p. P x then p else takeWhile P p)"
  by (induction p) auto

lemma GetPartialPathAndRemainder_append:
  assumes "p \<noteq> []" "\<not> IsDirectorySeparator (last p)" "IsDirectorySeparator s"
  shows "GetPartialPathAndRemainder (p @ s # q) =
    (fst (GetPartialPathAndRemainder p),
     if snd (GetPartialPathAndRemainder p) = [] then q
     else snd (GetPartialPathAndRemainder p) @ s # q)"
    and "fst (GetPartialPathAndRemainder p) \<le> length p"
    and "snd (GetPartialPathAndRemainder p) = [] \<Longrightarrow> fst (GetPartialPathAndRemainder p) = length p"
    and "snd (GetPartialPathAndRemainder p) \<noteq> [] \<Longrightarrow> last (snd (GetPartialPathAndRemainder p)) = last p"
proof -
  define lead where "lead = length (takeWhile IsDirectorySeparator p)"
  define body where "body = drop lead p"
  have last: "last p \<in> set p" using assms(1) by simp
  have lead_p: "takeWhile IsDirectorySeparator (p @ s # q) = takeWhile IsDirectorySeparator p"
    using assms(2) last by (metis takeWhile_append1)
  have lead_lt: "lead < length p"
  proof (rule ccontr)
    assume "\<not> ?thesis"
    then have "takeWhile IsDirectorySeparator p = p"
      unfolding lead_def by (metis not_less takeWhile_eq_take take_all)
    with last assms(2) show False by (metis set_takeWhileD)
  qed
  define k where "k = length (takeWhile (\<lambda>c. \<not> IsDirectorySeparator c) body)"
  have k_le: "k \<le> length body" unfolding k_def by (rule length_takeWhile_le)
  have len_body: "length body = length p - lead" by (simp add: body_def)
  have body_app: "drop lead (p @ s # q) = body @ s # q"
    using lead_lt by (simp add: body_def)
  have k_app: "length (takeWhile (\<lambda>c. \<not> IsDirectorySeparator c) (body @ s # q)) = k"
    using assms(3) by (simp add: takeWhile_append_stop k_def)
      (metis takeWhile_eq_all_conv)
  have full: "GetPartialPathAndRemainder (p @ s # q) = (lead + k, drop (lead + k + 1) (p @ s # q))"
    unfolding GetPartialPathAndRemainder_def lead_p lead_def [symmetric] Let_def body_app k_app
    using k_le len_body lead_lt by auto
  have here: "GetPartialPathAndRemainder p =
      (lead + k, if lead + k < length p then drop (lead + k + 1) p else [])"
    unfolding GetPartialPathAndRemainder_def lead_def [symmetric] Let_def body_def [symmetric]
      k_def [symmetric]
    using k_le len_body lead_lt by auto
  have stop: "lead + k + 1 < length p" if "lead + k < length p"
  proof (rule ccontr)
    assume "\<not> ?thesis"
    with that have l: "lead + k = length p - 1" by linarith
    have "k < length body" using that len_body by linarith
    then have "IsDirectorySeparator (body ! k)"
      unfolding k_def using nth_length_takeWhile by blast
    then have "IsDirectorySeparator (p ! (lead + k))"
      using lead_lt by (simp add: body_def)
    with assms(1,2) l show False by (simp add: last_conv_nth)
  qed
  show "GetPartialPathAndRemainder (p @ s # q) =
    (fst (GetPartialPathAndRemainder p),
     if snd (GetPartialPathAndRemainder p) = [] then q
     else snd (GetPartialPathAndRemainder p) @ s # q)"
  proof (cases "lead + k < length p")
    case True
    with stop [OF True] show ?thesis by (simp add: full here)
  next
    case False
    with k_le len_body lead_lt have "lead + k = length p" by linarith
    then show ?thesis by (simp add: full here)
  qed
  show "fst (GetPartialPathAndRemainder p) \<le> length p"
    using k_le len_body lead_lt by (simp add: here)
  show "snd (GetPartialPathAndRemainder p) = [] \<Longrightarrow> fst (GetPartialPathAndRemainder p) = length p"
    using stop k_le len_body lead_lt by (cases "lead + k < length p") (auto simp: here)
  show "snd (GetPartialPathAndRemainder p) \<noteq> [] \<Longrightarrow> last (snd (GetPartialPathAndRemainder p)) = last p"
    using stop by (auto simp: here split: if_splits)
qed


text \<open>The claim of the header: \<open>Find(c, "C:\foo")\<close> and then \<open>Find(_, "bar")\<close> is
  \<open>Find(c, "C:\foo\bar")\<close>. It holds of any buffer and cursor.\<close>

lemma search_resume:
  assumes "p \<noteq> []" "\<not> IsDirectorySeparator (last p)" "IsDirectorySeparator s"
  shows "FindFileAccessPolicyInTreeEx mem cursor (p @ s # q) =
    (case FindFileAccessPolicyInTreeEx mem cursor p of
       None \<Rightarrow> None
     | Some c \<Rightarrow> FindFileAccessPolicyInTreeEx mem c q)"
  using assms(1,2)
proof (induction p arbitrary: cursor rule: search_tokens.induct)
  case (1 p)
  note append = GetPartialPathAndRemainder_append [OF 1(2,3) assms(3)]
  note unfold = FindFileAccessPolicyInTreeEx.simps [of mem cursor]
  have trunc: "FindFileAccessPolicyInTreeEx mem c q = Some c" if "SearchWasTruncated c" for c q
    using that by (simp add: FindFileAccessPolicyInTreeEx.simps [of mem c])
  obtain len rest where part: "GetPartialPathAndRemainder p = (len, rest)"
    by (cases "GetPartialPathAndRemainder p")
  have len: "len \<le> length p" using append(2) part by simp
  have app: "GetPartialPathAndRemainder (p @ s # q) = (len, if rest = [] then q else rest @ s # q)"
    using append(1) [of q] part by simp
  have IH: "FindFileAccessPolicyInTreeEx mem c (rest @ s # q) =
      (case FindFileAccessPolicyInTreeEx mem c rest of None \<Rightarrow> None
       | Some c' \<Rightarrow> FindFileAccessPolicyInTreeEx mem c' q)" if "rest \<noteq> []" for c
    using 1(1) [OF 1(2)] append(4) part that 1(3) by simp
  have end_of_path: "FindFileAccessPolicyInTreeEx mem c [] = (case rec_BucketCount mem r of None \<Rightarrow> None
      | Some n \<Rightarrow> Some c)" if "cur_Record c = Some r" "\<not> SearchWasTruncated c" for c r
    using that
    by (cases c) (simp add: FindFileAccessPolicyInTreeEx.simps [of mem _ "[]"] split: option.split)
  consider (stuck) "SearchWasTruncated cursor \<or> cur_Record cursor = None"
    | (more) r where "\<not> SearchWasTruncated cursor" "cur_Record cursor = Some r" by auto
  then show ?case
  proof cases
    case stuck
    then show ?thesis by (auto simp: unfold trunc)
  next
    case more
    show ?thesis
    proof (cases "FindChild mem r (take len p)")
      case None
      with more 1(2) len show ?thesis
        by (auto simp: unfold app part trunc split: option.split)
    next
      case (Some found)
      show ?thesis
      proof (cases found)
        case None
        with Some more 1(2) len show ?thesis
          by (auto simp: unfold app part trunc split: option.split)
      next
        case child: (Some child)
        let ?c = "PolicySearchCursor (Some child) (Suc (cur_Level cursor)) (Some cursor) False"
        show ?thesis
        proof (cases "rest = []")
          case True
          have "FindFileAccessPolicyInTreeEx mem ?c q =
             (case FindFileAccessPolicyInTreeEx mem ?c [] of None \<Rightarrow> None
              | Some c \<Rightarrow> FindFileAccessPolicyInTreeEx mem c q)"
            using end_of_path [of ?c child]
            by (auto simp: FindFileAccessPolicyInTreeEx.simps [of mem ?c q] split: option.split)
          with True child Some more 1(2) len show ?thesis
            by (auto simp: unfold app part trunc split: option.split)
        next
          case False
          with IH [of ?c] child Some more 1(2) len show ?thesis
            by (auto simp: unfold app part trunc split: option.split)
        qed
      qed
    qed
  qed
qed

section \<open>Properties\<close>

text \<open>A tree with one scope, for the examples.\<close>

definition example_tree :: mnode where
  "example_tree = MNode [] 0 default_acc 1 2 [(wide ''A'', fresh_node (wide ''A'') (HashPath (wide ''A'')))]"

definition example_search :: wstr where
  "example_search = wide ''a'' @ [BACKSLASH] @ wide ''b''"

lemma example_tree_wf: "tree_wf example_tree"
  unfolding example_tree_def by (simp add: fresh_node_def, code_simp)

lemma example_tree_record: "\<exists>mem. SerializeNode example_tree [] = Some mem \<and> record_at mem 0 example_tree"
proof -
  have "node_size example_tree = 44"
    by (simp add: example_tree_def fresh_node_def bucketCount_of_def fragment_bytes_def
        length_u16_string pad_length_def)
  then show ?thesis using SerializeNode_writes [of "[]" example_tree]
    by (auto simp: writes_node_def bytes_at_def)
qed

text \<open>
  C5: searching the bytes is searching the tree. Where the buffer holds a well-formed node, the
  DLL's search of any path returns, and its cursor points to the record of the node that the tree
  holds for the longest known prefix of the path's tokens, marked truncated exactly when tokens were
  left over, at the level of that node.
\<close>
theorem policy_search_refines_tree:
  assumes "record_at mem r n" "tree_wf n" "0 \<notin> set path"
  shows "\<exists>cur r'. FindFileAccessPolicyInTreeEx mem (start_cursor r) path = Some cur \<and>
    cur_Record cur = Some r' \<and> record_at mem r' (fst (tree_search (search_keys path) n)) \<and>
    SearchWasTruncated cur = snd (tree_search (search_keys path) n) \<and>
    cur_Level cur = tree_depth (search_keys path) n"
  using search_refines [OF assms, of 0 None] by (auto simp: start_cursor_def cursor_for_def)

theorem policy_search_refines_tree_witness:
  "\<exists>mem cur. SerializeNode example_tree [] = Some mem \<and>
     FindFileAccessPolicyInTreeEx mem (start_cursor 0) example_search = Some cur \<and>
     SearchWasTruncated cur \<and> cur_Level cur = 1"
proof -
  obtain mem where mem: "SerializeNode example_tree [] = Some mem" "record_at mem 0 example_tree"
    using example_tree_record by blast
  have "0 \<notin> set example_search" by code_simp
  moreover have "snd (tree_search (search_keys example_search) example_tree)"
    "tree_depth (search_keys example_search) example_tree = 1" by code_simp+
  ultimately show ?thesis
    using policy_search_refines_tree [OF mem(2) example_tree_wf, of example_search] mem(1) by auto
qed

text \<open>
  A search can be resumed: searching for a path and then, from the resulting cursor, for more
  below it is the search for the joined path, in any buffer and from any cursor, truncated or not,
  as long as the first path does not end in a separator.
\<close>
theorem search_can_be_resumed:
  assumes "p \<noteq> []" "\<not> IsDirectorySeparator (last p)" "IsDirectorySeparator s"
  shows "FindFileAccessPolicyInTreeEx mem cursor (p @ s # q) =
    (case FindFileAccessPolicyInTreeEx mem cursor p of
       None \<Rightarrow> None
     | Some c \<Rightarrow> FindFileAccessPolicyInTreeEx mem c q)"
  by (rule search_resume [OF assms])

theorem search_can_be_resumed_witness:
  "FindFileAccessPolicyInTreeEx (replicate 20 0) (start_cursor 0) (wide ''C:'' @ BACKSLASH # wide ''a'') =
    (case FindFileAccessPolicyInTreeEx (replicate 20 0) (start_cursor 0) (wide ''C:'') of
       None \<Rightarrow> None
     | Some c \<Rightarrow> FindFileAccessPolicyInTreeEx (replicate 20 0) c (wide ''a''))"
  by (rule search_can_be_resumed) (simp_all add: IsDirectorySeparator_def)

text \<open>
  A path that begins with a separator, such as the share \<open>\\server\share\<close>, matches no scope.
  The launcher's tree has a node for such a path under the fragment \<open>SERVER\<close>; the search takes
  the separators into its first token, finds no child, and ends truncated at the root, so the root
  scope's cone decides.
\<close>
theorem leading_separator_matches_nothing:
  assumes "record_at mem r n" "tree_wf n" "0 \<notin> set path" "path \<noteq> []" "IsDirectorySeparator (hd path)"
  shows "\<exists>cur. FindFileAccessPolicyInTreeEx mem (start_cursor r) path = Some cur \<and>
    SearchWasTruncated cur \<and> cur_Level cur = 0 \<and>
    (\<exists>r'. cur_Record cur = Some r' \<and> GetConePolicy mem r' = Some (conePolicy n))"
proof -
  let ?len = "fst (GetPartialPathAndRemainder path)"
  obtain c cs where path: "path = c # cs" "IsDirectorySeparator c" using assms(4,5) by (cases path) auto
  have "0 < ?len"
    using path by (auto simp: GetPartialPathAndRemainder_def Let_def)
  with path have first: "towupper c \<in> set (map towupper (take ?len path))"
    by (cases ?len) auto
  have none: "child_find (map towupper (take ?len path)) (node_children n) = None"
  proof (cases "child_find (map towupper (take ?len path)) (node_children n)")
    case (Some m)
    then have "\<forall>d \<in> set (map towupper (take ?len path)). \<not> IsDirectorySeparator d"
      using child_wf [OF assms(2)] unfolding key_ok_def by blast
    with first path(2) show ?thesis by (metis IsDirectorySeparator_towupper)
  qed
  then have tree: "tree_search (search_keys path) n = (n, True)" "tree_depth (search_keys path) n = 0"
    using assms(4) by (simp_all add: search_keys_def search_tokens.simps [of path])
  obtain cur r' where cur: "FindFileAccessPolicyInTreeEx mem (start_cursor r) path = Some cur"
    "cur_Record cur = Some r'" "record_at mem r' n" "SearchWasTruncated cur" "cur_Level cur = 0"
    using search_refines [OF assms(1-3), of 0 None] tree by (auto simp: start_cursor_def cursor_for_def)
  obtain offsets where "bytes_at mem r' (record_head n offsets)" "length offsets < 2 ^ 32"
    using cur(3) by (cases n) (auto simp del: record_head_def)
  from record_reads(2) [OF this] cur show ?thesis by blast
qed

theorem leading_separator_matches_nothing_witness:
  "\<exists>mem cur. SerializeNode example_tree [] = Some mem \<and>
     FindFileAccessPolicyInTreeEx mem (start_cursor 0) (BACKSLASH # wide ''a'') = Some cur \<and>
     SearchWasTruncated cur \<and> cur_Level cur = 0"
proof -
  obtain mem where mem: "SerializeNode example_tree [] = Some mem" "record_at mem 0 example_tree"
    using example_tree_record by blast
  have "0 \<notin> set (BACKSLASH # wide ''a'')" "BACKSLASH # wide ''a'' \<noteq> []"
    "IsDirectorySeparator (hd (BACKSLASH # wide ''a''))" by code_simp+
  from leading_separator_matches_nothing [OF mem(2) example_tree_wf this] mem(1)
  show ?thesis by blast
qed
end
