(* ===== verification/Manifest_Parse.thy ===== *)
theory Manifest_Parse
  imports Policy_Search
begin

text \<open>
  The reader's side of the manifest payload: \<open>ParseFileAccessManifest\<close>
  (\<open>vendor/detours-services/DetoursHelpers.cpp\<close>, up to the root of the policy tree; the report of
  the process's own image that follows it is not part of it), the blocks of \<open>DataTypes.h\<close>, and the
  payload wrapper of \<open>DetouredProcessInjector.{h,cpp}\<close> that carries the manifest into a process
  and on into its children. \<open>byte_codec\<close> is what a writer and a reader of a block share.
\<close>

section \<open>Codecs\<close>

text \<open>A reader takes a buffer and an offset and returns the value and the offset after it.\<close>

locale byte_codec =
  fixes enc :: "'a \<Rightarrow> bytes" and dec :: "bytes \<Rightarrow> nat \<Rightarrow> ('a \<times> nat) option" and ok :: "'a \<Rightarrow> bool"
  assumes dec_enc: "\<lbrakk>ok x; bytes_at mem i (enc x)\<rbrakk> \<Longrightarrow> dec mem i = Some (x, i + length (enc x))"
begin

text \<open>No encoding is the beginning of another one.\<close>

lemma enc_prefix_free:
  assumes "ok x" "ok y" "enc x @ r = enc y @ s"
  shows "x = y \<and> r = s"
proof -
  have "bytes_at (enc x @ r) 0 (enc x)" by (simp add: bytes_at_def)
  moreover have "bytes_at (enc x @ r) 0 (enc y)" unfolding assms(3) by (simp add: bytes_at_def)
  ultimately have "x = y"
    using dec_enc [OF assms(1)] dec_enc [OF assms(2)] by (metis fst_conv option.inject)
  with assms(3) show ?thesis by simp
qed

fun dec_many :: "nat \<Rightarrow> bytes \<Rightarrow> nat \<Rightarrow> ('a list \<times> nat) option" where
  "dec_many 0 mem i = Some ([], i)"
| "dec_many (Suc n) mem i =
     (case dec mem i of
        None \<Rightarrow> None
      | Some (x, j) \<Rightarrow> map_option (\<lambda>(xs, k). (x # xs, k)) (dec_many n mem j))"

lemma dec_many_enc:
  assumes "\<forall>x \<in> set xs. ok x" "bytes_at mem i (concat (map enc xs))"
  shows "dec_many (length xs) mem i = Some (xs, i + length (concat (map enc xs)))"
  using assms
proof (induction xs arbitrary: i)
  case (Cons x xs)
  then have "dec mem i = Some (x, i + length (enc x))"
    by (intro dec_enc) (simp_all add: bytes_at_append)
  with Cons show ?case by (simp add: bytes_at_append add.assoc)
qed simp

end


section \<open>Words and strings in a buffer\<close>

definition ParseUint32 :: "bytes \<Rightarrow> nat \<Rightarrow> (u32 \<times> nat) option" where
  "ParseUint32 mem offset = map_option (\<lambda>i. (i, offset + 4)) (rd_u32 mem offset)"

interpretation u32_codec: byte_codec u32_le ParseUint32 "\<lambda>v. True"
  by unfold_locales (simp add: ParseUint32_def rd_u32_bytes_at)

definition u64_le :: "u64 \<Rightarrow> bytes" where
  "u64_le v = u32_le (ucast v) @ u32_le (ucast (drop_bit 32 v))"

definition rd_u64 :: "bytes \<Rightarrow> nat \<Rightarrow> (u64 \<times> nat) option" where
  "rd_u64 mem i =
     (case (rd_u32 mem i, rd_u32 mem (i + 4)) of
        (Some lo, Some hi) \<Rightarrow> Some (ucast lo OR push_bit 32 (ucast hi), i + 8)
      | _ \<Rightarrow> None)"

lemma u64_halves: "ucast (ucast v :: u32) OR push_bit 32 (ucast (ucast (drop_bit 32 v) :: u32)) = (v :: u64)"
proof (rule bit_word_eqI)
  fix n
  assume "n < LENGTH(64)"
  then show "bit (ucast (ucast v :: u32) OR push_bit 32 (ucast (ucast (drop_bit 32 v) :: u32)) :: u64) n = bit v n"
    by (cases "n < 32") (auto simp: bit_simps)
qed

interpretation u64_codec: byte_codec u64_le rd_u64 "\<lambda>v. True"
proof
  fix x :: u64 and mem i
  assume "bytes_at mem i (u64_le x)"
  then have "rd_u32 mem i = Some (ucast x)" "rd_u32 mem (i + 4) = Some (ucast (drop_bit 32 x))"
    by (simp_all add: u64_le_def bytes_at_append rd_u32_bytes_at)
  then show "rd_u64 mem i = Some (x, i + length (u64_le x))"
    by (simp add: rd_u64_def u64_halves u64_le_def)
qed

text \<open>A NUL-terminated wide or narrow string in the buffer.\<close>

function rd_wcs :: "bytes \<Rightarrow> nat \<Rightarrow> wstr option" where
  "rd_wcs mem i =
     (case rd_u16 mem i of
        None \<Rightarrow> None
      | Some c \<Rightarrow> if c = 0 then Some [] else map_option (\<lambda>s. c # s) (rd_wcs mem (i + 2)))"
  by pat_completeness auto
termination
  by (relation "measure (\<lambda>(mem, i). length mem - i)") (auto simp: rd_u16_def split: if_splits)

declare rd_wcs.simps [simp del]

function rd_cs :: "bytes \<Rightarrow> nat \<Rightarrow> bytes option" where
  "rd_cs mem i =
     (if i < length mem
      then (if mem ! i = 0 then Some [] else map_option (\<lambda>s. mem ! i # s) (rd_cs mem (i + 1)))
      else None)"
  by pat_completeness auto
termination
  by (relation "measure (\<lambda>(mem, i). length mem - i)") auto

declare rd_cs.simps [simp del]

lemma rd_wcs_string:
  "0 \<notin> set s \<Longrightarrow> bytes_at mem i (concat (map u16_le (s @ [0]))) \<Longrightarrow> rd_wcs mem i = Some s"
proof (induction s arbitrary: i)
  case Nil
  then show ?case by (simp add: rd_wcs.simps [of mem i] rd_u16_bytes_at)
next
  case (Cons c s)
  then show ?case
    by (auto simp: rd_wcs.simps [of mem i] rd_u16_bytes_at bytes_at_append)
qed

lemma bytes_at_Cons: "bytes_at mem i (b # bs) \<longleftrightarrow> i < length mem \<and> mem ! i = b \<and> bytes_at mem (i + 1) bs"
proof -
  have "bytes_at mem i [b] \<longleftrightarrow> i < length mem \<and> mem ! i = b"
    by (auto simp: bytes_at_def take_Suc hd_drop_conv_nth)
  then show ?thesis using bytes_at_append [of mem i "[b]" bs] by simp
qed

lemma rd_cs_string:
  "0 \<notin> set s \<Longrightarrow> bytes_at mem i (s @ [0]) \<Longrightarrow> rd_cs mem i = Some s"
proof (induction s arbitrary: i)
  case Nil
  then show ?case by (simp add: rd_cs.simps [of mem i] bytes_at_Cons)
next
  case (Cons c s)
  then show ?case
    by (auto simp: rd_cs.simps [of mem i] bytes_at_Cons)
qed


section \<open>Blocks\<close>

text \<open>
  A path block: a size word, then that many bytes with a NUL-terminated path. \<open>None\<close> inside is the
  size 0.
\<close>

definition read_path_block :: "bytes \<Rightarrow> nat \<Rightarrow> (wstr option \<times> nat) option" where
  "read_path_block mem offset =
     (case ParseUint32 mem offset of
        None \<Rightarrow> None
      | Some (rootBytes, offset) \<Rightarrow>
          if rootBytes \<noteq> 0
          then map_option (\<lambda>s. (Some s, offset + unat rootBytes)) (rd_wcs mem offset)
          else Some (None, offset))"

definition GetDllString :: "bytes \<Rightarrow> nat \<Rightarrow> nat \<Rightarrow> bytes option" where
  "GetDllString mem block index =
     (case (rd_u32 mem (block + 4), rd_u32 mem (block + 8 + 4 * index)) of
        (Some StringCount, Some dllOffset) \<Rightarrow>
          rd_cs mem (block + 8 + 4 * unat StringCount + unat dllOffset)
      | _ \<Rightarrow> None)"

definition DllBlock_GetSize :: "bytes \<Rightarrow> nat \<Rightarrow> nat option" where
  "DllBlock_GetSize mem block =
     (case (rd_u32 mem block, rd_u32 mem (block + 4)) of
        (Some StringBlockSize, Some StringCount) \<Rightarrow>
          Some (4 * unat (2 + StringCount) + unat StringBlockSize)
      | _ \<Rightarrow> None)"

text \<open>The globals that \<open>ParseFileAccessManifest\<close> sets.\<close>

record parsed_manifest =
  g_fileAccessManifestFlags :: u32
  g_fileAccessManifestExtraFlags :: u32
  g_reportPath :: "wstr option"
  g_lpDllNameX86 :: bytes
  g_lpDllNameX64 :: bytes
  g_bazelWriteOverlayRoot :: "wstr option"
  g_bazelOverlaySourceRoot :: "wstr option"
  g_manifestTreeRoot :: nat

text \<open>
  \<open>openReport\<close> says whether \<open>CreateFileW\<close> opens the report file. The inner \<open>None\<close> is the return of
  \<open>false\<close>, the outer one a read outside the payload.
\<close>

definition ParseFileAccessManifest :: "(wstr \<Rightarrow> bool) \<Rightarrow> bytes \<Rightarrow> parsed_manifest option option" where
  "ParseFileAccessManifest openReport payloadBytes =
     (case (rd_u32 payloadBytes 0, rd_u32 payloadBytes 4, read_path_block payloadBytes 8) of
        (Some flags, Some extraFlags, Some (report, offset)) \<Rightarrow>
          if (case report of Some p \<Rightarrow> \<not> openReport p | None \<Rightarrow> False) then Some None
          else (case (GetDllString payloadBytes offset 0, GetDllString payloadBytes offset 1,
                      DllBlock_GetSize payloadBytes offset) of
                  (Some x86, Some x64, Some dllSize) \<Rightarrow>
                    (case read_path_block payloadBytes (offset + dllSize) of
                       Some (overlayRoot, offset) \<Rightarrow>
                         (case read_path_block payloadBytes offset of
                            Some (sourceRoot, offset) \<Rightarrow>
                              Some (Some \<lparr>g_fileAccessManifestFlags = flags,
                                g_fileAccessManifestExtraFlags = extraFlags,
                                g_reportPath = report, g_lpDllNameX86 = x86, g_lpDllNameX64 = x64,
                                g_bazelWriteOverlayRoot = overlayRoot,
                                g_bazelOverlaySourceRoot = sourceRoot,
                                g_manifestTreeRoot = offset\<rparr>)
                          | None \<Rightarrow> None)
                     | None \<Rightarrow> None)
                | _ \<Rightarrow> None)
      | _ \<Rightarrow> None)"



section \<open>What \<open>Build\<close> writes, block by block\<close>

definition path_option :: "wstr \<Rightarrow> wstr option" where
  "path_option path = (if path = [] then None else Some path)"

definition padded_size :: "nat \<Rightarrow> nat" where
  "padded_size n = n + pad_length n"

lemma padded_size_mod4: "padded_size n mod 4 = 0"
proof -
  obtain q k where "n = 4 * q + k" "k < 4"
    by (metis mult_div_mod_eq mod_less_divisor zero_less_numeral)
  then consider "n = 4 * q" | "n = 4 * q + 1" | "n = 4 * q + 2" | "n = 4 * q + 3" by linarith
  then show ?thesis by cases (simp_all add: padded_size_def pad_length_def mod_Suc)
qed

fun path_block :: "wstr option \<Rightarrow> bytes" where
  "path_block None = u32_le 0"
| "path_block (Some s) =
     u32_le (of_nat (padded_size (2 * (length s + 1)))) @ concat (map u16_le (s @ [0])) @
     replicate (pad_length (2 * (length s + 1))) 0"

definition path_ok :: "wstr option \<Rightarrow> bool" where
  "path_ok p \<longleftrightarrow> (case p of None \<Rightarrow> True | Some s \<Rightarrow> 0 \<notin> set s \<and> 2 * (length s + 1) + 3 < 2 ^ 32)"

lemma padded_size_less: "padded_size n \<le> n + 3"
  by (simp add: padded_size_def pad_length_def)

lemma unat_and_not_mask2: "unat (a AND NOT (mask 2)) = 4 * (unat (a :: 'a :: len word) div 4)"
proof -
  have shift: "a AND NOT (mask 2) = push_bit 2 (drop_bit 2 a)"
  proof (rule bit_word_eqI)
    fix n assume "n < LENGTH('a)"
    then show "bit (a AND NOT (mask 2)) n = bit (push_bit 2 (drop_bit 2 a)) n"
      using le_Suc_ex [of 2 n] by (cases "2 \<le> n") (auto simp: bit_simps)
  qed
  have "4 * (unat a div 4) < 2 ^ LENGTH('a)"
    using unsigned_less [of a] by (meson le_less_trans times_div_less_eq_dividend)
  then show ?thesis
    unfolding shift unsigned_push_bit_eq unsigned_drop_bit_eq
    by (simp add: push_bit_eq_mult drop_bit_eq_div take_bit_eq_mod)
qed

lemma three_mask: "(3 :: 'a :: len word) = mask 2"
  by (simp add: mask_eq_exp_minus_1)

lemma round_up4:
  assumes "n + 3 < 2 ^ 32"
  shows "unat ((of_nat n + 3 :: u32) AND NOT 3) = padded_size n"
proof -
  have "of_nat n + 3 = (of_nat (n + 3) :: u32)" by simp
  then have u: "unat (of_nat n + 3 :: u32) = n + 3"
    using assms by (simp only: unat_of_nat) simp
  have "unat ((of_nat n + 3 :: u32) AND NOT 3) = 4 * ((n + 3) div 4)"
    unfolding three_mask unat_and_not_mask2 using u by (simp add: three_mask)
  also have "\<dots> = padded_size n"
  proof -
    obtain q k where "n = 4 * q + k" "k < 4"
      by (metis mult_div_mod_eq mod_less_divisor zero_less_numeral)
    then consider "n = 4 * q" | "n = 4 * q + 1" | "n = 4 * q + 2" | "n = 4 * q + 3" by linarith
    then show ?thesis by cases (simp_all add: padded_size_def pad_length_def mod_Suc)
  qed
  finally show ?thesis .
qed


lemma PutPathBlock_eq:
  assumes "path_ok (path_option path)"
  shows "PutPathBlock out path = out @ path_block (path_option path)"
proof (cases "path = []")
  case True
  then show ?thesis by (simp add: PutPathBlock_def path_option_def PutU32_eq)
next
  case False
  let ?n = "2 * (length path + 1)"
  have small: "?n + 3 < 2 ^ 32" using assms False by (simp add: path_ok_def path_option_def)
  have raw: "unat (of_nat ?n :: u32) = ?n" using small by (simp only: unat_of_nat) simp
  have padded: "unat ((of_nat ?n + 3 :: u32) AND NOT 3) = padded_size ?n" by (rule round_up4 [OF small])
  have le: "?n \<le> padded_size ?n" by (simp add: padded_size_def)
  have word: "(of_nat ?n + 3 :: u32) AND NOT 3 = of_nat (padded_size ?n)"
  proof -
    have "padded_size ?n < 2 ^ 32" using padded_size_less [of ?n] small by linarith
    then have "unat (of_nat (padded_size ?n) :: u32) = padded_size ?n"
      by (simp only: unat_of_nat) simp
    then show ?thesis unfolding word_unat_eq_iff padded by (rule sym)
  qed
  have diff: "unat (of_nat (padded_size ?n) - of_nat ?n :: u32) = pad_length ?n"
    using le unfolding word [symmetric]
    by (simp only: unat_sub_if_size raw padded) (simp add: padded_size_def)
  have len: "length (concat (map u16_le (path @ [0]))) = ?n"
    by (simp add: length_u16_string)
  have com: "(length path + 1) * 2 = ?n" by simp
  show ?thesis
    using False
    unfolding PutPathBlock_def path_option_def Let_def com word diff raw PutU32_eq
    using len by simp
qed

lemma length_path_block_mod4: "length (path_block p) mod 4 = 0"
proof (cases p)
  case (Some s)
  have "4 dvd padded_size (2 * (length s + 1))"
    using padded_size_mod4 by (simp add: mod_eq_0_iff_dvd)
  then have "4 dvd 4 + padded_size (2 * (length s + 1))" by simp
  with Some show ?thesis
    by (simp add: length_u16_string padded_size_def mod_eq_0_iff_dvd add.assoc)
qed simp

interpretation path_codec: byte_codec path_block read_path_block path_ok
proof
  fix x mem i
  assume ok: "path_ok x" and at: "bytes_at mem i (path_block x)"
  show "read_path_block mem i = Some (x, i + length (path_block x))"
  proof (cases x)
    case None
    with at show ?thesis
      by (simp add: read_path_block_def ParseUint32_def rd_u32_bytes_at)
  next
    case (Some s)
    let ?n = "2 * (length s + 1)"
    have s: "0 \<notin> set s" "?n + 3 < 2 ^ 32" using ok Some by (auto simp: path_ok_def)
    have "padded_size ?n < 2 ^ 32" using padded_size_less [of ?n] s(2) by linarith
    then have "unat (of_nat (padded_size ?n) :: u32) = padded_size ?n"
      by (simp only: unat_of_nat) simp
    moreover have "padded_size ?n \<noteq> 0" by (simp add: padded_size_def)
    ultimately have w: "unat (of_nat (padded_size ?n) :: u32) = padded_size ?n"
      "(of_nat (padded_size ?n) :: u32) \<noteq> 0" by (auto simp flip: unat_eq_0)
    from at Some have "rd_u32 mem i = Some (of_nat (padded_size ?n))"
      "bytes_at mem (i + 4) (concat (map u16_le (s @ [0])))"
      by (simp_all add: bytes_at_append rd_u32_bytes_at)
    with s(1) w Some show ?thesis
      by (simp add: read_path_block_def ParseUint32_def rd_wcs_string length_u16_string
          padded_size_def)
  qed
qed

text \<open>The DLL block.\<close>

definition padded_ansi :: "bytes \<Rightarrow> bytes" where
  "padded_ansi s = s @ replicate (4 - length s mod 4) 0"

definition dll_block :: "bytes \<Rightarrow> bytes \<Rightarrow> bytes" where
  "dll_block x86 x64 =
     u32_le (of_nat (length (padded_ansi x86) + length (padded_ansi x64))) @ u32_le 2 @
     u32_le 0 @ u32_le (of_nat (length (padded_ansi x86))) @ padded_ansi x86 @ padded_ansi x64"

lemma length_padded_ansi: "length (padded_ansi s) = (length s + 4) div 4 * 4"
proof -
  obtain q k where s: "length s = 4 * q + k" "k < 4"
    by (metis mult_div_mod_eq mod_less_divisor zero_less_numeral)
  then have "(length s + 4) div 4 = q + 1" by simp
  with s show ?thesis by (simp add: padded_ansi_def)
qed


lemma PaddedAnsiLength_eq:
  assumes "length s + 4 < 2 ^ 32"
  shows "PaddedAnsiLength s = of_nat (length (padded_ansi s))"
    "unat (PaddedAnsiLength s) = length (padded_ansi s)"
proof -
  have "of_nat (length s) + 4 = (of_nat (length s + 4) :: u64)" by simp
  then have "unat (of_nat (length s) + 4 :: u64) = length s + 4"
    using assms by (simp only: unat_of_nat) simp
  then have "unat ((of_nat (length s) + 4 :: u64) AND NOT 3) = length (padded_ansi s)"
    unfolding three_mask unat_and_not_mask2 length_padded_ansi by simp
  moreover have small: "length (padded_ansi s) < 2 ^ 32"
    using assms div_times_less_eq_dividend [of "length s + 4" 4] unfolding length_padded_ansi by simp
  ultimately show u: "unat (PaddedAnsiLength s) = length (padded_ansi s)"
    by (simp add: PaddedAnsiLength_def unsigned_ucast_eq take_bit_eq_mod)
  then show "PaddedAnsiLength s = of_nat (length (padded_ansi s))"
    using small by (simp add: word_unat_eq_iff unat_of_nat)
qed

lemma PutPaddedAnsi_eq:
  assumes "length s + 4 < 2 ^ 32"
  shows "PutPaddedAnsi out s = out @ padded_ansi s"
proof -
  have "map (\<lambda>i. if i < length s then s ! i else 0) [0 ..< length (padded_ansi s)] = padded_ansi s"
    by (rule nth_equalityI) (auto simp: padded_ansi_def nth_append)
  then show ?thesis
    unfolding PutPaddedAnsi_def PaddedAnsiLength_eq(2) [OF assms] by simp
qed

lemma PutDllBlock_eq:
  assumes "length x86 + 4 < 2 ^ 32" "length x64 + 4 < 2 ^ 32"
  shows "PutDllBlock out x86 x64 = out @ dll_block x86 x64"
  by (simp add: PutDllBlock_def Let_def PutU32_eq dll_block_def
      PutPaddedAnsi_eq [OF assms(1)] PutPaddedAnsi_eq [OF assms(2)] PaddedAnsiLength_eq(1) [OF assms(1)] PaddedAnsiLength_eq(1) [OF assms(2)])

lemma length_dll_block_mod4: "length (dll_block x86 x64) mod 4 = 0"
  by (simp add: dll_block_def length_padded_ansi mod_eq_0_iff_dvd)

lemma padded_ansi_NUL: "bytes_at mem i (padded_ansi s) \<Longrightarrow> bytes_at mem i (s @ [0])"
proof -
  have "4 - length s mod 4 = Suc (3 - length s mod 4)" by (simp add: Suc_diff_le)
  then show "bytes_at mem i (padded_ansi s) \<Longrightarrow> bytes_at mem i (s @ [0])"
    by (simp add: padded_ansi_def bytes_at_append bytes_at_Cons)
qed

lemma dll_block_reads:
  assumes "length x86 + length x64 + 8 < 2 ^ 32" "0 \<notin> set x86" "0 \<notin> set x64"
    "bytes_at mem i (dll_block x86 x64)"
  shows "GetDllString mem i 0 = Some x86" "GetDllString mem i 1 = Some x64"
    "DllBlock_GetSize mem i = Some (length (dll_block x86 x64))"
proof -
  let ?l0 = "length (padded_ansi x86)" and ?l1 = "length (padded_ansi x64)"
  have small: "?l0 + ?l1 < 2 ^ 32"
    using assms(1) div_times_less_eq_dividend [of "length x86 + 4" 4]
      div_times_less_eq_dividend [of "length x64 + 4" 4]
    unfolding length_padded_ansi by linarith
  then have u: "unat (of_nat (?l0 + ?l1) :: u32) = ?l0 + ?l1" "unat (of_nat ?l0 :: u32) = ?l0"
    by (simp_all only: unat_of_nat) simp_all
  have "rd_u32 mem i = Some (of_nat (?l0 + ?l1))" "rd_u32 mem (i + 4) = Some 2"
    "rd_u32 mem (i + 8) = Some 0" "rd_u32 mem (i + 12) = Some (of_nat ?l0)"
    and strings: "bytes_at mem (i + 16) (padded_ansi x86)" "bytes_at mem (i + (16 + ?l0)) (padded_ansi x64)"
    using assms(4) by (simp_all add: dll_block_def bytes_at_append rd_u32_bytes_at add.assoc)
  then show "GetDllString mem i 0 = Some x86" "GetDllString mem i 1 = Some x64"
    "DllBlock_GetSize mem i = Some (length (dll_block x86 x64))"
    using strings [THEN padded_ansi_NUL] assms(2,3) u
    by (simp_all add: GetDllString_def DllBlock_GetSize_def rd_cs_string dll_block_def add.assoc
        del: of_nat_add)
qed


section \<open>Build and parse\<close>

definition manifest_header :: "ManifestBuilder \<Rightarrow> bytes" where
  "manifest_header mb =
     u32_le (mb_flags mb) @ u32_le (mb_extraFlags mb) @ path_block (path_option (mb_reportPath mb)) @
     dll_block (mb_dllX86 mb) (mb_dllX64 mb) @ path_block (path_option (mb_writeOverlayRoot mb)) @
     path_block (path_option (mb_overlaySourceRoot mb))"

definition manifest_ok :: "ManifestBuilder \<Rightarrow> bool" where
  "manifest_ok mb \<longleftrightarrow>
     path_ok (path_option (mb_reportPath mb)) \<and> path_ok (path_option (mb_writeOverlayRoot mb)) \<and>
     path_ok (path_option (mb_overlaySourceRoot mb)) \<and>
     length (mb_dllX86 mb) + length (mb_dllX64 mb) + 8 < 2 ^ 32 \<and>
     0 \<notin> set (mb_dllX86 mb) \<and> 0 \<notin> set (mb_dllX64 mb) \<and> node_size (mb_root mb) < 2 ^ 32"

lemma node_size_Finalize: "node_size (Finalize p n) = node_size n"
proof (induction n arbitrary: p rule: node_size.induct)
  case (1 fragment h acc cone node children)
  then show ?case
    by (simp add: Let_def Finalize_children_eq comp_def cong: map_cong)
qed

lemma manifest_header_mod4: "length (manifest_header mb) mod 4 = 0"
  using length_path_block_mod4 length_dll_block_mod4
  by (simp add: manifest_header_def mod_eq_0_iff_dvd)

lemma Build_writes:
  assumes "manifest_ok mb"
  shows "\<exists>tree. Build mb = Some (manifest_header mb @ tree) \<and>
    writes_node (Finalize Policy_Deny (mb_root mb)) (manifest_header mb) tree"
proof -
  have "Build mb = SerializeNode (Finalize Policy_Deny (mb_root mb)) (manifest_header mb)"
    using assms
    by (simp add: Build_def manifest_ok_def PutPathBlock_eq PutDllBlock_eq PutU32_eq
        manifest_header_def)
  moreover obtain tree where
    "writes_node (Finalize Policy_Deny (mb_root mb)) (manifest_header mb) tree"
    using SerializeNode_writes [OF manifest_header_mod4] assms
    by (metis manifest_ok_def node_size_Finalize)
  ultimately show ?thesis by (auto simp: writes_node_def)
qed

definition parsed_from :: "ManifestBuilder \<Rightarrow> parsed_manifest" where
  "parsed_from mb = \<lparr>g_fileAccessManifestFlags = mb_flags mb,
     g_fileAccessManifestExtraFlags = mb_extraFlags mb,
     g_reportPath = path_option (mb_reportPath mb), g_lpDllNameX86 = mb_dllX86 mb,
     g_lpDllNameX64 = mb_dllX64 mb, g_bazelWriteOverlayRoot = path_option (mb_writeOverlayRoot mb),
     g_bazelOverlaySourceRoot = path_option (mb_overlaySourceRoot mb),
     g_manifestTreeRoot = length (manifest_header mb)\<rparr>"

lemma Parse_Build:
  assumes "manifest_ok mb"
    and report: "mb_reportPath mb \<noteq> [] \<Longrightarrow> openReport (mb_reportPath mb)"
  shows "\<exists>payload. Build mb = Some payload \<and>
    ParseFileAccessManifest openReport payload = Some (Some (parsed_from mb)) \<and>
    record_at payload (g_manifestTreeRoot (parsed_from mb)) (Finalize Policy_Deny (mb_root mb))"
proof -
  from Build_writes [OF assms(1)] obtain tree where
    build: "Build mb = Some (manifest_header mb @ tree)" and
    tree: "\<And>mem r. bytes_at mem r tree \<Longrightarrow> record_at mem r (Finalize Policy_Deny (mb_root mb))"
    by (auto simp: writes_node_def)
  let ?p = "manifest_header mb @ tree"
  let ?b1 = "path_block (path_option (mb_reportPath mb))"
  let ?b2 = "dll_block (mb_dllX86 mb) (mb_dllX64 mb)"
  let ?b3 = "path_block (path_option (mb_writeOverlayRoot mb))"
  let ?b4 = "path_block (path_option (mb_overlaySourceRoot mb))"
  have "bytes_at ?p 0 ?p" by (simp add: bytes_at_def)
  then have at: "rd_u32 ?p 0 = Some (mb_flags mb)" "rd_u32 ?p 4 = Some (mb_extraFlags mb)"
    "bytes_at ?p 8 ?b1" "bytes_at ?p (8 + length ?b1) ?b2"
    "bytes_at ?p (8 + length ?b1 + length ?b2) ?b3"
    "bytes_at ?p (8 + length ?b1 + length ?b2 + length ?b3) ?b4"
    "bytes_at ?p (length (manifest_header mb)) tree"
    by (simp_all add: manifest_header_def bytes_at_append rd_u32_bytes_at add.assoc)
  note ok = assms(1) [unfolded manifest_ok_def]
  have reads: "read_path_block ?p 8 = Some (path_option (mb_reportPath mb), 8 + length ?b1)"
    "read_path_block ?p (8 + length ?b1 + length ?b2) =
       Some (path_option (mb_writeOverlayRoot mb), 8 + length ?b1 + length ?b2 + length ?b3)"
    "read_path_block ?p (8 + length ?b1 + length ?b2 + length ?b3) =
       Some (path_option (mb_overlaySourceRoot mb),
         8 + length ?b1 + length ?b2 + length ?b3 + length ?b4)"
    using ok at by (blast intro: path_codec.dec_enc)+
  have "length (mb_dllX86 mb) + length (mb_dllX64 mb) + 8 < 2 ^ 32"
    "0 \<notin> set (mb_dllX86 mb)" "0 \<notin> set (mb_dllX64 mb)" using ok by blast+
  note dll = dll_block_reads [OF this at(4)]
  have len: "8 + length ?b1 + length ?b2 + length ?b3 + length ?b4 = length (manifest_header mb)"
    by (simp add: manifest_header_def)
  have opened: "\<not> (case path_option (mb_reportPath mb) of Some p \<Rightarrow> \<not> openReport p | None \<Rightarrow> False)"
    using report by (simp add: path_option_def)
  have "ParseFileAccessManifest openReport ?p = Some (Some (parsed_from mb))"
    unfolding ParseFileAccessManifest_def parsed_from_def at(1,2) reads option.case prod.case
      dll if_not_P [OF opened] len by (rule refl)
  moreover have "record_at ?p (g_manifestTreeRoot (parsed_from mb)) (Finalize Policy_Deny (mb_root mb))"
    using tree [OF at(7)] by (simp add: parsed_from_def)
  ultimately show ?thesis using build by blast
qed

section \<open>Properties\<close>

text \<open>
  C6: parsing inverts building. For a builder whose strings have no NUL and whose sizes fit in 32
  bits, \<open>Build\<close> returns a payload, and \<open>ParseFileAccessManifest\<close> reads back the flags, the report
  path, both DLL names and both overlay roots, and finds the record of the finalised root where the
  tree starts.
\<close>
theorem manifest_roundtrip:
  assumes "manifest_ok mb" "mb_reportPath mb \<noteq> [] \<Longrightarrow> openReport (mb_reportPath mb)"
  shows "\<exists>payload parsed. Build mb = Some payload \<and>
    ParseFileAccessManifest openReport payload = Some (Some parsed) \<and>
    g_fileAccessManifestFlags parsed = mb_flags mb \<and>
    g_fileAccessManifestExtraFlags parsed = mb_extraFlags mb \<and>
    g_reportPath parsed = path_option (mb_reportPath mb) \<and>
    g_lpDllNameX86 parsed = mb_dllX86 mb \<and> g_lpDllNameX64 parsed = mb_dllX64 mb \<and>
    g_bazelWriteOverlayRoot parsed = path_option (mb_writeOverlayRoot mb) \<and>
    g_bazelOverlaySourceRoot parsed = path_option (mb_overlaySourceRoot mb) \<and>
    record_at payload (g_manifestTreeRoot parsed) (Finalize Policy_Deny (mb_root mb))"
proof -
  obtain payload where "Build mb = Some payload"
    "ParseFileAccessManifest openReport payload = Some (Some (parsed_from mb))"
    "record_at payload (g_manifestTreeRoot (parsed_from mb)) (Finalize Policy_Deny (mb_root mb))"
    using Parse_Build [OF assms(1), of openReport] assms(2) by auto
  then show ?thesis
    by (intro exI [of _ payload] exI [of _ "parsed_from mb"]) (simp add: parsed_from_def)
qed

theorem manifest_roundtrip_witness:
  "\<exists>payload parsed.
     Build (SetReportPath (wide ''r.txt'') (new_ManifestBuilder 8 0x400 [0x61] [0x62, 0x63])) = Some payload \<and>
     ParseFileAccessManifest (\<lambda>p. True) payload = Some (Some parsed) \<and>
     g_fileAccessManifestExtraFlags parsed = 0x400 \<and> g_lpDllNameX64 parsed = [0x62, 0x63] \<and>
     g_reportPath parsed = Some (wide ''r.txt'') \<and> g_bazelWriteOverlayRoot parsed = None"
proof -
  let ?mb = "SetReportPath (wide ''r.txt'') (new_ManifestBuilder 8 0x400 [0x61] [0x62, 0x63])"
  have "manifest_ok ?mb"
    by (simp add: manifest_ok_def SetReportPath_def new_ManifestBuilder_def path_ok_def path_option_def
        root_node_def fresh_node_def fragment_bytes_def)
  from manifest_roundtrip [OF this, of "\<lambda>p. True"] show ?thesis
    by (auto simp: SetReportPath_def new_ManifestBuilder_def path_option_def)
qed

end
