(* ===== verification/Access_Check.thy ===== *)
theory Access_Check
  imports Sandbox_Base
begin

text \<open>
  Access checks: the results of \<open>vendor/detours-services/FileAccessHelpers.{h,cpp}\<close>, how two of
  them combine, which error a denial reports, how existence is inferred from an error, and the
  classification of access masks of \<open>DetoursHelpers.cpp\<close>. The three verdicts of a result are
  ordered by severity, and combining is their maximum.
\<close>

section \<open>Codes\<close>

abbreviation ERROR_SUCCESS :: u32 where "ERROR_SUCCESS \<equiv> 0"
abbreviation ERROR_FILE_NOT_FOUND :: u32 where "ERROR_FILE_NOT_FOUND \<equiv> 2"
abbreviation ERROR_PATH_NOT_FOUND :: u32 where "ERROR_PATH_NOT_FOUND \<equiv> 3"
abbreviation ERROR_ACCESS_DENIED :: u32 where "ERROR_ACCESS_DENIED \<equiv> 5"
abbreviation ERROR_NOT_ENOUGH_MEMORY :: u32 where "ERROR_NOT_ENOUGH_MEMORY \<equiv> 8"
abbreviation ERROR_NOT_READY :: u32 where "ERROR_NOT_READY \<equiv> 21"
abbreviation ERROR_INVALID_PARAMETER :: u32 where "ERROR_INVALID_PARAMETER \<equiv> 87"
abbreviation ERROR_INVALID_NAME :: u32 where "ERROR_INVALID_NAME \<equiv> 123"
abbreviation ERROR_BAD_PATHNAME :: u32 where "ERROR_BAD_PATHNAME \<equiv> 161"
abbreviation ERROR_DIRECTORY :: u32 where "ERROR_DIRECTORY \<equiv> 267"
abbreviation ERROR_CANT_ACCESS_FILE :: u32 where "ERROR_CANT_ACCESS_FILE \<equiv> 1920"
abbreviation ERROR_CANT_RESOLVE_FILENAME :: u32 where "ERROR_CANT_RESOLVE_FILENAME \<equiv> 1921"
abbreviation FVE_E_LOCKED_VOLUME :: u32 where "FVE_E_LOCKED_VOLUME \<equiv> 0x80310000"

definition StatusAccessDenied :: u32 where "StatusAccessDenied = 0xC0000022"
definition StatusObjectNameInvalid :: u32 where "StatusObjectNameInvalid = 0xC0000033"
definition StatusObjectNameNotFound :: u32 where "StatusObjectNameNotFound = 0xC0000034"
definition StatusObjectPathNotFound :: u32 where "StatusObjectPathNotFound = 0xC000003A"

datatype FileExistence = Existent | Nonexistent | InvalidPath
datatype ReportLevel = Ignore | Report | ReportExplicit
datatype ResultAction = Allow | Deny | Warn
datatype PathValidity = Valid | PathComponentNotFound | Invalid

datatype RequestedReadAccess =
    RRA_None | RRA_Read | RRA_Probe | RRA_Enumerate | RRA_EnumerationProbe | RRA_Lookup

text \<open>\<open>RequestedAccess\<close> is combined with \<open>|\<close>, so it is kept as its flags.\<close>

type_synonym RequestedAccess = u32

definition Access_None :: RequestedAccess where "Access_None = 0x0"
definition Access_Write :: RequestedAccess where "Access_Write = 0x2"

fun access_of_read :: "RequestedReadAccess \<Rightarrow> RequestedAccess" where
  "access_of_read RRA_None = 0x0"
| "access_of_read RRA_Read = 0x1"
| "access_of_read RRA_Probe = 0x4"
| "access_of_read RRA_Enumerate = 0x8"
| "access_of_read RRA_EnumerationProbe = 0x10"
| "access_of_read RRA_Lookup = 0x20"

record FileReadContext =
  Existence :: FileExistence
  OpenedDirectory :: bool

datatype FileAccessStatus =
    FileAccessStatus_None | FileAccessStatus_Allowed | FileAccessStatus_Denied
  | FileAccessStatus_CannotDeterminePolicy


section \<open>Manifest flags\<close>

definition CheckReportAllFileAccesses :: "u32 \<Rightarrow> bool" where
  "CheckReportAllFileAccesses flags \<longleftrightarrow> flags AND 0x8 \<noteq> 0"

definition CheckReportAllFileUnexpectedAccesses :: "u32 \<Rightarrow> bool" where
  "CheckReportAllFileUnexpectedAccesses flags \<longleftrightarrow> flags AND 0x10 \<noteq> 0"

definition CheckReportAnyAccess :: "u32 \<Rightarrow> bool \<Rightarrow> bool" where
  "CheckReportAnyAccess flags accessDenied \<longleftrightarrow>
     CheckReportAllFileAccesses flags \<or>
     (accessDenied \<and> CheckReportAllFileUnexpectedAccesses flags)"

definition ShouldDeniedReadsAsNotFound :: "u32 \<Rightarrow> bool" where
  "ShouldDeniedReadsAsNotFound extraFlags \<longleftrightarrow> extraFlags AND 0x400 \<noteq> 0"

definition ShouldFilterDirectoryEnumeration :: "u32 \<Rightarrow> bool" where
  "ShouldFilterDirectoryEnumeration extraFlags \<longleftrightarrow> extraFlags AND 0x800 \<noteq> 0"

definition ShouldWriteOverlay :: "u32 \<Rightarrow> bool" where
  "ShouldWriteOverlay extraFlags \<longleftrightarrow> extraFlags AND 0x1000 \<noteq> 0"


section \<open>Results\<close>

record AccessCheckResult =
  acr_Access :: RequestedAccess
  acr_Result :: ResultAction
  acr_Level :: ReportLevel
  acr_Validity :: PathValidity

definition access_check :: "RequestedAccess \<Rightarrow> ResultAction \<Rightarrow> ReportLevel \<Rightarrow> PathValidity \<Rightarrow>
    AccessCheckResult" where
  "access_check a r l v = \<lparr>acr_Access = a, acr_Result = r, acr_Level = l, acr_Validity = v\<rparr>"

definition ShouldReport :: "AccessCheckResult \<Rightarrow> bool" where
  "ShouldReport c \<longleftrightarrow> acr_Level c = Report \<or> acr_Level c = ReportExplicit"

definition GetFileAccessStatus :: "AccessCheckResult \<Rightarrow> FileAccessStatus" where
  "GetFileAccessStatus c =
     (if acr_Result c \<noteq> Allow then FileAccessStatus_Denied else FileAccessStatus_Allowed)"

definition ShouldDenyAccess :: "AccessCheckResult \<Rightarrow> bool" where
  "ShouldDenyAccess c \<longleftrightarrow> acr_Result c = Deny"

definition DenialError :: "AccessCheckResult \<Rightarrow> u32" where
  "DenialError c = (case acr_Validity c of
     Valid \<Rightarrow> ERROR_ACCESS_DENIED
   | PathComponentNotFound \<Rightarrow> ERROR_PATH_NOT_FOUND
   | Invalid \<Rightarrow> ERROR_INVALID_NAME)"

definition IsReadOnlyAccess :: "AccessCheckResult \<Rightarrow> bool" where
  "IsReadOnlyAccess c \<longleftrightarrow> acr_Access c AND Access_Write = Access_None"

definition DenialError_masked :: "bool \<Rightarrow> AccessCheckResult \<Rightarrow> u32" where
  "DenialError_masked maskReadsAsNotFound c =
     (if maskReadsAsNotFound \<and> IsReadOnlyAccess c \<and> acr_Validity c = Valid
      then ERROR_FILE_NOT_FOUND else DenialError c)"

definition DenialNtStatus :: "AccessCheckResult \<Rightarrow> u32" where
  "DenialNtStatus c = (case acr_Validity c of
     Valid \<Rightarrow> StatusAccessDenied
   | PathComponentNotFound \<Rightarrow> StatusObjectPathNotFound
   | Invalid \<Rightarrow> StatusObjectNameInvalid)"

definition DenialNtStatus_masked :: "bool \<Rightarrow> AccessCheckResult \<Rightarrow> u32" where
  "DenialNtStatus_masked maskReadsAsNotFound c =
     (if maskReadsAsNotFound \<and> IsReadOnlyAccess c \<and> acr_Validity c = Valid
      then StatusObjectNameNotFound else DenialNtStatus c)"

definition With :: "ReportLevel \<Rightarrow> AccessCheckResult \<Rightarrow> AccessCheckResult" where
  "With newReportLevel c = c\<lparr>acr_Level := newReportLevel\<rparr>"

definition Combine :: "AccessCheckResult \<Rightarrow> AccessCheckResult \<Rightarrow> AccessCheckResult" where
  "Combine left right =
     \<lparr>acr_Access = acr_Access left OR acr_Access right,
      acr_Result =
        (if acr_Result right = Deny then Deny
         else if acr_Result right = Warn \<and> acr_Result left = Allow then Warn
         else acr_Result left),
      acr_Level =
        (if acr_Level right = ReportExplicit then ReportExplicit
         else if acr_Level right = Report \<and> acr_Level left = Ignore then Report
         else acr_Level left),
      acr_Validity =
        (if acr_Validity right = Invalid then Invalid
         else if acr_Validity right = PathComponentNotFound \<and> acr_Validity left = Valid
         then PathComponentNotFound
         else acr_Validity left)\<rparr>"

definition DenyOrWarn :: "u32 \<Rightarrow> RequestedAccess \<Rightarrow> AccessCheckResult" where
  "DenyOrWarn flags requestedAccess =
     access_check requestedAccess Deny
       (if CheckReportAnyAccess flags True then Report else Ignore) Valid"


section \<open>Existence\<close>

definition IsPathNonexistent :: "u32 \<Rightarrow> bool" where
  "IsPathNonexistent error \<longleftrightarrow>
     error = ERROR_PATH_NOT_FOUND \<or> error = ERROR_FILE_NOT_FOUND \<or> error = ERROR_DIRECTORY \<or>
     error = ERROR_NOT_READY \<or> error = FVE_E_LOCKED_VOLUME \<or> error = ERROR_BAD_PATHNAME \<or>
     error = ERROR_INVALID_NAME \<or> error = ERROR_CANT_ACCESS_FILE \<or>
     error = ERROR_CANT_RESOLVE_FILENAME \<or> error = ERROR_INVALID_PARAMETER"

definition InferExistenceFromError :: "u32 \<Rightarrow> FileReadContext \<Rightarrow> FileReadContext" where
  "InferExistenceFromError error ctx =
     ctx\<lparr>Existence :=
       (if error = ERROR_INVALID_NAME then InvalidPath
        else if IsPathNonexistent error then Nonexistent else Existent)\<rparr>"

text \<open>\<open>RtlNtStatusToDosError\<close> is the argument.\<close>

definition InferExistenceFromNtStatus :: "(u32 \<Rightarrow> u32) \<Rightarrow> u32 \<Rightarrow> FileReadContext \<Rightarrow> FileReadContext" where
  "InferExistenceFromNtStatus ntStatusToDosError status ctx =
     InferExistenceFromError (ntStatusToDosError status) ctx"


section \<open>Access masks\<close>

abbreviation GENERIC_ALL :: u32 where "GENERIC_ALL \<equiv> 0x10000000"
abbreviation GENERIC_WRITE :: u32 where "GENERIC_WRITE \<equiv> 0x40000000"
abbreviation GENERIC_READ :: u32 where "GENERIC_READ \<equiv> 0x80000000"
abbreviation DELETE_ACCESS :: u32 where "DELETE_ACCESS \<equiv> 0x00010000"
abbreviation FILE_READ_DATA :: u32 where "FILE_READ_DATA \<equiv> 0x1"
abbreviation FILE_WRITE_DATA :: u32 where "FILE_WRITE_DATA \<equiv> 0x2"
abbreviation FILE_APPEND_DATA :: u32 where "FILE_APPEND_DATA \<equiv> 0x4"
abbreviation FILE_READ_EA :: u32 where "FILE_READ_EA \<equiv> 0x8"
abbreviation FILE_WRITE_EA :: u32 where "FILE_WRITE_EA \<equiv> 0x10"
abbreviation FILE_READ_ATTRIBUTES :: u32 where "FILE_READ_ATTRIBUTES \<equiv> 0x80"
abbreviation FILE_WRITE_ATTRIBUTES :: u32 where "FILE_WRITE_ATTRIBUTES \<equiv> 0x100"

definition WantsWriteAccess :: "u32 \<Rightarrow> bool" where
  "WantsWriteAccess acc \<longleftrightarrow>
     acc AND (GENERIC_ALL OR GENERIC_WRITE OR DELETE_ACCESS OR FILE_WRITE_DATA OR
       FILE_WRITE_ATTRIBUTES OR FILE_WRITE_EA OR FILE_APPEND_DATA) \<noteq> 0"

definition WantsReadAccess :: "u32 \<Rightarrow> bool" where
  "WantsReadAccess acc \<longleftrightarrow> acc AND (GENERIC_READ OR FILE_READ_DATA) \<noteq> 0"

definition WantsReadOnlyAccess :: "u32 \<Rightarrow> bool" where
  "WantsReadOnlyAccess acc \<longleftrightarrow> WantsReadAccess acc \<and> \<not> WantsWriteAccess acc"

definition WantsProbeOnlyAccess :: "u32 \<Rightarrow> bool" where
  "WantsProbeOnlyAccess acc \<longleftrightarrow>
     \<not> WantsReadAccess acc \<and> \<not> WantsWriteAccess acc \<and>
     (acc = 0 \<or> acc AND (FILE_READ_ATTRIBUTES OR FILE_READ_EA) \<noteq> 0)"

definition WantsDeleteOnlyAccess :: "u32 \<Rightarrow> bool" where
  "WantsDeleteOnlyAccess acc \<longleftrightarrow> acc = DELETE_ACCESS"


section \<open>Severities\<close>

instantiation ResultAction :: linorder
begin
fun rank_ResultAction :: "ResultAction \<Rightarrow> nat" where
  "rank_ResultAction Allow = 0"
| "rank_ResultAction Warn = 1"
| "rank_ResultAction Deny = 2"
definition less_eq_ResultAction :: "ResultAction \<Rightarrow> ResultAction \<Rightarrow> bool" where
  "less_eq_ResultAction a b \<longleftrightarrow> rank_ResultAction a \<le> rank_ResultAction b"
definition less_ResultAction :: "ResultAction \<Rightarrow> ResultAction \<Rightarrow> bool" where
  "less_ResultAction a b \<longleftrightarrow> rank_ResultAction a < rank_ResultAction b"
instance
proof
  fix a b :: ResultAction
  show "a \<le> b \<Longrightarrow> b \<le> a \<Longrightarrow> a = b"
    by (cases a; cases b) (simp_all add: less_eq_ResultAction_def)
qed (auto simp: less_eq_ResultAction_def less_ResultAction_def)
end

instantiation ReportLevel :: linorder
begin
fun rank_ReportLevel :: "ReportLevel \<Rightarrow> nat" where
  "rank_ReportLevel Ignore = 0"
| "rank_ReportLevel Report = 1"
| "rank_ReportLevel ReportExplicit = 2"
definition less_eq_ReportLevel :: "ReportLevel \<Rightarrow> ReportLevel \<Rightarrow> bool" where
  "less_eq_ReportLevel a b \<longleftrightarrow> rank_ReportLevel a \<le> rank_ReportLevel b"
definition less_ReportLevel :: "ReportLevel \<Rightarrow> ReportLevel \<Rightarrow> bool" where
  "less_ReportLevel a b \<longleftrightarrow> rank_ReportLevel a < rank_ReportLevel b"
instance
proof
  fix a b :: ReportLevel
  show "a \<le> b \<Longrightarrow> b \<le> a \<Longrightarrow> a = b"
    by (cases a; cases b) (simp_all add: less_eq_ReportLevel_def)
qed (auto simp: less_eq_ReportLevel_def less_ReportLevel_def)
end

instantiation PathValidity :: linorder
begin
fun rank_PathValidity :: "PathValidity \<Rightarrow> nat" where
  "rank_PathValidity Valid = 0"
| "rank_PathValidity PathComponentNotFound = 1"
| "rank_PathValidity Invalid = 2"
definition less_eq_PathValidity :: "PathValidity \<Rightarrow> PathValidity \<Rightarrow> bool" where
  "less_eq_PathValidity a b \<longleftrightarrow> rank_PathValidity a \<le> rank_PathValidity b"
definition less_PathValidity :: "PathValidity \<Rightarrow> PathValidity \<Rightarrow> bool" where
  "less_PathValidity a b \<longleftrightarrow> rank_PathValidity a < rank_PathValidity b"
instance
proof
  fix a b :: PathValidity
  show "a \<le> b \<Longrightarrow> b \<le> a \<Longrightarrow> a = b"
    by (cases a; cases b) (simp_all add: less_eq_PathValidity_def)
qed (auto simp: less_eq_PathValidity_def less_PathValidity_def)
end

lemmas severity_defs = less_eq_ResultAction_def less_eq_ReportLevel_def less_eq_PathValidity_def

lemma Combine_max:
  "acr_Result (Combine a b) = max (acr_Result a) (acr_Result b)"
  "acr_Level (Combine a b) = max (acr_Level a) (acr_Level b)"
  "acr_Validity (Combine a b) = max (acr_Validity a) (acr_Validity b)"
  "acr_Access (Combine a b) = acr_Access a OR acr_Access b"
proof -
  show "acr_Result (Combine a b) = max (acr_Result a) (acr_Result b)"
    by (cases "acr_Result a"; cases "acr_Result b") (simp_all add: Combine_def max_def severity_defs)
  show "acr_Level (Combine a b) = max (acr_Level a) (acr_Level b)"
    by (cases "acr_Level a"; cases "acr_Level b") (simp_all add: Combine_def max_def severity_defs)
  show "acr_Validity (Combine a b) = max (acr_Validity a) (acr_Validity b)"
    by (cases "acr_Validity a"; cases "acr_Validity b")
      (simp_all add: Combine_def max_def severity_defs)
qed (simp add: Combine_def)

text \<open>
  \<open>AccessCheckResult::Combine\<close> takes the most restrictive action, the highest report level and
  the worst path validity of its operands, and their accesses together; so it is commutative,
  associative and idempotent, and the order in which a hook combines checks does not matter.
\<close>
theorem combine_semilattice:
  "Combine a b = Combine b a \<and> Combine (Combine a b) c = Combine a (Combine b c) \<and> Combine a a = a \<and>
   ShouldDenyAccess (Combine a b) = (ShouldDenyAccess a \<or> ShouldDenyAccess b) \<and>
   ShouldReport (Combine a b) = (ShouldReport a \<or> ShouldReport b) \<and>
   IsReadOnlyAccess (Combine a b) = (IsReadOnlyAccess a \<and> IsReadOnlyAccess b)"
proof -
  have eq: "x = y" if "acr_Access x = acr_Access y" "acr_Result x = acr_Result y"
    "acr_Level x = acr_Level y" "acr_Validity x = acr_Validity y" for x y :: AccessCheckResult
    using that by simp
  have deny: "max r s = Deny \<longleftrightarrow> r = Deny \<or> s = Deny" for r s :: ResultAction
    by (cases r; cases s) (simp_all add: max_def severity_defs)
  have level: "max l m = Report \<or> max l m = ReportExplicit \<longleftrightarrow>
      (l = Report \<or> l = ReportExplicit) \<or> m = Report \<or> m = ReportExplicit" for l m :: ReportLevel
    by (cases l; cases m) (simp_all add: max_def severity_defs)
  have bits: "(x OR y) AND w = 0 \<longleftrightarrow> x AND w = 0 \<and> y AND w = (0 :: u32)" for x y w
    unfolding bit.conj_disj_distrib2 or_eq_0_iff ..
  show ?thesis
    by (intro conjI eq)
      (simp_all add: Combine_max max.commute max.left_commute max.assoc or.commute
        or.left_commute or.assoc ShouldDenyAccess_def deny
        ShouldReport_def level IsReadOnlyAccess_def Access_None_def bits)
qed

text \<open>
  A denial reports "not found" in place of "access denied" only for a read-only access while
  masking is on, and the Win32 code and the NTSTATUS of a denial always say the same thing. An
  access that asks for a write is never masked.
\<close>
theorem denial_codes_agree:
  "(DenialError_masked m c, DenialNtStatus_masked m c) \<in>
     {(ERROR_ACCESS_DENIED, StatusAccessDenied), (ERROR_FILE_NOT_FOUND, StatusObjectNameNotFound),
      (ERROR_PATH_NOT_FOUND, StatusObjectPathNotFound), (ERROR_INVALID_NAME, StatusObjectNameInvalid)} \<and>
   (DenialError_masked m c = ERROR_FILE_NOT_FOUND) =
     (m \<and> IsReadOnlyAccess c \<and> acr_Validity c = Valid) \<and>
   DenialError_masked m (c\<lparr>acr_Access := acr_Access c OR Access_Write\<rparr>) =
     DenialError (c\<lparr>acr_Access := acr_Access c OR Access_Write\<rparr>)"
proof -
  have "(x OR 2) AND 2 \<noteq> (0 :: u32)" for x
    unfolding bit.conj_disj_distrib2 or_eq_0_iff by simp
  then have w: "\<not> IsReadOnlyAccess (c\<lparr>acr_Access := acr_Access c OR Access_Write\<rparr>)"
    by (simp add: IsReadOnlyAccess_def Access_Write_def Access_None_def)
  have ne: "Access_Write \<noteq> Access_None" by (simp add: Access_Write_def Access_None_def)
  show ?thesis
    by (cases "acr_Validity c")
      (simp_all add: DenialError_masked_def DenialNtStatus_masked_def DenialError_def
        DenialNtStatus_def w [unfolded IsReadOnlyAccess_def] ne IsReadOnlyAccess_def)
qed

end
