(* ===== verification/Policy_Result.thy ===== *)
theory Policy_Result
  imports Manifest_Parse Access_Check
begin

text \<open>
  From a path to a verdict: \<open>vendor/detours-services/CanonicalizedPath.{h,cpp}\<close>, the special-case
  rules of \<open>DetoursHelpers.cpp\<close>, and \<open>PolicyResult.h\<close>, \<open>PolicyResult.cpp\<close> and
  \<open>PolicyResult_common.cpp\<close>, which search the manifest for the policy of a path and check accesses
  against it. The Win32 services (\<open>GetFullPathNameW\<close>, \<open>GetFileAttributesW\<close>) and the lookup in the
  overlay's backing store are arguments.
\<close>

section \<open>Canonical paths\<close>

datatype PathType = PT_Null | Win32Nt | LocalDevice | Win32

record CanonicalizedPath =
  cp_Type :: PathType
  cp_value :: wstr

definition null_path :: CanonicalizedPath where
  "null_path = \<lparr>cp_Type = PT_Null, cp_value = []\<rparr>"

definition cp_IsNull :: "CanonicalizedPath \<Rightarrow> bool" where
  "cp_IsNull p \<longleftrightarrow> cp_Type p = PT_Null"

definition GetPathString :: "CanonicalizedPath \<Rightarrow> wstr" where
  "GetPathString p = cp_value p"

definition GetPathStringWithoutTypePrefix :: "CanonicalizedPath \<Rightarrow> wstr" where
  "GetPathStringWithoutTypePrefix p =
     (case cp_Type p of
        PT_Null \<Rightarrow> []
      | Win32 \<Rightarrow> GetPathString p
      | Win32Nt \<Rightarrow> drop 4 (GetPathString p)
      | LocalDevice \<Rightarrow> drop 4 (GetPathString p))"

text \<open>\<open>GetFullPath\<close> returns an error code and the full path; \<open>lastError\<close> is \<open>GetLastError()\<close>
  after a failed call.\<close>

definition GetFullPath :: "buffer_api \<Rightarrow> u32 \<Rightarrow> wstr \<Rightarrow> u32 \<times> wstr" where
  "GetFullPath fullPathName lastError path =
     (let (result, buf) = fullPathName path MAX_PATH in
      if result = 0 then (lastError, [])
      else if result < MAX_PATH then (ERROR_SUCCESS, take result buf)
      else (let (result2, buffer) = fullPathName path result in
            if result2 = 0 then (lastError, [])
            else if result2 < result then (ERROR_SUCCESS, take result2 buffer)
            else (ERROR_NOT_ENOUGH_MEMORY, [])))"

definition Canonicalize :: "buffer_api \<Rightarrow> u32 \<Rightarrow> wstr \<Rightarrow> CanonicalizedPath" where
  "Canonicalize fullPathName lastError noncanonicalPath =
     (if IsWin32NtPathName noncanonicalPath
      then \<lparr>cp_Type = Win32Nt, cp_value = noncanonicalPath\<rparr>
      else (let (error, fullPath) = GetFullPath fullPathName lastError noncanonicalPath in
            if error \<noteq> ERROR_SUCCESS then null_path
            else \<lparr>cp_Type = (if IsLocalDevicePathName fullPath then LocalDevice else Win32),
                   cp_value = fullPath\<rparr>))"

text \<open>\<open>Extend\<close> returns the extended path and the index where the extension starts.\<close>

definition Extend :: "CanonicalizedPath \<Rightarrow> wstr \<Rightarrow> CanonicalizedPath \<times> nat" where
  "Extend p additionalComponents =
     (let additional = dropWhile IsDirectorySeparator additionalComponents;
          extended = (if cp_value p \<noteq> [] \<and> \<not> IsDirectorySeparator (last (cp_value p))
                      then cp_value p @ [BACKSLASH] else cp_value p)
      in (\<lparr>cp_Type = cp_Type p, cp_value = extended @ additional\<rparr>, length extended))"

definition GetLastComponent :: "CanonicalizedPath \<Rightarrow> wstr" where
  "GetLastComponent p =
     (if cp_IsNull p then []
      else (let str = GetPathString p; i = FindFinalPathSeparator str
            in if at str i = 0 then drop i str else drop (i + 1) str))"

definition RemoveLastComponent :: "CanonicalizedPath \<Rightarrow> CanonicalizedPath" where
  "RemoveLastComponent p =
     (let lastSeparatorIndex = FindFinalPathSeparator (cp_value p);
          rootLength = GetRootLength (cp_value p)
      in \<lparr>cp_Type = cp_Type p,
           cp_value = take (if lastSeparatorIndex < rootLength then rootLength
                            else lastSeparatorIndex) (cp_value p)\<rparr>)"


section \<open>Special cases\<close>

definition FileAccessPolicy_AllowAll :: u32 where
  "FileAccessPolicy_AllowAll = Policy_AllowRead OR Policy_AllowReadIfNonExistent OR
     Policy_AllowWrite OR Policy_AllowCreateDirectory"

definition GetSpecialCaseRulesForWindows :: "wstr \<Rightarrow> u32 option" where
  "GetSpecialCaseRulesForWindows absolutePath =
     (if HasPrefix (drop (GetRootLength absolutePath) absolutePath) 
            (wide ''$Extend'' @ [BACKSLASH] @ wide ''$Deleted'')
      then Some FileAccessPolicy_AllowAll else None)"

definition GetSpecialCaseRulesForCoverageAndSpecialDevices :: "wstr \<Rightarrow> PathType \<Rightarrow> u32 option" where
  "GetSpecialCaseRulesForCoverageAndSpecialDevices absolutePath pathType =
     (let maybeStartsWithDrive = 2 \<le> length absolutePath \<and> IsDriveLetter (absolutePath ! 0) \<and>
            absolutePath ! 1 = COLON;
          startsWithDriveRoot = maybeStartsWithDrive \<and> at absolutePath 2 = BACKSLASH
      in if (pathType = LocalDevice \<or> pathType = Win32Nt) \<and>
            (maybeStartsWithDrive \<and> length absolutePath = 2 \<or> \<not> startsWithDriveRoot)
         then Some FileAccessPolicy_AllowAll
         else if IsPathToNamedStream absolutePath then Some FileAccessPolicy_AllowAll
         else None)"



section \<open>Policy results\<close>

record PolicyResult =
  m_canonicalizedPath :: CanonicalizedPath
  m_policy :: u32
  m_policySearchCursor :: PolicySearchCursor
  m_isIndeterminate :: bool

definition new_PolicyResult :: PolicyResult where
  "new_PolicyResult = \<lparr>m_canonicalizedPath = null_path, m_policy = 0,
     m_policySearchCursor = invalid_cursor, m_isIndeterminate = True\<rparr>"

text \<open>The policy at the end of a search; \<open>None\<close> is an invalid cursor or a read outside the manifest.\<close>

definition cursor_policy :: "bytes \<Rightarrow> PolicySearchCursor \<Rightarrow> u32 option" where
  "cursor_policy mem cursor =
     (case cur_Record cursor of
        None \<Rightarrow> None
      | Some r \<Rightarrow> if SearchWasTruncated cursor then GetConePolicy mem r else GetNodePolicy mem r)"

definition Initialize_with_cursor :: "bytes \<Rightarrow> CanonicalizedPath \<Rightarrow> PolicySearchCursor \<Rightarrow>
    PolicyResult option" where
  "Initialize_with_cursor mem path cursor =
     map_option (\<lambda>policy. \<lparr>m_canonicalizedPath = path, m_policy = policy,
       m_policySearchCursor = cursor, m_isIndeterminate = False\<rparr>) (cursor_policy mem cursor)"

definition InitializeFromCursor :: "bytes \<Rightarrow> CanonicalizedPath \<Rightarrow> PolicySearchCursor \<Rightarrow> wstr option \<Rightarrow>
    PolicyResult option" where
  "InitializeFromCursor mem canonicalizedPath policySearchCursor searchSuffix =
     (let fullTranslatedPath = GetPathStringWithoutTypePrefix canonicalizedPath;
          translatedSearchSuffix = (case searchSuffix of Some s \<Rightarrow> s | None \<Rightarrow> fullTranslatedPath)
      in case FindFileAccessPolicyInTreeEx mem policySearchCursor translatedSearchSuffix of
           None \<Rightarrow> None
         | Some newCursor \<Rightarrow>
             (case Initialize_with_cursor mem canonicalizedPath newCursor of
                None \<Rightarrow> None
              | Some pr \<Rightarrow>
                  (case GetSpecialCaseRulesForWindows fullTranslatedPath of
                     Some policy \<Rightarrow> Some (pr\<lparr>m_policy := policy\<rparr>)
                   | None \<Rightarrow>
                       (case GetSpecialCaseRulesForCoverageAndSpecialDevices fullTranslatedPath
                               (cp_Type canonicalizedPath) of
                          Some policy \<Rightarrow> Some (pr\<lparr>m_policy := policy\<rparr>)
                        | None \<Rightarrow> Some pr))))"

definition Initialize_canonical :: "bytes \<Rightarrow> nat \<Rightarrow> CanonicalizedPath \<Rightarrow> PolicyResult option" where
  "Initialize_canonical mem manifestTreeRoot canonicalizedPath =
     InitializeFromCursor mem canonicalizedPath (start_cursor manifestTreeRoot) None"

text \<open>\<open>Some None\<close> is the return of \<open>false\<close>: the policy stays indeterminate.\<close>

definition Initialize :: "buffer_api \<Rightarrow> u32 \<Rightarrow> bytes \<Rightarrow> nat \<Rightarrow> wstr \<Rightarrow> PolicyResult option option" where
  "Initialize fullPathName lastError mem manifestTreeRoot path =
     (let canonicalizedPath = Canonicalize fullPathName lastError path in
      if cp_IsNull canonicalizedPath then Some None
      else map_option Some (Initialize_canonical mem manifestTreeRoot canonicalizedPath))"

definition GetPolicyForSubpath :: "bytes \<Rightarrow> nat \<Rightarrow> PolicyResult \<Rightarrow> wstr \<Rightarrow> PolicyResult option" where
  "GetPolicyForSubpath mem manifestTreeRoot pr pathSuffix =
     (let (extendedPath, extensionStartIndex) = Extend (m_canonicalizedPath pr) pathSuffix in
      if cur_Record (m_policySearchCursor pr) \<noteq> None
      then InitializeFromCursor mem extendedPath (m_policySearchCursor pr)
             (Some (drop extensionStartIndex (GetPathString extendedPath)))
      else Initialize_canonical mem manifestTreeRoot extendedPath)"

definition AllowRead :: "PolicyResult \<Rightarrow> bool" where
  "AllowRead pr \<longleftrightarrow> m_policy pr AND Policy_AllowRead \<noteq> 0"

definition AllowReadIfNonexistent :: "PolicyResult \<Rightarrow> bool" where
  "AllowReadIfNonexistent pr \<longleftrightarrow> m_policy pr AND Policy_AllowReadIfNonExistent \<noteq> 0"

definition AllowSymlinkCreation :: "PolicyResult \<Rightarrow> bool" where
  "AllowSymlinkCreation pr \<longleftrightarrow> m_policy pr AND Policy_AllowSymlinkCreation \<noteq> 0"

definition AllowCreateDirectory :: "PolicyResult \<Rightarrow> bool" where
  "AllowCreateDirectory pr \<longleftrightarrow> m_policy pr AND Policy_AllowCreateDirectory \<noteq> 0"

definition OverrideAllowWriteForExistingFiles :: "PolicyResult \<Rightarrow> bool" where
  "OverrideAllowWriteForExistingFiles pr \<longleftrightarrow>
     m_policy pr AND Policy_OverrideAllowWriteForExistingFiles \<noteq> 0"

definition IndicateUntracked :: "PolicyResult \<Rightarrow> bool" where
  "IndicateUntracked pr \<longleftrightarrow> m_policy pr AND FileAccessPolicy_AllowAll = FileAccessPolicy_AllowAll"

definition IsExactManifestNode :: "PolicyResult \<Rightarrow> bool" where
  "IsExactManifestNode pr \<longleftrightarrow>
     cur_Record (m_policySearchCursor pr) \<noteq> None \<and> \<not> SearchWasTruncated (m_policySearchCursor pr)"

definition IsDeclaredInput :: "PolicyResult \<Rightarrow> bool" where
  "IsDeclaredInput pr \<longleftrightarrow> m_policy pr AND Policy_DeclaredInput \<noteq> 0"


section \<open>Checks\<close>

text \<open>\<open>GetFileAttributesW\<close>: the attributes, or the last error.\<close>

type_synonym attributes_api = "wstr \<Rightarrow> u32 + u32"

abbreviation FILE_ATTRIBUTE_DIRECTORY :: u32 where "FILE_ATTRIBUTE_DIRECTORY \<equiv> 0x10"

definition ExistsAsFile :: "attributes_api \<Rightarrow> wstr \<Rightarrow> bool" where
  "ExistsAsFile fileAttributes path =
     (case fileAttributes path of
        Inl error \<Rightarrow> False
      | Inr dwAttrib \<Rightarrow> dwAttrib AND FILE_ATTRIBUTE_DIRECTORY = 0)"

definition ProbePathForValidity :: "attributes_api \<Rightarrow> CanonicalizedPath \<Rightarrow> PathValidity" where
  "ProbePathForValidity fileAttributes p =
     (case fileAttributes (GetPathString p) of
        Inr maybeAttributes \<Rightarrow> Valid
      | Inl error \<Rightarrow>
          if error = ERROR_PATH_NOT_FOUND then PathComponentNotFound
          else if error = ERROR_INVALID_NAME then Invalid
          else Valid)"

text \<open>What the checks take from the process: the manifest's flags, the file system, and
  \<open>OverlayBackingExists\<close>.\<close>

record check_env =
  env_flags :: u32
  env_extraFlags :: u32
  env_attributes :: attributes_api
  env_backingExists :: "wstr \<Rightarrow> bool"

definition HasOverlayBackingShadow :: "check_env \<Rightarrow> PolicyResult \<Rightarrow> bool" where
  "HasOverlayBackingShadow env pr =
     env_backingExists env (GetPathStringWithoutTypePrefix (m_canonicalizedPath pr))"

definition AllowWrite :: "check_env \<Rightarrow> bool \<Rightarrow> PolicyResult \<Rightarrow> bool" where
  "AllowWrite env basedOnlyOnPolicy pr =
     (let isWriteAllowedByPolicy = (m_policy pr AND Policy_AllowWrite \<noteq> 0) in
      if \<not> basedOnlyOnPolicy \<and> \<not> IndicateUntracked pr \<and> isWriteAllowedByPolicy \<and>
         OverrideAllowWriteForExistingFiles pr
      then (if env_backingExists env (GetPathStringWithoutTypePrefix (m_canonicalizedPath pr))
            then True
            else if ExistsAsFile (env_attributes env) (GetPathString (m_canonicalizedPath pr))
            then ShouldWriteOverlay (env_extraFlags env)
            else True)
      else isWriteAllowedByPolicy)"

definition CheckReadAccess :: "check_env \<Rightarrow> RequestedReadAccess \<Rightarrow> FileReadContext \<Rightarrow> PolicyResult \<Rightarrow>
    AccessCheckResult" where
  "CheckReadAccess env readAccessRequested ctx pr =
     (let accessRequested = access_of_read readAccessRequested in
      if Existence ctx = InvalidPath then access_check accessRequested Allow Ignore Invalid
      else (let exists = (Existence ctx = Existent);
                allowAccess =
                  OpenedDirectory ctx \<or>
                  (exists \<and> AllowRead pr) \<or>
                  (\<not> exists \<and> AllowReadIfNonexistent pr) \<or>
                  readAccessRequested = RRA_EnumerationProbe \<or>
                  (exists \<and> OverrideAllowWriteForExistingFiles pr \<and> HasOverlayBackingShadow env pr);
                result = (if allowAccess then Allow else Deny);
                reportLevel = (if CheckReportAnyAccess (env_flags env) (result \<noteq> Allow)
                               then Report else Ignore)
            in access_check accessRequested result reportLevel Valid))"

definition CreateAccessCheckResult :: "check_env \<Rightarrow> bool \<Rightarrow> PolicyResult \<Rightarrow> AccessCheckResult" where
  "CreateAccessCheckResult env isAllowed pr =
     (let result = (if isAllowed then Allow else Deny);
          reportLevel = (if CheckReportAnyAccess (env_flags env) (result \<noteq> Allow)
                         then Report else Ignore)
      in if result \<noteq> Allow
         then (let pathValidity = ProbePathForValidity (env_attributes env) (m_canonicalizedPath pr)
               in access_check Access_Write result
                    (if pathValidity = Invalid then Ignore else reportLevel) pathValidity)
         else access_check Access_Write result reportLevel Valid)"

definition CheckExistingFileReadAccess :: "check_env \<Rightarrow> PolicyResult \<Rightarrow> AccessCheckResult" where
  "CheckExistingFileReadAccess env pr =
     CheckReadAccess env RRA_Read \<lparr>Existence = Existent, OpenedDirectory = False\<rparr> pr"

definition CheckWriteAccess :: "check_env \<Rightarrow> bool \<Rightarrow> PolicyResult \<Rightarrow> AccessCheckResult" where
  "CheckWriteAccess env basedOnPolicy pr =
     CreateAccessCheckResult env (AllowWrite env basedOnPolicy pr) pr"

definition CheckSymlinkCreationAccess :: "check_env \<Rightarrow> PolicyResult \<Rightarrow> AccessCheckResult" where
  "CheckSymlinkCreationAccess env pr = CreateAccessCheckResult env (AllowSymlinkCreation pr) pr"

definition CheckCreateDirectoryAccess :: "check_env \<Rightarrow> PolicyResult \<Rightarrow> AccessCheckResult" where
  "CheckCreateDirectoryAccess env pr = CreateAccessCheckResult env (AllowCreateDirectory pr) pr"

definition CheckDirectoryAccess :: "check_env \<Rightarrow> bool \<Rightarrow> PolicyResult \<Rightarrow> AccessCheckResult" where
  "CheckDirectoryAccess env enforceCreationAccess pr =
     (if enforceCreationAccess then CheckCreateDirectoryAccess env pr
      else CheckReadAccess env RRA_Probe \<lparr>Existence = Existent, OpenedDirectory = True\<rparr> pr)"

definition ShouldForceReadSharing :: "check_env \<Rightarrow> AccessCheckResult \<Rightarrow> PolicyResult \<Rightarrow> bool" where
  "ShouldForceReadSharing env accessCheck pr \<longleftrightarrow>
     \<not> AllowWrite env True pr \<and> acr_Result accessCheck = Allow"


section \<open>Extending a path\<close>

text \<open>Searching from a cursor that ends a search, for nothing and then for more.\<close>

lemma search_nothing:
  "(case FindFileAccessPolicyInTreeEx mem c [] of
      None \<Rightarrow> None | Some c' \<Rightarrow> FindFileAccessPolicyInTreeEx mem c' q) =
   FindFileAccessPolicyInTreeEx mem c q"
proof (cases "SearchWasTruncated c \<or> cur_Record c = None")
  case True
  then show ?thesis by (auto simp: FindFileAccessPolicyInTreeEx.simps [of mem c])
next
  case False
  then obtain r l p where c: "c = PolicySearchCursor (Some r) l p False" by (cases c) auto
  show ?thesis
  proof (cases "rec_BucketCount mem r")
    case None
    then show ?thesis by (simp add: c FindFileAccessPolicyInTreeEx.simps [of mem])
  next
    case (Some n)
    then have "FindFileAccessPolicyInTreeEx mem c [] = Some c"
      by (simp add: c FindFileAccessPolicyInTreeEx.simps [of mem _ "[]"])
    then show ?thesis by simp
  qed
qed

text \<open>A directory path that can be extended: not empty, and with at most one separator at its end.\<close>

definition extensible :: "wstr \<Rightarrow> bool" where
  "extensible t \<longleftrightarrow> t \<noteq> [] \<and>
     (IsDirectorySeparator (last t) \<longrightarrow> butlast t \<noteq> [] \<and> \<not> IsDirectorySeparator (last (butlast t)))"

lemma search_extend:
  assumes "extensible t"
  shows "FindFileAccessPolicyInTreeEx mem c
      ((if IsDirectorySeparator (last t) then t else t @ [BACKSLASH]) @ q) =
    (case FindFileAccessPolicyInTreeEx mem c t of
       None \<Rightarrow> None | Some c' \<Rightarrow> FindFileAccessPolicyInTreeEx mem c' q)"
proof (cases "IsDirectorySeparator (last t)")
  case False
  with search_resume [of t BACKSLASH mem c q] assms show ?thesis
    by (simp add: extensible_def IsDirectorySeparator_def)
next
  case True
  with assms have t: "t = butlast t @ [last t]" "butlast t \<noteq> []"
    "\<not> IsDirectorySeparator (last (butlast t))" by (auto simp: extensible_def)
  note resume = search_resume [OF t(2,3) True, of mem c]
  have "FindFileAccessPolicyInTreeEx mem c t =
      (case FindFileAccessPolicyInTreeEx mem c (butlast t) of
         None \<Rightarrow> None | Some c' \<Rightarrow> FindFileAccessPolicyInTreeEx mem c' [])"
    using resume [of "[]"] t(1) by simp
  moreover have "FindFileAccessPolicyInTreeEx mem c (t @ q) =
      (case FindFileAccessPolicyInTreeEx mem c (butlast t) of
         None \<Rightarrow> None | Some c' \<Rightarrow> FindFileAccessPolicyInTreeEx mem c' q)"
    using resume [of q] t(1) by (metis append_Cons append_assoc self_append_conv2)
  ultimately show ?thesis
    using True
    by (cases "FindFileAccessPolicyInTreeEx mem c (butlast t)") (simp_all add: search_nothing)
qed


lemma translated_extend:
  assumes "extensible (GetPathStringWithoutTypePrefix p)" "Extend p suf = (p', i)"
  shows "GetPathStringWithoutTypePrefix p' =
      (let t = GetPathStringWithoutTypePrefix p in
       if IsDirectorySeparator (last t) then t else t @ [BACKSLASH]) @ dropWhile IsDirectorySeparator suf"
    and "drop i (GetPathString p') = dropWhile IsDirectorySeparator suf"
proof -
  let ?t = "GetPathStringWithoutTypePrefix p"
  have ne: "?t \<noteq> []" using assms(1) by (simp add: extensible_def)
  then obtain pre where v: "cp_value p = pre @ ?t" "cp_Type p \<noteq> PT_Null"
    "cp_Type p = Win32 \<Longrightarrow> pre = []" "cp_Type p \<noteq> Win32 \<Longrightarrow> length pre = 4"
  proof (cases "cp_Type p")
    case Win32Nt
    with ne that [of "take 4 (cp_value p)"] show ?thesis
      by (simp add: GetPathStringWithoutTypePrefix_def GetPathString_def)
  next
    case LocalDevice
    with ne that [of "take 4 (cp_value p)"] show ?thesis
      by (simp add: GetPathStringWithoutTypePrefix_def GetPathString_def)
  next
    case Win32
    with that [of "[]"] show ?thesis
      by (simp add: GetPathStringWithoutTypePrefix_def GetPathString_def)
  qed (simp add: GetPathStringWithoutTypePrefix_def)
  have last: "last (cp_value p) = last ?t" "cp_value p \<noteq> []"
    using ne v(1) by (metis last_appendR, metis append_is_Nil_conv)
  have p': "cp_Type p' = cp_Type p"
    "cp_value p' = (if IsDirectorySeparator (last ?t) then cp_value p else cp_value p @ [BACKSLASH]) @
       dropWhile IsDirectorySeparator suf"
    and i: "i = length (if IsDirectorySeparator (last ?t) then cp_value p else cp_value p @ [BACKSLASH])"
    using assms(2) last by (auto simp: Extend_def Let_def)
  show "drop i (GetPathString p') = dropWhile IsDirectorySeparator suf"
    by (simp add: GetPathString_def p' i)
  have strip: "GetPathStringWithoutTypePrefix p' = drop (length pre) (cp_value p')"
    using v(2-4) p'(1) by (cases "cp_Type p") (simp_all add: GetPathStringWithoutTypePrefix_def GetPathString_def)
  show "GetPathStringWithoutTypePrefix p' =
      (let t = GetPathStringWithoutTypePrefix p in
       if IsDirectorySeparator (last t) then t else t @ [BACKSLASH]) @ dropWhile IsDirectorySeparator suf"
    unfolding strip p'(2) Let_def by (subst (1 2) v(1)) simp
qed

text \<open>A search that ends at a record gives a policy.\<close>

lemma cursor_policy_for:
  assumes "cursor_for mem cur n truncated lvl"
  shows "cursor_policy mem cur = Some (policy_of (n, truncated))"
proof -
  obtain r where r: "cur_Record cur = Some r" "record_at mem r n" "SearchWasTruncated cur = truncated"
    using assms by (auto simp: cursor_for_def)
  obtain offsets where head: "bytes_at mem r (record_head n offsets)" "length offsets < 2 ^ 32"
    using r(2) by (cases n) (auto simp del: record_head_def)
  show ?thesis
    using record_reads(2,3) [OF head] r by (simp add: cursor_policy_def policy_of_def)
qed

lemma Initialize_returns:
  assumes "record_at mem root n" "tree_wf n" "\<not> cp_IsNull p" "0 \<notin> set (GetPathStringWithoutTypePrefix p)"
  shows "\<exists>pr. Initialize_canonical mem root p = Some pr"
proof -
  let ?t = "GetPathStringWithoutTypePrefix p"
  obtain cur where cur: "FindFileAccessPolicyInTreeEx mem (start_cursor root) ?t = Some cur"
    "cursor_for mem cur (fst (tree_search (search_keys ?t) n)) (snd (tree_search (search_keys ?t) n))
       (0 + tree_depth (search_keys ?t) n)"
    using search_refines [OF assms(1,2,4), of 0 None] by (auto simp: start_cursor_def)
  from cursor_policy_for [OF cur(2)] cur(1) show ?thesis
    by (simp add: Initialize_canonical_def InitializeFromCursor_def Initialize_with_cursor_def Let_def
        split: option.split)
qed

text \<open>Where no special case applies, the policy is that of the tree.\<close>

lemma Initialize_searched:
  assumes "record_at mem root n" "tree_wf n" "\<not> cp_IsNull cp" "0 \<notin> set (GetPathStringWithoutTypePrefix cp)"
    and "GetSpecialCaseRulesForWindows (GetPathStringWithoutTypePrefix cp) = None"
    and "GetSpecialCaseRulesForCoverageAndSpecialDevices (GetPathStringWithoutTypePrefix cp) (cp_Type cp) = None"
  defines "found \<equiv> tree_search (search_keys (GetPathStringWithoutTypePrefix cp)) n"
  obtains pr where "Initialize_canonical mem root cp = Some pr" "m_canonicalizedPath pr = cp"
    "m_policy pr = policy_of found" "IsExactManifestNode pr \<longleftrightarrow> \<not> snd found" "\<not> m_isIndeterminate pr"
proof -
  let ?t = "GetPathStringWithoutTypePrefix cp"
  from search_refines [OF assms(1,2,4), of 0 None]
  obtain cur where cur: "FindFileAccessPolicyInTreeEx mem (start_cursor root) ?t = Some cur"
    "cursor_for mem cur (fst found) (snd found) (0 + tree_depth (search_keys ?t) n)"
    by (auto simp: start_cursor_def found_def)
  have "Initialize_canonical mem root cp = Some \<lparr>m_canonicalizedPath = cp, m_policy = policy_of found,
      m_policySearchCursor = cur, m_isIndeterminate = False\<rparr>" (is "_ = Some ?pr")
    using assms(3,5,6) cur(1) cursor_policy_for [OF cur(2)]
    by (simp add: Let_def Initialize_canonical_def InitializeFromCursor_def Initialize_with_cursor_def)
  moreover have "IsExactManifestNode ?pr \<longleftrightarrow> \<not> snd found"
    using cur(2) by (auto simp: IsExactManifestNode_def cursor_for_def)
  ultimately show ?thesis by (intro that [of ?pr]) simp_all
qed

lemma GetPolicyForSubpath_full:
  assumes "Initialize_canonical mem root p = Some pr"
    and "extensible (GetPathStringWithoutTypePrefix p)"
  shows "GetPolicyForSubpath mem root pr suf = Initialize_canonical mem root (fst (Extend p suf))"
proof -
  let ?t = "GetPathStringWithoutTypePrefix p"
  let ?q = "dropWhile IsDirectorySeparator suf"
  obtain cur where cur: "FindFileAccessPolicyInTreeEx mem (start_cursor root) ?t = Some cur"
    "cur_Record cur \<noteq> None" and pr: "m_policySearchCursor pr = cur" "m_canonicalizedPath pr = p"
    using assms(1)
    by (auto simp: Initialize_canonical_def InitializeFromCursor_def Initialize_with_cursor_def
        cursor_policy_def Let_def split: option.splits)
  obtain p' i where ext: "Extend p suf = (p', i)" by (cases "Extend p suf")
  note tr = translated_extend [OF assms(2) ext]
  have "FindFileAccessPolicyInTreeEx mem (start_cursor root) (GetPathStringWithoutTypePrefix p') =
      FindFileAccessPolicyInTreeEx mem cur ?q"
    using search_extend [OF assms(2), of mem "start_cursor root" ?q] cur(1) tr(1)
    by (simp add: Let_def)
  then show ?thesis
    using cur(2)
    by (simp add: GetPolicyForSubpath_def Initialize_canonical_def InitializeFromCursor_def
        pr ext tr(2) Let_def)
qed

text \<open>Where the manifest holds a tree, every child of a directory has a policy.\<close>

lemma Initialize_determined:
  "Initialize_canonical mem root p = Some pr \<Longrightarrow> \<not> m_isIndeterminate pr"
  by (auto simp: Initialize_canonical_def InitializeFromCursor_def Initialize_with_cursor_def Let_def
      split: option.splits)

lemma GetPolicyForSubpath_returns:
  assumes "record_at mem root n" "tree_wf n" "Initialize_canonical mem root dir = Some pr"
    and "extensible (GetPathStringWithoutTypePrefix dir)"
    and "0 \<notin> set (GetPathStringWithoutTypePrefix dir)" "0 \<notin> set name"
  shows "\<exists>child. GetPolicyForSubpath mem root pr name = Some child \<and> \<not> m_isIndeterminate child"
proof -
  obtain p i where ext: "Extend dir name = (p, i)" by (cases "Extend dir name")
  let ?t = "GetPathStringWithoutTypePrefix dir"
  have "GetPathStringWithoutTypePrefix p =
      (if IsDirectorySeparator (last ?t) then ?t else ?t @ [BACKSLASH]) @ dropWhile IsDirectorySeparator name"
    using translated_extend(1) [OF assms(4) ext] by (simp add: Let_def)
  moreover have "cp_Type p = cp_Type dir" using ext by (auto simp: Extend_def Let_def)
  moreover have "\<not> cp_IsNull dir"
    using assms(4) by (auto simp: extensible_def cp_IsNull_def GetPathStringWithoutTypePrefix_def)
  ultimately have "\<not> cp_IsNull p" "0 \<notin> set (GetPathStringWithoutTypePrefix p)"
    using assms(5,6) by (auto simp: cp_IsNull_def dest: set_dropWhileD)
  from Initialize_returns [OF assms(1,2) this] GetPolicyForSubpath_full [OF assms(3,4), of name] ext
  show ?thesis using Initialize_determined by force
qed

text \<open>
  C18: the policy of a child that the enumeration filter computes by resuming the search at its
  directory's cursor is the policy of the extended path searched from the root of the tree: cursor,
  special cases and policy bits are those of the full path.
\<close>
theorem subpath_policy_is_full_policy:
  assumes "Initialize_canonical mem root p = Some pr"
    and "extensible (GetPathStringWithoutTypePrefix p)"
  shows "GetPolicyForSubpath mem root pr suf = Initialize_canonical mem root (fst (Extend p suf))"
  by (rule GetPolicyForSubpath_full [OF assms])

theorem subpath_policy_is_full_policy_witness:
  "\<exists>mem pr. SerializeNode example_tree [] = Some mem \<and>
     Initialize_canonical mem 0 \<lparr>cp_Type = Win32, cp_value = wide ''a''\<rparr> = Some pr \<and>
     GetPolicyForSubpath mem 0 pr (wide ''b'') =
       Initialize_canonical mem 0 \<lparr>cp_Type = Win32, cp_value = example_search\<rparr>"
proof -
  let ?p = "\<lparr>cp_Type = Win32, cp_value = wide ''a''\<rparr>"
  obtain mem where mem: "SerializeNode example_tree [] = Some mem" "record_at mem 0 example_tree"
    using example_tree_record by blast
  have "\<not> cp_IsNull ?p" "0 \<notin> set (GetPathStringWithoutTypePrefix ?p)" by code_simp+
  then obtain pr where pr: "Initialize_canonical mem 0 ?p = Some pr"
    using Initialize_returns [OF mem(2) example_tree_wf] by blast
  have "extensible (GetPathStringWithoutTypePrefix ?p)" by code_simp
  from subpath_policy_is_full_policy [OF pr this, of "wide ''b''"] mem(1) pr
  show ?thesis by (auto simp: Extend_def Let_def example_search_def wide_def IsDirectorySeparator_def)
qed

text \<open>
  An action that may write a path may go on using it in the overlay. Where a write passed the
  check and left a backing file, the next write passes too, and so does reading the file back where
  the policy protects existing files, whatever the file system then says about the path.
\<close>
theorem overlay_writes_stay_accessible:
  assumes "AllowWrite env1 False pr"
    and "env_backingExists env2 (GetPathStringWithoutTypePrefix (m_canonicalizedPath pr))"
  shows "AllowWrite env2 False pr \<and>
    (OverrideAllowWriteForExistingFiles pr \<longrightarrow>
       acr_Result (CheckExistingFileReadAccess env2 pr) = Allow)"
  using assms
  by (auto simp: AllowWrite_def Let_def CheckExistingFileReadAccess_def CheckReadAccess_def
      HasOverlayBackingShadow_def access_check_def split: if_splits)

definition example_env :: "bool \<Rightarrow> check_env" where
  "example_env written = \<lparr>env_flags = 0, env_extraFlags = 8,
     env_attributes = (\<lambda>p. if written then Inr 0x20 else Inl 2), env_backingExists = (\<lambda>p. written)\<rparr>"

theorem overlay_writes_stay_accessible_witness:
  "let pr = new_PolicyResult\<lparr>m_policy := Policy_AllowWrite OR Policy_OverrideAllowWriteForExistingFiles\<rparr>
   in AllowWrite (example_env True) False pr \<and>
      acr_Result (CheckExistingFileReadAccess (example_env True) pr) = Allow"
proof -
  let ?pr = "new_PolicyResult\<lparr>m_policy := Policy_AllowWrite OR Policy_OverrideAllowWriteForExistingFiles\<rparr>"
  have "AllowWrite (example_env False) False ?pr" by code_simp
  moreover have "env_backingExists (example_env True) (GetPathStringWithoutTypePrefix (m_canonicalizedPath ?pr))"
    by (simp add: example_env_def)
  moreover have "OverrideAllowWriteForExistingFiles ?pr" by code_simp
  ultimately show ?thesis
    using overlay_writes_stay_accessible [of "example_env False" ?pr "example_env True"] by simp
qed

end
