(* ===== verification/Payload_Injector.thy ===== *)
theory Payload_Injector
  imports Manifest_Parse
begin

text \<open>
  The payload wrapper that carries the manifest into a process: the launcher's writer
  (\<open>src/main.cpp\<close>, end of \<open>wmain\<close>'s manifest part), \<open>DetouredProcessInjector::Init\<close>,
  \<open>SetPayload\<close> and \<open>LocalInjectProcess\<close> (\<open>vendor/detours-services/DetouredProcessInjector.{h,cpp}\<close>),
  which unwrap it in a process and wrap it again for its children. The injector's lock is left out:
  every operation here holds it from its first access to the fields.
\<close>

section \<open>The launcher's wrapper\<close>

definition launcher_wrapper :: "bytes \<Rightarrow> bytes" where
  "launcher_wrapper manifest =
     (let kHandleCount = 0;
          kPrefixSize = 2 * 4 + kHandleCount * 8;
          kTotalSize = kPrefixSize + of_nat (length manifest)
      in u32_le kTotalSize @ u32_le kHandleCount @ manifest)"


section \<open>The injector\<close>

record injector =
  inj_payload :: "bytes option"
  inj_payloadSize :: u32
  inj_otherHandles :: "u64 list"
  inj_dllX86 :: bytes
  inj_dllX64 :: bytes
  inj_initialized :: bool

definition new_injector :: injector where
  "new_injector = \<lparr>inj_payload = None, inj_payloadSize = 0, inj_otherHandles = [],
     inj_dllX86 = [], inj_dllX64 = [], inj_initialized = False\<rparr>"

definition Clear :: "injector \<Rightarrow> injector" where
  "Clear self = \<lparr>inj_payload = None, inj_payloadSize = 0, inj_otherHandles = [],
     inj_dllX86 = [], inj_dllX64 = [], inj_initialized = False\<rparr>"

datatype init_error =
    PayloadIsNull
  | IncorrectSize u32
  | IncorrectHandleCountOrSize u32 u32

text \<open>A handle is kept at the width of the process.\<close>

definition Uint64ToHandle :: "bool \<Rightarrow> u64 \<Rightarrow> u64" where
  "Uint64ToHandle is64BitProcess value = (if is64BitProcess then value else value AND 0xFFFFFFFF)"

text \<open>\<open>handleCount * sizeof(uint64_t)\<close>, a \<open>size_t\<close>.\<close>

definition handle_bytes :: "bool \<Rightarrow> u32 \<Rightarrow> nat" where
  "handle_bytes is64BitProcess handleCount =
     (if is64BitProcess then unat handleCount * 8 else unat (handleCount * 8))"

text \<open>
  \<open>Init\<close> returns the error, or the payload pointer's bytes with the payload size, and the new
  state of the injector. The outer \<open>None\<close> is a read outside the wrapper.
\<close>

definition Init :: "bool \<Rightarrow> bool \<Rightarrow> bytes option \<Rightarrow> injector \<Rightarrow>
    ((init_error + bytes option \<times> u32) \<times> injector) option" where
  "Init is64BitProcess isWow64Process payloadWrapper self =
     (case payloadWrapper of
        None \<Rightarrow> Some (Inl PayloadIsNull, self)
      | Some mem \<Rightarrow>
          if inj_initialized self then Some (Inr (None, 0), self)
          else (case rd_u32 mem 0 of
                  None \<Rightarrow> None
                | Some size0 \<Rightarrow>
                    if \<not> 2 * 4 \<le> unat size0 then Some (Inl (IncorrectSize size0), self)
                    else (case rd_u32 mem 4 of
                            None \<Rightarrow> None
                          | Some handleCount \<Rightarrow>
                              (let size1 = size0 - 8 in
                               if \<not> handle_bytes is64BitProcess handleCount \<le> unat size1
                               then Some (Inl (IncorrectHandleCountOrSize handleCount size1), self)
                               else (let size2 = size1 - of_nat (handle_bytes is64BitProcess handleCount)
                                     in case u64_codec.dec_many (unat handleCount) mem 8 of
                                          None \<Rightarrow> None
                                        | Some (handles, data) \<Rightarrow>
                                            if length mem < data + unat size2 then None
                                            else (let payload = take (unat size2) (drop data mem);
                                                      self = self\<lparr>inj_otherHandles :=
                                                        (if handleCount = 0 then []
                                                         else inj_otherHandles self @
                                                           map (Uint64ToHandle is64BitProcess) handles)\<rparr>
                                                  in if \<not> isWow64Process
                                                     then (let p = (if size2 = 0 then None else Some payload)
                                                           in Some (Inr (p, size2),
                                                                self\<lparr>inj_payloadSize := size2, inj_payload := p,
                                                                    inj_initialized := True\<rparr>))
                                                     else Some (Inr (Some payload, size2),
                                                            self\<lparr>inj_initialized := True\<rparr>)))))))"

definition SetPayload :: "bytes option \<Rightarrow> u32 \<Rightarrow> injector \<Rightarrow> injector" where
  "SetPayload payload payloadSize self =
     (if inj_payload self \<noteq> None then self
      else self\<lparr>inj_payloadSize := payloadSize,
               inj_payload := (if payloadSize = 0 then None
                               else map_option (take (unat payloadSize)) payload)\<rparr>)"

definition SetDlls :: "bytes \<Rightarrow> bytes \<Rightarrow> injector \<Rightarrow> injector" where
  "SetDlls dllX86 dllX64 self = self\<lparr>inj_dllX86 := dllX86, inj_dllX64 := dllX64\<rparr>"

definition WrapperSize :: "injector \<Rightarrow> u32" where
  "WrapperSize self =
     of_nat (2 * 4 + (0 + length (inj_otherHandles self)) * 8 + unat (inj_payloadSize self))"

text \<open>
  \<open>LocalInjectProcess\<close>: the DLL that is injected and the wrapper that is copied. The Detours calls
  and the handle duplication into the child are arguments: \<open>updateDll dll\<close> and
  \<open>copyPayload wrapper\<close> are \<open>None\<close> for success and otherwise the last error.
\<close>

definition wrapper_bytes :: "(u64 \<Rightarrow> u64) \<Rightarrow> bool \<Rightarrow> injector \<Rightarrow> bytes" where
  "wrapper_bytes duplicateHandle inheritedHandles self =
     u32_le (WrapperSize self) @ u32_le (of_nat (0 + length (inj_otherHandles self))) @
     concat (map (\<lambda>i. u64_le (if inheritedHandles then i else duplicateHandle i))
       (inj_otherHandles self)) @
     take (unat (inj_payloadSize self)) (case inj_payload self of Some p \<Rightarrow> p | None \<Rightarrow> [])"

datatype inject_result =
    InjectFailed u32
  | Injected bytes bytes

definition LocalInjectProcess :: "(bytes \<Rightarrow> u32 option) \<Rightarrow> (bytes \<Rightarrow> u32 option) \<Rightarrow> (u64 \<Rightarrow> u64) \<Rightarrow>
    bool \<Rightarrow> bool \<Rightarrow> injector \<Rightarrow> inject_result" where
  "LocalInjectProcess updateDll copyPayload duplicateHandle targetIsWow64 inheritedHandles self =
     (let dll = (if targetIsWow64 then inj_dllX86 self else inj_dllX64 self) in
      case updateDll dll of
        Some err \<Rightarrow> InjectFailed err
      | None \<Rightarrow>
          (let payloadWrapper = wrapper_bytes duplicateHandle inheritedHandles self in
           case copyPayload payloadWrapper of
             Some err \<Rightarrow> InjectFailed err
           | None \<Rightarrow> Injected dll payloadWrapper))"


text \<open>
  A process in which the DLL is loaded attaches: \<open>ParseFileAccessManifest\<close> unwraps the payload, gives the injector
  a copy of it where \<open>Init\<close> has not, and the names of the DLLs. The result is the globals and the injector; the
  inner \<open>None\<close> is the return of \<open>false\<close>, after which the DLL does not stay loaded, the outer one a read
  outside the wrapper or a failed assertion.
\<close>

definition attach_process :: "bool \<Rightarrow> bool \<Rightarrow> (wstr \<Rightarrow> bool) \<Rightarrow> bytes \<Rightarrow> (parsed_manifest \<times> injector) option option" where
  "attach_process is64BitProcess isWow64Process openReport payload =
     (case Init is64BitProcess isWow64Process (Some payload) new_injector of
        None \<Rightarrow> None
      | Some (Inl e, self) \<Rightarrow> Some None
      | Some (Inr (payloadBytes, payloadSize), self) \<Rightarrow>
          (case payloadBytes of
             None \<Rightarrow> None
           | Some bytes \<Rightarrow>
               (let self = SetPayload payloadBytes payloadSize self
                in case ParseFileAccessManifest openReport bytes of
                     None \<Rightarrow> None
                   | Some None \<Rightarrow> Some None
                   | Some (Some g) \<Rightarrow> Some (Some (g, SetDlls (g_lpDllNameX86 g) (g_lpDllNameX64 g) self)))))"


section \<open>Unwrapping\<close>

lemma Init_wrapper_any:
  assumes mem: "bytes_at mem 0 (u32_le (of_nat (8 + 8 * length hs + length p)) @
      u32_le (of_nat (length hs)) @ concat (map u64_le hs) @ p)"
    and small: "8 + 8 * length hs + length p < 2 ^ 32"
    and fresh: "\<not> inj_initialized self" "inj_otherHandles self = []"
  shows "Init is64 wow (Some mem) self =
    Some (Inr (if p = [] \<and> \<not> wow then None else Some p, of_nat (length p)),
      if wow then self\<lparr>inj_otherHandles := map (Uint64ToHandle is64) hs, inj_initialized := True\<rparr>
      else self\<lparr>inj_otherHandles := map (Uint64ToHandle is64) hs, inj_payloadSize := of_nat (length p),
          inj_payload := (if p = [] then None else Some p), inj_initialized := True\<rparr>)"
proof -
  let ?n = "length hs"
  have u: "unat (of_nat (8 + 8 * ?n + length p) :: u32) = 8 + 8 * ?n + length p"
    "unat (of_nat ?n :: u32) = ?n" "unat (of_nat (length p) :: u32) = length p"
    using small by (simp_all only: unat_of_nat) simp_all
  have hb: "handle_bytes is64 (of_nat ?n) = 8 * ?n"
  proof -
    have "of_nat ?n * 8 = (of_nat (8 * ?n) :: u32)" by simp
    then have "unat (of_nat ?n * 8 :: u32) = 8 * ?n"
      using small by (simp only: unat_of_nat) simp
    with u(2) show ?thesis by (simp add: handle_bytes_def)
  qed
  have sub: "of_nat (8 + 8 * ?n + length p) - 8 = (of_nat (8 * ?n + length p) :: u32)"
    "of_nat (8 * ?n + length p) - of_nat (8 * ?n) = (of_nat (length p) :: u32)" by simp_all
  have u1: "unat (of_nat (8 * ?n + length p) :: u32) = 8 * ?n + length p"
    using small by (simp only: unat_of_nat) simp
  have len64: "length (concat (map u64_le hs)) = 8 * ?n"
    by (induction hs) (simp_all add: u64_le_def)
  have at: "rd_u32 mem 0 = Some (of_nat (8 + 8 * ?n + length p))" "rd_u32 mem 4 = Some (of_nat ?n)"
    "bytes_at mem 8 (concat (map u64_le hs))" "bytes_at mem (8 + 8 * ?n) p"
    using mem by (simp_all add: bytes_at_append rd_u32_bytes_at len64)
  have hs: "u64_codec.dec_many ?n mem 8 = Some (hs, 8 + 8 * ?n)"
    using u64_codec.dec_many_enc [of hs mem 8] at(3) by (simp add: len64)
  have p: "length p + (8 + 8 * ?n) \<le> length mem" "take (length p) (drop (8 + 8 * ?n) mem) = p"
    using at(4) by (simp_all add: bytes_at_def)
  have zero: "(of_nat (length p) = (0 :: u32)) = (p = [])" "(of_nat ?n = (0 :: u32)) = (hs = [])"
    unfolding unat_eq_0 [symmetric] u(2,3) by simp_all
  show ?thesis
    unfolding Init_def option.case if_not_P [OF fresh(1)] at(1,2) u sub Let_def hb u1 hs prod.case fresh(2)
    using p zero by simp
qed

lemma Init_wrapper:
  assumes "bytes_at mem 0 (u32_le (of_nat (8 + 8 * length hs + length p)) @
      u32_le (of_nat (length hs)) @ concat (map u64_le hs) @ p)"
    and "8 + 8 * length hs + length p < 2 ^ 32" "\<not> inj_initialized self" "inj_otherHandles self = []"
  shows "Init is64 False (Some mem) self =
    Some (Inr (if p = [] then None else Some p, of_nat (length p)),
      self\<lparr>inj_otherHandles := map (Uint64ToHandle is64) hs, inj_payloadSize := of_nat (length p),
          inj_payload := (if p = [] then None else Some p), inj_initialized := True\<rparr>)"
  using Init_wrapper_any [OF assms, of is64 False] by simp

lemma Init_launcher:
  assumes "8 + length manifest < 2 ^ 32" "manifest \<noteq> []" "\<not> inj_initialized self" "inj_otherHandles self = []"
  shows "Init is64 False (Some (launcher_wrapper manifest)) self =
    Some (Inr (Some manifest, of_nat (length manifest)),
      self\<lparr>inj_otherHandles := [], inj_payloadSize := of_nat (length manifest),
          inj_payload := Some manifest, inj_initialized := True\<rparr>)"
  using Init_wrapper [of "launcher_wrapper manifest" "[]" manifest self is64] assms
  by (simp add: launcher_wrapper_def bytes_at_def)

text \<open>A process that attaches to the launcher's wrapper of a manifest that parses, and what it hands on.\<close>

definition sealed :: "bytes \<Rightarrow> parsed_manifest \<Rightarrow> injector" where
  "sealed manifest g = \<lparr>inj_payload = Some manifest, inj_payloadSize = of_nat (length manifest), inj_otherHandles = [],
     inj_dllX86 = g_lpDllNameX86 g, inj_dllX64 = g_lpDllNameX64 g, inj_initialized = True\<rparr>"

definition report_opens :: "(wstr \<Rightarrow> bool) \<Rightarrow> parsed_manifest \<Rightarrow> bool" where
  "report_opens openReport g \<longleftrightarrow> (case g_reportPath g of None \<Rightarrow> True | Some path \<Rightarrow> openReport path)"

lemma parse_report:
  assumes "ParseFileAccessManifest openReport manifest = Some (Some g)"
  shows "ParseFileAccessManifest openReport' manifest = (if report_opens openReport' g then Some (Some g) else Some None)"
    and "manifest \<noteq> []"
proof -
  show "ParseFileAccessManifest openReport' manifest = (if report_opens openReport' g then Some (Some g) else Some None)"
    using assms
    by (auto simp: ParseFileAccessManifest_def report_opens_def split: option.splits prod.splits if_splits)
  show "manifest \<noteq> []" using assms by (auto simp: ParseFileAccessManifest_def rd_u32_def)
qed

lemma attach_launcher:
  assumes "ParseFileAccessManifest openReport manifest = Some (Some g)" "8 + length manifest < 2 ^ 32"
  shows "attach_process is64 wow openReport' (launcher_wrapper manifest) =
    (if report_opens openReport' g then Some (Some (g, sealed manifest g)) else Some None)"
proof -
  have small: "unat (of_nat (length manifest) :: u32) = length manifest"
    using assms(2) by (simp only: unat_of_nat) simp
  have nonzero: "of_nat (length manifest) \<noteq> (0 :: u32)"
    using parse_report(2) [OF assms(1)] small by (metis length_0_conv unat_eq_0)
  have "Init is64 wow (Some (launcher_wrapper manifest)) new_injector =
      Some (Inr (Some manifest, of_nat (length manifest)),
        if wow then new_injector\<lparr>inj_otherHandles := [], inj_initialized := True\<rparr>
        else new_injector\<lparr>inj_otherHandles := [], inj_payloadSize := of_nat (length manifest),
          inj_payload := Some manifest, inj_initialized := True\<rparr>)"
    using Init_wrapper_any [of "launcher_wrapper manifest" "[]" manifest new_injector is64 wow] assms(2)
      parse_report(2) [OF assms(1)]
    by (simp add: launcher_wrapper_def bytes_at_def new_injector_def)
  then show ?thesis
    using nonzero
    by (simp add: attach_process_def SetPayload_def SetDlls_def sealed_def new_injector_def small
        parse_report(1) [OF assms(1)])
qed

lemma sealed_injects:
  assumes "8 + length manifest < 2 ^ 32"
  shows "LocalInjectProcess updateDll copyPayload dup targetWow inherited (sealed manifest g) =
    (let dll = (if targetWow then g_lpDllNameX86 g else g_lpDllNameX64 g) in
     case updateDll dll of
       Some err \<Rightarrow> InjectFailed err
     | None \<Rightarrow>
         (case copyPayload (launcher_wrapper manifest) of
            Some err \<Rightarrow> InjectFailed err
          | None \<Rightarrow> Injected dll (launcher_wrapper manifest)))"
proof -
  have "unat (of_nat (length manifest) :: u32) = length manifest"
    using assms by (simp only: unat_of_nat) simp
  then have "wrapper_bytes dup inherited (sealed manifest g) = launcher_wrapper manifest"
    by (simp add: wrapper_bytes_def sealed_def WrapperSize_def launcher_wrapper_def)
  moreover have "inj_dllX86 (sealed manifest g) = g_lpDllNameX86 g" "inj_dllX64 (sealed manifest g) = g_lpDllNameX64 g"
    by (simp_all add: sealed_def)
  ultimately show ?thesis by (simp add: LocalInjectProcess_def Let_def split: option.split)
qed


section \<open>The processes of the tree\<close>

text \<open>
  The first process attaches to the launcher's wrapper, every other to what its parent copied into it. The
  processes may be of any width, and the calls of Windows differ from one to the next.
\<close>

inductive process_tree :: "bytes \<Rightarrow> parsed_manifest \<Rightarrow> injector \<Rightarrow> bool" for manifest where
  first_process: "attach_process is64 wow openReport (launcher_wrapper manifest) = Some (Some (g, self)) \<Longrightarrow>
    process_tree manifest g self"
| child_process: "process_tree manifest g self \<Longrightarrow>
    LocalInjectProcess updateDll copyPayload dup targetWow inherited self = Injected dll wrapper \<Longrightarrow>
    attach_process is64 targetWow openReport wrapper = Some (Some (g', self')) \<Longrightarrow>
    process_tree manifest g' self'"

lemma process_tree_sealed:
  assumes "process_tree manifest g' self" "ParseFileAccessManifest openReport manifest = Some (Some g)"
    and "8 + length manifest < 2 ^ 32"
  shows "g' = g \<and> self = sealed manifest g"
  using assms(1)
proof induction
  case first_process
  then show ?case by (auto simp: attach_launcher [OF assms(2,3)] split: if_split_asm)
next
  case (child_process g' self updateDll copyPayload dup targetWow inherited dll wrapper)
  then have "wrapper = launcher_wrapper manifest"
    by (simp add: sealed_injects [OF assms(3)] Let_def split: option.split_asm)
  with child_process show ?case by (auto simp: attach_launcher [OF assms(2,3)] split: if_split_asm)
qed


section \<open>Properties\<close>

text \<open>
  C19: the manifest reaches every process that the DLL gets into. In each process of the tree that attaches, of
  whatever width and however many processes down, the globals are those of the launcher's manifest, and
  the injector holds it byte for byte, with no handles, and the names of the manifest's DLLs. An injection from it
  into a child fails only where one of the two calls of Detours fails, and copies the launcher's own wrapper,
  with the DLL for the child's width; the child then attaches if it can open the report file.
  Whether Windows loads that DLL in the child is not part of this: the launcher names the same one for both widths.
\<close>
theorem descendants_get_the_manifest:
  assumes "process_tree manifest g' self" "ParseFileAccessManifest openReport manifest = Some (Some g)"
    and "8 + length manifest < 2 ^ 32"
  shows "g' = g \<and> inj_payload self = Some manifest \<and> unat (inj_payloadSize self) = length manifest \<and>
    inj_otherHandles self = [] \<and> inj_dllX86 self = g_lpDllNameX86 g \<and> inj_dllX64 self = g_lpDllNameX64 g \<and>
    LocalInjectProcess updateDll copyPayload dup targetWow inherited self =
      (let dll = (if targetWow then g_lpDllNameX86 g else g_lpDllNameX64 g) in
       case updateDll dll of
         Some err \<Rightarrow> InjectFailed err
       | None \<Rightarrow>
           (case copyPayload (launcher_wrapper manifest) of
              Some err \<Rightarrow> InjectFailed err
            | None \<Rightarrow> Injected dll (launcher_wrapper manifest))) \<and>
    attach_process is64 targetWow openReport' (launcher_wrapper manifest) =
      (if report_opens openReport' g then Some (Some (g, self)) else Some None)"
proof -
  have same: "g' = g" "self = sealed manifest g" using process_tree_sealed [OF assms] by simp_all
  have "unat (of_nat (length manifest) :: u32) = length manifest"
    using assms(3) by (simp only: unat_of_nat) simp
  then show ?thesis
    unfolding same
    by (intro conjI sealed_injects [OF assms(3)] attach_launcher [OF assms(2,3)]) (simp_all add: sealed_def)
qed

text \<open>A manifest without paths, with the DLLs \<open>a\<close> and \<open>b\<close>.\<close>

definition tiny_manifest :: bytes where
  "tiny_manifest = u32_le 0 @ u32_le 0 @ u32_le 0 @ u32_le 4 @ u32_le 2 @ u32_le 0 @ u32_le 2 @ [97, 0, 98, 0] @
     u32_le 0 @ u32_le 0"

definition tiny_globals :: parsed_manifest where
  "tiny_globals = \<lparr>g_fileAccessManifestFlags = 0, g_fileAccessManifestExtraFlags = 0, g_reportPath = None,
     g_lpDllNameX86 = [97], g_lpDllNameX64 = [98], g_bazelWriteOverlayRoot = None, g_bazelOverlaySourceRoot = None,
     g_manifestTreeRoot = 40\<rparr>"

theorem descendants_get_the_manifest_witness:
  "\<exists>self. process_tree tiny_manifest tiny_globals self \<and>
     LocalInjectProcess (\<lambda>dll. None) (\<lambda>w. None) id True False self = Injected [97] (launcher_wrapper tiny_manifest) \<and>
     attach_process False True (\<lambda>p. False) (launcher_wrapper tiny_manifest) = Some (Some (tiny_globals, self))"
proof -
  have parse: "ParseFileAccessManifest (\<lambda>p. False) tiny_manifest = Some (Some tiny_globals)" by code_simp
  have small: "8 + length tiny_manifest < 2 ^ 32" by (simp add: tiny_manifest_def)
  have names: "g_lpDllNameX86 tiny_globals = [97]" "report_opens (\<lambda>p. False) tiny_globals"
    by (simp_all add: tiny_globals_def report_opens_def)
  have "attach_process True False (\<lambda>p. False) (launcher_wrapper tiny_manifest) =
      Some (Some (tiny_globals, sealed tiny_manifest tiny_globals))"
    using attach_launcher [OF parse small] names(2) by simp
  then have tree: "process_tree tiny_manifest tiny_globals (sealed tiny_manifest tiny_globals)" by (rule first_process)
  note child = descendants_get_the_manifest [OF tree parse small, of "\<lambda>dll. None" "\<lambda>w. None" id True False False "\<lambda>p. False"]
  show ?thesis by (intro exI [of _ "sealed tiny_manifest tiny_globals"] conjI tree) (use child names in simp_all)
qed

text \<open>The handles of a wrapper.\<close>

lemma rd_u32_inside: "i + 4 \<le> length mem \<Longrightarrow> rd_u32 mem i = Some (the (rd_u32 mem i))"
  by (simp add: rd_u32_def)

definition handle_at :: "bytes \<Rightarrow> nat \<Rightarrow> u64" where
  "handle_at mem i = fst (the (rd_u64 mem i))"

lemma read_handles:
  "i + 8 * n \<le> length mem \<Longrightarrow>
    u64_codec.dec_many n mem i = Some (map (\<lambda>k. handle_at mem (i + 8 * k)) [0..<n], i + 8 * n)"
proof (induction n arbitrary: i)
  case (Suc n)
  from Suc.prems have "rd_u64 mem i = Some (handle_at mem i, i + 8)"
    by (simp add: rd_u64_def handle_at_def rd_u32_def)
  with Suc.IH [of "i + 8"] Suc.prems show ?case
    by (simp add: upt_conv_Cons map_Suc_upt [symmetric] comp_def add.assoc del: upt_Suc)
qed simp

text \<open>
  C20: in a 64-bit process \<open>Init\<close> checks the sizes in the wrapper. For every wrapper in memory that is as long as it
  says, a fresh injector refuses it, and stays as it was, exactly if it announces less than its two header words and
  its handles; otherwise \<open>Init\<close> reads all the handles and gives out exactly the bytes after them. In a
  32-bit process the product of the check wraps around: there a wrapper of 8 bytes that announces 2^29 handles
  passes, and \<open>Init\<close> reads past its end.
\<close>
theorem init_checks_sizes:
  assumes "rd_u32 mem 0 = Some announced" "rd_u32 mem 4 = Some n" "unat announced \<le> length mem" "\<not> inj_initialized self"
  shows "Init True isWow64 (Some mem) self = Some
      (if unat announced < 8 then (Inl (IncorrectSize announced), self)
       else if unat announced < 8 + 8 * unat n then (Inl (IncorrectHandleCountOrSize n (announced - 8)), self)
       else (let sz = unat announced - (8 + 8 * unat n);
                 payload = take sz (drop (8 + 8 * unat n) mem);
                 self = self\<lparr>inj_otherHandles := (if n = 0 then [] else inj_otherHandles self @
                                map (\<lambda>k. handle_at mem (8 + 8 * k)) [0..<unat n]),
                             inj_initialized := True\<rparr>
             in if isWow64 then (Inr (Some payload, of_nat sz), self)
                else (let p = (if sz = 0 then None else Some payload)
                      in (Inr (p, of_nat sz), self\<lparr>inj_payloadSize := of_nat sz, inj_payload := p\<rparr>)))) \<and>
    Init False isWow64 (Some (u32_le 8 @ u32_le 0x20000000)) self = None"
proof
  have wrap: "rd_u32 (u32_le 8 @ u32_le 0x20000000) 0 = Some 8" "rd_u32 (u32_le 8 @ u32_le 0x20000000) 4 = Some 0x20000000"
    "handle_bytes False 0x20000000 = 0" by code_simp+
  have count: "unat (0x20000000 :: u32) = Suc (2 ^ 29 - 1)" by simp
  have "u64_codec.dec_many (Suc k) (u32_le 8 @ u32_le 0x20000000) 8 = None" for k
    by (simp add: rd_u64_def rd_u32_def)
  then have many: "u64_codec.dec_many (unat (0x20000000 :: u32)) (u32_le 8 @ u32_le 0x20000000) 8 = None"
    unfolding count .
  show "Init False isWow64 (Some (u32_le 8 @ u32_le 0x20000000)) self = None"
    unfolding Init_def option.case wrap many using assms(4) by (simp add: Let_def)
next
  have s1: "unat (announced - 8) = unat announced - 8" if "8 \<le> unat announced" using that by (simp add: unat_sub_if_size)
  show "Init True isWow64 (Some mem) self = Some
      (if unat announced < 8 then (Inl (IncorrectSize announced), self)
       else if unat announced < 8 + 8 * unat n then (Inl (IncorrectHandleCountOrSize n (announced - 8)), self)
       else (let sz = unat announced - (8 + 8 * unat n);
                 payload = take sz (drop (8 + 8 * unat n) mem);
                 self = self\<lparr>inj_otherHandles := (if n = 0 then [] else inj_otherHandles self @
                                map (\<lambda>k. handle_at mem (8 + 8 * k)) [0..<unat n]),
                             inj_initialized := True\<rparr>
             in if isWow64 then (Inr (Some payload, of_nat sz), self)
                else (let p = (if sz = 0 then None else Some payload)
                      in (Inr (p, of_nat sz), self\<lparr>inj_payloadSize := of_nat sz, inj_payload := p\<rparr>))))"
  proof (cases "8 + 8 * unat n \<le> unat announced")
    case True
    define sz where "sz = unat announced - (8 + 8 * unat n)"
    have "unat (of_nat (8 * unat n) :: u32) = 8 * unat n"
    proof -
      have "unat announced < 2 ^ LENGTH(32)" by (rule unsigned_less)
      with True show ?thesis by (simp only: unat_of_nat) simp
    qed
    then have s2: "unat (announced - 8 - of_nat (8 * unat n)) = sz"
      using True s1 by (simp add: sz_def unat_sub_if_size)
    then have sz: "announced - 8 - of_nat (unat n * 8) = of_nat sz" by (metis mult.commute of_nat_unat ucast_id)
    have zero: "of_nat sz = (0 :: u32) \<longleftrightarrow> sz = 0" "unat (of_nat sz :: u32) = sz"
      using s2 sz by (metis mult.commute unat_eq_0)+
    have inside: "8 + 8 * unat n + sz \<le> length mem" using True assms(3) by (simp add: sz_def)
    have id64: "map (Uint64ToHandle True) hs = hs" for hs by (simp add: Uint64ToHandle_def map_idI)
    have many: "u64_codec.dec_many (unat n) mem 8 =
        Some (map (\<lambda>k. handle_at mem (8 + 8 * k)) [0..<unat n], 8 + 8 * unat n)"
      by (rule read_handles) (use inside in simp)
    have checks: "8 \<le> unat announced" "\<not> unat announced < 8" "\<not> unat announced < 8 + 8 * unat n"
      "unat n * 8 \<le> unat (announced - 8)" "2 * 4 \<le> unat announced"
      using True s1 by simp_all
    show ?thesis
      unfolding Init_def option.case if_not_P [OF assms(4)] assms(1,2) handle_bytes_def if_True sz many prod.case zero
        if_not_P [OF checks(2)] if_not_P [OF checks(3)] sz_def [symmetric] Let_def id64
      using checks inside by simp
  next
    case False
    then show ?thesis
      using assms(4) s1 by (auto simp: Init_def assms(1,2) handle_bytes_def Let_def)
  qed
qed

theorem init_checks_sizes_witness:
  "\<exists>self'. Init True False (Some (u32_le 18 @ u32_le 1 @ u64_le 5 @ [9, 8])) new_injector = Some (Inr (Some [9, 8], 2), self') \<and>
     inj_otherHandles self' = [5] \<and> inj_initialized self'"
proof -
  let ?mem = "u32_le 18 @ u32_le 1 @ u64_le 5 @ [9, 8]"
  have read: "rd_u32 ?mem 0 = Some 18" "rd_u32 ?mem 4 = Some 1" "unat (18 :: u32) \<le> length ?mem" "handle_at ?mem 8 = 5"
    "drop 16 ?mem = [9, 8]" by code_simp+
  show ?thesis
    using init_checks_sizes [OF read(1-3), of new_injector False] read(4,5)
    by (simp add: new_injector_def Let_def u64_le_def)
qed

end
