(* ===== verification/Overlay_Paths.thy ===== *)
theory Overlay_Paths
  imports Policy_Result
begin

text \<open>
  The write overlay's paths (\<open>src/overlay_engine.cpp\<close>): where the overlay keeps the file that
  stands in for a virtual path (\<open>OverlayBackingPath\<close>), the way back (\<open>ReverseOverlayFinalPath\<close> and
  the two hooks that use it), and the form of a backing path that a child process is given.

  The globals are those that \<open>ParseFileAccessManifest\<close> sets, a \<open>parsed_manifest\<close>. The sources test
  every time whether a root is null or empty, so a root that was not set is the empty string here.
\<close>

section \<open>Roots\<close>

definition WriteOverlayRoot :: "parsed_manifest \<Rightarrow> wstr" where
  "WriteOverlayRoot g = (case g_bazelWriteOverlayRoot g of None \<Rightarrow> [] | Some root \<Rightarrow> root)"

definition OverlaySourceRoot :: "parsed_manifest \<Rightarrow> wstr" where
  "OverlaySourceRoot g = (case g_bazelOverlaySourceRoot g of None \<Rightarrow> [] | Some root \<Rightarrow> root)"

definition overlay_on :: "parsed_manifest \<Rightarrow> bool" where
  "overlay_on g \<longleftrightarrow> ShouldWriteOverlay (g_fileAccessManifestExtraFlags g) \<and>
     WriteOverlayRoot g \<noteq> [] \<and> OverlaySourceRoot g \<noteq> []"

text \<open>\<open>while (!root.empty() && root.back() == L'\\') root.pop_back();\<close>\<close>

definition trim_sep :: "wstr \<Rightarrow> wstr" where
  "trim_sep s = pop_back_while (\<lambda>c. c = BACKSLASH) s"

text \<open>The root itself or a descendant of it, at the boundary of a path segment.\<close>

definition under_root :: "wstr \<Rightarrow> wstr \<Rightarrow> bool" where
  "under_root root p \<longleftrightarrow>
     length root \<le> length p \<and> wcsnicmp_eq p root (length root) \<and>
     (length p = length root \<or> p ! length root = BACKSLASH)"


section \<open>Forward and back\<close>

definition OverlayBackingPath :: "parsed_manifest \<Rightarrow> wstr \<Rightarrow> wstr" where
  "OverlayBackingPath g virtualPath =
     (if length virtualPath < 3 \<or> virtualPath ! 1 \<noteq> COLON then []
      else (let src = trim_sep (OverlaySourceRoot g)
            in if OverlaySourceRoot g \<noteq> [] \<and> under_root src virtualPath
               then (let rest = drop (length src) virtualPath
                     in ext_prefix @ WriteOverlayRoot g @
                        (if rest \<noteq> [] \<and> hd rest \<noteq> BACKSLASH then [BACKSLASH] else []) @ rest)
               else ext_prefix @ WriteOverlayRoot g @ [BACKSLASH] @ [virtualPath ! 0] @
                    drop 2 virtualPath))"

text \<open>The prefix \<open>\\?\\<close> or \<open>\??\\<close> of a path, and the rest of it.\<close>

definition split_prefix :: "wstr \<Rightarrow> wstr \<times> wstr" where
  "split_prefix p =
     (if take 4 p = ext_prefix then (ext_prefix, drop 4 p)
      else if take 4 p = nt_prefix then (nt_prefix, drop 4 p)
      else ([], p))"

definition ReverseOverlayFinalPath :: "parsed_manifest \<Rightarrow> wstr \<Rightarrow> wstr option" where
  "ReverseOverlayFinalPath g finalPath =
     (if \<not> overlay_on g then None
      else (let (pre, body) = split_prefix finalPath;
                root = trim_sep (WriteOverlayRoot g)
            in if \<not> under_root root body then None
               else Some (pre @ trim_sep (OverlaySourceRoot g) @ drop (length root) body)))"

text \<open>\<open>GetFileAttributesW\<close> is an argument; a path exists when the call succeeds.\<close>

definition OverlayPathExists :: "attributes_api \<Rightarrow> wstr \<Rightarrow> bool" where
  "OverlayPathExists attributes p =
     (case attributes p of Inl error \<Rightarrow> False | Inr attrs \<Rightarrow> True)"

definition OverlayIsDirectory :: "attributes_api \<Rightarrow> wstr \<Rightarrow> bool" where
  "OverlayIsDirectory attributes p =
     (case attributes p of
        Inl error \<Rightarrow> False
      | Inr attrs \<Rightarrow> attrs AND FILE_ATTRIBUTE_DIRECTORY \<noteq> 0)"

text \<open>A null \<open>incoming\<close> is the empty string.\<close>

definition ReverseMapOverlayBackingOpen :: "parsed_manifest \<Rightarrow> attributes_api \<Rightarrow> wstr \<Rightarrow> wstr option" where
  "ReverseMapOverlayBackingOpen g attributes incoming =
     (if incoming = [] then None
      else (case ReverseOverlayFinalPath g incoming of
              None \<Rightarrow> None
            | Some virtualPath \<Rightarrow>
                (let checkPath = (if take 4 incoming = nt_prefix then ext_prefix @ drop 4 incoming
                                  else incoming)
                 in if OverlayPathExists attributes checkPath then None
                    else (let virtualPath = snd (split_prefix virtualPath)
                          in if length virtualPath < 3 \<or> virtualPath ! 1 \<noteq> COLON then None
                             else Some (nt_prefix @ virtualPath)))))"

definition ReverseMapWin32Path :: "parsed_manifest \<Rightarrow> buffer_api \<Rightarrow> attributes_api \<Rightarrow> wstr \<Rightarrow>
    wstr option" where
  "ReverseMapWin32Path g fullPathName attributes lpFileName =
     (if \<not> overlay_on g \<or> lpFileName = [] then None
      else if at lpFileName 0 = BACKSLASH \<and>
              (at lpFileName 1 = BACKSLASH \<or> at lpFileName 1 = QUESTION) then None
      else (let need = fst (fullPathName lpFileName 0)
            in if need = 0 then None
               else (let (got, buf) = fullPathName lpFileName need
                     in if got = 0 \<or> need \<le> got then None
                        else (let abs = take got buf
                              in case ReverseOverlayFinalPath g abs of
                                   None \<Rightarrow> None
                                 | Some virt \<Rightarrow>
                                     if OverlayPathExists attributes abs then None
                                     else Some virt))))"


section \<open>Paths for child processes\<close>

definition PlainOverlayChildPath :: "wstr \<Rightarrow> wstr" where
  "PlainOverlayChildPath backing =
     (if take 4 backing \<noteq> ext_prefix then backing
      else (let plain = drop 4 backing
            in if MAX_PATH \<le> length plain then backing else plain))"

text \<open>\<open>GetCurrentDirectoryW\<close>: from the size of the buffer to the result and the characters written.\<close>

type_synonym current_directory_api = "nat \<Rightarrow> nat \<times> wstr"

definition InheritedOverlayWorkingDirectory :: "parsed_manifest \<Rightarrow> current_directory_api \<Rightarrow> wstr" where
  "InheritedOverlayWorkingDirectory g currentDirectory =
     (if WriteOverlayRoot g = [] then []
      else (let len = fst (currentDirectory 0)
            in if len = 0 then []
               else (let (got, buf) = currentDirectory len
                     in if got = 0 \<or> len \<le> got then []
                        else (let cwd = take got buf;
                                  probe = (if take 4 cwd = ext_prefix then drop 4 cwd else cwd);
                                  root = trim_sep (WriteOverlayRoot g)
                              in if root \<noteq> [] \<and> under_root root probe
                                 then PlainOverlayChildPath cwd else []))))"

definition JoinDirAndName :: "wstr \<Rightarrow> wstr \<Rightarrow> wstr" where
  "JoinDirAndName dir name = pop_back_while IsDirectorySeparator dir @ [BACKSLASH] @ name"


section \<open>Lemmas\<close>

lemma ext_prefix_length [simp]: "length ext_prefix = 4"
  by (simp add: ext_prefix_def)

lemma nt_prefix_length [simp]: "length nt_prefix = 4"
  by (simp add: nt_prefix_def)

lemma ext_prefix_neq [simp]: "nt_prefix \<noteq> ext_prefix" "ext_prefix \<noteq> nt_prefix"
  by (simp_all add: nt_prefix_def ext_prefix_def)

lemma zero_notin_prefix [simp]: "0 \<notin> set ext_prefix" "0 \<notin> set nt_prefix"
  by (simp_all add: nt_prefix_def ext_prefix_def)

lemma split_prefix_ext [simp]: "split_prefix (ext_prefix @ p) = (ext_prefix, p)"
  by (simp add: split_prefix_def)

lemma split_prefix_append: "split_prefix p = (pre, body) \<Longrightarrow> p = pre @ body"
  by (auto simp: split_prefix_def split: if_splits) (metis append_take_drop_id)+

lemma trim_sep_id: "s = [] \<or> last s \<noteq> BACKSLASH \<Longrightarrow> trim_sep s = s"
  by (cases s rule: rev_cases) (simp_all add: trim_sep_def)

lemma trim_sep_idem [simp]: "trim_sep (trim_sep s) = trim_sep s"
  using trim_sep_id [of "trim_sep s"] pop_back_while_last [of "\<lambda>c. c = BACKSLASH" s]
  by (auto simp: trim_sep_def)

lemma zero_notin_trim_sep: "0 \<notin> set s \<Longrightarrow> 0 \<notin> set (trim_sep s)"
  unfolding trim_sep_def using set_pop_back_while by blast

lemma under_root_iff:
  assumes "0 \<notin> set root" "0 \<notin> set p"
  shows "under_root root p \<longleftrightarrow>
    length root \<le> length p \<and> map towlower (take (length root) p) = map towlower root \<and>
    (drop (length root) p = [] \<or> hd (drop (length root) p) = BACKSLASH)"
proof (cases "length root < length p")
  case True
  with assms show ?thesis by (simp add: under_root_def wcsnicmp_eq_noNUL hd_drop_conv_nth)
next
  case False
  with assms show ?thesis by (auto simp: under_root_def wcsnicmp_eq_noNUL)
qed

lemma under_root_append:
  assumes "0 \<notin> set root" "0 \<notin> set rest" "rest = [] \<or> hd rest = BACKSLASH"
  shows "under_root root (root @ rest)"
  using assms by (subst under_root_iff) auto

lemma backing_under:
  assumes "OverlaySourceRoot g \<noteq> []" "under_root (trim_sep (OverlaySourceRoot g)) v"
    and "3 \<le> length v" "v ! 1 = COLON" "0 \<notin> set (OverlaySourceRoot g)" "0 \<notin> set v"
  shows "OverlayBackingPath g v =
    ext_prefix @ WriteOverlayRoot g @ drop (length (trim_sep (OverlaySourceRoot g))) v"
  using assms under_root_iff [OF zero_notin_trim_sep [OF assms(5)] assms(6)]
  by (auto simp: OverlayBackingPath_def Let_def)

text \<open>How the backing path of a path of the cone looks, and that it is under the backing root.\<close>

lemma cone_rest:
  assumes "under_root src v" "0 \<notin> set src" "0 \<notin> set v"
  shows "drop (length src) v = [] \<or> hd (drop (length src) v) = BACKSLASH"
    and "map towlower (take (length src) v) = map towlower src"
    and "0 \<notin> set (drop (length src) v)"
  using assms under_root_iff [OF assms(2,3)] by (auto dest: in_set_dropD)

section \<open>Properties\<close>

text \<open>
  The globals of an action with the overlay on: both roots set, without a separator at their end, and
  without a NUL, as they come out of the manifest.
\<close>

definition overlay_ready :: "parsed_manifest \<Rightarrow> bool" where
  "overlay_ready g \<longleftrightarrow> overlay_on g \<and>
     last (WriteOverlayRoot g) \<noteq> BACKSLASH \<and> 0 \<notin> set (WriteOverlayRoot g) \<and>
     last (OverlaySourceRoot g) \<noteq> BACKSLASH \<and> 0 \<notin> set (OverlaySourceRoot g)"

text \<open>A path of the redirect cone: a drive-letter path at or below the source root.\<close>

definition in_cone :: "parsed_manifest \<Rightarrow> wstr \<Rightarrow> bool" where
  "in_cone g v \<longleftrightarrow> 3 \<le> length v \<and> v ! 1 = COLON \<and> 0 \<notin> set v \<and>
     under_root (OverlaySourceRoot g) v"

lemma overlay_readyD:
  assumes "overlay_ready g"
  shows "overlay_on g" "trim_sep (WriteOverlayRoot g) = WriteOverlayRoot g"
    "trim_sep (OverlaySourceRoot g) = OverlaySourceRoot g"
    "0 \<notin> set (WriteOverlayRoot g)" "0 \<notin> set (OverlaySourceRoot g)" "OverlaySourceRoot g \<noteq> []"
    "WriteOverlayRoot g \<noteq> []"
  using assms by (auto simp: overlay_ready_def overlay_on_def trim_sep_id)

lemma cone_backing:
  assumes "overlay_ready g" "in_cone g v"
  shows "OverlayBackingPath g v = ext_prefix @ WriteOverlayRoot g @ drop (length (OverlaySourceRoot g)) v"
  using backing_under [of g v] assms overlay_readyD [OF assms(1)] by (simp add: in_cone_def)

text \<open>The backing path of a path that the reverse map gives is the one that was mapped.\<close>

lemma reverse_backing:
  fixes abs :: wstr
  assumes "overlay_ready g" "ReverseOverlayFinalPath g abs = Some v" "0 \<notin> set abs" "split_prefix abs = (pre, body)"
  obtains u rest where "v = pre @ u" "u = OverlaySourceRoot g @ rest" "under_root (OverlaySourceRoot g) u" "0 \<notin> set u"
    and "3 \<le> length u \<and> u ! 1 = COLON \<longrightarrow> wcsicmp_eq (OverlayBackingPath g u) (ext_prefix @ body)"
proof -
  let ?src = "OverlaySourceRoot g" and ?root = "WriteOverlayRoot g"
  let ?u = "?src @ drop (length ?root) body"
  note g = overlay_readyD [OF assms(1)]
  have u: "under_root ?root body" "v = pre @ ?u"
    using assms(2,4) g by (auto simp: ReverseOverlayFinalPath_def Let_def split: if_splits)
  have body: "0 \<notin> set body"
    using assms(3,4) in_set_dropD [of 0 4 abs] by (auto simp: split_prefix_def split: if_splits)
  note rest = cone_rest [OF u(1) g(4) body]
  have cone: "under_root ?src ?u" "0 \<notin> set ?u"
    using rest g(5) by (auto intro: under_root_append)
  have "wcsicmp_eq (OverlayBackingPath g ?u) (ext_prefix @ body)" if "3 \<le> length ?u" "?u ! 1 = COLON"
  proof -
    have "in_cone g ?u" using cone that by (simp add: in_cone_def)
    then have "OverlayBackingPath g ?u = ext_prefix @ ?root @ drop (length ?root) body"
      using cone_backing [OF assms(1)] by simp
    moreover have "map towlower body = map towlower ?root @ map towlower (drop (length ?root) body)"
      using rest(2) by (metis append_take_drop_id map_append)
    ultimately show ?thesis
      using g(4) rest(3) body by (simp add: wcsicmp_eq_def cstr_id)
  qed
  with u(2) cone show thesis by (intro that [of ?u]) simp_all
qed

text \<open>
  C21: a tool that asks for the final path of a redirected handle sees the logical path again. The
  reverse map takes the backing path of any path of the cone to that path, with the prefix \<open>\\?\\<close>
  and with the source root's own spelling of the letters of the root.
\<close>
theorem overlay_path_roundtrip:
  assumes "overlay_ready g" "in_cone g v"
  shows "\<exists>u. ReverseOverlayFinalPath g (OverlayBackingPath g v) = Some (ext_prefix @ u) \<and>
    wcsicmp_eq u v \<and> drop (length (OverlaySourceRoot g)) u = drop (length (OverlaySourceRoot g)) v"
proof -
  let ?src = "OverlaySourceRoot g" and ?root = "WriteOverlayRoot g"
  let ?rest = "drop (length ?src) v" and ?u = "?src @ drop (length ?src) v"
  note g = overlay_readyD [OF assms(1)]
  note v = assms(2) [unfolded in_cone_def]
  note rest = cone_rest [of ?src v]
  have "under_root ?root (?root @ ?rest)"
    using rest v g by (intro under_root_append) auto
  then have "ReverseOverlayFinalPath g (OverlayBackingPath g v) = Some (ext_prefix @ ?u)"
    using g by (simp add: cone_backing [OF assms] ReverseOverlayFinalPath_def)
  moreover have "wcsicmp_eq ?u v"
  proof -
    have "map towlower v = map towlower (take (length ?src) v) @ map towlower ?rest"
      by (simp flip: map_append)
    moreover have "0 \<notin> set ?u" using g(5) rest(3) v by auto
    ultimately show ?thesis using rest(2) v g(5) by (simp add: wcsicmp_eq_def cstr_id)
  qed
  ultimately show ?thesis by (intro exI [of _ ?u]) simp
qed

text \<open>
  Two files of an action never share a backing file. The backing paths of two paths of the cone
  agree, up to the case of letters, only when the paths do, and they always lie below the backing
  root, whatever names the action chose.
\<close>
theorem backing_paths_separate:
  assumes "overlay_ready g" "in_cone g v" "in_cone g w"
  shows "(wcsicmp_eq (OverlayBackingPath g v) (OverlayBackingPath g w) \<longleftrightarrow> wcsicmp_eq v w) \<and>
    under_root (ext_prefix @ WriteOverlayRoot g) (OverlayBackingPath g v)"
proof -
  let ?n = "length (OverlaySourceRoot g)" and ?base = "ext_prefix @ WriteOverlayRoot g"
  note g = overlay_readyD [OF assms(1)]
  have parts: "map towlower u = map towlower (OverlaySourceRoot g) @ map towlower (drop ?n u)"
    "0 \<notin> set u" "0 \<notin> set (drop ?n u)" "drop ?n u = [] \<or> hd (drop ?n u) = BACKSLASH"
    if "in_cone g u" for u
  proof -
    note u = that [unfolded in_cone_def]
    note rest = cone_rest [OF conjunct2 [OF conjunct2 [OF conjunct2 [OF u]]] g(5)]
    have "map towlower u = map towlower (take ?n u) @ map towlower (drop ?n u)"
      by (simp flip: map_append)
    then show "map towlower u = map towlower (OverlaySourceRoot g) @ map towlower (drop ?n u)"
      using rest(2) u by simp
    show "0 \<notin> set u" "0 \<notin> set (drop ?n u)" "drop ?n u = [] \<or> hd (drop ?n u) = BACKSLASH"
      using rest u by auto
  qed
  have "wcsicmp_eq (OverlayBackingPath g v) (OverlayBackingPath g w) \<longleftrightarrow>
      map towlower (drop ?n v) = map towlower (drop ?n w)"
    using parts [OF assms(2)] parts [OF assms(3)] g(4)
    by (simp add: cone_backing [OF assms(1,2)] cone_backing [OF assms(1,3)] wcsicmp_eq_def cstr_id)
  moreover have "wcsicmp_eq v w \<longleftrightarrow> map towlower (drop ?n v) = map towlower (drop ?n w)"
    using parts(1,2) [OF assms(2)] parts(1,2) [OF assms(3)] by (simp add: wcsicmp_eq_def cstr_id)
  moreover have "under_root ?base (?base @ drop ?n v)"
    using parts [OF assms(2)] g(4) by (intro under_root_append) auto
  ultimately show ?thesis by (simp add: cone_backing [OF assms(1,2)])
qed

text \<open>Globals and a path for the examples.\<close>

definition example_globals :: parsed_manifest where
  "example_globals = \<lparr>g_fileAccessManifestFlags = 0, g_fileAccessManifestExtraFlags = 0x1400,
     g_reportPath = None, g_lpDllNameX86 = [], g_lpDllNameX64 = [],
     g_bazelWriteOverlayRoot = Some (wide ''D:'' @ BACKSLASH # wide ''o''),
     g_bazelOverlaySourceRoot = Some (wide ''C:'' @ BACKSLASH # wide ''ws''), g_manifestTreeRoot = 0\<rparr>"

definition example_file :: "string \<Rightarrow> wstr" where
  "example_file name = wide ''c:'' @ BACKSLASH # wide ''WS'' @ BACKSLASH # wide name"

lemma example_globals_ready: "overlay_ready example_globals"
  by code_simp

lemma example_file_in_cone: "in_cone example_globals (example_file ''a'')"
  "in_cone example_globals (example_file ''b'')"
  by code_simp+

theorem overlay_path_roundtrip_witness:
  "\<exists>u. ReverseOverlayFinalPath example_globals (OverlayBackingPath example_globals (example_file ''a'')) =
     Some (ext_prefix @ u) \<and> wcsicmp_eq u (example_file ''a'')"
  using overlay_path_roundtrip [OF example_globals_ready example_file_in_cone(1)] by blast

theorem backing_paths_separate_witness:
  "\<not> wcsicmp_eq (OverlayBackingPath example_globals (example_file ''a''))
     (OverlayBackingPath example_globals (example_file ''b''))"
proof -
  have "\<not> wcsicmp_eq (example_file ''a'') (example_file ''b'')" by code_simp
  with backing_paths_separate [OF example_globals_ready example_file_in_cone] show ?thesis by blast
qed

text \<open>
  Stat and open see the same file of the overlay. The Win32 hooks map a name back to the virtual
  path only when it resolves to a path below the backing root where nothing exists; the backing file
  of the result is then the path that the name resolved to, so overlay lookups of the mapped name
  find what the unmapped name would have found.
\<close>
theorem reverse_map_only_absent:
  assumes "overlay_ready g" "returns_string fullPathName full"
    and "ReverseMapWin32Path g fullPathName attributes p = Some v"
    and "3 \<le> length v" "v ! 1 = COLON"
  shows "\<exists>abs. full p = Some abs \<and> \<not> OverlayPathExists attributes abs \<and>
    (take 4 abs \<noteq> ext_prefix \<longrightarrow> take 4 abs \<noteq> nt_prefix \<longrightarrow>
       wcsicmp_eq (OverlayBackingPath g v) (ext_prefix @ abs))"
proof -
  let ?src = "OverlaySourceRoot g" and ?root = "WriteOverlayRoot g"
  note g = overlay_readyD [OF assms(1)]
  obtain abs where full: "full p = Some abs"
    using assms(2,3) returns_stringD(1) [OF assms(2), of p 0]
    by (cases "full p") (auto simp: ReverseMapWin32Path_def Let_def split: if_splits)
  note D = returns_stringD [OF assms(2)]
  have abs: "abs \<noteq> []" "0 \<notin> set abs" using D(4,5) full by auto
  have r: "ReverseOverlayFinalPath g abs = Some v" "\<not> OverlayPathExists attributes abs"
    using assms(3) D(3) [OF full, of 0] D(2) [OF full, of "Suc (length abs)"] abs
    by (auto simp: ReverseMapWin32Path_def Let_def split: if_splits option.splits)
  have "wcsicmp_eq (OverlayBackingPath g v) (ext_prefix @ abs)"
    if "take 4 abs \<noteq> ext_prefix" "take 4 abs \<noteq> nt_prefix"
    by (rule reverse_backing [OF assms(1) r(1) abs(2), of "[]" abs])
      (use that assms(4,5) in \<open>simp_all add: split_prefix_def\<close>)
  with full r(2) show ?thesis by blast
qed

theorem reverse_map_only_absent_witness:
  "let name = wide ''d:'' @ BACKSLASH # wide ''O'' @ BACKSLASH # wide ''x''
   in wcsicmp_eq (OverlayBackingPath example_globals
        (the (ReverseMapWin32Path example_globals (string_api identity_full) (\<lambda>p. Inl 2) name)))
      (ext_prefix @ name)"
proof -
  let ?name = "wide ''d:'' @ BACKSLASH # wide ''O'' @ BACKSLASH # wide ''x''"
  let ?v = "wide ''C:'' @ BACKSLASH # wide ''ws'' @ BACKSLASH # wide ''x''"
  have r: "ReverseMapWin32Path example_globals (string_api identity_full) (\<lambda>p. Inl 2) ?name = Some ?v"
    by code_simp
  have v: "3 \<le> length ?v" "?v ! 1 = COLON" by code_simp+
  have "identity_full ?name = Some ?name" "take 4 ?name \<noteq> ext_prefix" "take 4 ?name \<noteq> nt_prefix"
    by code_simp+
  with reverse_map_only_absent [OF example_globals_ready returns_identity_full r v] r
  show ?thesis by simp
qed

end
