(* ===== verification/Overlay_Redirect.thy ===== *)
theory Overlay_Redirect
  imports Overlay_Paths "HOL-Library.Sublist"
begin

text \<open>
  The write overlay's decisions (\<open>src/overlay_engine.cpp\<close>): which path a file operation of the
  sandboxed process is given instead of the virtual one, what is prepared in the backing store for
  it, and which children of a directory the process may see.

  The file system is not part of the sources. It is a state of type \<open>'w\<close> that only the functions of
  a \<open>file_api\<close> read and change; a definition that changes it returns the new state.
\<close>

section \<open>The file system\<close>

text \<open>
  \<open>GetFileAttributesW\<close>; \<open>CreateDirectoryW\<close> and \<open>CopyFileW\<close>, whose results the sources ignore; and
  the names that \<open>FindFirstFileW\<close> and \<open>FindNextFileW\<close> give for a pattern, \<open>None\<close> where
  \<open>FindFirstFileW\<close> fails.
\<close>

record 'w file_api =
  fa_attributes :: "'w \<Rightarrow> attributes_api"
  fa_createDirectory :: "wstr \<Rightarrow> 'w \<Rightarrow> 'w"
  fa_copyFile :: "wstr \<Rightarrow> wstr \<Rightarrow> bool \<Rightarrow> 'w \<Rightarrow> 'w"
  fa_findFiles :: "'w \<Rightarrow> wstr \<Rightarrow> wstr list option"

abbreviation CREATE_NEW :: u32 where "CREATE_NEW \<equiv> 1"
abbreviation CREATE_ALWAYS :: u32 where "CREATE_ALWAYS \<equiv> 2"
abbreviation OPEN_EXISTING :: u32 where "OPEN_EXISTING \<equiv> 3"
abbreviation TRUNCATE_EXISTING :: u32 where "TRUNCATE_EXISTING \<equiv> 5"

text \<open>\<open>policyResult.GetTranslatedPathWithoutTypePrefix()\<close>.\<close>

definition TranslatedPath :: "PolicyResult \<Rightarrow> wstr" where
  "TranslatedPath pr = GetPathStringWithoutTypePrefix (m_canonicalizedPath pr)"

definition ShouldRedirectToOverlay :: "parsed_manifest \<Rightarrow> PolicyResult \<Rightarrow> bool" where
  "ShouldRedirectToOverlay g pr \<longleftrightarrow>
     ShouldWriteOverlay (g_fileAccessManifestExtraFlags g) \<and> WriteOverlayRoot g \<noteq> [] \<and>
     OverrideAllowWriteForExistingFiles pr"

definition OverlayBackingExists :: "parsed_manifest \<Rightarrow> attributes_api \<Rightarrow> wstr \<Rightarrow> bool" where
  "OverlayBackingExists g attributes virtualPathNoPrefix =
     (if \<not> ShouldWriteOverlay (g_fileAccessManifestExtraFlags g) \<or> WriteOverlayRoot g = [] then False
      else (let backing = OverlayBackingPath g virtualPathNoPrefix
            in backing \<noteq> [] \<and> OverlayPathExists attributes backing))"

text \<open>What the checks of a policy take from the process, with the backing store answered by this.\<close>

definition process_env :: "parsed_manifest \<Rightarrow> attributes_api \<Rightarrow> check_env" where
  "process_env g attributes =
     \<lparr>env_flags = g_fileAccessManifestFlags g, env_extraFlags = g_fileAccessManifestExtraFlags g,
      env_attributes = attributes, env_backingExists = OverlayBackingExists g attributes\<rparr>"

definition OverlayRealFileHiddenByFilter :: "parsed_manifest \<Rightarrow> PolicyResult \<Rightarrow> bool" where
  "OverlayRealFileHiddenByFilter g policyResult =
     (if \<not> ShouldDeniedReadsAsNotFound (g_fileAccessManifestExtraFlags g) then False
      else \<not> (AllowRead policyResult \<or> IsExactManifestNode policyResult))"


section \<open>Preparing the backing store\<close>

definition EnsureBackingParentDirs :: "'w file_api \<Rightarrow> wstr \<Rightarrow> 'w \<Rightarrow> 'w" where
  "EnsureBackingParentDirs api backingPath w =
     (let start = (if take 4 backingPath = ext_prefix then 4 else 0)
      in fold (\<lambda>i w. if backingPath ! i = BACKSLASH
                     then (let dir = take i backingPath
                           in if start < length dir then fa_createDirectory api dir w else w)
                     else w)
           [start..<length backingPath] w)"

definition is_dot_name :: "wstr \<Rightarrow> bool" where
  "is_dot_name nm \<longleftrightarrow>
     at nm 0 = DOT \<and> (at nm 1 = 0 \<or> at nm 1 = DOT \<and> at nm 2 = 0)"

definition ListBackingChildren :: "parsed_manifest \<Rightarrow> 'w file_api \<Rightarrow> wstr \<Rightarrow> 'w \<Rightarrow> wstr list" where
  "ListBackingChildren g api virtualDir w =
     (let backingDir = OverlayBackingPath g virtualDir
      in if backingDir = [] \<or> \<not> OverlayIsDirectory (fa_attributes api w) backingDir then []
         else (let pattern = pop_back_while IsDirectorySeparator backingDir @ [BACKSLASH, STAR]
               in case fa_findFiles api w pattern of
                    None \<Rightarrow> []
                  | Some names \<Rightarrow> filter (\<lambda>nm. \<not> is_dot_name nm) names))"


section \<open>Opening\<close>

text \<open>The path to open instead of the virtual one, \<open>[]\<close> for none, and the file system after it.\<close>

definition ResolveOverlayOpenPath :: "parsed_manifest \<Rightarrow> 'w file_api \<Rightarrow> PolicyResult \<Rightarrow> u32 \<Rightarrow> u32 \<Rightarrow>
    'w \<Rightarrow> wstr \<times> 'w" where
  "ResolveOverlayOpenPath g api policyResult dwDesiredAccess dwCreationDisposition w =
     (if \<not> ShouldRedirectToOverlay g policyResult then ([], w)
      else (let virtualPath = TranslatedPath policyResult;
                backing = OverlayBackingPath g virtualPath
            in if backing = [] then ([], w)
      else (let attributes = fa_attributes api w;
                realWide = ext_prefix @ virtualPath
            in if OverlayIsDirectory attributes realWide then ([], w)
      else if OverlayIsDirectory attributes backing then (backing, w)
      else (let wantsWrite = WantsWriteAccess dwDesiredAccess;
                backingExists = OverlayPathExists attributes backing
            in if wantsWrite
               then (if dwCreationDisposition = CREATE_NEW \<and> \<not> backingExists \<and>
                        OverlayPathExists attributes realWide \<and>
                        \<not> OverlayRealFileHiddenByFilter g policyResult
                     then ([], w)
                     else (let w = EnsureBackingParentDirs api backing w;
                               w = (if \<not> backingExists \<and> dwCreationDisposition \<noteq> CREATE_ALWAYS \<and>
                                       dwCreationDisposition \<noteq> TRUNCATE_EXISTING \<and>
                                       dwCreationDisposition \<noteq> CREATE_NEW \<and>
                                       OverlayPathExists (fa_attributes api w) realWide
                                    then fa_copyFile api realWide backing True w else w)
                           in (backing, w)))
               else if backingExists then (backing, w)
               else (case (find_last_of virtualPath {BACKSLASH}, find_last_of backing {BACKSLASH}) of
                       (Some vsep, Some bsep) \<Rightarrow>
                         if \<not> OverlayPathExists attributes (ext_prefix @ take vsep virtualPath) \<and>
                            OverlayIsDirectory attributes (take bsep backing)
                         then (backing, w) else ([], w)
                     | _ \<Rightarrow> ([], w))))))"

text \<open>
  \<open>workingDirectory\<close> is empty where it is null. The outer \<open>None\<close> is a read outside the manifest.
\<close>

definition ResolveOverlayWorkingDirectory :: "parsed_manifest \<Rightarrow> 'w file_api \<Rightarrow> buffer_api \<Rightarrow> u32 \<Rightarrow>
    current_directory_api \<Rightarrow> bytes \<Rightarrow> wstr \<Rightarrow> 'w \<Rightarrow> (wstr \<times> 'w) option" where
  "ResolveOverlayWorkingDirectory g api fullPathName lastError currentDirectory mem workingDirectory w =
     (if \<not> ShouldWriteOverlay (g_fileAccessManifestExtraFlags g) then Some ([], w)
      else if workingDirectory = [] then Some (InheritedOverlayWorkingDirectory g currentDirectory, w)
      else (case Initialize fullPathName lastError mem (g_manifestTreeRoot g) workingDirectory of
              None \<Rightarrow> None
            | Some None \<Rightarrow> Some ([], w)
            | Some (Some policy) \<Rightarrow>
                (let (backing, w) = ResolveOverlayOpenPath g api policy GENERIC_READ OPEN_EXISTING w
                 in Some (if backing = [] then [] else PlainOverlayChildPath backing, w))))"


section \<open>Deleting, renaming, probing\<close>

datatype OverlayDeleteAction = PassThrough | RedirectToBacking | DenyAccess | NotFound

definition ResolveOverlayDelete :: "parsed_manifest \<Rightarrow> attributes_api \<Rightarrow> PolicyResult \<Rightarrow>
    OverlayDeleteAction \<times> wstr" where
  "ResolveOverlayDelete g attributes policyResult =
     (if \<not> ShouldRedirectToOverlay g policyResult then (PassThrough, [])
      else (let virtualPath = TranslatedPath policyResult;
                backing = OverlayBackingPath g virtualPath
            in if backing = [] then (PassThrough, [])
      else (let realWide = ext_prefix @ virtualPath;
                backingExists = OverlayPathExists attributes backing;
                realExists = OverlayPathExists attributes realWide;
                hiddenByFilter = OverlayRealFileHiddenByFilter g policyResult
            in if backingExists
               then (if realExists \<and> \<not> hiddenByFilter then (DenyAccess, [])
                     else (RedirectToBacking, backing))
               else if realExists then (if hiddenByFilter then NotFound else DenyAccess, [])
               else (PassThrough, []))))"

definition ResolveOverlayRenameDest :: "parsed_manifest \<Rightarrow> 'w file_api \<Rightarrow> PolicyResult \<Rightarrow> 'w \<Rightarrow>
    wstr \<times> 'w" where
  "ResolveOverlayRenameDest g api policyResult w =
     (if \<not> ShouldRedirectToOverlay g policyResult then ([], w)
      else (let backing = OverlayBackingPath g (TranslatedPath policyResult)
            in if backing = [] then ([], w)
               else (backing, EnsureBackingParentDirs api backing w)))"

definition ResolveOverlayProbePath :: "parsed_manifest \<Rightarrow> attributes_api \<Rightarrow> PolicyResult \<Rightarrow> wstr" where
  "ResolveOverlayProbePath g attributes policyResult =
     (if \<not> ShouldRedirectToOverlay g policyResult then []
      else (let backing = OverlayBackingPath g (TranslatedPath policyResult)
            in if backing = [] \<or> \<not> OverlayPathExists attributes backing then [] else backing))"


section \<open>Visible children\<close>

text \<open>\<open>None\<close> is a read outside the manifest.\<close>

definition IsEnumChildVisible :: "check_env \<Rightarrow> bytes \<Rightarrow> nat \<Rightarrow> PolicyResult \<Rightarrow> wstr \<Rightarrow> bool option" where
  "IsEnumChildVisible env mem manifestTreeRoot directoryPolicyResult name =
     (if name = [DOT] \<or> name = [DOT, DOT] then Some True
      else (case GetPolicyForSubpath mem manifestTreeRoot directoryPolicyResult (cstr name) of
              None \<Rightarrow> None
            | Some childPolicy \<Rightarrow>
                Some (m_isIndeterminate childPolicy \<or>
                      AllowRead childPolicy \<or> IsExactManifestNode childPolicy \<or>
                      (OverrideAllowWriteForExistingFiles childPolicy \<and>
                       HasOverlayBackingShadow env childPolicy))))"


section \<open>Lemmas\<close>

lemma OverlayIsDirectory_exists: "OverlayIsDirectory attributes p \<Longrightarrow> OverlayPathExists attributes p"
  by (auto simp: OverlayIsDirectory_def OverlayPathExists_def split: sum.splits)

text \<open>Paths at or below the backing root, and the directories on the way to it.\<close>

definition below_backing :: "parsed_manifest \<Rightarrow> wstr \<Rightarrow> bool" where
  "below_backing g p \<longleftrightarrow>
     (\<exists>rest. p = ext_prefix @ WriteOverlayRoot g @ rest \<and> (rest = [] \<or> hd rest = BACKSLASH))"

definition above_backing :: "parsed_manifest \<Rightarrow> wstr \<Rightarrow> bool" where
  "above_backing g p \<longleftrightarrow> strict_prefix p (ext_prefix @ WriteOverlayRoot g)"

lemma backing_below:
  assumes "OverlayBackingPath g v \<noteq> []"
  shows "below_backing g (OverlayBackingPath g v)"
proof -
  let ?rest = "drop (length (trim_sep (OverlaySourceRoot g))) v"
  have "\<exists>rest. OverlayBackingPath g v = ext_prefix @ WriteOverlayRoot g @ rest \<and>
      (rest = [] \<or> hd rest = BACKSLASH)"
  proof (cases "OverlaySourceRoot g \<noteq> [] \<and> under_root (trim_sep (OverlaySourceRoot g)) v")
    case True
    with assms show ?thesis
      by (intro exI [of _ "(if ?rest \<noteq> [] \<and> hd ?rest \<noteq> BACKSLASH then [BACKSLASH] else []) @ ?rest"])
        (simp add: OverlayBackingPath_def Let_def split: if_splits)
  next
    case False
    then have "OverlayBackingPath g v = ext_prefix @ WriteOverlayRoot g @ [BACKSLASH] @ [v ! 0] @ drop 2 v"
      using assms unfolding OverlayBackingPath_def Let_def by (simp only: if_False split: if_splits) simp
    then show ?thesis by (intro exI [of _ "[BACKSLASH] @ [v ! 0] @ drop 2 v"]) simp
  qed
  then show ?thesis by (simp add: below_backing_def)
qed

lemma backing_nonempty: "OverlayBackingPath g v \<noteq> [] \<Longrightarrow> take 4 (OverlayBackingPath g v) = ext_prefix"
  using backing_below [of g v] by (auto simp: below_backing_def)

lemma below_backing_take:
  assumes "below_backing g p" "4 < i" "i < length p" "p ! i = BACKSLASH"
  shows "below_backing g (take i p) \<or> above_backing g (take i p)"
proof -
  let ?base = "ext_prefix @ WriteOverlayRoot g"
  obtain rest where p: "p = ?base @ rest" "rest = [] \<or> hd rest = BACKSLASH"
    using assms(1) by (auto simp: below_backing_def)
  show ?thesis
  proof (cases "i < length ?base")
    case True
    then have "take i p = take i ?base" using p(1) by simp
    moreover have "strict_prefix (take i ?base) ?base"
      using True take_is_prefix [of i ?base]
      by (auto simp: strict_prefix_def simp del: take_append dest: arg_cong [where f = length])
    ultimately show ?thesis by (simp add: above_backing_def)
  next
    case False
    then have "take i p = ?base @ take (i - length ?base) rest" using p(1) by simp
    moreover have "take (i - length ?base) rest = [] \<or> hd (take (i - length ?base) rest) = BACKSLASH"
      using p(2) by (cases rest) (auto simp: take_Cons split: nat.splits)
    ultimately show ?thesis by (auto simp: below_backing_def)
  qed
qed

text \<open>Preparing parents calls \<open>CreateDirectoryW\<close> on prefixes that end before a separator only.\<close>

lemma fold_invariant: "(\<And>x s. x \<in> set xs \<Longrightarrow> P s \<Longrightarrow> P (f x s)) \<Longrightarrow> P s \<Longrightarrow> P (fold f xs s)"
  by (induction xs arbitrary: s) auto

lemma EnsureBackingParentDirs_invariant:
  assumes "P w"
    and "\<And>i w. i < length p \<Longrightarrow> p ! i = BACKSLASH \<Longrightarrow> (take 4 p = ext_prefix \<Longrightarrow> 4 < i) \<Longrightarrow> P w \<Longrightarrow>
      P (fa_createDirectory api (take i p) w)"
  shows "P (EnsureBackingParentDirs api p w)"
  unfolding EnsureBackingParentDirs_def Let_def
  by (rule fold_invariant) (use assms in auto)


text \<open>Both resolvers change nothing but the backing store.\<close>

lemma backing_parents_keep:
  assumes create: "\<And>p w. below_backing g p \<or> above_backing g p \<Longrightarrow> I w \<Longrightarrow> I (fa_createDirectory api p w)"
    and "I w" "OverlayBackingPath g v \<noteq> []"
  shows "I (EnsureBackingParentDirs api (OverlayBackingPath g v) w)"
proof (rule EnsureBackingParentDirs_invariant [where P = I, OF assms(2)])
  fix i w
  assume "i < length (OverlayBackingPath g v)" "OverlayBackingPath g v ! i = BACKSLASH" "I w"
    "take 4 (OverlayBackingPath g v) = ext_prefix \<Longrightarrow> 4 < i"
  with below_backing_take [OF backing_below [OF assms(3)], of i] backing_nonempty [OF assms(3)]
  show "I (fa_createDirectory api (take i (OverlayBackingPath g v)) w)" by (blast intro: create)
qed

lemma overlay_resolvers_keep:
  assumes create: "\<And>p w. below_backing g p \<or> above_backing g p \<Longrightarrow> I w \<Longrightarrow> I (fa_createDirectory api p w)"
    and copy: "\<And>src dst failIfExists w. below_backing g dst \<Longrightarrow> I w \<Longrightarrow> I (fa_copyFile api src dst failIfExists w)"
    and start: "I w"
  shows "(case ResolveOverlayOpenPath g api pr access disposition w of
      (path, w') \<Rightarrow> I w' \<and> (path = [] \<or> below_backing g path)) \<and>
    (case ResolveOverlayRenameDest g api pr w of
      (path, w') \<Rightarrow> I w' \<and> (path = [] \<or> below_backing g path))"
  using start backing_parents_keep [where I = I and w = w and v = "TranslatedPath pr", OF create start]
    backing_below [of g "TranslatedPath pr"]
  by (auto simp: ResolveOverlayOpenPath_def ResolveOverlayRenameDest_def Let_def intro!: copy
      split: option.split)


section \<open>Properties\<close>

text \<open>
  C9: redirecting never changes anything outside the backing store. Any statement about the file
  system that is kept by creating directories at or above the backing root and by copying files
  below it is kept by resolving an open and by resolving the destination of a rename, for every
  policy, access and disposition, and the path that they hand out is empty or below the backing root.
\<close>
theorem redirect_mutates_only_backing:
  assumes create: "\<And>p w. below_backing g p \<or> above_backing g p \<Longrightarrow> I w \<Longrightarrow> I (fa_createDirectory api p w)"
    and copy: "\<And>src dst failIfExists w. below_backing g dst \<Longrightarrow> I w \<Longrightarrow> I (fa_copyFile api src dst failIfExists w)"
    and start: "I w"
  shows "(case ResolveOverlayOpenPath g api pr access disposition w of
      (path, w') \<Rightarrow> I w' \<and> (path = [] \<or> below_backing g path)) \<and>
    (case ResolveOverlayRenameDest g api pr w of
      (path, w') \<Rightarrow> I w' \<and> (path = [] \<or> below_backing g path))"
  using assms by (rule overlay_resolvers_keep)

text \<open>A file system that records the paths it is asked to change.\<close>

definition log_api :: "(wstr \<Rightarrow> bool) \<Rightarrow> wstr list file_api" where
  "log_api existing = \<lparr>fa_attributes = (\<lambda>w p. if existing p then Inr 0x20 else Inl 2),
     fa_createDirectory = (\<lambda>p w. p # w), fa_copyFile = (\<lambda>src dst failIfExists w. dst # w),
     fa_findFiles = (\<lambda>w p. None)\<rparr>"

definition example_result :: "wstr \<Rightarrow> PolicyResult" where
  "example_result p = new_PolicyResult\<lparr>m_canonicalizedPath := \<lparr>cp_Type = Win32, cp_value = p\<rparr>,
     m_policy := Policy_AllowAll OR Policy_OverrideAllowWriteForExistingFiles, m_isIndeterminate := False\<rparr>"

theorem redirect_mutates_only_backing_witness:
  "list_all (\<lambda>p. below_backing example_globals p \<or> above_backing example_globals p)
     (snd (ResolveOverlayOpenPath example_globals (log_api (\<lambda>p. p = ext_prefix @ example_file ''a''))
       (example_result (example_file ''a'')) GENERIC_WRITE OPEN_EXISTING []))"
  using redirect_mutates_only_backing [of example_globals
      "\<lambda>w. \<forall>p \<in> set w. below_backing example_globals p \<or> above_backing example_globals p"
      "log_api (\<lambda>p. p = ext_prefix @ example_file ''a'')" "[]" "example_result (example_file ''a'')"
      GENERIC_WRITE OPEN_EXISTING]
  by (auto simp: log_api_def list_all_iff split: prod.splits)

text \<open>
  The merged view: a file is there for the process when the backing store has it, or when the real
  one exists and the input filter does not hide it.
\<close>

definition merged_visible :: "parsed_manifest \<Rightarrow> attributes_api \<Rightarrow> PolicyResult \<Rightarrow> bool" where
  "merged_visible g attributes pr \<longleftrightarrow>
     OverlayPathExists attributes (OverlayBackingPath g (TranslatedPath pr)) \<or>
     (OverlayPathExists attributes (ext_prefix @ TranslatedPath pr) \<and>
      \<not> OverlayRealFileHiddenByFilter g pr)"

text \<open>A policy result in the redirect cone, with a path that has a place in the backing store.\<close>

definition redirected :: "parsed_manifest \<Rightarrow> PolicyResult \<Rightarrow> bool" where
  "redirected g pr \<longleftrightarrow> ShouldRedirectToOverlay g pr \<and> OverlayBackingPath g (TranslatedPath pr) \<noteq> []"

text \<open>\<open>CreateDirectoryW\<close> affects the directory it creates and no other path.\<close>

definition creates_one_directory :: "'w file_api \<Rightarrow> bool" where
  "creates_one_directory api \<longleftrightarrow>
     (\<forall>p q w. length p \<noteq> length q \<longrightarrow>
        fa_attributes api (fa_createDirectory api p w) q = fa_attributes api w q)"

lemma EnsureBackingParentDirs_frame:
  assumes "creates_one_directory api" "length p \<le> length q"
  shows "fa_attributes api (EnsureBackingParentDirs api p w) q = fa_attributes api w q"
  by (rule EnsureBackingParentDirs_invariant
      [where P = "\<lambda>w'. fa_attributes api w' q = fa_attributes api w q"])
    (use assms in \<open>auto simp: creates_one_directory_def\<close>)

text \<open>
  Exclusive creation follows the merged view. When a process opens a path of the cone with
  \<open>CREATE_NEW\<close>, the path that the operating system is given exists afterwards exactly when the merged
  view already had the file, so creation fails for files the process can see, wherever they are,
  and succeeds for those hidden from it.
\<close>
theorem create_new_sees_merged_view:
  assumes "redirected g pr" "WantsWriteAccess access" "creates_one_directory api"
    and "\<not> OverlayIsDirectory (fa_attributes api w) (ext_prefix @ TranslatedPath pr)"
    and "\<not> OverlayIsDirectory (fa_attributes api w) (OverlayBackingPath g (TranslatedPath pr))"
  shows "case ResolveOverlayOpenPath g api pr access CREATE_NEW w of (path, w') \<Rightarrow>
    OverlayPathExists (fa_attributes api w') (if path = [] then ext_prefix @ TranslatedPath pr else path) =
    merged_visible g (fa_attributes api w) pr"
  using assms EnsureBackingParentDirs_frame [OF assms(3) order_refl, of _ w]
  by (auto simp: redirected_def ResolveOverlayOpenPath_def merged_visible_def Let_def OverlayPathExists_def)

theorem create_new_sees_merged_view_witness:
  "let pr = example_result (example_file ''a'')
   in case ResolveOverlayOpenPath example_globals (log_api (\<lambda>p. p = ext_prefix @ example_file ''a''))
        pr GENERIC_WRITE CREATE_NEW [] of (path, w') \<Rightarrow>
     OverlayPathExists (fa_attributes (log_api (\<lambda>p. p = ext_prefix @ example_file ''a'')) w')
       (if path = [] then ext_prefix @ example_file ''a'' else path)"
proof -
  let ?pr = "example_result (example_file ''a'')" and ?api = "log_api (\<lambda>p. p = ext_prefix @ example_file ''a'')"
  have p: "TranslatedPath ?pr = example_file ''a''" by code_simp
  have "redirected example_globals ?pr" "WantsWriteAccess GENERIC_WRITE" by code_simp+
  moreover have "creates_one_directory ?api" by (simp add: creates_one_directory_def log_api_def)
  moreover have "\<not> OverlayIsDirectory (fa_attributes ?api []) q" for q
    by (simp add: OverlayIsDirectory_def log_api_def)
  moreover have "merged_visible example_globals (fa_attributes ?api []) ?pr" by code_simp
  ultimately have "case ResolveOverlayOpenPath example_globals ?api ?pr GENERIC_WRITE CREATE_NEW [] of (path, w') \<Rightarrow>
      OverlayPathExists (fa_attributes ?api w') (if path = [] then ext_prefix @ TranslatedPath ?pr else path)"
    using create_new_sees_merged_view [of example_globals ?pr GENERIC_WRITE ?api "[]"] by simp
  then show ?thesis unfolding p Let_def .
qed

text \<open>
  C22: deleting or moving away a file of the cone never touches a real one. The real call is let
  through only where nothing exists; a file that is hidden is reported missing; a visible real file
  is refused; and where the backing copy is removed, the merged view no longer has the file, in any
  later state where the copy is gone and the real path is unchanged.
\<close>
theorem delete_respects_merged_view:
  assumes "redirected g pr"
  shows "case ResolveOverlayDelete g attributes pr of
      (PassThrough, out) \<Rightarrow>
        \<not> OverlayPathExists attributes (ext_prefix @ TranslatedPath pr) \<and>
        \<not> OverlayPathExists attributes (OverlayBackingPath g (TranslatedPath pr))
    | (NotFound, out) \<Rightarrow> \<not> merged_visible g attributes pr
    | (DenyAccess, out) \<Rightarrow>
        OverlayPathExists attributes (ext_prefix @ TranslatedPath pr) \<and> merged_visible g attributes pr
    | (RedirectToBacking, out) \<Rightarrow>
        merged_visible g attributes pr \<and> below_backing g out \<and>
        (\<forall>later. \<not> OverlayPathExists later out \<longrightarrow>
           later (ext_prefix @ TranslatedPath pr) = attributes (ext_prefix @ TranslatedPath pr) \<longrightarrow>
           \<not> merged_visible g later pr)"
  using assms backing_below [of g "TranslatedPath pr"]
  by (auto simp: redirected_def ResolveOverlayDelete_def merged_visible_def Let_def OverlayPathExists_def
      split: sum.splits)

theorem delete_respects_merged_view_witness:
  "let pr = example_result (example_file ''a'');
       attributes = (\<lambda>p. if p = OverlayBackingPath example_globals (example_file ''a'') then Inr 0x20 else Inl 2)
   in fst (ResolveOverlayDelete example_globals attributes pr) = RedirectToBacking \<and>
      below_backing example_globals (snd (ResolveOverlayDelete example_globals attributes pr))"
proof -
  let ?pr = "example_result (example_file ''a'')"
  let ?attributes = "\<lambda>p. if p = OverlayBackingPath example_globals (example_file ''a'') then Inr 0x20 else Inl 2"
  have "redirected example_globals ?pr" by code_simp
  moreover have "fst (ResolveOverlayDelete example_globals ?attributes ?pr) = RedirectToBacking" by code_simp
  ultimately show ?thesis
    using delete_respects_merged_view [of example_globals ?pr ?attributes]
    by (cases "ResolveOverlayDelete example_globals ?attributes ?pr") simp
qed

text \<open>
  Looking at a file and opening it for reading lead to the same place. For a path of the cone that
  is not a real directory, the read open leaves the file system alone and is redirected where the
  probe is; where the probe is not redirected, the open is only redirected for a missing file
  whose directory exists in the backing store alone.
\<close>
theorem stat_and_open_agree:
  assumes "redirected g pr" "\<not> WantsWriteAccess access"
    and "\<not> OverlayIsDirectory (fa_attributes api w) (ext_prefix @ TranslatedPath pr)"
  shows "case ResolveOverlayOpenPath g api pr access disposition w of (path, w') \<Rightarrow> w' = w \<and>
    (let probe = ResolveOverlayProbePath g (fa_attributes api w) pr
     in path = probe \<or>
        probe = [] \<and> path = OverlayBackingPath g (TranslatedPath pr) \<and>
        \<not> OverlayPathExists (fa_attributes api w) path \<and>
        (\<exists>i. find_last_of (TranslatedPath pr) {BACKSLASH} = Some i \<and>
           \<not> OverlayPathExists (fa_attributes api w) (ext_prefix @ take i (TranslatedPath pr))))"
  using assms OverlayIsDirectory_exists
  by (auto simp: redirected_def ResolveOverlayOpenPath_def ResolveOverlayProbePath_def Let_def
      split: option.splits)

theorem stat_and_open_agree_witness:
  "let pr = example_result (example_file ''a'');
       api = log_api (\<lambda>p. p = OverlayBackingPath example_globals (example_file ''a''))
   in fst (ResolveOverlayOpenPath example_globals api pr GENERIC_READ OPEN_EXISTING []) =
      ResolveOverlayProbePath example_globals (fa_attributes api []) pr"
proof -
  let ?pr = "example_result (example_file ''a'')"
  let ?api = "log_api (\<lambda>p. p = OverlayBackingPath example_globals (example_file ''a''))"
  have "redirected example_globals ?pr" "\<not> WantsWriteAccess GENERIC_READ"
    "\<not> OverlayIsDirectory (fa_attributes ?api []) (ext_prefix @ TranslatedPath ?pr)" by code_simp+
  note agree = stat_and_open_agree [OF this, of OPEN_EXISTING]
  have "ResolveOverlayProbePath example_globals (fa_attributes ?api []) ?pr \<noteq> []" by code_simp
  with agree show ?thesis by (auto simp: Let_def split: prod.splits)
qed

text \<open>
  C23: listings show what can be read. Where the manifest holds a well-formed tree, the enumeration
  filter decides for every child of a directory; a child whose existing file may be read is listed,
  and a child that is listed without being a node of the manifest may be read.
\<close>
theorem listing_matches_reads:
  assumes "record_at mem root n" "tree_wf n" "Initialize_canonical mem root dir = Some pr"
    and "extensible (GetPathStringWithoutTypePrefix dir)"
    and "0 \<notin> set (GetPathStringWithoutTypePrefix dir)" "0 \<notin> set name" "\<not> is_dot_name name"
  shows "\<exists>visible child. IsEnumChildVisible env mem root pr name = Some visible \<and>
    GetPolicyForSubpath mem root pr name = Some child \<and>
    (acr_Result (CheckExistingFileReadAccess env child) = Allow \<longrightarrow> visible) \<and>
    (visible \<and> \<not> IsExactManifestNode child \<longrightarrow>
       acr_Result (CheckExistingFileReadAccess env child) = Allow)"
proof -
  have dots: "name \<noteq> [DOT]" "name \<noteq> [DOT, DOT]" using assms(7) by (auto simp: is_dot_name_def at_def)
  obtain child where child: "GetPolicyForSubpath mem root pr name = Some child"
    "\<not> m_isIndeterminate child"
    using GetPolicyForSubpath_returns [OF assms(1-6)] by blast
  then show ?thesis
    using assms(6) dots
    by (auto simp: IsEnumChildVisible_def cstr_id CheckExistingFileReadAccess_def CheckReadAccess_def
        access_check_def Let_def)
qed

theorem listing_matches_reads_witness:
  "\<exists>mem pr visible. SerializeNode example_tree [] = Some mem \<and>
     Initialize_canonical mem 0 \<lparr>cp_Type = Win32, cp_value = wide ''a''\<rparr> = Some pr \<and>
     IsEnumChildVisible (example_env False) mem 0 pr (wide ''b'') = Some visible"
proof -
  let ?p = "\<lparr>cp_Type = Win32, cp_value = wide ''a''\<rparr>"
  obtain mem where mem: "SerializeNode example_tree [] = Some mem" "record_at mem 0 example_tree"
    using example_tree_record by blast
  have p: "\<not> cp_IsNull ?p" "0 \<notin> set (GetPathStringWithoutTypePrefix ?p)"
    "extensible (GetPathStringWithoutTypePrefix ?p)" by code_simp+
  obtain pr where pr: "Initialize_canonical mem 0 ?p = Some pr"
    using Initialize_returns [OF mem(2) example_tree_wf p(1,2)] by blast
  have "0 \<notin> set (wide ''b'')" "\<not> is_dot_name (wide ''b'')" by code_simp+
  from listing_matches_reads [OF mem(2) example_tree_wf pr p(3,2) this] mem(1) pr show ?thesis by blast
qed

end
