(* ===== verification/Dir_Records.thy ===== *)
theory Dir_Records
  imports Overlay_Redirect
begin

text \<open>
  The buffers of a directory enumeration (\<open>src/overlay_engine.cpp\<close>): the packed chain of
  \<open>FILE_*_INFORMATION\<close> records that \<open>NtQueryDirectoryFile\<close> fills and its callers walk. A record has
  the offset of the next one in its first four bytes, the length of its name in bytes at
  \<open>fileNameLengthOffset\<close> and the name at \<open>fileNameOffset\<close>; the offsets depend on the class of
  information. \<open>dir_chain\<close> is what a caller that walks the buffer sees.
\<close>

section \<open>Buffers\<close>

text \<open>Writing into a buffer in place, and reading a name of \<open>n\<close> characters.\<close>

definition wr_bytes :: "bytes \<Rightarrow> nat \<Rightarrow> bytes \<Rightarrow> bytes" where
  "wr_bytes buf i bs = take i buf @ bs @ drop (i + length bs) buf"

definition rd_wchars :: "bytes \<Rightarrow> nat \<Rightarrow> nat \<Rightarrow> wstr option" where
  "rd_wchars buf i n =
     (if i + 2 * n \<le> length buf
      then Some (map (\<lambda>j. le16 (buf ! (i + 2 * j)) (buf ! (i + 2 * j + 1))) [0..<n]) else None)"

definition wchar_bytes :: "wstr \<Rightarrow> bytes" where
  "wchar_bytes s = concat (map u16_le s)"

lemma length_wr_bytes [simp]: "i + length bs \<le> length buf \<Longrightarrow> length (wr_bytes buf i bs) = length buf"
  by (simp add: wr_bytes_def)

lemma length_wchar_bytes [simp]: "length (wchar_bytes s) = 2 * length s"
  by (induction s) (simp_all add: wchar_bytes_def)

lemma bytes_at_iff_nth:
  "bytes_at mem a bs \<longleftrightarrow> a + length bs \<le> length mem \<and> (\<forall>i < length bs. mem ! (a + i) = bs ! i)"
proof
  assume "bytes_at mem a bs"
  then show "a + length bs \<le> length mem \<and> (\<forall>i < length bs. mem ! (a + i) = bs ! i)"
    using bytes_at_length bytes_at_nth by blast
next
  assume "a + length bs \<le> length mem \<and> (\<forall>i < length bs. mem ! (a + i) = bs ! i)"
  then show "bytes_at mem a bs" by (auto simp: bytes_at_def intro: nth_equalityI)
qed

lemma nth_wr_bytes:
  assumes "k + length ws \<le> length buf"
  shows "wr_bytes buf k ws ! i =
    (if i < k then buf ! i else if i < k + length ws then ws ! (i - k) else buf ! i)"
  using assms by (auto simp: wr_bytes_def nth_append)

lemma bytes_at_wr_same: "k + length ws \<le> length buf \<Longrightarrow> bytes_at (wr_bytes buf k ws) k ws"
  by (auto simp: bytes_at_iff_nth nth_wr_bytes)

lemma bytes_at_wr_other:
  assumes "k + length ws \<le> length buf" "bytes_at buf i bs"
    and "i + length bs \<le> k \<or> k + length ws \<le> i"
  shows "bytes_at (wr_bytes buf k ws) i bs"
  using assms by (auto simp: bytes_at_iff_nth nth_wr_bytes)

lemma rd_wchars_bytes_at:
  assumes "bytes_at buf i (wchar_bytes s)"
  shows "rd_wchars buf i (length s) = Some s"
proof -
  have "map (\<lambda>j. le16 (buf ! (i + 2 * j)) (buf ! (i + 2 * j + 1))) [0..<length s] = s"
    using assms
  proof (induction s arbitrary: i)
    case (Cons c s)
    have "bytes_at buf i (u16_le c)" and rest: "bytes_at buf (i + 2) (wchar_bytes s)"
      using Cons.prems by (simp_all add: wchar_bytes_def bytes_at_append)
    then have "le16 (buf ! i) (buf ! (i + 1)) = c"
      using rd_u16_bytes_at [of buf i c] by (simp add: rd_u16_def split: if_splits)
    moreover have "[0..<length (c # s)] = 0 # map Suc [0..<length s]"
      by (simp add: upt_conv_Cons map_Suc_upt del: upt_Suc)
    ultimately show ?case using Cons.IH [OF rest] by (simp add: comp_def del: map_Suc_upt upt_Suc)
  qed simp
  with bytes_at_length [OF assms] show ?thesis by (simp add: rd_wchars_def)
qed


section \<open>Layouts\<close>

text \<open>The offsets of the length of the name and of the name.\<close>

definition TryGetDirInfoLayout :: "u32 \<Rightarrow> (nat \<times> nat) option" where
  "TryGetDirInfoLayout infoClass =
     (if infoClass = 1 then Some (60, 64)
      else if infoClass = 2 then Some (60, 68)
      else if infoClass = 3 then Some (60, 94)
      else if infoClass = 12 then Some (8, 12)
      else if infoClass = 37 then Some (60, 104)
      else if infoClass = 38 then Some (60, 80)
      else None)"

text \<open>The class of \<open>NtQueryDirectoryFile\<close> and the class to go on with.\<close>

definition TryMapHandleDirInfoClass :: "int \<Rightarrow> (u32 \<times> int) option" where
  "TryMapHandleDirInfoClass handleClass =
     (if handleClass = 10 \<or> handleClass = 11 then Some (37, 10)
      else if handleClass = 14 \<or> handleClass = 15 then Some (2, 14)
      else None)"

lemma TryGetDirInfoLayout_bounds:
  "TryGetDirInfoLayout infoClass = Some (nameLenOff, nameOff) \<Longrightarrow>
   8 \<le> nameLenOff \<and> nameLenOff + 4 \<le> nameOff \<and> nameOff \<le> 104"
  by (auto simp: TryGetDirInfoLayout_def split: if_splits)


section \<open>Chains of records\<close>

text \<open>A record: its offset and its name.\<close>

type_synonym dir_record = "nat \<times> wstr"

definition rec_end :: "nat \<Rightarrow> dir_record \<Rightarrow> nat" where
  "rec_end nameOff r = fst r + nameOff + 2 * length (snd r)"

definition rec_ok :: "nat \<Rightarrow> nat \<Rightarrow> nat \<Rightarrow> bytes \<Rightarrow> dir_record \<Rightarrow> bool" where
  "rec_ok nameLenOff nameOff bufferLen buf r \<longleftrightarrow>
     rec_end nameOff r \<le> bufferLen \<and> bufferLen < 2 ^ 32 \<and>
     bytes_at buf (fst r + nameLenOff) (u32_le (of_nat (2 * length (snd r)))) \<and>
     bytes_at buf (fst r + nameOff) (wchar_bytes (snd r))"

definition apart :: "nat \<Rightarrow> dir_record list \<Rightarrow> bool" where
  "apart nameOff recs \<longleftrightarrow> sorted_wrt (\<lambda>r s. rec_end nameOff r \<le> fst s) recs"

text \<open>Each record leads to the next; \<open>linked\<close> says that the last one ends the chain.\<close>

fun links_open :: "bytes \<Rightarrow> dir_record list \<Rightarrow> bool" where
  "links_open buf (r # s # recs) \<longleftrightarrow>
     bytes_at buf (fst r) (u32_le (of_nat (fst s - fst r))) \<and> links_open buf (s # recs)"
| "links_open buf recs \<longleftrightarrow> True"

definition linked :: "bytes \<Rightarrow> dir_record list \<Rightarrow> bool" where
  "linked buf recs \<longleftrightarrow> links_open buf recs \<and> (recs \<noteq> [] \<longrightarrow> bytes_at buf (fst (last recs)) (u32_le 0))"

definition dir_chain :: "nat \<Rightarrow> nat \<Rightarrow> nat \<Rightarrow> bytes \<Rightarrow> dir_record list \<Rightarrow> bool" where
  "dir_chain nameLenOff nameOff bufferLen buf recs \<longleftrightarrow>
     recs \<noteq> [] \<and> fst (hd recs) = 0 \<and> apart nameOff recs \<and> linked buf recs \<and>
     (\<forall>r \<in> set recs. rec_ok nameLenOff nameOff bufferLen buf r)"

lemma apart_append:
  "apart nameOff (xs @ ys) \<longleftrightarrow> apart nameOff xs \<and> apart nameOff ys \<and>
     (\<forall>r \<in> set xs. \<forall>s \<in> set ys. rec_end nameOff r \<le> fst s)"
  by (simp add: apart_def sorted_wrt_append)

lemma apart_Cons:
  "apart nameOff (r # ys) \<longleftrightarrow> (\<forall>s \<in> set ys. rec_end nameOff r \<le> fst s) \<and> apart nameOff ys"
  by (simp add: apart_def)

lemma apart_trichotomy:
  "apart nameOff recs \<Longrightarrow> r \<in> set recs \<Longrightarrow> s \<in> set recs \<Longrightarrow>
   r = s \<or> rec_end nameOff r \<le> fst s \<or> rec_end nameOff s \<le> fst r"
  by (induction recs) (auto simp: apart_Cons)

lemma links_open_snoc:
  "links_open buf (xs @ [r, s]) \<longleftrightarrow>
     links_open buf (xs @ [r]) \<and> bytes_at buf (fst r) (u32_le (of_nat (fst s - fst r)))"
proof (induction xs)
  case (Cons x xs)
  then show ?case by (cases xs) auto
qed simp

lemma links_open_append:
  "links_open buf (xs @ ys) \<Longrightarrow> links_open buf xs \<and> links_open buf ys"
proof (induction xs)
  case (Cons x xs)
  then show ?case by (cases xs; cases ys) auto
qed simp

lemma linked_Cons: "linked buf (r # recs) \<Longrightarrow> recs \<noteq> [] \<Longrightarrow> linked buf recs"
  unfolding linked_def using links_open_append [of buf "[r]" recs] by auto

text \<open>Writing the link of a record disturbs no other link and no record.\<close>

lemma rec_ok_wr_link:
  assumes "rec_ok nameLenOff nameOff bufferLen buf r" "k + 4 \<le> length buf"
    and "4 \<le> nameLenOff" "nameLenOff + 4 \<le> nameOff"
    and "k = fst r \<or> k + 4 \<le> fst r \<or> rec_end nameOff r \<le> k"
  shows "rec_ok nameLenOff nameOff bufferLen (wr_bytes buf k (u32_le v)) r"
  using assms by (auto simp: rec_ok_def rec_end_def intro!: bytes_at_wr_other)

lemma links_open_wr_link:
  assumes "links_open buf recs" "k + 4 \<le> length buf"
    and "\<forall>r \<in> set (butlast recs). k + 4 \<le> fst r \<or> fst r + 4 \<le> k"
  shows "links_open (wr_bytes buf k (u32_le v)) recs"
  using assms
proof (induction buf recs rule: links_open.induct)
  case (1 buf r s recs)
  then have "links_open (wr_bytes buf k (u32_le v)) (s # recs)" by (cases recs) auto
  with 1 show ?case by (auto intro!: bytes_at_wr_other)
qed auto

lemma links_open_frame:
  assumes "links_open buf recs"
    and "\<And>r v. r \<in> set (butlast recs) \<Longrightarrow> bytes_at buf (fst r) (u32_le v) \<Longrightarrow> bytes_at buf' (fst r) (u32_le v)"
  shows "links_open buf' recs"
  using assms by (induction buf recs rule: links_open.induct) (auto split: if_splits)

text \<open>A chain survives being copied to the front of another buffer.\<close>

lemma bytes_at_copy:
  assumes "bytes_at b i bs" "i + length bs \<le> n" "n \<le> length b" "n \<le> length buf"
  shows "bytes_at (wr_bytes buf 0 (take n b)) i bs"
  using assms by (auto simp: bytes_at_iff_nth nth_wr_bytes)

lemma links_open_copy:
  assumes "links_open b recs" "\<forall>r \<in> set recs. fst r + 4 \<le> n" "n \<le> length b" "n \<le> length buf"
  shows "links_open (wr_bytes buf 0 (take n b)) recs"
  using assms by (induction b recs rule: links_open.induct) (auto intro!: bytes_at_copy)

lemma dir_chain_copy:
  assumes "dir_chain nameLenOff nameOff n b recs" "n \<le> length b" "n \<le> length buf"
    and "nameLenOff + 4 \<le> nameOff"
  shows "dir_chain nameLenOff nameOff n (wr_bytes buf 0 (take n b)) recs"
proof -
  have ok: "rec_ok nameLenOff nameOff n b r" "fst r + 4 \<le> n" if "r \<in> set recs" for r
    using assms(1,4) that by (auto simp: dir_chain_def rec_ok_def rec_end_def)
  have "rec_ok nameLenOff nameOff n (wr_bytes buf 0 (take n b)) r" if "r \<in> set recs" for r
    using ok [OF that] assms(2-4) by (auto simp: rec_ok_def rec_end_def intro!: bytes_at_copy)
  moreover have "links_open (wr_bytes buf 0 (take n b)) recs"
    using assms(1-3) ok(2) by (intro links_open_copy) (auto simp: dir_chain_def linked_def)
  moreover have "bytes_at (wr_bytes buf 0 (take n b)) (fst (last recs)) (u32_le 0)"
  proof (rule bytes_at_copy)
    show "bytes_at b (fst (last recs)) (u32_le 0)" using assms(1) by (simp add: dir_chain_def linked_def)
    have "fst (last recs) + 4 \<le> n"
      by (rule ok(2)) (use assms(1) in \<open>simp add: dir_chain_def\<close>)
    then show "fst (last recs) + length (u32_le 0) \<le> n" by simp
  qed (use assms in simp_all)
  ultimately show ?thesis using assms(1) by (simp add: dir_chain_def linked_def)
qed

end
