(* ===== verification/Enum_Filter.thy ===== *)
theory Enum_Filter
  imports Dir_Records
begin

text \<open>
  The enumeration filter (\<open>src/overlay_engine.cpp\<close>): \<open>FilterDirectoryInformation\<close> unlinks the
  records of hidden names from a buffer in place, and \<open>ApplyEnumerationFilterNt\<close> (and its \<open>Ex\<close>
  form) asks the operating system for more while a batch has nothing to show. The test of a name,
  \<open>IsEnumChildVisible\<close> for the directory's policy, is the argument \<open>visible\<close>.
\<close>

section \<open>One buffer\<close>

text \<open>
  The offset is a \<open>ULONG\<close> and wraps, so the loop may run for ever on a malformed chain: \<open>None\<close> is
  not returning, and \<open>Some None\<close> is a read outside the buffer. The result is the buffer, the
  offset of the last record kept, and the number kept.
\<close>

partial_function (option) FilterDirectoryInformation_loop ::
    "(wstr \<Rightarrow> bool) \<Rightarrow> nat \<Rightarrow> nat \<Rightarrow> u32 \<Rightarrow> bytes \<Rightarrow> u32 \<Rightarrow> nat option \<Rightarrow> nat \<Rightarrow>
     (bytes \<times> nat option \<times> nat) option option" where
  "FilterDirectoryInformation_loop visible nameLenOff nameOff bufferLen buf offset lastKept kept =
     (let headerMin = max (max 4 (nameLenOff + 4)) nameOff
      in if bufferLen < offset \<or> unat (bufferLen - offset) < headerMin
         then Some (Some (buf, lastKept, kept))
         else (let r = unat offset
               in case rd_u32 buf r of
                    None \<Rightarrow> Some None
                  | Some next \<Rightarrow>
               (case rd_u32 buf (r + nameLenOff) of
                  None \<Rightarrow> Some None
                | Some nameLen \<Rightarrow>
               (let availNameBytes = unat (bufferLen - offset) - nameOff;
                    nameBytes = min (unat nameLen) availNameBytes
                in case rd_wchars buf (r + nameOff) (nameBytes div 2) of
                     None \<Rightarrow> Some None
                   | Some name \<Rightarrow>
               (let (buf, lastKept, kept) =
                      (if visible name
                       then (case lastKept of
                               None \<Rightarrow> buf
                             | Some l \<Rightarrow> wr_bytes buf l (u32_le (of_nat r - of_nat l)),
                             Some r, kept + 1)
                       else (buf, lastKept, kept))
                in if next = 0 then Some (Some (buf, lastKept, kept))
                   else FilterDirectoryInformation_loop visible nameLenOff nameOff bufferLen buf
                          (offset + next) lastKept kept)))))"

declare FilterDirectoryInformation_loop.simps [code]

text \<open>The number of records kept, \<open>None\<close> for \<open>SIZE_MAX\<close>, and the buffer.\<close>

definition FilterDirectoryInformation :: "(wstr \<Rightarrow> bool) \<Rightarrow> bytes \<Rightarrow> u32 \<Rightarrow> u32 \<Rightarrow>
    (nat option \<times> bytes) option option" where
  "FilterDirectoryInformation visible buf infoClass bufferLen =
     (case TryGetDirInfoLayout infoClass of
        None \<Rightarrow> Some (Some (None, buf))
      | Some (nameLenOff, nameOff) \<Rightarrow>
          map_option (map_option (\<lambda>(buf, lastKept, kept).
            (Some kept, case lastKept of None \<Rightarrow> buf | Some l \<Rightarrow> wr_bytes buf l (u32_le 0))))
          (FilterDirectoryInformation_loop visible nameLenOff nameOff bufferLen buf 0 None 0))"


section \<open>Asking for more\<close>

definition NT_SUCCESS :: "u32 \<Rightarrow> bool" where
  "NT_SUCCESS status \<longleftrightarrow> 0 \<le> sint status"

text \<open>
  The state of the two hooks: the file system, the working buffer, the caller's buffer, the status
  and the two error codes. \<open>separate\<close> says that the working buffer is not the caller's own.
\<close>

record 'w query_state =
  qs_world :: 'w
  qs_buffer :: bytes
  qs_FileInformation :: bytes
  qs_result :: u32
  qs_reportedError :: u32
  qs_lastError :: u32

text \<open>
  \<open>realFn\<close> takes the contents of the working buffer and returns the status, the last error, the new
  contents and the new state of the file system; \<open>dosError\<close> is \<open>RtlNtStatusToDosError\<close>.
\<close>

type_synonym ('q, 'w) query_api = "'q \<Rightarrow> bytes \<Rightarrow> 'w \<Rightarrow> u32 \<times> u32 \<times> bytes \<times> 'w"

definition requery :: "('q, 'w) query_api \<Rightarrow> (u32 \<Rightarrow> u32) \<Rightarrow> 'q \<Rightarrow> bool \<Rightarrow> u32 \<Rightarrow>
    'w query_state \<Rightarrow> 'w query_state" where
  "requery realFn dosError flags separate Length s =
     (let (result, lastError, buffer, w) = realFn flags (qs_buffer s) (qs_world s);
          FileInformation =
            (if \<not> separate then buffer
             else if NT_SUCCESS result
             then wr_bytes (qs_FileInformation s) 0 (take (unat Length) buffer)
             else qs_FileInformation s)
      in \<lparr>qs_world = w, qs_buffer = buffer, qs_FileInformation = FileInformation, qs_result = result,
          qs_reportedError = dosError result, qs_lastError = lastError\<rparr>)"

text \<open>The hooks' loop; \<open>Some None\<close> is a read outside the caller's buffer.\<close>

partial_function (option) ApplyEnumerationFilter_loop ::
    "(wstr \<Rightarrow> bool) \<Rightarrow> ('w query_state \<Rightarrow> 'w query_state) \<Rightarrow> bool \<Rightarrow> u32 \<Rightarrow> u32 \<Rightarrow> 'w query_state \<Rightarrow>
     'w query_state option option" where
  "ApplyEnumerationFilter_loop visible again separate infoClass Length s =
     (if \<not> NT_SUCCESS (qs_result s) then Some (Some s)
      else Option.bind (FilterDirectoryInformation visible (qs_FileInformation s) infoClass Length)
        (\<lambda>filtered.
           case filtered of
             None \<Rightarrow> Some None
           | Some (kept, buf) \<Rightarrow>
               (let s = s\<lparr>qs_FileInformation := buf, qs_buffer := (if separate then qs_buffer s else buf)\<rparr>
                in if kept = None \<or> kept \<noteq> Some 0 then Some (Some s)
                   else ApplyEnumerationFilter_loop visible again separate infoClass Length (again s))))"

text \<open>\<open>NtQueryDirectoryFile\<close>: the call that goes on passes \<open>FALSE\<close> for \<open>RestartScan\<close>.\<close>

definition ApplyEnumerationFilterNt :: "(wstr \<Rightarrow> bool) \<Rightarrow> (bool, 'w) query_api \<Rightarrow> (u32 \<Rightarrow> u32) \<Rightarrow>
    bool \<Rightarrow> u32 \<Rightarrow> u32 \<Rightarrow> 'w query_state \<Rightarrow> 'w query_state option option" where
  "ApplyEnumerationFilterNt visible realFn dosError separate infoClass Length s =
     ApplyEnumerationFilter_loop visible (requery realFn dosError False separate Length) separate
       infoClass Length s"

text \<open>\<open>NtQueryDirectoryFileEx\<close>: the flags without \<open>SL_RESTART_SCAN\<close>.\<close>

definition ApplyEnumerationFilterNtEx :: "(wstr \<Rightarrow> bool) \<Rightarrow> (u32, 'w) query_api \<Rightarrow> (u32 \<Rightarrow> u32) \<Rightarrow>
    bool \<Rightarrow> u32 \<Rightarrow> u32 \<Rightarrow> u32 \<Rightarrow> 'w query_state \<Rightarrow> 'w query_state option option" where
  "ApplyEnumerationFilterNtEx visible realFn dosError separate infoClass Length QueryFlags s =
     ApplyEnumerationFilter_loop visible
       (requery realFn dosError (QueryFlags AND NOT 1) separate Length) separate infoClass Length s"


section \<open>The loop on a chain\<close>

text \<open>
  What the loop has done after the records \<open>front\<close>: \<open>shown\<close> is the chain that a walk from the start of
  the buffer follows so far.
\<close>

definition shown :: "(wstr \<Rightarrow> bool) \<Rightarrow> dir_record list \<Rightarrow> dir_record list" where
  "shown visible recs =
     takeWhile (\<lambda>r. \<not> visible (snd r)) recs @ filter (\<lambda>r. visible (snd r)) recs"

lemma shown_snoc_hidden:
  "\<not> visible (snd r) \<Longrightarrow> shown visible (front @ [r]) =
     (if filter (\<lambda>r. visible (snd r)) front = [] then front @ [r] else shown visible front)"
  by (auto simp: shown_def takeWhile_append filter_empty_conv)

lemma shown_hidden: "filter (\<lambda>r. visible (snd r)) front = [] \<Longrightarrow> shown visible front = front"
  by (simp add: shown_def filter_empty_conv)

lemma shown_snoc_visible:
  "visible (snd r) \<Longrightarrow> shown visible (front @ [r]) = shown visible front @ [r]"
  by (cases "\<forall>x \<in> set front. \<not> visible (snd x)")
    (auto simp: shown_def filter_empty_conv takeWhile_append takeWhile_eq_all_conv [THEN iffD2])

lemma set_shown: "set (shown visible front) \<subseteq> set front"
  by (auto simp: shown_def dest: set_takeWhileD)

lemma last_shown:
  "filter (\<lambda>r. visible (snd r)) front \<noteq> [] \<Longrightarrow>
   shown visible front \<noteq> [] \<and> last (shown visible front) = last (filter (\<lambda>r. visible (snd r)) front)"
  by (simp add: shown_def)

lemma apart_shown: "apart nameOff front \<Longrightarrow> apart nameOff (shown visible front)"
proof -
  assume a: "apart nameOff front"
  let ?hid = "\<lambda>r. \<not> visible (snd r)"
  have "shown visible front = takeWhile ?hid front @ filter (\<lambda>r. visible (snd r)) (dropWhile ?hid front)"
  proof -
    have "filter (\<lambda>r. visible (snd r)) (takeWhile ?hid front) = []"
      by (auto simp: filter_empty_conv dest: set_takeWhileD)
    then have "filter (\<lambda>r. visible (snd r)) front = filter (\<lambda>r. visible (snd r)) (dropWhile ?hid front)"
      by (metis append_Nil filter_append takeWhile_dropWhile_id)
    then show ?thesis by (simp add: shown_def)
  qed
  moreover have "apart nameOff (takeWhile ?hid front @ dropWhile ?hid front)" using a by simp
  ultimately show ?thesis
    by (auto simp: apart_append simp del: takeWhile_dropWhile_id)
      (simp add: apart_def sorted_wrt_filter)
qed

definition loop_inv :: "(wstr \<Rightarrow> bool) \<Rightarrow> nat \<Rightarrow> nat \<Rightarrow> nat \<Rightarrow> bytes \<Rightarrow> dir_record list \<Rightarrow>
    dir_record list \<Rightarrow> nat option \<Rightarrow> nat \<Rightarrow> bool" where
  "loop_inv visible nameLenOff nameOff bl buf front rest lastKept kept \<longleftrightarrow>
     (let vis = filter (\<lambda>r. visible (snd r)) front
      in apart nameOff (front @ rest) \<and> linked buf rest \<and>
         (\<forall>r \<in> set (front @ rest). rec_ok nameLenOff nameOff bl buf r) \<and>
         kept = length vis \<and> lastKept = (if vis = [] then None else Some (fst (last vis))) \<and>
         (if vis = [] then linked buf (front @ rest) else links_open buf (shown visible front)))"

lemma rec_ok_bounds:
  assumes "rec_ok nameLenOff nameOff bl buf r" "8 \<le> nameLenOff" "nameLenOff + 4 \<le> nameOff"
  shows "fst r + 4 \<le> length buf" "fst r + nameOff \<le> bl" "fst r < 2 ^ 32" "fst r + 4 \<le> rec_end nameOff r"
proof -
  have "fst r + nameLenOff + 4 \<le> length buf"
    using assms(1) bytes_at_length unfolding rec_ok_def by fastforce
  with assms show "fst r + 4 \<le> length buf" "fst r + nameOff \<le> bl" "fst r < 2 ^ 32"
    "fst r + 4 \<le> rec_end nameOff r"
    by (auto simp: rec_ok_def rec_end_def)
qed

text \<open>The invariant after one record, where the link of the record kept before it is written.\<close>

lemma loop_inv_step:
  assumes inv: "loop_inv visible nameLenOff nameOff bl buf front (r # rest) lastKept kept"
    and off: "8 \<le> nameLenOff" "nameLenOff + 4 \<le> nameOff"
    and buf': "buf' = (if visible (snd r)
        then (case lastKept of None \<Rightarrow> buf | Some l \<Rightarrow> wr_bytes buf l (u32_le (of_nat (fst r) - of_nat l)))
        else buf)"
  shows "loop_inv visible nameLenOff nameOff bl buf' (front @ [r]) rest
    (if visible (snd r) then Some (fst r) else lastKept) (if visible (snd r) then kept + 1 else kept)"
proof -
  let ?vis = "filter (\<lambda>r. visible (snd r)) front"
  note I = inv [unfolded loop_inv_def Let_def]
  have rest: "rest \<noteq> [] \<Longrightarrow> linked buf rest" using I linked_Cons by blast
  then have rest: "linked buf rest" by (cases "rest = []") (simp_all add: linked_def)
  show ?thesis
  proof (cases "visible (snd r) \<and> ?vis \<noteq> []")
    case False
    then have "buf' = buf" using I buf' by auto
    with False I rest show ?thesis
      using links_open_append [of buf "front @ [r]" rest]
      by (auto simp: loop_inv_def Let_def shown_snoc_visible shown_snoc_hidden shown_hidden linked_def)
  next
    case True
    let ?L = "shown visible front" and ?l = "last ?vis"
    have L: "?L \<noteq> []" "last ?L = ?l" using True last_shown by blast+
    then have Ls: "?L = butlast ?L @ [?l]" by (metis append_butlast_last_id)
    have l: "?l \<in> set front" using True last_in_set [of ?vis] by auto
    have b: "buf' = wr_bytes buf (fst ?l) (u32_le (of_nat (fst r) - of_nat (fst ?l)))"
      using True I buf' by simp
    have apart: "apart nameOff (front @ r # rest)" and ok: "\<forall>x \<in> set (front @ r # rest). rec_ok nameLenOff nameOff bl buf x"
      using I by auto
    note ok_l = rec_ok_bounds [OF ok [rule_format, of ?l] off]
    have after: "fst ?l + 4 \<le> fst x" if "x \<in> set (r # rest)" for x
    proof -
      have "rec_end nameOff ?l \<le> fst x" using apart l that by (auto simp: apart_append)
      with ok_l(4) l show ?thesis by fastforce
    qed
    have order: "fst x + 4 \<le> fst ?l" if "x \<in> set (butlast ?L)" for x
    proof -
      have "apart nameOff ?L" using apart by (intro apart_shown) (simp add: apart_append)
      then have "apart nameOff (butlast ?L @ [?l])" using Ls by simp
      then have "rec_end nameOff x \<le> fst ?l" using that by (auto simp: apart_append)
      moreover have "x \<in> set front" using that set_shown [of visible front] by (blast dest: in_set_butlastD)
      ultimately show ?thesis using rec_ok_bounds(4) [OF ok [rule_format, of x] off] by fastforce
    qed
    have len: "fst ?l + 4 \<le> length buf" using ok_l(1) l by simp
    have ok': "rec_ok nameLenOff nameOff bl buf' x" if "x \<in> set (front @ r # rest)" for x
      unfolding b
    proof (rule rec_ok_wr_link [OF _ len])
      show "rec_ok nameLenOff nameOff bl buf x" using ok that by blast
      show "4 \<le> nameLenOff" "nameLenOff + 4 \<le> nameOff" using off by simp_all
      have "x = ?l \<or> rec_end nameOff x \<le> fst ?l \<or> rec_end nameOff ?l \<le> fst x"
        by (rule apart_trichotomy [OF apart that]) (use l in simp)
      then show "fst ?l = fst x \<or> fst ?l + 4 \<le> fst x \<or> rec_end nameOff x \<le> fst ?l"
        using ok_l(4) l by fastforce
    qed
    have linked': "linked buf' rest"
    proof (cases "rest = []")
      case False
      have "fst ?l + 4 \<le> fst (last rest)" using after [of "last rest"] False by simp
      with rest after len show ?thesis unfolding b linked_def
        by (auto intro!: links_open_wr_link bytes_at_wr_other dest: in_set_butlastD)
    qed (simp add: linked_def)
    have "links_open buf' ?L"
      unfolding b by (rule links_open_wr_link) (use I True len order in auto)
    moreover have "bytes_at buf' (fst ?l) (u32_le (of_nat (fst r - fst ?l)))"
      unfolding b using bytes_at_wr_same [of "fst ?l" "u32_le (of_nat (fst r) - of_nat (fst ?l))" buf] len after [of r]
      by simp
    moreover have "?L @ [r] = butlast ?L @ [?l, r]" by (subst Ls) simp
    ultimately have "links_open buf' (?L @ [r])" using links_open_snoc [of buf' "butlast ?L" ?l r] Ls by metis
    with True I ok' linked' show ?thesis
      by (auto simp: loop_inv_def Let_def shown_snoc_visible)
  qed
qed

lemma loop_chain:
  assumes "loop_inv visible nameLenOff nameOff (unat bufferLen) buf front rest lastKept kept"
    and "rest \<noteq> []" "8 \<le> nameLenOff" "nameLenOff + 4 \<le> nameOff" "unat offset = fst (hd rest)"
  shows "\<exists>buf' lastKept' kept'.
    FilterDirectoryInformation_loop visible nameLenOff nameOff bufferLen buf offset lastKept kept =
      Some (Some (buf', lastKept', kept')) \<and>
    loop_inv visible nameLenOff nameOff (unat bufferLen) buf' (front @ rest) [] lastKept' kept'"
  using assms
proof (induction rest arbitrary: buf front offset lastKept kept)
  case (Cons r rest)
  let ?bl = "unat bufferLen" and ?n = "length (snd r)"
  note I = Cons.prems(1) [unfolded loop_inv_def Let_def]
  note off = Cons.prems(3,4)
  have ok: "rec_ok nameLenOff nameOff ?bl buf r" using I by simp
  note bounds = rec_ok_bounds [OF ok off]
  have o: "unat offset = fst r" using Cons.prems(5) by simp
  have size: "fst r + nameOff + 2 * ?n \<le> ?bl" using ok by (simp add: rec_ok_def rec_end_def)
  have le: "offset \<le> bufferLen" using o bounds(2) by (simp add: word_le_nat_alt)
  have sub: "unat (bufferLen - offset) = ?bl - fst r" using le o by (simp add: unat_sub)
  have nameLen: "rd_u32 buf (fst r + nameLenOff) = Some (of_nat (2 * ?n))"
    using ok rd_u32_bytes_at unfolding rec_ok_def by blast
  have small: "2 * ?n < 2 ^ 32" using size ok by (simp add: rec_ok_def)
  then have n2: "unat (of_nat (2 * ?n) :: u32) = 2 * ?n" by (simp only: unat_of_nat) simp
  have nb: "min (unat (of_nat (2 * ?n) :: u32)) (unat (bufferLen - offset) - nameOff) div 2 = ?n"
    unfolding n2 sub using size by simp
  have name: "rd_wchars buf (fst r + nameOff) ?n = Some (snd r)"
    using ok rd_wchars_bytes_at unfolding rec_ok_def by blast
  define v where "v = visible (snd r)"
  define buf1 where "buf1 = (if v then (case lastKept of None \<Rightarrow> buf
      | Some l \<Rightarrow> wr_bytes buf l (u32_le (of_nat (fst r) - of_nat l))) else buf)"
  define last1 where "last1 = (if v then Some (fst r) else lastKept)"
  define kept1 where "kept1 = (if v then kept + 1 else kept)"
  have inv1: "loop_inv visible nameLenOff nameOff ?bl buf1 (front @ [r]) rest last1 kept1"
    unfolding last1_def kept1_def v_def
    by (rule loop_inv_step [OF Cons.prems(1) off]) (simp add: buf1_def v_def)
  have guard: "\<not> (bufferLen < offset \<or> unat (bufferLen - offset) < max (max 4 (nameLenOff + 4)) nameOff)"
    using le sub bounds(2) size off by auto
  have next0: "rd_u32 buf (fst r) = Some (if rest = [] then 0 else of_nat (fst (hd rest) - fst r))"
    using I by (cases rest) (auto simp: linked_def intro: rd_u32_bytes_at)
  have unfold: "FilterDirectoryInformation_loop visible nameLenOff nameOff bufferLen buf offset lastKept kept =
      (let next = (if rest = [] then 0 else of_nat (fst (hd rest) - fst r))
       in if next = 0 then Some (Some (buf1, last1, kept1))
          else FilterDirectoryInformation_loop visible nameLenOff nameOff bufferLen buf1 (offset + next) last1 kept1)"
    unfolding FilterDirectoryInformation_loop.simps [of visible nameLenOff nameOff bufferLen buf]
    unfolding Let_def if_not_P [OF guard] o next0 option.case nameLen nb name v_def [symmetric]
    by (auto simp: buf1_def last1_def kept1_def)
  show ?case
  proof (cases "rest = []")
    case True
    with unfold inv1 show ?thesis by auto
  next
    case False
    then obtain s rest' where s: "rest = s # rest'" by (cases rest) auto
    have "rec_end nameOff r \<le> fst s" using I s by (auto simp: apart_append apart_Cons)
    then have lt: "fst r < fst s" using bounds(4) by simp
    have "rec_ok nameLenOff nameOff ?bl buf s" using I s by simp
    note bs = rec_ok_bounds(3) [OF this off]
    have d: "unat (of_nat (fst s - fst r) :: u32) = fst s - fst r" using bs by (simp only: unat_of_nat) simp
    have nz: "(of_nat (fst s - fst r) :: u32) \<noteq> 0" using d lt by (metis unat_0 zero_less_diff less_irrefl)
    have next_off: "unat (offset + of_nat (fst s - fst r)) = fst s"
      using d o lt bs by (subst unat_add_lem [THEN iffD1]) simp_all
    have "\<exists>buf' lastKept' kept'.
        FilterDirectoryInformation_loop visible nameLenOff nameOff bufferLen buf1
          (offset + of_nat (fst s - fst r)) last1 kept1 = Some (Some (buf', lastKept', kept')) \<and>
        loop_inv visible nameLenOff nameOff ?bl buf' ((front @ [r]) @ rest) [] lastKept' kept'"
      by (rule Cons.IH [OF inv1 False off]) (simp add: s next_off)
    then show ?thesis unfolding unfold using nz s by simp
  qed
qed simp

lemma FilterDirectoryInformation_chain:
  assumes "TryGetDirInfoLayout infoClass = Some (nameLenOff, nameOff)"
    and "dir_chain nameLenOff nameOff (unat bufferLen) buf recs"
  shows "\<exists>buf'. FilterDirectoryInformation visible buf infoClass bufferLen =
      Some (Some (Some (length (filter (\<lambda>r. visible (snd r)) recs)), buf')) \<and>
    (if filter (\<lambda>r. visible (snd r)) recs = [] then dir_chain nameLenOff nameOff (unat bufferLen) buf' recs
     else dir_chain nameLenOff nameOff (unat bufferLen) buf' (shown visible recs))"
proof -
  note off = TryGetDirInfoLayout_bounds [OF assms(1)]
  have off: "8 \<le> nameLenOff" "nameLenOff + 4 \<le> nameOff" using off by simp_all
  note C = assms(2) [unfolded dir_chain_def]
  have "loop_inv visible nameLenOff nameOff (unat bufferLen) buf [] recs None 0"
    using C by (simp add: loop_inv_def shown_def linked_def)
  from loop_chain [OF this _ off, of 0] C obtain buf1 l k where
    loop: "FilterDirectoryInformation_loop visible nameLenOff nameOff bufferLen buf 0 None 0 = Some (Some (buf1, l, k))"
    and inv: "loop_inv visible nameLenOff nameOff (unat bufferLen) buf1 recs [] l k" by auto
  note I = inv [unfolded loop_inv_def Let_def, simplified]
  show ?thesis
  proof (cases "filter (\<lambda>r. visible (snd r)) recs = []")
    case True
    with I loop C show ?thesis
      by (intro exI [of _ buf1]) (simp add: FilterDirectoryInformation_def assms(1) dir_chain_def)
  next
    case False
    let ?vis = "filter (\<lambda>r. visible (snd r)) recs" and ?L = "shown visible recs"
    let ?l = "last ?vis"
    define buf' where "buf' = wr_bytes buf1 (fst ?l) (u32_le 0)"
    have L: "?L \<noteq> []" "last ?L = ?l" using False last_shown by blast+
    have l: "?l \<in> set recs" using False last_in_set [of ?vis] by auto
    have ok: "\<forall>x \<in> set recs. rec_ok nameLenOff nameOff (unat bufferLen) buf1 x" using I by blast
    have apart: "apart nameOff recs" using I by blast
    note bl = rec_ok_bounds [OF ok [rule_format, OF l] off]
    have ok': "rec_ok nameLenOff nameOff (unat bufferLen) buf' x" if "x \<in> set recs" for x
      unfolding buf'_def
    proof (rule rec_ok_wr_link [OF ok [rule_format, OF that] bl(1)])
      show "4 \<le> nameLenOff" "nameLenOff + 4 \<le> nameOff" using off by simp_all
      show "fst ?l = fst x \<or> fst ?l + 4 \<le> fst x \<or> rec_end nameOff x \<le> fst ?l"
        using apart_trichotomy [OF apart l that] bl(4) by auto
    qed
    have aL: "apart nameOff ?L" by (rule apart_shown [OF apart])
    have before: "fst x + 4 \<le> fst ?l" if "x \<in> set (butlast ?L)" for x
    proof -
      have "apart nameOff (butlast ?L @ [?l])" using aL L by (metis append_butlast_last_id)
      then have "rec_end nameOff x \<le> fst ?l" using that by (auto simp: apart_append)
      moreover have "x \<in> set recs" using that set_shown [of visible recs] by (blast dest: in_set_butlastD)
      ultimately show ?thesis using rec_ok_bounds(4) [OF ok [rule_format, of x] off] by fastforce
    qed
    have "links_open buf' ?L"
      unfolding buf'_def by (rule links_open_wr_link) (use I False bl before in auto)
    moreover have "bytes_at buf' (fst ?l) (u32_le 0)"
      unfolding buf'_def by (rule bytes_at_wr_same) (use bl in simp)
    ultimately have "linked buf' ?L" by (simp add: linked_def L)
    moreover have "fst (hd ?L) = 0"
    proof -
      have "hd ?L = hd recs"
        using False by (cases recs) (auto simp: shown_def)
      with C show ?thesis by simp
    qed
    moreover have "\<forall>r \<in> set ?L. rec_ok nameLenOff nameOff (unat bufferLen) buf' r"
      using ok' set_shown [of visible recs] by blast
    ultimately have "dir_chain nameLenOff nameOff (unat bufferLen) buf' ?L"
      using L aL by (simp add: dir_chain_def)
    with False I loop show ?thesis
      by (intro exI [of _ buf']) (simp add: FilterDirectoryInformation_def assms(1) buf'_def)
  qed
qed



text \<open>Memory safety of the loop, on any buffer.\<close>

lemma loop_in_bounds:
  assumes "FilterDirectoryInformation_loop visible nameLenOff nameOff bufferLen buf offset lastKept kept = Some y"
  shows "unat bufferLen \<le> length buf \<longrightarrow> nameLenOff + 4 \<le> nameOff \<longrightarrow>
    (\<forall>l. lastKept = Some l \<longrightarrow> l + 4 \<le> length buf) \<longrightarrow>
    (\<exists>buf' lastKept' kept'. y = Some (buf', lastKept', kept') \<and> length buf' = length buf \<and>
       (\<forall>l. lastKept' = Some l \<longrightarrow> l + 4 \<le> length buf))"
proof (rule FilterDirectoryInformation_loop.raw_induct [OF _ assms, where
    P = "\<lambda>visible nameLenOff nameOff bufferLen buf offset lastKept kept y.
      unat bufferLen \<le> length buf \<longrightarrow> nameLenOff + 4 \<le> nameOff \<longrightarrow>
      (\<forall>l. lastKept = Some l \<longrightarrow> l + 4 \<le> length buf) \<longrightarrow>
      (\<exists>buf' lastKept' kept'. y = Some (buf', lastKept', kept') \<and> length buf' = length buf \<and>
         (\<forall>l. lastKept' = Some l \<longrightarrow> l + 4 \<le> length buf))"], intro impI)
  fix f :: "(wstr \<Rightarrow> bool) \<Rightarrow> nat \<Rightarrow> nat \<Rightarrow> u32 \<Rightarrow> bytes \<Rightarrow> u32 \<Rightarrow> nat option \<Rightarrow> nat \<Rightarrow>
      (bytes \<times> nat option \<times> nat) option option"
  fix visible nameLenOff nameOff bufferLen buf offset lastKept kept y
  assume IH: "\<And>visible nameLenOff nameOff bufferLen buf offset lastKept kept y.
      f visible nameLenOff nameOff bufferLen buf offset lastKept kept = Some y \<Longrightarrow>
      unat bufferLen \<le> length (buf :: bytes) \<longrightarrow> nameLenOff + 4 \<le> nameOff \<longrightarrow>
      (\<forall>l. lastKept = Some l \<longrightarrow> l + 4 \<le> length buf) \<longrightarrow>
      (\<exists>buf' lastKept' kept'. y = Some (buf', lastKept', kept') \<and> length (buf' :: bytes) = length buf \<and>
         (\<forall>l. lastKept' = Some l \<longrightarrow> l + 4 \<le> length buf))"
  assume body: "(let headerMin = max (max 4 (nameLenOff + 4)) nameOff
      in if bufferLen < offset \<or> unat (bufferLen - offset) < headerMin
         then Some (Some (buf, lastKept, kept))
         else (let r = unat offset
               in case rd_u32 buf r of
                    None \<Rightarrow> Some None
                  | Some next \<Rightarrow>
               (case rd_u32 buf (r + nameLenOff) of
                  None \<Rightarrow> Some None
                | Some nameLen \<Rightarrow>
               (let availNameBytes = unat (bufferLen - offset) - nameOff;
                    nameBytes = min (unat nameLen) availNameBytes
                in case rd_wchars buf (r + nameOff) (nameBytes div 2) of
                     None \<Rightarrow> Some None
                   | Some name \<Rightarrow>
               (let (buf, lastKept, kept) =
                      (if visible name
                       then (case lastKept of
                               None \<Rightarrow> buf
                             | Some l \<Rightarrow> wr_bytes buf l (u32_le (of_nat r - of_nat l)),
                             Some r, kept + 1)
                       else (buf, lastKept, kept))
                in if next = 0 then Some (Some (buf, lastKept, kept))
                   else f visible nameLenOff nameOff bufferLen buf
                          (offset + next) lastKept kept))))) = Some y"
    and len: "unat bufferLen \<le> length buf" and off: "nameLenOff + 4 \<le> nameOff"
    and lk: "\<forall>l. lastKept = Some l \<longrightarrow> l + 4 \<le> length buf"
  show "\<exists>buf' lastKept' kept'. y = Some (buf', lastKept', kept') \<and> length buf' = length buf \<and>
      (\<forall>l. lastKept' = Some l \<longrightarrow> l + 4 \<le> length buf)"
  proof (cases "bufferLen < offset \<or> unat (bufferLen - offset) < max (max 4 (nameLenOff + 4)) nameOff")
    case True
    with body have "y = Some (buf, lastKept, kept)" by (simp add: Let_def)
    with lk show ?thesis by simp
  next
    case False
    let ?r = "unat offset"
    let ?n = "\<lambda>nameLen :: u32. min (unat nameLen) (unat (bufferLen - offset) - nameOff) div 2"
    have le: "unat offset \<le> unat bufferLen" and sub: "unat (bufferLen - offset) = unat bufferLen - unat offset"
      using False by (auto simp: word_le_nat_alt unat_sub not_less)
    have fits: "?r + nameOff \<le> length buf" "?r + 4 \<le> length buf" "?r + nameLenOff + 4 \<le> length buf"
      using False le sub len off by auto
    then obtain nxt nameLen where rd: "rd_u32 buf ?r = Some nxt" "rd_u32 buf (?r + nameLenOff) = Some nameLen"
      by (auto simp: rd_u32_def)
    have "?r + nameOff + 2 * ?n nameLen \<le> length buf" using le sub len fits(1) by auto
    then obtain name where name: "rd_wchars buf (?r + nameOff) (?n nameLen) = Some name"
      by (auto simp: rd_wchars_def)
    define buf1 where "buf1 = (if visible name then (case lastKept of None \<Rightarrow> buf
        | Some l \<Rightarrow> wr_bytes buf l (u32_le (of_nat ?r - of_nat l))) else buf)"
    define last1 where "last1 = (if visible name then Some ?r else lastKept)"
    define kept1 where "kept1 = (if visible name then kept + 1 else kept)"
    have buf1: "length buf1 = length buf" using lk by (auto simp: buf1_def split: option.split)
    have last1: "\<forall>l. last1 = Some l \<longrightarrow> l + 4 \<le> length buf" using lk fits by (auto simp: last1_def)
    have b: "(if nxt = 0 then Some (Some (buf1, last1, kept1))
        else f visible nameLenOff nameOff bufferLen buf1 (offset + nxt) last1 kept1) = Some y"
      using body unfolding Let_def if_not_P [OF False] rd option.case name
      by (auto simp: buf1_def last1_def kept1_def split: if_splits)
    show ?thesis
    proof (cases "nxt = 0")
      case True
      with b buf1 last1 show ?thesis by auto
    next
      case False
      with b have "f visible nameLenOff nameOff bufferLen buf1 (offset + nxt) last1 kept1 = Some y" by simp
      from IH [OF this] buf1 last1 len off show ?thesis by simp
    qed
  qed
qed

lemma FilterDirectoryInformation_in_bounds:
  assumes "FilterDirectoryInformation visible buf infoClass bufferLen = Some result"
    and "unat bufferLen \<le> length buf"
  shows "\<exists>kept buf'. result = Some (kept, buf') \<and> length buf' = length buf"
proof (cases "TryGetDirInfoLayout infoClass")
  case None
  with assms(1) have "result = Some (None, buf)" by (simp add: FilterDirectoryInformation_def)
  then show ?thesis by simp
next
  case (Some layout)
  obtain nameLenOff nameOff where layout: "layout = (nameLenOff, nameOff)" by (cases layout)
  then obtain y where y: "FilterDirectoryInformation_loop visible nameLenOff nameOff bufferLen buf 0 None 0 = Some y"
    and result: "result = map_option (\<lambda>(buf, lastKept, kept).
      (Some kept, case lastKept of None \<Rightarrow> buf | Some l \<Rightarrow> wr_bytes buf l (u32_le 0))) y"
    using assms(1) Some by (auto simp: FilterDirectoryInformation_def)
  have "nameLenOff + 4 \<le> nameOff" using TryGetDirInfoLayout_bounds Some layout by blast
  with loop_in_bounds [OF y] assms(2) obtain buf' lastKept' kept' where
    y': "y = Some (buf', lastKept', kept')" "length buf' = length buf"
    "\<forall>l. lastKept' = Some l \<longrightarrow> l + 4 \<le> length buf" by auto
  then show ?thesis using result by (cases lastKept') simp_all
qed

section \<open>Properties\<close>

text \<open>
  C10: what a caller sees of a filtered buffer. For every class of information that the filter knows
  and every well-formed chain of records, the filter returns the number of visible names, and a
  walk of the buffer then meets, where there is a visible name, all the hidden records that come before
  the first visible one, however many, and then exactly the visible records, in order. Only when
  the first record is visible, as \<open>.\<close> is at the start of a listing, are exactly the visible names left.
\<close>
theorem filtered_buffer_exact:
  assumes "TryGetDirInfoLayout infoClass = Some (nameLenOff, nameOff)"
    and "dir_chain nameLenOff nameOff (unat bufferLen) buf recs"
  shows "\<exists>buf'. FilterDirectoryInformation visible buf infoClass bufferLen =
      Some (Some (Some (length (filter (\<lambda>r. visible (snd r)) recs)), buf')) \<and>
    (filter (\<lambda>r. visible (snd r)) recs \<noteq> [] \<longrightarrow>
       dir_chain nameLenOff nameOff (unat bufferLen) buf'
         (takeWhile (\<lambda>r. \<not> visible (snd r)) recs @ filter (\<lambda>r. visible (snd r)) recs)) \<and>
    (visible (snd (hd recs)) \<longrightarrow>
       dir_chain nameLenOff nameOff (unat bufferLen) buf' (filter (\<lambda>r. visible (snd r)) recs))"
proof -
  let ?vis = "filter (\<lambda>r. visible (snd r)) recs"
  obtain buf' where "FilterDirectoryInformation visible buf infoClass bufferLen =
      Some (Some (Some (length ?vis), buf'))"
    and "if ?vis = [] then dir_chain nameLenOff nameOff (unat bufferLen) buf' recs
      else dir_chain nameLenOff nameOff (unat bufferLen) buf' (shown visible recs)"
    using FilterDirectoryInformation_chain [OF assms] by blast
  moreover have "?vis \<noteq> []" "takeWhile (\<lambda>r. \<not> visible (snd r)) recs = []" if "visible (snd (hd recs))"
    using that assms(2) by (cases recs; simp add: dir_chain_def)+
  ultimately show ?thesis by (intro exI [of _ buf']) (auto simp: shown_def)
qed

text \<open>A buffer of \<open>FileNamesInformation\<close> with the names \<open>b\<close> and \<open>a\<close>.\<close>

definition example_listing :: bytes where
  "example_listing = u32_le 16 @ [0, 0, 0, 0] @ u32_le 2 @ wchar_bytes (wide ''b'') @ [0, 0] @
     u32_le 0 @ [0, 0, 0, 0] @ u32_le 2 @ wchar_bytes (wide ''a'')"

lemma example_listing_chain:
  "dir_chain 8 12 (unat (30 :: u32)) example_listing [(0, wide ''b''), (16, wide ''a'')]"
  by (simp add: dir_chain_def linked_def apart_def rec_ok_def rec_end_def) (intro conjI; code_simp)

theorem filtered_buffer_exact_witness:
  "\<exists>buf'. FilterDirectoryInformation (\<lambda>name. name = wide ''a'') example_listing 12 30 = Some (Some (Some 1, buf')) \<and>
     dir_chain 8 12 30 buf' [(0, wide ''b''), (16, wide ''a'')]"
proof -
  have "TryGetDirInfoLayout 12 = Some (8, 12)" by (simp add: TryGetDirInfoLayout_def)
  from filtered_buffer_exact [OF this example_listing_chain, of "\<lambda>name. name = wide ''a''"]
  show ?thesis by simp
qed

text \<open>
  C24: the filter never leaves the caller's buffer. Whatever bytes the buffer holds, malformed or
  truncated, if the loop ends then it has read and written only inside the buffer, whose length is
  unchanged; no read of a header, a link or a name has gone past its end.
\<close>
theorem filter_stays_in_buffer:
  assumes "FilterDirectoryInformation visible buf infoClass bufferLen = Some result"
    and "unat bufferLen \<le> length buf"
  shows "\<exists>kept buf'. result = Some (kept, buf') \<and> length buf' = length buf"
  by (rule FilterDirectoryInformation_in_bounds [OF assms])

theorem filter_stays_in_buffer_witness:
  "\<exists>result kept buf'. FilterDirectoryInformation (\<lambda>name. True) (u32_le 200 @ replicate 4 0 @ u32_le 100 @ replicate 8 1) 12 20 = Some result \<and>
     result = Some (kept, buf') \<and> length buf' = 20"
proof -
  let ?buf = "u32_le 200 @ replicate 4 0 @ u32_le 100 @ replicate 8 1"
  have "FilterDirectoryInformation (\<lambda>name. True) ?buf 12 20 \<noteq> None" by code_simp
  then obtain result where r: "FilterDirectoryInformation (\<lambda>name. True) ?buf 12 20 = Some result" by auto
  from filter_stays_in_buffer [OF this] r show ?thesis by auto
qed


text \<open>
  A listing never shows an empty batch. Where the operating system gives well-formed chains and
  comes to an end, the hooks return, and a successful result has a visible name in the buffer.
\<close>
theorem requery_finds_visible:
  fixes remaining :: "'w \<Rightarrow> nat" and s :: "'w query_state"
  assumes layout: "TryGetDirInfoLayout infoClass = Some (nameLenOff, nameOff)"
    and os: "\<And>b w. case realFn flags b w of (status, e, b', w') \<Rightarrow> NT_SUCCESS status \<longrightarrow>
      remaining w' < remaining w \<and> unat Length \<le> length b' \<and> (\<exists>recs. dir_chain nameLenOff nameOff (unat Length) b' recs)"
    and start: "NT_SUCCESS (qs_result s) \<Longrightarrow>
      \<exists>recs. dir_chain nameLenOff nameOff (unat Length) (qs_FileInformation s) recs"
    and room: "unat Length \<le> length (qs_FileInformation s)"
  shows "\<exists>s'. ApplyEnumerationFilter_loop visible (requery realFn dosError flags separate Length) separate
      infoClass Length s = Some (Some s') \<and>
    (NT_SUCCESS (qs_result s') \<longrightarrow> (\<exists>recs. dir_chain nameLenOff nameOff (unat Length) (qs_FileInformation s') recs \<and>
       (\<exists>r \<in> set recs. visible (snd r))))"
  using start room
proof (induction "remaining (qs_world s)" arbitrary: s rule: less_induct)
  case less
  let ?loop = "ApplyEnumerationFilter_loop visible (requery realFn dosError flags separate Length) separate
      infoClass Length"
  let ?chain = "dir_chain nameLenOff nameOff (unat Length)"
  show ?case
  proof (cases "NT_SUCCESS (qs_result s)")
    case False
    then show ?thesis by (simp add: ApplyEnumerationFilter_loop.simps [of _ _ _ _ _ s])
  next
    case True
    then obtain recs where "?chain (qs_FileInformation s) recs" using less.prems(1) by blast
    from FilterDirectoryInformation_chain [OF layout this, of visible] obtain buf where
      filtered: "FilterDirectoryInformation visible (qs_FileInformation s) infoClass Length =
        Some (Some (Some (length (filter (\<lambda>r. visible (snd r)) recs)), buf))"
      and chain: "filter (\<lambda>r. visible (snd r)) recs \<noteq> [] \<Longrightarrow> ?chain buf (shown visible recs)"
      by (auto split: if_splits)
    let ?s = "s\<lparr>qs_FileInformation := buf, qs_buffer := (if separate then qs_buffer s else buf)\<rparr>"
    show ?thesis
    proof (cases "filter (\<lambda>r. visible (snd r)) recs = []")
      case False
      then have "\<exists>r \<in> set (shown visible recs). visible (snd r)"
        by (auto simp: shown_def filter_empty_conv)
      with True False filtered chain [OF False] show ?thesis
        by (intro exI [of _ ?s]) (auto simp: ApplyEnumerationFilter_loop.simps [of _ _ _ _ _ s] Let_def)
    next
      case none: True
      have len: "length buf = length (qs_FileInformation s)"
        using FilterDirectoryInformation_in_bounds [OF filtered less.prems(2)] by auto
      let ?t = "requery realFn dosError flags separate Length ?s"
      have loop: "?loop s = ?loop ?t"
        using True none filtered by (subst ApplyEnumerationFilter_loop.simps) (simp add: Let_def)
      obtain status e b' w' where call: "realFn flags (qs_buffer ?s) (qs_world ?s) = (status, e, b', w')"
        by (metis prod_cases4)
      note os' = os [where b = "qs_buffer ?s" and w = "qs_world ?s", unfolded call, simplified]
      show ?thesis
      proof (cases "NT_SUCCESS status")
        case False
        have "qs_result ?t = status" using call by (simp add: requery_def)
        with False loop show ?thesis
          by (intro exI [of _ ?t]) (simp add: ApplyEnumerationFilter_loop.simps [of _ _ _ _ _ ?t])
      next
        case success: True
        then obtain recs' where decr: "remaining w' < remaining (qs_world s)" and blen: "unat Length \<le> length b'" and c: "?chain b' recs'"
          using os' by auto
        have t: "qs_world ?t = w'" "qs_FileInformation ?t =
            (if separate then wr_bytes buf 0 (take (unat Length) b') else b')"
          using call success by (simp_all add: requery_def)
        have "?chain (qs_FileInformation ?t) recs'"
          using dir_chain_copy [OF c, of buf] c len less.prems(2) blen TryGetDirInfoLayout_bounds [OF layout] by (simp add: t)
        moreover have "unat Length \<le> length (qs_FileInformation ?t)"
          using len less.prems(2) blen by (simp add: t)
        ultimately show ?thesis
          unfolding loop by (intro less.hyps) (use t decr in auto)
      qed
    qed
  qed
qed

text \<open>A directory scan that has \<open>n\<close> more batches to give.\<close>

definition batches :: "(unit, nat) query_api" where
  "batches flags b n =
     (if n = 0 then (0x80000006, 18, example_listing, 0) else (0, 0, example_listing, n - 1))"

theorem requery_finds_visible_witness:
  "\<exists>s'. ApplyEnumerationFilter_loop (\<lambda>name. name = wide ''z'')
       (requery batches (\<lambda>status. 18) () True 30) True 12 30
       \<lparr>qs_world = 2, qs_buffer = [], qs_FileInformation = example_listing, qs_result = 0,
        qs_reportedError = 0, qs_lastError = 0\<rparr> = Some (Some s') \<and>
     (NT_SUCCESS (qs_result s') \<longrightarrow>
        (\<exists>recs. dir_chain 8 12 (unat (30 :: u32)) (qs_FileInformation s') recs \<and>
           (\<exists>r \<in> set recs. snd r = wide ''z'')))"
proof (rule requery_finds_visible [where remaining = id])
  show "TryGetDirInfoLayout 12 = Some (8, 12)" by (simp add: TryGetDirInfoLayout_def)
  have len: "unat (30 :: u32) \<le> length example_listing" by code_simp
  have "\<not> NT_SUCCESS 0x80000006" by code_simp
  then show "case batches () b w of (status, e, b', w') \<Rightarrow> NT_SUCCESS status \<longrightarrow>
      id w' < id w \<and> unat (30 :: u32) \<le> length b' \<and>
      (\<exists>recs. dir_chain 8 12 (unat (30 :: u32)) b' recs)" for b w
    using example_listing_chain len by (auto simp: batches_def)
qed (use example_listing_chain in \<open>auto simp: example_listing_def\<close>)

end
