(* ===== verification/Enum_Insert.thy ===== *)
theory Enum_Insert
  imports Enum_Filter
begin

text \<open>
  The enumeration splice (\<open>src/overlay_engine.cpp\<close>): the entries that an action has only in its
  backing store are given to a caller after the real ones, each once, through
  \<open>InsertOverlayEntries\<close> (\<open>NtQueryDirectoryFile\<close>) and \<open>NextOverlayFindDataW\<close>
  (\<open>FindNextFileW\<close>). The state of a scan is in the handle's \<open>HandleOverlay\<close>
  (\<open>vendor/detours-services/HandleOverlay.h\<close>).
\<close>

section \<open>State and services\<close>

datatype HandleType = HT_File | HT_Directory | HT_Find

record HandleOverlay =
  ho_Policy :: PolicyResult
  ho_AccessCheck :: AccessCheckResult
  ho_Type :: HandleType
  EnumerationHasBeenReported :: bool
  OverlayEnumStarted :: bool
  OverlayEnumSnapshot :: "wstr list"
  OverlayEnumCursor :: nat
  OverlayEnumFilter :: wstr
  OverlayEnumFilterSet :: bool

definition new_HandleOverlay :: "AccessCheckResult \<Rightarrow> PolicyResult \<Rightarrow> HandleType \<Rightarrow> HandleOverlay" where
  "new_HandleOverlay accessCheck policy type =
     \<lparr>ho_Policy = policy, ho_AccessCheck = accessCheck, ho_Type = type,
      EnumerationHasBeenReported = False, OverlayEnumStarted = False, OverlayEnumSnapshot = [],
      OverlayEnumCursor = 0, OverlayEnumFilter = [], OverlayEnumFilterSet = False\<rparr>"

text \<open>\<open>WIN32_FILE_ATTRIBUTE_DATA\<close>; a \<open>FILETIME\<close> is its low and its high half.\<close>

record file_data =
  fad_attributes :: u32
  fad_creation :: "u32 \<times> u32"
  fad_access :: "u32 \<times> u32"
  fad_write :: "u32 \<times> u32"
  fad_sizeHigh :: u32
  fad_sizeLow :: u32

text \<open>
  The services of a listing: \<open>GetFileAttributesExW\<close>; \<open>RtlIsNameInExpression\<close> and
  \<open>RtlUpcaseUnicodeChar\<close>, \<open>None\<close> where \<open>ntdll\<close> does not export them; and what
  \<open>GetEnvironmentVariableW\<close> returns and writes for the variable of the tests.
\<close>

record 'w enum_api =
  ea_files :: "'w file_api"
  ea_attributesEx :: "'w \<Rightarrow> wstr \<Rightarrow> file_data option"
  ea_isNameInExpression :: "(wstr \<Rightarrow> wstr \<Rightarrow> bool) option"
  ea_upcase :: "(wchar \<Rightarrow> wchar) option"
  ea_testNames :: "nat \<times> wstr"

text \<open>The names between semicolons, without empty ones.\<close>

function semicolon_tokens :: "wstr \<Rightarrow> wstr list" where
  "semicolon_tokens s =
     (let tok = takeWhile (\<lambda>c. c \<noteq> 0x3B) s; rest = dropWhile (\<lambda>c. c \<noteq> 0x3B) s
      in (if tok = [] then [] else [tok]) @
         (case rest of [] \<Rightarrow> [] | sep # rest \<Rightarrow> semicolon_tokens rest))"
  by pat_completeness auto
termination
proof (relation "measure length")
  fix s tok rest sep rest'
  assume "rest = dropWhile (\<lambda>c. c \<noteq> (0x3B :: wchar)) s" "rest = sep # rest'"
  then have "length (sep # rest') \<le> length s" by (metis length_dropWhile_le)
  then show "(rest', s) \<in> measure length" by simp
qed simp

declare semicolon_tokens.simps [simp del]

definition GetOverlayTestSyntheticNames :: "nat \<times> wstr \<Rightarrow> wstr list" where
  "GetOverlayTestSyntheticNames environment =
     (let (n, buf) = environment
      in if 0 < n \<and> n < 2048 then semicolon_tokens (take n buf) else [])"

definition AlignUp8 :: "u32 \<Rightarrow> u32" where
  "AlignUp8 v = (v + 7) AND NOT 7"

text \<open>The characters of a \<open>UNICODE_STRING\<close> over a string: its \<open>Length\<close> is a \<open>USHORT\<close>.\<close>

definition unicode_string :: "wstr \<Rightarrow> wstr" where
  "unicode_string s = take (unat (of_nat (2 * length s) :: u16) div 2) s"

definition OverlayNameMatchesFilter :: "'w enum_api \<Rightarrow> wstr \<Rightarrow> wstr \<Rightarrow> bool" where
  "OverlayNameMatchesFilter ea name expr =
     (if expr = [] \<or> expr = [STAR] \<or> expr = [STAR, DOT, STAR] then True
      else (case ea_isNameInExpression ea of
              None \<Rightarrow> True
            | Some isNameInExpression \<Rightarrow>
                (let up = map (\<lambda>c. case ea_upcase ea of
                                 Some upcase \<Rightarrow> upcase c
                               | None \<Rightarrow> if 0x61 \<le> c \<and> c \<le> 0x7A then c - 32 else c) expr
                 in isNameInExpression (unicode_string up) (unicode_string name))))"


section \<open>The snapshot\<close>

text \<open>
  \<open>std::sort\<close> by \<open>_wcsicmp\<close>; names that differ only in the case of letters, whose order it leaves
  open, keep theirs.
\<close>

definition add_test_name :: "wstr list \<Rightarrow> wstr \<Rightarrow> wstr list" where
  "add_test_name names e = (if \<exists>n \<in> set names. wcsicmp_eq n e then names else names @ [e])"

definition EnsureOverlayEnumSnapshot :: "parsed_manifest \<Rightarrow> 'w enum_api \<Rightarrow> wstr \<Rightarrow> 'w \<Rightarrow>
    HandleOverlay \<Rightarrow> HandleOverlay" where
  "EnsureOverlayEnumSnapshot g ea enumDir w overlay =
     (if OverlayEnumStarted overlay then overlay
      else (let attributes = fa_attributes (ea_files ea) w
            in if enumDir \<noteq> [] \<and> \<not> OverlayIsDirectory attributes (ext_prefix @ enumDir)
               then overlay\<lparr>OverlayEnumSnapshot := [], OverlayEnumStarted := True\<rparr>
               else (let names = (if enumDir \<noteq> [] then ListBackingChildren g (ea_files ea) enumDir w else []);
                         names = foldl add_test_name names (GetOverlayTestSyntheticNames (ea_testNames ea));
                         names = (if enumDir \<noteq> []
                                  then (let base = pop_back_while IsDirectorySeparator enumDir
                                        in filter (\<lambda>nm. \<not> OverlayPathExists attributes
                                                          (base @ [BACKSLASH] @ nm)) names)
                                  else names)
                     in overlay\<lparr>OverlayEnumSnapshot := sort_key (\<lambda>s. map towlower (cstr s)) names,
                                OverlayEnumStarted := True\<rparr>)))"


section \<open>Records\<close>

definition SynthOverlayFileId :: "wstr \<Rightarrow> u64" where
  "SynthOverlayFileId path =
     fold (\<lambda>c h. (let lc = (if 0x41 \<le> c \<and> c \<le> 0x5A then c + 32 else c)
                  in (h XOR ucast lc) * 1099511628211)) path 1469598103934665603
     AND 0x7fffffffffffffff"

text \<open>\<open>LARGE_INTEGER\<close> from its two halves, and a \<open>LONGLONG\<close> written to the buffer.\<close>

definition large_integer :: "u32 \<Rightarrow> u32 \<Rightarrow> u64" where
  "large_integer low high = ucast low OR push_bit 32 (ucast high)"

definition put_i64 :: "nat \<Rightarrow> u64 \<Rightarrow> bytes \<Rightarrow> bytes" where
  "put_i64 i v buf = wr_bytes buf i (u64_le v)"

definition FillOverlayDirRecordMetadata :: "'w enum_api \<Rightarrow> u32 \<Rightarrow> wstr \<Rightarrow> 'w \<Rightarrow> nat \<Rightarrow> bytes \<Rightarrow> bytes" where
  "FillOverlayDirRecordMetadata ea infoClass backingFullPath w r buf =
     (if infoClass = 12 then buf
      else (case ea_attributesEx ea w backingFullPath of
              None \<Rightarrow> buf
            | Some fad \<Rightarrow>
                (let putTime = (\<lambda>off (low, high). put_i64 (r + off) (large_integer low high));
                     buf = putTime 8 (fad_creation fad) buf;
                     buf = putTime 16 (fad_access fad) buf;
                     buf = putTime 24 (fad_write fad) buf;
                     buf = putTime 32 (fad_write fad) buf;
                     quad = large_integer (fad_sizeLow fad) (fad_sizeHigh fad);
                     buf = put_i64 (r + 40) quad buf;
                     alloc = (quad + 4095) AND NOT 4095;
                     buf = put_i64 (r + 48) alloc buf;
                     buf = wr_bytes buf (r + 56) (u32_le (fad_attributes fad))
                 in if infoClass = 37 then put_i64 (r + 96) (SynthOverlayFileId backingFullPath) buf
                    else if infoClass = 38 then put_i64 (r + 72) (SynthOverlayFileId backingFullPath) buf
                    else buf)))"


section \<open>FindNextFileW\<close>

record find_data =
  fd_attributes :: u32
  fd_creation :: "u32 \<times> u32"
  fd_access :: "u32 \<times> u32"
  fd_write :: "u32 \<times> u32"
  fd_sizeHigh :: u32
  fd_sizeLow :: u32
  fd_cFileName :: wstr

definition NextOverlayFindDataW :: "parsed_manifest \<Rightarrow> 'w enum_api \<Rightarrow> wstr \<Rightarrow> 'w \<Rightarrow> HandleOverlay \<Rightarrow>
    find_data option \<times> HandleOverlay" where
  "NextOverlayFindDataW g ea enumDir w overlay =
     (let overlay = EnsureOverlayEnumSnapshot g ea enumDir w overlay;
          names = OverlayEnumSnapshot overlay;
          cursor = OverlayEnumCursor overlay +
            length (takeWhile (\<lambda>nm. \<not> OverlayNameMatchesFilter ea nm (OverlayEnumFilter overlay))
                      (drop (OverlayEnumCursor overlay) names));
          overlay = overlay\<lparr>OverlayEnumCursor := cursor\<rparr>
      in if length names \<le> cursor then (None, overlay)
         else (let nm = names ! cursor;
                   backing = OverlayBackingPath g (JoinDirAndName enumDir nm);
                   data = (case ea_attributesEx ea w backing of
                             Some fad \<Rightarrow>
                               \<lparr>fd_attributes = fad_attributes fad, fd_creation = fad_creation fad,
                                fd_access = fad_access fad, fd_write = fad_write fad,
                                fd_sizeHigh = fad_sizeHigh fad, fd_sizeLow = fad_sizeLow fad,
                                fd_cFileName = take (MAX_PATH - 1) nm\<rparr>
                           | None \<Rightarrow>
                               \<lparr>fd_attributes = 0x80, fd_creation = (0, 0), fd_access = (0, 0),
                                fd_write = (0, 0), fd_sizeHigh = 0, fd_sizeLow = 0,
                                fd_cFileName = take (MAX_PATH - 1) nm\<rparr>)
               in (Some data, overlay\<lparr>OverlayEnumCursor := cursor + 1\<rparr>)))"

text \<open>The handle's overlay, the incoming last error; the entry, the overlay and the last error after it.\<close>

definition TryAppendOverlayFindDataW :: "parsed_manifest \<Rightarrow> 'w enum_api \<Rightarrow> 'w \<Rightarrow> HandleOverlay option \<Rightarrow>
    u32 \<Rightarrow> find_data option \<times> HandleOverlay option \<times> u32" where
  "TryAppendOverlayFindDataW g ea w ov savedError =
     (if \<not> ShouldWriteOverlay (g_fileAccessManifestExtraFlags g) then (None, ov, savedError)
      else (case ov of
              None \<Rightarrow> (None, None, savedError)
            | Some overlay \<Rightarrow>
                if ho_Type overlay \<noteq> HT_Find then (None, ov, savedError)
                else (let enumDir = TranslatedPath (ho_Policy overlay)
                      in case NextOverlayFindDataW g ea enumDir w overlay of
                           (Some data, overlay) \<Rightarrow> (Some data, Some overlay, ERROR_SUCCESS)
                         | (None, overlay) \<Rightarrow> (None, Some overlay, savedError))))"


section \<open>NtQueryDirectoryFile\<close>

text \<open>\<open>FileName\<close> is the caller's expression, \<open>None\<close> for a null pointer.\<close>

definition CaptureOverlayEnumFilter :: "HandleOverlay option \<Rightarrow> wstr option \<Rightarrow> bool \<Rightarrow> HandleOverlay option" where
  "CaptureOverlayEnumFilter overlay FileName restartScan =
     map_option (\<lambda>ov.
       (let ov = (if restartScan then ov\<lparr>OverlayEnumFilterSet := False, OverlayEnumFilter := []\<rparr> else ov)
        in case FileName of
             Some name \<Rightarrow>
               if \<not> OverlayEnumFilterSet ov \<and> name \<noteq> []
               then ov\<lparr>OverlayEnumFilter := name, OverlayEnumFilterSet := True\<rparr> else ov
           | None \<Rightarrow> ov)) overlay"

text \<open>The variables of the loop that writes the records.\<close>

record insert_state =
  is_buf :: bytes
  is_cursor :: nat
  is_prev :: "u32 option"
  is_writeOff :: u32
  is_lastWrittenEnd :: u32

text \<open>\<open>names\<close> are those from the cursor on; \<open>meta\<close> fills in the metadata of a name's record.\<close>

fun InsertOverlayEntries_loop :: "(wstr \<Rightarrow> bool) \<Rightarrow> (wstr \<Rightarrow> nat \<Rightarrow> bytes \<Rightarrow> bytes) \<Rightarrow> bool \<Rightarrow> nat \<Rightarrow> nat \<Rightarrow>
    u32 \<Rightarrow> wstr list \<Rightarrow> insert_state \<Rightarrow> insert_state" where
  "InsertOverlayEntries_loop matching meta single nameLenOff nameOff Length [] st = st"
| "InsertOverlayEntries_loop matching meta single nameLenOff nameOff Length (nm # names) st =
     (if \<not> matching nm
      then InsertOverlayEntries_loop matching meta single nameLenOff nameOff Length names
             (st\<lparr>is_cursor := is_cursor st + 1\<rparr>)
      else (let nameBytes = of_nat (2 * length nm);
                recSize = of_nat nameOff + nameBytes;
                writeOff = is_writeOff st
            in if unat Length < unat writeOff + unat recSize then st
               else (let r = unat writeOff;
                         buf = wr_bytes (is_buf st) r (replicate nameOff 0);
                         buf = wr_bytes buf r (u32_le 0);
                         buf = wr_bytes buf (r + nameLenOff) (u32_le nameBytes);
                         buf = wr_bytes buf (r + nameOff) (take (unat nameBytes) (wchar_bytes nm));
                         buf = meta nm r buf;
                         buf = (case is_prev st of
                                  None \<Rightarrow> buf
                                | Some prevOff \<Rightarrow> wr_bytes buf (unat prevOff) (u32_le (writeOff - prevOff)));
                         st = \<lparr>is_buf = buf, is_cursor = is_cursor st + 1, is_prev = Some writeOff,
                               is_writeOff = AlignUp8 (writeOff + recSize),
                               is_lastWrittenEnd = writeOff + recSize\<rparr>
                     in if single then st
                        else InsertOverlayEntries_loop matching meta single nameLenOff nameOff Length names st)))"

definition kStatusSuccess :: u32 where "kStatusSuccess = 0"
definition kStatusNoMoreFiles :: u32 where "kStatusNoMoreFiles = 0x80000006"
definition kStatusNoSuchFile :: u32 where "kStatusNoSuchFile = 0xC000000F"

text \<open>
  The caller's buffer, its status block (status and information), the handle's overlay and the
  result, before and after.
\<close>

definition InsertOverlayEntries :: "parsed_manifest \<Rightarrow> 'w enum_api \<Rightarrow> u32 \<Rightarrow> u32 \<Rightarrow> bool \<Rightarrow> bool \<Rightarrow>
    wstr \<Rightarrow> 'w \<Rightarrow> bytes \<times> (u32 \<times> u32) option \<times> HandleOverlay option \<times> u32 \<Rightarrow>
    bytes \<times> (u32 \<times> u32) option \<times> HandleOverlay option \<times> u32" where
  "InsertOverlayEntries g ea Length infoClass ReturnSingleEntry RestartScan enumDir w prior =
     (let (FileInformation, IoStatusBlock, overlay, result) = prior
      in case overlay of
           None \<Rightarrow> prior
         | Some ov \<Rightarrow>
      (case TryGetDirInfoLayout infoClass of
         None \<Rightarrow> prior
       | Some (nameLenOff, nameOff) \<Rightarrow>
      if enumDir \<noteq> [] \<and> \<not> OverlayIsDirectory (fa_attributes (ea_files ea) w) (ext_prefix @ enumDir)
      then prior
      else (let ov = (if RestartScan
                      then ov\<lparr>OverlayEnumStarted := False, OverlayEnumCursor := 0, OverlayEnumSnapshot := []\<rparr>
                      else ov);
                ov = EnsureOverlayEnumSnapshot g ea enumDir w ov;
                names = OverlayEnumSnapshot ov;
                untouched = (FileInformation, IoStatusBlock, Some ov, result)
            in if length names \<le> OverlayEnumCursor ov then untouched
               else if NT_SUCCESS result then untouched
               else if result \<noteq> kStatusNoMoreFiles \<and> result \<noteq> kStatusNoSuchFile then untouched
               else (let st = InsertOverlayEntries_loop
                           (\<lambda>nm. OverlayNameMatchesFilter ea nm (OverlayEnumFilter ov))
                           (\<lambda>nm. FillOverlayDirRecordMetadata ea infoClass
                                    (OverlayBackingPath g (JoinDirAndName enumDir nm)) w)
                           ReturnSingleEntry nameLenOff nameOff Length
                           (drop (OverlayEnumCursor ov) names)
                           \<lparr>is_buf = FileInformation, is_cursor = OverlayEnumCursor ov, is_prev = None,
                            is_writeOff = AlignUp8 0, is_lastWrittenEnd = 0\<rparr>;
                         ov = ov\<lparr>OverlayEnumCursor := is_cursor st\<rparr>
                     in if is_prev st = None then (is_buf st, IoStatusBlock, Some ov, result)
                        else (is_buf st,
                              map_option (\<lambda>_. (kStatusSuccess, is_lastWrittenEnd st)) IoStatusBlock,
                              Some ov, kStatusSuccess)))))"


section \<open>Lemmas\<close>

lemma unat_align: "unat (v AND NOT 7 :: u32) = unat v div 8 * 8"
proof -
  have "v AND NOT 7 = push_bit 3 (drop_bit 3 v)"
  proof (rule bit_eqI)
    fix n
    assume "possible_bit TYPE(u32) n"
    have m: "(7 :: u32) = mask 3" by (simp add: mask_eq_exp_minus_1)
    have "bit (7 :: u32) n \<longleftrightarrow> n < 3"
      unfolding m using \<open>possible_bit TYPE(u32) n\<close> by (simp only: bit_mask_iff simp_thms)
    then show "bit (v AND NOT 7) n \<longleftrightarrow> bit (push_bit 3 (drop_bit 3 v)) n"
      unfolding bit_and_iff bit_not_iff
      using \<open>possible_bit TYPE(u32) n\<close> by (auto simp: bit_push_bit_iff bit_drop_bit_eq)
  qed
  then have "unat (v AND NOT 7) = take_bit 32 (push_bit 3 (unat v div 8))"
    by (simp add: unsigned_push_bit_eq unsigned_drop_bit_eq drop_bit_eq_div unat_div)
  moreover have "unat v div 8 * 8 < 2 ^ 32"
  proof -
    have "unat v < 2 ^ 32" using unsigned_less [of v, where 'a = nat] by simp
    then show ?thesis by (meson div_times_less_eq_dividend le_less_trans)
  qed
  ultimately show ?thesis by (simp add: push_bit_eq_mult take_bit_nat_eq_self mult.commute)
qed

lemma AlignUp8_bounds:
  assumes "unat v < 2 ^ 32 - 7"
  shows "unat v \<le> unat (AlignUp8 v)"
proof -
  have "unat (v + 7) = unat v + 7" using assms by (subst unat_add_lem [THEN iffD1]) simp_all
  then have "unat (AlignUp8 v) = (unat v + 7) div 8 * 8" unfolding AlignUp8_def unat_align by simp
  then show ?thesis by simp
qed

text \<open>What filling in the metadata of the record at \<open>r\<close> may change.\<close>

definition keeps_frame :: "nat \<Rightarrow> nat \<Rightarrow> (wstr \<Rightarrow> nat \<Rightarrow> bytes \<Rightarrow> bytes) \<Rightarrow> bool" where
  "keeps_frame nameLenOff nameOff meta \<longleftrightarrow>
     (\<forall>nm r buf. r + nameOff \<le> length buf \<longrightarrow> length (meta nm r buf) = length buf \<and>
        (\<forall>i bs. bytes_at buf i bs \<longrightarrow>
           i + length bs \<le> r + 8 \<or> r + nameOff \<le> i \<or> i = r + nameLenOff \<and> length bs = 4 \<longrightarrow>
           bytes_at (meta nm r buf) i bs))"

lemma length_u64_le [simp]: "length (u64_le v) = 8"
  by (simp add: u64_le_def)

lemma FillOverlayDirRecordMetadata_frame:
  assumes "TryGetDirInfoLayout infoClass = Some (nameLenOff, nameOff)"
  shows "keeps_frame nameLenOff nameOff (\<lambda>nm. FillOverlayDirRecordMetadata ea infoClass (backing nm) w)"
proof (cases "infoClass = 12")
  case True
  then show ?thesis by (simp add: keeps_frame_def FillOverlayDirRecordMetadata_def)
next
  case False
  then have off: "nameLenOff = 60" "64 \<le> nameOff" "infoClass = 37 \<Longrightarrow> nameOff = 104"
    "infoClass = 38 \<Longrightarrow> nameOff = 80"
    using assms by (auto simp: TryGetDirInfoLayout_def split: if_splits)
  show ?thesis
    unfolding keeps_frame_def
  proof (intro allI impI conjI)
    fix nm r and buf :: bytes
    assume len: "r + nameOff \<le> length buf"
    then show "length (FillOverlayDirRecordMetadata ea infoClass (backing nm) w r buf) = length buf"
      using off by (auto simp: FillOverlayDirRecordMetadata_def put_i64_def Let_def split: option.split prod.split)
    fix i bs
    assume "bytes_at buf i bs"
      "i + length bs \<le> r + 8 \<or> r + nameOff \<le> i \<or> i = r + nameLenOff \<and> length bs = 4"
    then show "bytes_at (FillOverlayDirRecordMetadata ea infoClass (backing nm) w r buf) i bs"
      using len off
      by (auto simp: FillOverlayDirRecordMetadata_def put_i64_def Let_def split: option.split prod.split
          intro!: bytes_at_wr_other)
  qed
qed

text \<open>Writing one record.\<close>

definition write_record :: "(wstr \<Rightarrow> nat \<Rightarrow> bytes \<Rightarrow> bytes) \<Rightarrow> nat \<Rightarrow> nat \<Rightarrow> nat \<Rightarrow> wstr \<Rightarrow> bytes \<Rightarrow> bytes" where
  "write_record meta nameLenOff nameOff r nm buf =
     meta nm r (wr_bytes (wr_bytes (wr_bytes (wr_bytes buf r (replicate nameOff 0)) r (u32_le 0))
       (r + nameLenOff) (u32_le (of_nat (2 * length nm)))) (r + nameOff) (wchar_bytes nm))"

lemma write_record:
  assumes "keeps_frame nameLenOff nameOff meta" "8 \<le> nameLenOff" "nameLenOff + 4 \<le> nameOff"
    and "r + nameOff + 2 * length nm \<le> bl" "bl \<le> length buf" "bl < 2 ^ 32"
  shows "length (write_record meta nameLenOff nameOff r nm buf) = length buf"
    and "rec_ok nameLenOff nameOff bl (write_record meta nameLenOff nameOff r nm buf) (r, nm)"
    and "bytes_at (write_record meta nameLenOff nameOff r nm buf) r (u32_le 0)"
    and "bytes_at buf i bs \<Longrightarrow> i + length bs \<le> r \<Longrightarrow>
      bytes_at (write_record meta nameLenOff nameOff r nm buf) i bs"
proof -
  let ?b1 = "wr_bytes buf r (replicate nameOff 0)"
  let ?b2 = "wr_bytes ?b1 r (u32_le 0)"
  let ?b3 = "wr_bytes ?b2 (r + nameLenOff) (u32_le (of_nat (2 * length nm)))"
  let ?b4 = "wr_bytes ?b3 (r + nameOff) (wchar_bytes nm)"
  have len: "length ?b1 = length buf" "length ?b2 = length buf" "length ?b3 = length buf" "length ?b4 = length buf"
    using assms(2-5) by simp_all
  have w: "write_record meta nameLenOff nameOff r nm buf = meta nm r ?b4" by (simp add: write_record_def)
  have room: "r + nameOff \<le> length ?b4" using len assms(4,5) by simp
  have m: "length (meta nm r ?b4) = length buf"
    "bytes_at ?b4 j cs \<Longrightarrow> j + length cs \<le> r + 8 \<or> r + nameOff \<le> j \<or> j = r + nameLenOff \<and> length cs = 4 \<Longrightarrow>
      bytes_at (meta nm r ?b4) j cs" for j cs
    using assms(1) room len(4) unfolding keeps_frame_def by auto
  show "length (write_record meta nameLenOff nameOff r nm buf) = length buf" using w m(1) by simp
  have "bytes_at ?b2 r (u32_le 0)" by (rule bytes_at_wr_same) (use len assms in simp)
  then have "bytes_at ?b3 r (u32_le 0)"
    by (rule bytes_at_wr_other [rotated]) (use len assms(2-5) in simp_all)
  then have "bytes_at ?b4 r (u32_le 0)"
    by (rule bytes_at_wr_other [rotated]) (use len assms(2-5) in simp_all)
  then show "bytes_at (write_record meta nameLenOff nameOff r nm buf) r (u32_le 0)"
    unfolding w by (intro m(2)) simp_all
  have "bytes_at ?b3 (r + nameLenOff) (u32_le (of_nat (2 * length nm)))"
    by (rule bytes_at_wr_same) (use len assms in simp)
  then have "bytes_at ?b4 (r + nameLenOff) (u32_le (of_nat (2 * length nm)))"
    by (rule bytes_at_wr_other [rotated]) (use len assms(2-5) in simp_all)
  then have n: "bytes_at (meta nm r ?b4) (r + nameLenOff) (u32_le (of_nat (2 * length nm)))"
    by (intro m(2)) simp_all
  have "bytes_at ?b4 (r + nameOff) (wchar_bytes nm)"
    by (rule bytes_at_wr_same) (use len assms in simp)
  then have "bytes_at (meta nm r ?b4) (r + nameOff) (wchar_bytes nm)" by (intro m(2)) simp_all
  with n show "rec_ok nameLenOff nameOff bl (write_record meta nameLenOff nameOff r nm buf) (r, nm)"
    unfolding w using assms(4,6) by (simp add: rec_ok_def rec_end_def)
  assume "bytes_at buf i bs" "i + length bs \<le> r"
  then have "bytes_at ?b4 i bs"
    using len assms(2-5) by (intro bytes_at_wr_other) simp_all
  then show "bytes_at (write_record meta nameLenOff nameOff r nm buf) i bs"
    unfolding w using \<open>i + length bs \<le> r\<close> by (intro m(2)) simp_all
qed

text \<open>The state of the loop after the records \<open>L\<close>.\<close>

definition inserted :: "nat \<Rightarrow> nat \<Rightarrow> nat \<Rightarrow> dir_record list \<Rightarrow> insert_state \<Rightarrow> bool" where
  "inserted nameLenOff nameOff bl L st \<longleftrightarrow>
     bl \<le> length (is_buf st) \<and> apart nameOff L \<and> linked (is_buf st) L \<and>
     (\<forall>r \<in> set L. rec_ok nameLenOff nameOff bl (is_buf st) r \<and> rec_end nameOff r \<le> unat (is_writeOff st)) \<and>
     (if L = [] then is_prev st = None \<and> is_writeOff st = 0
      else fst (hd L) = 0 \<and> is_prev st = Some (of_nat (fst (last L))) \<and>
           is_lastWrittenEnd st = of_nat (rec_end nameOff (last L)))"

text \<open>One more record after those.\<close>

lemma inserted_snoc:
  assumes inv: "inserted nameLenOff nameOff bl L st"
    and frame: "keeps_frame nameLenOff nameOff meta" "8 \<le> nameLenOff" "nameLenOff + 4 \<le> nameOff"
    and fits: "unat (is_writeOff st) + nameOff + 2 * length nm \<le> bl" and bl: "bl < 2 ^ 32 - 7"
    and st': "st' = \<lparr>is_buf =
        (case is_prev st of
           None \<Rightarrow> write_record meta nameLenOff nameOff (unat (is_writeOff st)) nm (is_buf st)
         | Some prevOff \<Rightarrow> wr_bytes (write_record meta nameLenOff nameOff (unat (is_writeOff st)) nm (is_buf st))
             (unat prevOff) (u32_le (is_writeOff st - prevOff))),
      is_cursor = c, is_prev = Some (is_writeOff st),
      is_writeOff = AlignUp8 (is_writeOff st + (of_nat nameOff + of_nat (2 * length nm))),
      is_lastWrittenEnd = is_writeOff st + (of_nat nameOff + of_nat (2 * length nm))\<rparr>"
  shows "inserted nameLenOff nameOff bl (L @ [(unat (is_writeOff st), nm)]) st'"
proof -
  let ?r = "unat (is_writeOff st)" and ?buf = "is_buf st"
  let ?b = "write_record meta nameLenOff nameOff ?r nm ?buf"
  note I = inv [unfolded inserted_def]
  have lenbuf: "bl \<le> length ?buf" and bl32: "bl < 2 ^ 32" using I bl by simp_all
  note w = write_record [OF frame fits lenbuf bl32]
  have off: "is_writeOff st + (of_nat nameOff + of_nat (2 * length nm)) = of_nat (rec_end nameOff (?r, nm))"
    by (simp add: rec_end_def)
  have "unat (of_nat (rec_end nameOff (?r, nm)) :: u32) = rec_end nameOff (?r, nm)"
    using fits bl by (simp only: unat_of_nat) (simp add: rec_end_def)
  then have writeOff: "rec_end nameOff (?r, nm) \<le> unat (is_writeOff st')"
    using AlignUp8_bounds [of "of_nat (rec_end nameOff (?r, nm))"] fits bl
    by (simp only: st' off insert_state.simps) (simp add: rec_end_def)
  have below: "rec_end nameOff x \<le> ?r" if "x \<in> set L" for x using I that by blast
  have later: "?r \<le> rec_end nameOff (?r, nm)" by (simp add: rec_end_def)
  have apart: "apart nameOff (L @ [(?r, nm)])"
  proof -
    have "apart nameOff L" using I by simp
    moreover have "apart nameOff [(?r, nm)]" by (simp add: apart_def)
    ultimately show ?thesis using below by (simp add: apart_append)
  qed
  have ends: "rec_end nameOff x \<le> unat (is_writeOff st')" if "x \<in> set (L @ [(?r, nm)])" for x
    using that below later writeOff by fastforce
  have ok_old: "rec_ok nameLenOff nameOff bl ?b x" if "x \<in> set L" for x
    using I that below [OF that] frame(2,3)
    by (auto simp: rec_ok_def rec_end_def intro!: w(4))
  show ?thesis
  proof (cases "L = []")
    case True
    with I w apart ends show ?thesis
      by (simp add: inserted_def st' linked_def rec_end_def lenbuf)
  next
    case False
    let ?l = "last L" and ?b' = "wr_bytes ?b (fst (last L)) (u32_le (of_nat ?r - of_nat (fst (last L))))"
    have lL: "?l \<in> set L" using False by simp
    have l: "rec_end nameOff ?l \<le> ?r" using below lL by blast
    have l4: "fst ?l + 4 \<le> rec_end nameOff ?l" using frame by (simp add: rec_end_def)
    have l32: "unat (of_nat (fst ?l) :: u32) = fst ?l"
      using l l4 unsigned_less [of "is_writeOff st", where 'a = nat] by (simp only: unat_of_nat) simp
    have room: "fst ?l + 4 \<le> length ?b" using l l4 fits lenbuf w(1) by simp
    have buf': "is_buf st' = ?b'" using I False l32 by (simp add: st')
    have ok: "rec_ok nameLenOff nameOff bl ?b' x" if "x \<in> set (L @ [(?r, nm)])" for x
    proof (rule rec_ok_wr_link [OF _ room])
      show "rec_ok nameLenOff nameOff bl ?b x" using that ok_old [of x] w(2) by auto
      show "4 \<le> nameLenOff" "nameLenOff + 4 \<le> nameOff" using frame by simp_all
      show "fst ?l = fst x \<or> fst ?l + 4 \<le> fst x \<or> rec_end nameOff x \<le> fst ?l"
        using apart_trichotomy [OF apart _ that, of ?l] lL l4 by auto
    qed
    have linksb: "links_open ?b L"
    proof (rule links_open_frame [of ?buf])
      show "links_open ?buf L" using I by (simp add: linked_def)
      fix x v
      assume x: "x \<in> set (butlast L)" and at: "bytes_at ?buf (fst x) (u32_le v)"
      have "fst x + 4 \<le> ?r" using below [OF in_set_butlastD [OF x]] frame by (simp add: rec_end_def)
      then show "bytes_at ?b (fst x) (u32_le v)" by (intro w(4) [OF at]) simp
    qed
    have before: "fst x + 4 \<le> fst ?l" if "x \<in> set (butlast L)" for x
    proof -
      have "apart nameOff (butlast L @ [?l])" using I False by simp
      then have "rec_end nameOff x \<le> fst ?l" using that by (auto simp: apart_append)
      then show ?thesis using frame by (simp add: rec_end_def)
    qed
    have "links_open ?b' L" by (rule links_open_wr_link [OF linksb room]) (use before in blast)
    then have "links_open ?b' (butlast L @ [?l])" using False by simp
    moreover have "bytes_at ?b' (fst ?l) (u32_le (of_nat (?r - fst ?l)))"
      using bytes_at_wr_same [of "fst ?l" "u32_le (of_nat ?r - of_nat (fst ?l))" ?b] room l l4 by simp
    ultimately have "links_open ?b' (butlast L @ [?l, (?r, nm)])" unfolding links_open_snoc by simp
    moreover have "L @ [(?r, nm)] = butlast L @ [?l, (?r, nm)]" using False by simp
    ultimately have "links_open ?b' (L @ [(?r, nm)])" by (simp only:)
    moreover have "bytes_at ?b' ?r (u32_le 0)"
      by (rule bytes_at_wr_other [OF _ w(3)]) (use room l l4 in auto)
    ultimately have "linked ?b' (L @ [(?r, nm)])" by (simp add: linked_def)
    then show ?thesis
      using I False apart ends ok lenbuf w(1) room buf' by (simp add: inserted_def st' rec_end_def)
  qed
qed

text \<open>The whole loop: it takes the names one after the other and stops where the next does not fit.\<close>

lemma InsertOverlayEntries_loop_inserted:
  assumes "inserted nameLenOff nameOff bl L st"
    and "keeps_frame nameLenOff nameOff meta" "8 \<le> nameLenOff" "nameLenOff + 4 \<le> nameOff"
    and "bl = unat Length" "bl < 2 ^ 32 - 7"
    and "\<forall>nm \<in> set names. nameOff + 2 * length nm < 2 ^ 32"
    and "st' = InsertOverlayEntries_loop matching meta single nameLenOff nameOff Length names st"
  shows "\<exists>taken rest R. names = taken @ rest \<and> map snd R = filter matching taken \<and>
    inserted nameLenOff nameOff bl (L @ R) st' \<and> is_cursor st' = is_cursor st + length taken \<and>
    (R = [] \<longrightarrow> is_buf st' = is_buf st \<and> is_prev st' = is_prev st \<and> is_writeOff st' = is_writeOff st) \<and>
    (single \<longrightarrow> length R \<le> 1) \<and>
    (rest \<noteq> [] \<longrightarrow> single \<and> R \<noteq> [] \<or>
       matching (hd rest) \<and> bl < unat (is_writeOff st') + nameOff + 2 * length (hd rest))"
  using assms(1,7,8)
proof (induction names arbitrary: L st)
  case Nil
  then show ?case by (intro exI [of _ "[]"]) simp
next
  case (Cons nm names)
  have rest: "\<forall>nm \<in> set names. nameOff + 2 * length nm < 2 ^ 32" using Cons.prems(2) by simp
  have short: "nameOff + 2 * length nm < 2 ^ 32" using Cons.prems(2) by simp
  consider (skip) "\<not> matching nm" |
    (full) "matching nm" "bl < unat (is_writeOff st) + nameOff + 2 * length nm" |
    (fits) "matching nm" "unat (is_writeOff st) + nameOff + 2 * length nm \<le> bl"
    by linarith
  then show ?case
  proof cases
    case skip
    have "inserted nameLenOff nameOff bl L (st\<lparr>is_cursor := is_cursor st + 1\<rparr>)"
      using Cons.prems(1) by (simp add: inserted_def)
    from Cons.IH [OF this rest] obtain taken rest' R where
      "names = taken @ rest'" "map snd R = filter matching taken" "inserted nameLenOff nameOff bl (L @ R) st'"
      "is_cursor st' = is_cursor st + 1 + length taken"
      "R = [] \<longrightarrow> is_buf st' = is_buf st \<and> is_prev st' = is_prev st \<and> is_writeOff st' = is_writeOff st"
      "single \<longrightarrow> length R \<le> 1"
      "rest' \<noteq> [] \<longrightarrow> single \<and> R \<noteq> [] \<or>
         matching (hd rest') \<and> bl < unat (is_writeOff st') + nameOff + 2 * length (hd rest')"
      using Cons.prems(3) skip by (auto simp: InsertOverlayEntries_loop.simps(2))
    with skip show ?thesis
      by (intro exI [of _ "nm # taken"] exI [of _ rest'] exI [of _ R]) simp
  next
    case full
    have size: "unat (of_nat nameOff + of_nat (2 * length nm) :: u32) = nameOff + 2 * length nm"
      using short by (simp only: of_nat_add [symmetric] unat_of_nat) simp
    have "st' = st"
      using Cons.prems(3) full assms(5)
      by (simp only: InsertOverlayEntries_loop.simps(2) Let_def size if_True if_False simp_thms)
        (simp only: add.assoc if_True)
    then show ?thesis
      using full Cons.prems(1) by (intro exI [of _ "[]"] exI [of _ "nm # names"]) simp
  next
    case fits
    have size: "unat (of_nat nameOff + of_nat (2 * length nm) :: u32) = nameOff + 2 * length nm"
      "unat (of_nat (2 * length nm) :: u32) = 2 * length nm"
      using short by (simp only: of_nat_add [symmetric] unat_of_nat, simp)+
    define st1 where "st1 = \<lparr>is_buf =
        (case is_prev st of
           None \<Rightarrow> write_record meta nameLenOff nameOff (unat (is_writeOff st)) nm (is_buf st)
         | Some prevOff \<Rightarrow> wr_bytes (write_record meta nameLenOff nameOff (unat (is_writeOff st)) nm (is_buf st))
             (unat prevOff) (u32_le (is_writeOff st - prevOff))),
      is_cursor = is_cursor st + 1, is_prev = Some (is_writeOff st),
      is_writeOff = AlignUp8 (is_writeOff st + (of_nat nameOff + of_nat (2 * length nm))),
      is_lastWrittenEnd = is_writeOff st + (of_nat nameOff + of_nat (2 * length nm))\<rparr>"
    have inv: "inserted nameLenOff nameOff bl (L @ [(unat (is_writeOff st), nm)]) st1"
      by (rule inserted_snoc [OF Cons.prems(1) assms(2-4) fits(2) assms(6) st1_def])
    have "\<not> unat Length < unat (is_writeOff st) + unat (of_nat nameOff + of_nat (2 * length nm) :: u32)"
      unfolding size using fits(2) assms(5) by simp
    then have loop: "st' = (if single then st1
        else InsertOverlayEntries_loop matching meta single nameLenOff nameOff Length names st1)"
      unfolding Cons.prems(3) InsertOverlayEntries_loop.simps(2) Let_def st1_def write_record_def size(2)
      using fits(1) by (simp only: if_False simp_thms take_all length_wchar_bytes order_refl)
    show ?thesis
    proof (cases single)
      case True
      with loop inv fits show ?thesis
        by (intro exI [of _ "[nm]"] exI [of _ names] exI [of _ "[(unat (is_writeOff st), nm)]"])
          (simp add: st1_def)
    next
      case False
      from Cons.IH [OF inv rest] obtain taken rest' R where
        "names = taken @ rest'" "map snd R = filter matching taken"
        "inserted nameLenOff nameOff bl (L @ (unat (is_writeOff st), nm) # R) st'"
        "is_cursor st' = is_cursor st1 + length taken"
        "rest' \<noteq> [] \<longrightarrow>
           matching (hd rest') \<and> bl < unat (is_writeOff st') + nameOff + 2 * length (hd rest')"
        using loop False by auto
      with fits False show ?thesis
        by (intro exI [of _ "nm # taken"] exI [of _ rest'] exI [of _ "(unat (is_writeOff st), nm) # R"])
          (simp add: st1_def)
    qed
  qed
qed

lemma inserted_dir_chain:
  assumes "inserted nameLenOff nameOff bl L st" "L \<noteq> []"
  shows "dir_chain nameLenOff nameOff bl (is_buf st) L"
    and "is_lastWrittenEnd st = of_nat (rec_end nameOff (last L))"
  using assms by (simp_all add: inserted_def dir_chain_def)

end
