(* ===== verification/Enum_Scan.thy ===== *)
theory Enum_Scan
  imports Enum_Insert "HOL-Library.Multiset"
begin

text \<open>
  What the enumeration splice promises its callers: a call of \<open>InsertOverlayEntries\<close> emits the next
  names of the snapshot as a chain, and a caller that repeats \<open>NtQueryDirectoryFile\<close> or
  \<open>FindNextFileW\<close> until nothing comes back is given every entry once. The locale
  \<open>cursor_listing\<close> has the argument that both interfaces share.
\<close>

section \<open>One call\<close>

definition splice_start :: "parsed_manifest \<Rightarrow> 'w enum_api \<Rightarrow> bool \<Rightarrow> wstr \<Rightarrow> 'w \<Rightarrow> HandleOverlay \<Rightarrow>
    HandleOverlay" where
  "splice_start g ea RestartScan enumDir w ov =
     EnsureOverlayEnumSnapshot g ea enumDir w
       (if RestartScan then ov\<lparr>OverlayEnumStarted := False, OverlayEnumCursor := 0, OverlayEnumSnapshot := []\<rparr>
        else ov)"

lemma EnsureOverlayEnumSnapshot_keeps [simp]:
  "OverlayEnumFilter (EnsureOverlayEnumSnapshot g ea enumDir w ov) = OverlayEnumFilter ov"
  "OverlayEnumCursor (EnsureOverlayEnumSnapshot g ea enumDir w ov) = OverlayEnumCursor ov"
  "OverlayEnumStarted (EnsureOverlayEnumSnapshot g ea enumDir w ov)"
  by (simp_all add: EnsureOverlayEnumSnapshot_def Let_def)

lemma EnsureOverlayEnumSnapshot_started:
  "OverlayEnumStarted ov \<Longrightarrow> EnsureOverlayEnumSnapshot g ea enumDir w ov = ov"
  by (simp add: EnsureOverlayEnumSnapshot_def)

text \<open>The names still to come.\<close>

definition pending_names :: "'w enum_api \<Rightarrow> HandleOverlay \<Rightarrow> wstr list" where
  "pending_names ea ov =
     filter (\<lambda>nm. OverlayNameMatchesFilter ea nm (OverlayEnumFilter ov))
       (drop (OverlayEnumCursor ov) (OverlayEnumSnapshot ov))"

lemma InsertOverlayEntries_step:
  assumes layout: "TryGetDirInfoLayout infoClass = Some (nameLenOff, nameOff)"
    and dir: "enumDir = [] \<or> OverlayIsDirectory (fa_attributes (ea_files ea) w) (ext_prefix @ enumDir)"
    and result: "result = kStatusNoMoreFiles \<or> result = kStatusNoSuchFile"
    and room: "unat Length \<le> length buf" "unat Length < 2 ^ 32 - 7"
    and start: "ov1 = splice_start g ea RestartScan enumDir w ov"
    and short: "\<forall>nm \<in> set (OverlayEnumSnapshot ov1). nameOff + 2 * length nm < 2 ^ 32"
    and call: "InsertOverlayEntries g ea Length infoClass single RestartScan enumDir w (buf, iosb, Some ov, result) =
      (buf', iosb', ov', result')"
  obtains taken rest R where
    "drop (OverlayEnumCursor ov1) (OverlayEnumSnapshot ov1) = taken @ rest"
    "map snd R = filter (\<lambda>nm. OverlayNameMatchesFilter ea nm (OverlayEnumFilter ov1)) taken"
    "ov' = Some (ov1\<lparr>OverlayEnumCursor := OverlayEnumCursor ov1 + length taken\<rparr>)"
    "unat Length \<le> length buf'"
    "R = [] \<Longrightarrow> buf' = buf \<and> iosb' = iosb \<and> result' = result"
    "R \<noteq> [] \<Longrightarrow> dir_chain nameLenOff nameOff (unat Length) buf' R \<and> result' = kStatusSuccess \<and>
       iosb' = map_option (\<lambda>_. (kStatusSuccess, of_nat (rec_end nameOff (last R)))) iosb"
    "single \<Longrightarrow> length R \<le> 1"
    "rest \<noteq> [] \<Longrightarrow> single \<and> R \<noteq> [] \<or>
       OverlayNameMatchesFilter ea (hd rest) (OverlayEnumFilter ov1) \<and>
       (R = [] \<longrightarrow> unat Length < nameOff + 2 * length (hd rest))"
proof -
  let ?matching = "\<lambda>nm. OverlayNameMatchesFilter ea nm (OverlayEnumFilter ov1)"
  let ?names = "drop (OverlayEnumCursor ov1) (OverlayEnumSnapshot ov1)"
  let ?start = "\<lparr>is_buf = buf, is_cursor = OverlayEnumCursor ov1, is_prev = None, is_writeOff = AlignUp8 0,
      is_lastWrittenEnd = 0\<rparr>"
  let ?meta = "\<lambda>nm. FillOverlayDirRecordMetadata ea infoClass (OverlayBackingPath g (JoinDirAndName enumDir nm)) w"
  define st where "st = InsertOverlayEntries_loop ?matching ?meta single nameLenOff nameOff Length ?names ?start"
  have zero: "AlignUp8 0 = 0" by code_simp
  have i: "inserted nameLenOff nameOff (unat Length) [] ?start"
    using room by (simp add: inserted_def apart_def linked_def zero)
  have b: "8 \<le> nameLenOff" "nameLenOff + 4 \<le> nameOff" using TryGetDirInfoLayout_bounds [OF layout] by simp_all
  have s: "\<forall>nm \<in> set ?names. nameOff + 2 * length nm < 2 ^ 32" using short by (blast dest: in_set_dropD)
  from InsertOverlayEntries_loop_inserted [OF i FillOverlayDirRecordMetadata_frame [OF layout] b refl room(2) s st_def]
  obtain taken rest R where L: "?names = taken @ rest" "map snd R = filter ?matching taken"
    "inserted nameLenOff nameOff (unat Length) R st" "is_cursor st = OverlayEnumCursor ov1 + length taken"
    "R = [] \<longrightarrow> is_buf st = buf \<and> is_prev st = None \<and> is_writeOff st = 0"
    "single \<longrightarrow> length R \<le> 1"
    "rest \<noteq> [] \<longrightarrow> single \<and> R \<noteq> [] \<or>
       ?matching (hd rest) \<and> unat Length < unat (is_writeOff st) + nameOff + 2 * length (hd rest)"
    using zero by auto
  have fails: "\<not> NT_SUCCESS result"
    using result by (auto simp: NT_SUCCESS_def kStatusNoMoreFiles_def kStatusNoSuchFile_def)
  have none: "is_prev st = None \<longleftrightarrow> R = []" using L(3,5) by (cases "R = []") (simp_all add: inserted_def)
  have c: "(buf', iosb', ov', result') =
      (if ?names = [] then (buf, iosb, Some ov1, result)
       else if R = [] then (is_buf st, iosb, Some (ov1\<lparr>OverlayEnumCursor := is_cursor st\<rparr>), result)
       else (is_buf st, map_option (\<lambda>_. (kStatusSuccess, is_lastWrittenEnd st)) iosb,
              Some (ov1\<lparr>OverlayEnumCursor := is_cursor st\<rparr>), kStatusSuccess))"
  proof -
    have ov1: "EnsureOverlayEnumSnapshot g ea enumDir w
        (if RestartScan then ov\<lparr>OverlayEnumStarted := False, OverlayEnumCursor := 0, OverlayEnumSnapshot := []\<rparr>
         else ov) = ov1"
      using start by (simp add: splice_start_def)
    have guards: "(enumDir \<noteq> [] \<and> \<not> OverlayIsDirectory (fa_attributes (ea_files ea) w) (ext_prefix @ enumDir)) = False"
      "NT_SUCCESS result = False" "(result \<noteq> kStatusNoMoreFiles \<and> result \<noteq> kStatusNoSuchFile) = False"
      using dir fails result by auto
    show ?thesis
      unfolding call [symmetric] none [symmetric]
      by (simp only: InsertOverlayEntries_def Let_def prod.case option.case layout ov1 guards if_False
          st_def [symmetric] drop_eq_Nil)
  qed
  have len: "unat Length \<le> length (is_buf st)" using L(3) by (simp add: inserted_def)
  show thesis
  proof (cases "R = []")
    case True
    have "ov1\<lparr>OverlayEnumCursor := OverlayEnumCursor ov1\<rparr> = ov1" by simp
    with True c L len room show thesis
      by (intro that [of taken rest R]) (auto split: if_splits)
  next
    case False
    then have "?names \<noteq> []" using L(1,2) by auto
    with False c L(1,2,4,6,7) len inserted_dir_chain [OF L(3)] show thesis
      by (intro that [of taken rest R]) auto
  qed
qed


section \<open>Repeated calls\<close>

text \<open>A caller that asks until it is given nothing, at most \<open>n\<close> times.\<close>

fun drain :: "('s \<Rightarrow> 'n list \<times> 's) \<Rightarrow> nat \<Rightarrow> 's \<Rightarrow> 'n list" where
  "drain ask 0 s = []"
| "drain ask (Suc n) s = (case ask s of (out, s') \<Rightarrow> if out = [] then [] else out @ drain ask n s')"

text \<open>
  What a caller relies on: each call hands over the first of the pending entries and keeps the rest,
  and hands over nothing only when none is pending.
\<close>

locale cursor_listing =
  fixes ok :: "'s \<Rightarrow> bool" and pending :: "'s \<Rightarrow> 'n list" and ask :: "'s \<Rightarrow> 'n list \<times> 's"
  assumes ask_ok: "ok s \<Longrightarrow> ok (snd (ask s))"
    and ask_split: "ok s \<Longrightarrow> pending s = fst (ask s) @ pending (snd (ask s))"
    and ask_progress: "ok s \<Longrightarrow> fst (ask s) = [] \<Longrightarrow> pending s = []"
begin

lemma drain_prefix: "ok s \<Longrightarrow> \<exists>rest. pending s = drain ask n s @ rest"
proof (induction n arbitrary: s)
  case (Suc n)
  then obtain rest where "pending (snd (ask s)) = drain ask n (snd (ask s)) @ rest" using ask_ok by blast
  with ask_split [OF Suc.prems] show ?case by (auto split: prod.split)
qed simp

lemma drain_complete: "ok s \<Longrightarrow> length (pending s) \<le> n \<Longrightarrow> drain ask n s = pending s"
proof (induction n arbitrary: s)
  case (Suc n)
  show ?case
  proof (cases "fst (ask s) = []")
    case True
    with ask_progress [OF Suc.prems(1)] show ?thesis by (cases "ask s") simp
  next
    case False
    then have "length (pending (snd (ask s))) \<le> n"
      using ask_split [OF Suc.prems(1)] Suc.prems(2) by (cases "fst (ask s)") auto
    with Suc.IH [OF ask_ok [OF Suc.prems(1)]] have "drain ask n (snd (ask s)) = pending (snd (ask s))" .
    with False ask_split [OF Suc.prems(1)] show ?thesis by (cases "ask s") simp
  qed
qed simp

lemma drain_none_left: "ok s \<Longrightarrow> length (pending s) \<le> n \<Longrightarrow> n \<le> m \<Longrightarrow> drain ask m s = drain ask n s"
  by (simp add: drain_complete)

end


text \<open>The names in a chain, as a caller walks it.\<close>

fun walk_chain :: "nat \<Rightarrow> nat \<Rightarrow> nat \<Rightarrow> bytes \<Rightarrow> nat \<Rightarrow> wstr list" where
  "walk_chain 0 nameLenOff nameOff buf r = []"
| "walk_chain (Suc fuel) nameLenOff nameOff buf r =
     (case (rd_u32 buf r, rd_u32 buf (r + nameLenOff)) of
        (Some off, Some len) \<Rightarrow>
          (case rd_wchars buf (r + nameOff) (unat len div 2) of
             Some nm \<Rightarrow> nm # (if off = 0 then [] else walk_chain fuel nameLenOff nameOff buf (r + unat off))
           | None \<Rightarrow> [])
      | _ \<Rightarrow> [])"

lemma walk_chain_linked:
  assumes "apart nameOff recs" "linked buf recs" "recs \<noteq> []" "length recs \<le> fuel"
    and "\<And>r. r \<in> set recs \<Longrightarrow> rec_ok nameLenOff nameOff bl buf r"
    and "4 \<le> nameOff"
  shows "walk_chain fuel nameLenOff nameOff buf (fst (hd recs)) = map snd recs"
  using assms(1-5)
proof (induction recs arbitrary: fuel)
  case (Cons x recs)
  then obtain fuel' where f: "fuel = Suc fuel'" by (cases fuel) auto
  have ok: "rec_ok nameLenOff nameOff bl buf x" using Cons.prems(5) by simp
  then have short: "2 * length (snd x) < 2 ^ 32" by (simp add: rec_ok_def rec_end_def)
  have "unat (of_nat (2 * length (snd x)) :: u32) = 2 * length (snd x)"
    using short by (simp only: unat_of_nat) simp
  then have name: "rd_u32 buf (fst x + nameLenOff) = Some (of_nat (2 * length (snd x)))"
    "rd_wchars buf (fst x + nameOff) (unat (of_nat (2 * length (snd x)) :: u32) div 2) = Some (snd x)"
    using ok rd_u32_bytes_at rd_wchars_bytes_at [of buf "fst x + nameOff" "snd x"]
    unfolding rec_ok_def by (blast, simp)
  show ?case
  proof (cases recs)
    case Nil
    then have "rd_u32 buf (fst x) = Some 0" using Cons.prems(2) by (simp add: linked_def rd_u32_bytes_at)
    with name Nil f show ?thesis by simp
  next
    case (Cons y ys)
    have gap: "fst x + 4 \<le> fst y" using Cons.prems(1) Cons assms(6)
      by (simp add: apart_Cons rec_end_def)
    have "rec_ok nameLenOff nameOff bl buf y" using Cons.prems(5) Cons by simp
    then have y32: "fst y < 2 ^ 32" by (simp add: rec_ok_def rec_end_def)
    have link: "rd_u32 buf (fst x) = Some (of_nat (fst y - fst x))"
      using Cons.prems(2) Cons by (simp add: linked_def rd_u32_bytes_at)
    have off: "unat (of_nat (fst y - fst x) :: u32) = fst y - fst x"
      using y32 by (simp only: unat_of_nat) simp
    have nz: "(of_nat (fst y - fst x) :: u32) \<noteq> 0"
    proof
      assume zero: "(of_nat (fst y - fst x) :: u32) = 0"
      from off [unfolded zero] gap show False by simp
    qed
    have "walk_chain fuel' nameLenOff nameOff buf (fst (hd recs)) = map snd recs"
      using Cons.prems f Cons linked_Cons [of buf x recs] by (intro Cons.IH) (auto simp: apart_Cons)
    then show ?thesis using name link off nz gap Cons f by simp
  qed
qed simp

lemma apart_length:
  "apart nameOff recs \<Longrightarrow> 1 \<le> nameOff \<Longrightarrow> \<forall>r \<in> set recs. rec_end nameOff r \<le> bl \<Longrightarrow> length recs \<le> bl"
proof (induction recs arbitrary: bl rule: rev_induct)
  case (snoc x xs)
  then have "length xs \<le> fst x" by (intro snoc.IH) (simp_all add: apart_append)
  moreover have "fst x + 1 \<le> bl" using snoc.prems by (auto simp: rec_end_def)
  ultimately show ?case by simp
qed simp

lemma walk_chain_dir_chain:
  assumes "dir_chain nameLenOff nameOff bl buf recs" "4 \<le> nameOff" "bl \<le> fuel"
  shows "walk_chain fuel nameLenOff nameOff buf 0 = map snd recs"
proof -
  have "length recs \<le> bl"
    using assms(1,2) by (intro apart_length [of nameOff]) (auto simp: dir_chain_def rec_ok_def)
  with assms walk_chain_linked [of nameOff recs buf fuel nameLenOff bl] show ?thesis
    unfolding dir_chain_def by simp
qed


section \<open>The two interfaces\<close>

text \<open>
  A further \<open>NtQueryDirectoryFile\<close> of a handle whose real entries are exhausted, and what the caller
  reads in its buffer; a further \<open>FindNextFileW\<close>, and the name in the entry.
\<close>

definition nt_ask :: "parsed_manifest \<Rightarrow> 'w enum_api \<Rightarrow> u32 \<Rightarrow> u32 \<Rightarrow> bool \<Rightarrow> wstr \<Rightarrow> 'w \<Rightarrow>
    bytes \<times> HandleOverlay \<Rightarrow> wstr list \<times> (bytes \<times> HandleOverlay)" where
  "nt_ask g ea Length infoClass single enumDir w s =
     (case InsertOverlayEntries g ea Length infoClass single False enumDir w
             (fst s, None, Some (snd s), kStatusNoMoreFiles) of
        (buf, iosb, ov, result) \<Rightarrow>
          (case TryGetDirInfoLayout infoClass of
             Some (nameLenOff, nameOff) \<Rightarrow>
               if NT_SUCCESS result then walk_chain (unat Length) nameLenOff nameOff buf 0 else []
           | None \<Rightarrow> [], (buf, the ov)))"

definition find_ask :: "parsed_manifest \<Rightarrow> 'w enum_api \<Rightarrow> wstr \<Rightarrow> 'w \<Rightarrow> HandleOverlay \<Rightarrow> wstr list \<times> HandleOverlay" where
  "find_ask g ea enumDir w ov =
     (case NextOverlayFindDataW g ea enumDir w ov of
        (None, ov) \<Rightarrow> ([], ov)
      | (Some data, ov) \<Rightarrow> ([fd_cFileName data], ov))"

text \<open>A directory that exists, and a buffer in which each of the names fits.\<close>

definition nt_ok :: "parsed_manifest \<Rightarrow> 'w enum_api \<Rightarrow> u32 \<Rightarrow> u32 \<Rightarrow> wstr \<Rightarrow> 'w \<Rightarrow> bytes \<times> HandleOverlay \<Rightarrow> bool" where
  "nt_ok g ea Length infoClass enumDir w s \<longleftrightarrow>
     (enumDir = [] \<or> OverlayIsDirectory (fa_attributes (ea_files ea) w) (ext_prefix @ enumDir)) \<and>
     unat Length \<le> length (fst s) \<and> unat Length < 2 ^ 32 - 7 \<and>
     (case TryGetDirInfoLayout infoClass of
        Some (nameLenOff, nameOff) \<Rightarrow>
          \<forall>nm \<in> set (OverlayEnumSnapshot (EnsureOverlayEnumSnapshot g ea enumDir w (snd s))).
             nameOff + 2 * length nm \<le> unat Length
      | None \<Rightarrow> False)"

definition pending_scan :: "parsed_manifest \<Rightarrow> 'w enum_api \<Rightarrow> wstr \<Rightarrow> 'w \<Rightarrow> HandleOverlay \<Rightarrow> wstr list" where
  "pending_scan g ea enumDir w ov = pending_names ea (EnsureOverlayEnumSnapshot g ea enumDir w ov)"

lemma nt_ask_step:
  assumes ok: "nt_ok g ea Length infoClass enumDir w (buf, ov)"
    and ask: "nt_ask g ea Length infoClass single enumDir w (buf, ov) = (out, buf', ov')"
  shows "nt_ok g ea Length infoClass enumDir w (buf', ov')"
    and "pending_scan g ea enumDir w ov = out @ pending_scan g ea enumDir w ov'"
    and "out = [] \<Longrightarrow> pending_scan g ea enumDir w ov = []"
proof -
  obtain nameLenOff nameOff where layout: "TryGetDirInfoLayout infoClass = Some (nameLenOff, nameOff)"
    using ok by (auto simp: nt_ok_def split: option.splits)
  let ?ov1 = "EnsureOverlayEnumSnapshot g ea enumDir w ov"
  let ?m = "\<lambda>nm. OverlayNameMatchesFilter ea nm (OverlayEnumFilter ?ov1)"
  note O = ok [unfolded nt_ok_def layout, simplified]
  obtain b iosb ov3 result where call: "InsertOverlayEntries g ea Length infoClass single False enumDir w
      (buf, None, Some ov, kStatusNoMoreFiles) = (b, iosb, ov3, result)" by (metis prod_cases4)
  have short: "\<forall>nm \<in> set (OverlayEnumSnapshot ?ov1). nameOff + 2 * length nm < 2 ^ 32" using O by fastforce
  have start: "?ov1 = splice_start g ea False enumDir w ov" by (simp add: splice_start_def)
  have d: "enumDir = [] \<or> OverlayIsDirectory (fa_attributes (ea_files ea) w) (ext_prefix @ enumDir)"
    "unat Length \<le> length buf" "unat Length < 2 ^ 32 - 7"
    using ok by (simp_all add: nt_ok_def)
  obtain taken rest R where step: "drop (OverlayEnumCursor ?ov1) (OverlayEnumSnapshot ?ov1) = taken @ rest"
    "map snd R = filter ?m taken"
    "ov3 = Some (?ov1\<lparr>OverlayEnumCursor := OverlayEnumCursor ?ov1 + length taken\<rparr>)" "unat Length \<le> length b"
    "R = [] \<Longrightarrow> b = buf \<and> iosb = None \<and> result = kStatusNoMoreFiles"
    "R \<noteq> [] \<Longrightarrow> dir_chain nameLenOff nameOff (unat Length) b R \<and> result = kStatusSuccess"
    "rest \<noteq> [] \<Longrightarrow> R = [] \<Longrightarrow> unat Length < nameOff + 2 * length (hd rest)"
    by (rule InsertOverlayEntries_step [OF layout d(1) disjI1 [OF refl] d(2,3) start short call]) blast
  have nameOff: "4 \<le> nameOff" using TryGetDirInfoLayout_bounds [OF layout] by simp
  have ov': "ov' = ?ov1\<lparr>OverlayEnumCursor := OverlayEnumCursor ?ov1 + length taken\<rparr>" and b: "buf' = b"
    using ask call layout step(3) by (auto simp: nt_ask_def)
  have out: "out = map snd R"
    using ask call layout step(5,6) walk_chain_dir_chain [OF _ nameOff order_refl]
    by (cases "R = []") (auto simp: nt_ask_def NT_SUCCESS_def kStatusSuccess_def kStatusNoMoreFiles_def split: if_splits)
  have started: "EnsureOverlayEnumSnapshot g ea enumDir w ov' = ov'"
    by (rule EnsureOverlayEnumSnapshot_started) (simp add: ov')
  show "nt_ok g ea Length infoClass enumDir w (buf', ov')"
    using O step(4) by (simp add: nt_ok_def layout b started) (simp add: ov')
  have "drop (OverlayEnumCursor ?ov1 + length taken) (OverlayEnumSnapshot ?ov1) = rest"
    using step(1) by (simp add: add.commute [of _ "length taken"] flip: drop_drop)
  then have "pending_scan g ea enumDir w ov' = filter ?m rest"
    by (simp add: pending_scan_def started pending_names_def) (simp add: ov')
  then show split: "pending_scan g ea enumDir w ov = out @ pending_scan g ea enumDir w ov'"
    using step(1,2) out by (simp add: pending_scan_def pending_names_def)
  assume "out = []"
  then have "R = []" using out by simp
  have "rest = []"
  proof (rule ccontr)
    assume "rest \<noteq> []"
    then have "hd rest \<in> set (drop (OverlayEnumCursor ?ov1) (OverlayEnumSnapshot ?ov1))" using step(1) by simp
    then have "hd rest \<in> set (OverlayEnumSnapshot ?ov1)" by (rule in_set_dropD)
    with O step(7) \<open>rest \<noteq> []\<close> \<open>R = []\<close> show False by fastforce
  qed
  with split \<open>pending_scan g ea enumDir w ov' = filter ?m rest\<close> \<open>out = []\<close>
  show "pending_scan g ea enumDir w ov = []" by simp
qed

interpretation nt_listing: cursor_listing "nt_ok g ea Length infoClass enumDir w"
    "\<lambda>s. pending_scan g ea enumDir w (snd s)" "nt_ask g ea Length infoClass single enumDir w"
  for g ea Length infoClass single enumDir w
proof
  fix s
  assume ok: "nt_ok g ea Length infoClass enumDir w s"
  obtain out buf' ov' where a: "nt_ask g ea Length infoClass single enumDir w (fst s, snd s) = (out, buf', ov')"
    by (metis prod_cases3)
  note step = nt_ask_step [of g ea Length infoClass enumDir w "fst s" "snd s", OF _ a]
  show "nt_ok g ea Length infoClass enumDir w (snd (nt_ask g ea Length infoClass single enumDir w s))"
    using step(1) ok a by simp
  show "pending_scan g ea enumDir w (snd s) = fst (nt_ask g ea Length infoClass single enumDir w s) @
      pending_scan g ea enumDir w (snd (snd (nt_ask g ea Length infoClass single enumDir w s)))"
    using step(2) ok a by simp
  show "fst (nt_ask g ea Length infoClass single enumDir w s) = [] \<Longrightarrow> pending_scan g ea enumDir w (snd s) = []"
    using step(3) ok a by simp
qed

lemma find_ask_step:
  assumes ask: "find_ask g ea enumDir w ov = (out, ov')"
  shows "map (take (MAX_PATH - 1)) (pending_scan g ea enumDir w ov) =
      out @ map (take (MAX_PATH - 1)) (pending_scan g ea enumDir w ov')"
    and "out = [] \<Longrightarrow> pending_scan g ea enumDir w ov = []"
proof -
  let ?ov1 = "EnsureOverlayEnumSnapshot g ea enumDir w ov"
  let ?m = "\<lambda>nm. OverlayNameMatchesFilter ea nm (OverlayEnumFilter ?ov1)"
  let ?names = "drop (OverlayEnumCursor ?ov1) (OverlayEnumSnapshot ?ov1)"
  let ?skip = "takeWhile (\<lambda>nm. \<not> ?m nm) ?names" and ?rest = "dropWhile (\<lambda>nm. \<not> ?m nm) ?names"
  let ?cursor = "OverlayEnumCursor ?ov1 + length ?skip"
  have pending: "pending_scan g ea enumDir w ov = filter ?m ?rest"
  proof -
    have "filter ?m ?skip = []" by (auto simp: filter_empty_conv dest: set_takeWhileD)
    moreover have "filter ?m ?names = filter ?m ?skip @ filter ?m ?rest" by (simp flip: filter_append)
    ultimately show ?thesis by (simp add: pending_scan_def pending_names_def)
  qed
  have rest: "drop ?cursor (OverlayEnumSnapshot ?ov1) = ?rest"
  proof -
    have "?rest = drop (length ?skip) ?names" by (rule dropWhile_eq_drop)
    also have "\<dots> = drop (length ?skip + OverlayEnumCursor ?ov1) (OverlayEnumSnapshot ?ov1)" by (rule drop_drop)
    also have "length ?skip + OverlayEnumCursor ?ov1 = ?cursor" by (rule add.commute)
    finally show ?thesis by (rule sym)
  qed
  have cursor_end: "length (OverlayEnumSnapshot ?ov1) \<le> ?cursor \<longleftrightarrow> ?rest = []"
    unfolding rest [symmetric] by (rule drop_eq_Nil [symmetric])
  have scan: "pending_scan g ea enumDir w (?ov1\<lparr>OverlayEnumCursor := c\<rparr>) =
      filter ?m (drop c (OverlayEnumSnapshot ?ov1))" for c
    by (simp add: pending_scan_def pending_names_def EnsureOverlayEnumSnapshot_started)
  have "map (take (MAX_PATH - 1)) (pending_scan g ea enumDir w ov) =
      out @ map (take (MAX_PATH - 1)) (pending_scan g ea enumDir w ov') \<and>
    (out = [] \<longrightarrow> pending_scan g ea enumDir w ov = [])"
  proof (cases ?rest)
    case Nil
    then have "NextOverlayFindDataW g ea enumDir w ov = (None, ?ov1\<lparr>OverlayEnumCursor := ?cursor\<rparr>)"
      using cursor_end by (simp add: NextOverlayFindDataW_def Let_def)
    then have o: "out = []" "ov' = ?ov1\<lparr>OverlayEnumCursor := ?cursor\<rparr>" using ask by (simp_all add: find_ask_def)
    have "pending_scan g ea enumDir w ov = []" unfolding pending Nil by simp
    moreover have "pending_scan g ea enumDir w ov' = []" unfolding o(2) scan rest Nil by simp
    ultimately show ?thesis using o(1) by simp
  next
    case (Cons nm names)
    then have nm: "OverlayEnumSnapshot ?ov1 ! ?cursor = nm" "?m nm"
      using rest by (metis nth_via_drop, metis dropWhile_eq_Cons_conv)
    have names: "drop (Suc ?cursor) (OverlayEnumSnapshot ?ov1) = names"
      using rest Cons by (metis drop_Suc tl_drop list.sel(3))
    have "\<not> length (OverlayEnumSnapshot ?ov1) \<le> ?cursor" unfolding cursor_end Cons by simp
    then have "out = [take (MAX_PATH - 1) nm]" "ov' = ?ov1\<lparr>OverlayEnumCursor := Suc ?cursor\<rparr>"
      using ask nm(1) unfolding find_ask_def NextOverlayFindDataW_def Let_def
      by (auto split: option.splits)
    moreover have "pending_scan g ea enumDir w ov = nm # filter ?m names" unfolding pending Cons using nm(2) by simp
    moreover have "pending_scan g ea enumDir w (?ov1\<lparr>OverlayEnumCursor := Suc ?cursor\<rparr>) = filter ?m names"
      unfolding scan names ..
    ultimately show ?thesis by simp
  qed
  then show "map (take (MAX_PATH - 1)) (pending_scan g ea enumDir w ov) =
      out @ map (take (MAX_PATH - 1)) (pending_scan g ea enumDir w ov')"
    and "out = [] \<Longrightarrow> pending_scan g ea enumDir w ov = []" by auto
qed

interpretation find_listing: cursor_listing "\<lambda>ov. True"
    "\<lambda>ov. map (take (MAX_PATH - 1)) (pending_scan g ea enumDir w ov)" "find_ask g ea enumDir w"
  for g ea enumDir w
proof
  fix ov
  note step = find_ask_step [of g ea enumDir w ov, OF surjective_pairing]
  show "map (take (MAX_PATH - 1)) (pending_scan g ea enumDir w ov) =
      fst (find_ask g ea enumDir w ov) @
      map (take (MAX_PATH - 1)) (pending_scan g ea enumDir w (snd (find_ask g ea enumDir w ov)))"
    by (rule step(1))
  show "fst (find_ask g ea enumDir w ov) = [] \<Longrightarrow>
      map (take (MAX_PATH - 1)) (pending_scan g ea enumDir w ov) = []"
    using step(2) by simp
qed simp

text \<open>A fresh scan of a real directory: its overlay-only children.\<close>

definition overlay_only :: "parsed_manifest \<Rightarrow> 'w enum_api \<Rightarrow> wstr \<Rightarrow> 'w \<Rightarrow> wstr list" where
  "overlay_only g ea enumDir w =
     filter (\<lambda>nm. \<not> OverlayPathExists (fa_attributes (ea_files ea) w)
                     (pop_back_while IsDirectorySeparator enumDir @ [BACKSLASH] @ nm))
       (ListBackingChildren g (ea_files ea) enumDir w)"

definition fresh_scan :: "'w enum_api \<Rightarrow> wstr \<Rightarrow> 'w \<Rightarrow> HandleOverlay \<Rightarrow> bool" where
  "fresh_scan ea enumDir w ov \<longleftrightarrow>
     \<not> OverlayEnumStarted ov \<and> OverlayEnumCursor ov = 0 \<and> enumDir \<noteq> [] \<and>
     OverlayIsDirectory (fa_attributes (ea_files ea) w) (ext_prefix @ enumDir) \<and>
     GetOverlayTestSyntheticNames (ea_testNames ea) = []"

lemma pending_scan_fresh:
  assumes "fresh_scan ea enumDir w ov"
  shows "mset (pending_scan g ea enumDir w ov) =
    mset (filter (\<lambda>nm. OverlayNameMatchesFilter ea nm (OverlayEnumFilter ov)) (overlay_only g ea enumDir w))"
  using assms
  by (simp add: fresh_scan_def pending_scan_def pending_names_def EnsureOverlayEnumSnapshot_def Let_def
      overlay_only_def mset_filter filter_filter_mset conj_commute)


section \<open>Properties\<close>

text \<open>
  After the real entries have come to an end, a call of \<open>InsertOverlayEntries\<close> gives the caller a
  well-formed chain with exactly the next names of the snapshot that match the filter, at least one
  of them unless none is left or the first does not fit in the whole buffer, and moves the cursor past
  them; when it writes none, the buffer, the status block and the result are the operating system's.
\<close>
theorem insert_emits_next:
  assumes "TryGetDirInfoLayout infoClass = Some (nameLenOff, nameOff)"
    and "enumDir = [] \<or> OverlayIsDirectory (fa_attributes (ea_files ea) w) (ext_prefix @ enumDir)"
    and "result = kStatusNoMoreFiles \<or> result = kStatusNoSuchFile"
    and "unat Length \<le> length buf" "unat Length < 2 ^ 32 - 7"
    and "ov1 = splice_start g ea RestartScan enumDir w ov"
    and "\<forall>nm \<in> set (OverlayEnumSnapshot ov1). nameOff + 2 * length nm < 2 ^ 32"
  shows "case InsertOverlayEntries g ea Length infoClass single RestartScan enumDir w (buf, iosb, Some ov, result) of
    (buf', iosb', ov', result') \<Rightarrow> \<exists>taken rest R.
      drop (OverlayEnumCursor ov1) (OverlayEnumSnapshot ov1) = taken @ rest \<and>
      map snd R = filter (\<lambda>nm. OverlayNameMatchesFilter ea nm (OverlayEnumFilter ov1)) taken \<and>
      ov' = Some (ov1\<lparr>OverlayEnumCursor := OverlayEnumCursor ov1 + length taken\<rparr>) \<and>
      (if R = [] then buf' = buf \<and> iosb' = iosb \<and> result' = result
       else dir_chain nameLenOff nameOff (unat Length) buf' R \<and> result' = kStatusSuccess \<and>
         iosb' = map_option (\<lambda>_. (kStatusSuccess, of_nat (rec_end nameOff (last R)))) iosb) \<and>
      (single \<longrightarrow> length R \<le> 1) \<and>
      (rest = [] \<or> R \<noteq> [] \<or> unat Length < nameOff + 2 * length (hd rest))"
proof -
  obtain buf' iosb' ov' result' where call: "InsertOverlayEntries g ea Length infoClass single RestartScan enumDir w
      (buf, iosb, Some ov, result) = (buf', iosb', ov', result')" by (metis prod_cases4)
  show ?thesis
    unfolding call prod.case
    by (rule InsertOverlayEntries_step [OF assms call], rule exI, rule exI, rule exI) auto
qed

text \<open>
  A caller of \<open>NtQueryDirectoryFile\<close> is given every child that only the backing store has exactly
  once, whatever the size of the buffer in which it can hold one record and whether it asks for
  single entries, and nothing after that.
\<close>
theorem nt_scan_lists_overlay:
  assumes "nt_ok g ea Length infoClass enumDir w (buf, ov)" "fresh_scan ea enumDir w ov"
    and "length (overlay_only g ea enumDir w) \<le> n"
  shows "mset (drain (nt_ask g ea Length infoClass single enumDir w) n (buf, ov)) =
    mset (filter (\<lambda>nm. OverlayNameMatchesFilter ea nm (OverlayEnumFilter ov)) (overlay_only g ea enumDir w))"
proof -
  have "length (pending_scan g ea enumDir w ov) \<le> length (overlay_only g ea enumDir w)"
    using arg_cong [OF pending_scan_fresh [OF assms(2), of g], of size] by (simp flip: mset_filter)
  then have "drain (nt_ask g ea Length infoClass single enumDir w) n (buf, ov) = pending_scan g ea enumDir w ov"
    using nt_listing.drain_complete [OF assms(1), of n single] assms(3) by simp
  then show ?thesis by (simp only: pending_scan_fresh [OF assms(2)])
qed

text \<open>
  The two interfaces agree. \<open>FindNextFileW\<close> gives the entries that
  \<open>NtQueryDirectoryFile\<close> gives, in the same order, each cut to the 259 characters of
  \<open>cFileName\<close>.
\<close>
theorem find_and_nt_agree:
  assumes "nt_ok g ea Length infoClass enumDir w (buf, ov)"
    and "length (pending_scan g ea enumDir w ov) \<le> n"
  shows "drain (find_ask g ea enumDir w) n ov =
    map (take (MAX_PATH - 1)) (drain (nt_ask g ea Length infoClass single enumDir w) n (buf, ov))"
  using find_listing.drain_complete [OF TrueI, of g ea enumDir w ov n]
    nt_listing.drain_complete [OF assms(1), of n single] assms(2)
  by simp


section \<open>An example\<close>

text \<open>
  Files are a list of paths; directories are those that end in a backslash. The backing store of
  \<open>C:\ws\\<close> has two files more than the real directory.
\<close>

definition example_api :: "unit enum_api" where
  "example_api =
     (let dir = wide ''C:'' @ BACKSLASH # wide ''ws'' @ [BACKSLASH];
          backing = ext_prefix @ wide ''D:'' @ BACKSLASH # wide ''o'' @ [BACKSLASH]
      in \<lparr>ea_files = \<lparr>fa_attributes = (\<lambda>w p. if p = ext_prefix @ dir \<or> p = backing then Inr 0x10
                                       else if p = dir @ wide ''a'' then Inr 0x20 else Inl 2),
                      fa_createDirectory = (\<lambda>p w. w), fa_copyFile = (\<lambda>src dst failIfExists w. w),
                      fa_findFiles = (\<lambda>w p. if p = backing @ [STAR]
                                            then Some (map wide [''.'', ''..'', ''a'', ''c'', ''B'']) else None)\<rparr>,
          ea_attributesEx = (\<lambda>w p. None), ea_isNameInExpression = None, ea_upcase = None,
          ea_testNames = (0, [])\<rparr>)"

definition example_dir :: wstr where "example_dir = wide ''C:'' @ BACKSLASH # wide ''ws'' @ [BACKSLASH]"

definition example_overlay :: HandleOverlay where
  "example_overlay = new_HandleOverlay (access_check Access_None Allow Ignore Valid) (example_result example_dir) HT_Directory"

lemma example_snapshot:
  "OverlayEnumSnapshot (EnsureOverlayEnumSnapshot example_globals example_api example_dir () example_overlay) =
     map wide [''B'', ''c'']"
  by code_simp

lemma example_scan:
  "fresh_scan example_api example_dir () example_overlay"
  "overlay_only example_globals example_api example_dir () = map wide [''c'', ''B'']"
  by code_simp+

lemma example_scan_ok: "nt_ok example_globals example_api 40 12 example_dir () (replicate 40 7, example_overlay)"
proof -
  have "OverlayIsDirectory (fa_attributes (ea_files example_api) ()) (ext_prefix @ example_dir)" by code_simp
  then show ?thesis
    by (simp add: nt_ok_def example_snapshot TryGetDirInfoLayout_def)
qed

theorem insert_emits_next_witness:
  "case InsertOverlayEntries example_globals example_api 40 12 False False example_dir ()
      (replicate 40 7, None, Some example_overlay, kStatusNoMoreFiles) of
    (buf', iosb', ov', result') \<Rightarrow> \<exists>taken rest R. map wide [''B'', ''c''] = taken @ rest \<and> map snd R = taken \<and>
      (R = [] \<or> dir_chain 8 12 40 buf' R \<and> result' = kStatusSuccess) \<and> (rest = [] \<or> R \<noteq> [])"
proof -
  let ?ov1 = "splice_start example_globals example_api False example_dir () example_overlay"
  have snapshot: "OverlayEnumSnapshot ?ov1 = map wide [''B'', ''c'']"
    using example_snapshot by (simp add: splice_start_def)
  have start: "OverlayEnumCursor ?ov1 = 0" "OverlayEnumFilter ?ov1 = []"
    by (simp_all add: splice_start_def example_overlay_def new_HandleOverlay_def)
  have "case InsertOverlayEntries example_globals example_api 40 12 False False example_dir ()
      (replicate 40 7, None, Some example_overlay, kStatusNoMoreFiles) of
    (buf', iosb', ov', result') \<Rightarrow> \<exists>taken rest R.
      drop (OverlayEnumCursor ?ov1) (OverlayEnumSnapshot ?ov1) = taken @ rest \<and>
      map snd R = filter (\<lambda>nm. OverlayNameMatchesFilter example_api nm (OverlayEnumFilter ?ov1)) taken \<and>
      ov' = Some (?ov1\<lparr>OverlayEnumCursor := OverlayEnumCursor ?ov1 + length taken\<rparr>) \<and>
      (if R = [] then buf' = replicate 40 7 \<and> iosb' = None \<and> result' = kStatusNoMoreFiles
       else dir_chain 8 12 (unat (40 :: u32)) buf' R \<and> result' = kStatusSuccess \<and>
         iosb' = map_option (\<lambda>_. (kStatusSuccess, of_nat (rec_end 12 (last R)))) (None :: (u32 \<times> u32) option)) \<and>
      (False \<longrightarrow> length R \<le> 1) \<and>
      (rest = [] \<or> R \<noteq> [] \<or> unat (40 :: u32) < 12 + 2 * length (hd rest))"
    using example_scan_ok
    by (intro insert_emits_next) (simp_all add: nt_ok_def snapshot TryGetDirInfoLayout_def)
  then show ?thesis
  proof (rule rev_mp, intro impI, elim case_prodE, simp only: prod.case, elim exE conjE)
    fix buf' iosb' ov' result' taken rest R
    assume "drop (OverlayEnumCursor ?ov1) (OverlayEnumSnapshot ?ov1) = taken @ rest"
      "map snd R = filter (\<lambda>nm. OverlayNameMatchesFilter example_api nm (OverlayEnumFilter ?ov1)) taken"
      "if R = [] then buf' = replicate 40 7 \<and> iosb' = None \<and> result' = kStatusNoMoreFiles
       else dir_chain 8 12 (unat (40 :: u32)) buf' R \<and> result' = kStatusSuccess \<and>
         iosb' = map_option (\<lambda>_. (kStatusSuccess, of_nat (rec_end 12 (last R)))) (None :: (u32 \<times> u32) option)"
      "rest = [] \<or> R \<noteq> [] \<or> unat (40 :: u32) < 12 + 2 * length (hd rest)"
    then show "\<exists>taken rest R. map wide [''B'', ''c''] = taken @ rest \<and> map snd R = taken \<and>
      (R = [] \<or> dir_chain 8 12 40 buf' R \<and> result' = kStatusSuccess) \<and> (rest = [] \<or> R \<noteq> [])"
      by (intro exI [of _ taken] exI [of _ rest] exI [of _ R])
        (auto simp: snapshot start OverlayNameMatchesFilter_def split: if_splits)
  qed
qed

theorem nt_scan_lists_overlay_witness:
  "mset (drain (nt_ask example_globals example_api 40 12 False example_dir ()) 2 (replicate 40 7, example_overlay)) =
     mset (map wide [''c'', ''B''])"
  using nt_scan_lists_overlay [OF example_scan_ok example_scan(1), of 2 False]
  by (simp add: example_scan(2) OverlayNameMatchesFilter_def example_overlay_def new_HandleOverlay_def)

theorem find_and_nt_agree_witness:
  "drain (find_ask example_globals example_api example_dir ()) 2 example_overlay =
     map (take (MAX_PATH - 1))
       (drain (nt_ask example_globals example_api 40 12 True example_dir ()) 2 (replicate 40 7, example_overlay))"
proof -
  have "length (pending_scan example_globals example_api example_dir () example_overlay) \<le> 2"
    using arg_cong [OF pending_scan_fresh [OF example_scan(1), of example_globals], of size]
    by (simp add: example_scan(2) OverlayNameMatchesFilter_def example_overlay_def new_HandleOverlay_def)
  from find_and_nt_agree [OF example_scan_ok this, of True] show ?thesis .
qed

end
