(* ===== verification/Enum_Hooks.thy ===== *)
theory Enum_Hooks
  imports Enum_Scan
begin

text \<open>
  The hooks that list a directory (\<open>vendor/detours-services/DetouredFunctions.cpp\<close>:
  \<open>NtQueryDirectoryFile\<close>, its \<open>Ex\<close> form and \<open>GetFileInformationByHandleEx\<close>) and the registry of
  handles (\<open>HandleOverlay.cpp\<close>) that they keep their state in. A hook calls the real function, then
  hides what the filter hides, then splices in what the overlay adds; the theorems say what a caller
  that repeats the call is given. The scan of the operating system is a parameter, and the file
  system stands still while it goes on.
\<close>

section \<open>The registry of handles\<close>

text \<open>
  \<open>HandleOverlayMap\<close>. The overlays are shared by reference: what a hook changes in the one that it
  looked up is changed in the registry.
\<close>

type_synonym 'h handle_overlays = "'h \<Rightarrow> HandleOverlay option"

definition RegisterHandleOverlay :: "'h \<Rightarrow> AccessCheckResult \<Rightarrow> PolicyResult \<Rightarrow> HandleType \<Rightarrow>
    'h handle_overlays \<Rightarrow> 'h handle_overlays" where
  "RegisterHandleOverlay handle accessCheck policy type overlays =
     overlays(handle \<mapsto> new_HandleOverlay accessCheck policy type)"

definition TryLookupHandleOverlay :: "'h \<Rightarrow> 'h handle_overlays \<Rightarrow> HandleOverlay option" where
  "TryLookupHandleOverlay handle overlays = overlays handle"

definition CloseHandleOverlay :: "'h \<Rightarrow> 'h handle_overlays \<Rightarrow> 'h handle_overlays" where
  "CloseHandleOverlay handle overlays = overlays(handle := None)"


section \<open>NtQueryDirectoryFile\<close>

definition PathContainsWildcard :: "wstr \<Rightarrow> bool" where
  "PathContainsWildcard path \<longleftrightarrow> list_ex (\<lambda>c. c = 0x3F \<or> c = STAR) (cstr path)"

text \<open>
  The handles that the hook leaves alone: unknown ones, those whose enumeration has been reported,
  and the devices.
\<close>

definition leaves_alone :: "bool \<Rightarrow> HandleOverlay option \<Rightarrow> bool" where
  "leaves_alone disabled overlay \<longleftrightarrow>
     disabled \<or>
     (case overlay of
        None \<Rightarrow> True
      | Some ov \<Rightarrow>
          EnumerationHasBeenReported ov \<or>
          (let directoryName = GetPathString (m_canonicalizedPath (ho_Policy ov))
           in wcsicmp_eq directoryName ([BACKSLASH, BACKSLASH, DOT, BACKSLASH] @ wide ''MountPointManager'') \<or>
              IsSpecialDeviceName directoryName))"

text \<open>
  The state of a call: the caller's buffer; the position of the scan with the status block, which the
  real function writes; the registry. A call of the real function, \<open>real_call\<close>, takes the buffer and
  the position.
\<close>

type_synonym 'q scan = "'q \<times> (u32 \<times> u32)"

type_synonym ('h, 'q) hook_state = "bytes \<times> 'q scan \<times> 'h handle_overlays"

type_synonym 'q real_call = "bytes \<Rightarrow> 'q scan \<Rightarrow> u32 \<times> u32 \<times> bytes \<times> 'q scan"

text \<open>What the manifest, the services and the file system give to every hook.\<close>

record 'w hook_env =
  he_globals :: parsed_manifest
  he_api :: "'w enum_api"
  he_world :: 'w
  he_visible :: "PolicyResult \<Rightarrow> wstr \<Rightarrow> bool"
  he_dosError :: "u32 \<Rightarrow> u32"
  he_disabled :: bool

text \<open>
  What follows the real call, for a known handle to a directory: the filter, the splice, and the
  report, of which the handle remembers whether it was made.
\<close>

definition show_entries :: "'w hook_env \<Rightarrow>
    ((wstr \<Rightarrow> bool) \<Rightarrow> 'q scan query_state \<Rightarrow> 'q scan query_state option option) \<Rightarrow>
    u32 \<Rightarrow> u32 \<Rightarrow> bool \<Rightarrow> wstr option \<Rightarrow> bool \<Rightarrow> HandleOverlay \<Rightarrow> 'q scan query_state \<Rightarrow>
    (u32 \<times> bytes \<times> 'q scan \<times> HandleOverlay) option option" where
  "show_entries env apply_filter Length infoClass single FileName RestartScan ov st =
     (let g = he_globals env;
          directoryPolicyResult = ho_Policy ov;
          isEnumeration = (case FileName of None \<Rightarrow> True | Some pattern \<Rightarrow> PathContainsWildcard pattern)
      in map_option (map_option (\<lambda>st.
           (let (buf, iosb, overlay, result) =
                  (if ShouldWriteOverlay (g_fileAccessManifestExtraFlags g)
                   then InsertOverlayEntries g (he_api env) Length infoClass single RestartScan
                          (TranslatedPath directoryPolicyResult) (he_world env)
                          (qs_FileInformation st, Some (snd (qs_world st)),
                           CaptureOverlayEnumFilter (Some ov) FileName RestartScan, qs_result st)
                   else (qs_FileInformation st, Some (snd (qs_world st)), Some ov, qs_result st));
                directoryAccessCheck =
                  access_check (access_of_read (if isEnumeration then RRA_Enumerate else RRA_Probe)) Allow
                    (if CheckReportAnyAccess (g_fileAccessManifestFlags g) False then Report else Ignore) Valid
            in (result, buf, (fst (qs_world st), the iosb),
                (the overlay)\<lparr>EnumerationHasBeenReported :=
                   NT_SUCCESS result \<and> ShouldReport directoryAccessCheck\<rparr>))))
         (if ShouldFilterDirectoryEnumeration (g_fileAccessManifestExtraFlags g)
          then apply_filter (he_visible env directoryPolicyResult) st else Some (Some st)))"

definition query_hook :: "'w hook_env \<Rightarrow> 'q real_call \<Rightarrow>
    ((wstr \<Rightarrow> bool) \<Rightarrow> 'q scan query_state \<Rightarrow> 'q scan query_state option option) \<Rightarrow>
    'h \<Rightarrow> u32 \<Rightarrow> u32 \<Rightarrow> bool \<Rightarrow> wstr option \<Rightarrow> bool \<Rightarrow> ('h, 'q) hook_state \<Rightarrow>
    (u32 \<times> ('h, 'q) hook_state) option option" where
  "query_hook env real apply_filter FileHandle Length infoClass single FileName RestartScan s =
     (let (buf, q, overlays) = s;
          overlay = TryLookupHandleOverlay FileHandle overlays;
          (result, lastError, buf, q) = real buf q
      in case overlay of
           Some ov \<Rightarrow>
             if leaves_alone (he_disabled env) overlay \<or> ho_Type ov \<noteq> HT_Directory
             then Some (Some (result, buf, q, overlays))
             else map_option (map_option (\<lambda>(result, buf, q, ov). (result, buf, q, overlays(FileHandle \<mapsto> ov))))
                    (show_entries env apply_filter Length infoClass single FileName RestartScan ov
                      \<lparr>qs_world = q, qs_buffer = buf, qs_FileInformation = buf, qs_result = result,
                       qs_reportedError = he_dosError env result, qs_lastError = lastError\<rparr>)
         | None \<Rightarrow> Some (Some (result, buf, q, overlays)))"

text \<open>\<open>realFn\<close> takes \<open>RestartScan\<close>; the other arguments of the caller are the same in every call.\<close>

definition Detoured_NtQueryDirectoryFile :: "'w hook_env \<Rightarrow> (bool, 'q scan) query_api \<Rightarrow> 'h \<Rightarrow> u32 \<Rightarrow> u32 \<Rightarrow>
    bool \<Rightarrow> wstr option \<Rightarrow> bool \<Rightarrow> ('h, 'q) hook_state \<Rightarrow> (u32 \<times> ('h, 'q) hook_state) option option" where
  "Detoured_NtQueryDirectoryFile env realFn FileHandle Length infoClass ReturnSingleEntry FileName RestartScan s =
     query_hook env (realFn RestartScan)
       (\<lambda>visible. ApplyEnumerationFilterNt visible realFn (he_dosError env) False infoClass Length)
       FileHandle Length infoClass ReturnSingleEntry FileName RestartScan s"

definition Detoured_NtQueryDirectoryFileEx :: "'w hook_env \<Rightarrow> (u32, 'q scan) query_api \<Rightarrow> 'h \<Rightarrow> u32 \<Rightarrow> u32 \<Rightarrow>
    u32 \<Rightarrow> wstr option \<Rightarrow> ('h, 'q) hook_state \<Rightarrow> (u32 \<times> ('h, 'q) hook_state) option option" where
  "Detoured_NtQueryDirectoryFileEx env realFn FileHandle Length infoClass QueryFlags FileName s =
     query_hook env (realFn QueryFlags)
       (\<lambda>visible. ApplyEnumerationFilterNtEx visible realFn (he_dosError env) False infoClass Length QueryFlags)
       FileHandle Length infoClass (QueryFlags AND 2 \<noteq> 0) FileName (QueryFlags AND 1 \<noteq> 0) s"


section \<open>GetFileInformationByHandleEx\<close>

text \<open>
  The real function takes the class and the contents of the buffer, and returns its result, the last
  error, the new contents and the new position. The loop goes on with the class that continues.
\<close>

type_synonym 'q handle_api = "int \<Rightarrow> bytes \<Rightarrow> 'q \<Rightarrow> bool \<times> u32 \<times> bytes \<times> 'q"

partial_function (option) handle_filter_loop :: "(wstr \<Rightarrow> bool) \<Rightarrow> (bytes \<Rightarrow> 'q \<Rightarrow> bool \<times> u32 \<times> bytes \<times> 'q) \<Rightarrow>
    u32 \<Rightarrow> u32 \<Rightarrow> bool \<times> u32 \<times> bytes \<times> 'q \<Rightarrow> (bool \<times> u32 \<times> bytes \<times> 'q) option option" where
  "handle_filter_loop visible continue ntInfoClass dwBufferSize s =
     (case s of (result, error, buf, q) \<Rightarrow>
        Option.bind (FilterDirectoryInformation visible buf ntInfoClass dwBufferSize)
          (\<lambda>filtered. case filtered of
             None \<Rightarrow> Some None
           | Some (kept, buf) \<Rightarrow>
               if kept = None \<or> kept \<noteq> Some 0 then Some (Some (result, error, buf, q))
               else (case continue buf q of (result, error, buf, q) \<Rightarrow>
                       if \<not> result then Some (Some (result, error, buf, q))
                       else handle_filter_loop visible continue ntInfoClass dwBufferSize (result, error, buf, q))))"

declare ApplyEnumerationFilter_loop.simps [code] handle_filter_loop.simps [code]

abbreviation ERROR_NO_MORE_FILES :: u32 where "ERROR_NO_MORE_FILES \<equiv> 18"

definition kStatusUnsuccessful :: u32 where "kStatusUnsuccessful = 0xC0000001"

text \<open>The splice, with the result and the last error translated to a status and back.\<close>

definition splice_by_handle :: "'w hook_env \<Rightarrow> int \<Rightarrow> u32 \<Rightarrow> u32 \<Rightarrow> HandleOverlay \<Rightarrow>
    bool \<times> u32 \<times> bytes \<times> 'q \<Rightarrow> (bool \<times> u32 \<times> bytes \<times> 'q) \<times> HandleOverlay" where
  "splice_by_handle env fileInformationClass ntInfoClass dwBufferSize dirOverlay s =
     (let (result, error, buf, q) = s;
          st = (if result then kStatusSuccess
                else if error = ERROR_NO_MORE_FILES then kStatusNoMoreFiles else kStatusUnsuccessful);
          restart = (fileInformationClass = 11 \<or> fileInformationClass = 15);
          (buf, iosb, overlay, st) =
            InsertOverlayEntries (he_globals env) (he_api env) dwBufferSize ntInfoClass False restart
              (TranslatedPath (ho_Policy dirOverlay)) (he_world env) (buf, Some (st, 0), Some dirOverlay, st);
          (result, error) = (if NT_SUCCESS st \<and> \<not> result then (True, ERROR_SUCCESS) else (result, error))
      in ((result, error, buf, q), the overlay))"

text \<open>\<open>nothing\<close>: the detour is disabled, or the handle or the buffer is null or invalid.\<close>

definition Detoured_GetFileInformationByHandleEx :: "'w hook_env \<Rightarrow> 'q handle_api \<Rightarrow> bool \<Rightarrow> 'h \<Rightarrow> int \<Rightarrow> u32 \<Rightarrow>
    bytes \<times> 'q \<times> 'h handle_overlays \<Rightarrow> (bool \<times> u32 \<times> bytes \<times> 'q \<times> 'h handle_overlays) option option" where
  "Detoured_GetFileInformationByHandleEx env real nothing hFile fileInformationClass dwBufferSize s =
     (let (buf, q, overlays) = s;
          (result, error, buf, q) = real fileInformationClass buf q;
          unchanged = Some (Some (result, error, buf, q, overlays));
          doFilter = (result \<and> ShouldFilterDirectoryEnumeration (g_fileAccessManifestExtraFlags (he_globals env)));
          doOverlay = ShouldWriteOverlay (g_fileAccessManifestExtraFlags (he_globals env))
      in if nothing \<or> \<not> (doFilter \<or> doOverlay) then unchanged
         else (case (TryMapHandleDirInfoClass fileInformationClass, TryLookupHandleOverlay hFile overlays) of
                 (Some (ntInfoClass, continueClass), Some dirOverlay) \<Rightarrow>
                   if ho_Type dirOverlay \<noteq> HT_Directory then unchanged
                   else map_option (map_option (\<lambda>s.
                          (let (s, dirOverlay) =
                                 (if doOverlay
                                  then splice_by_handle env fileInformationClass ntInfoClass dwBufferSize dirOverlay s
                                  else (s, dirOverlay));
                               (result, error, buf, q) = s
                           in (result, error, buf, q, overlays(hFile \<mapsto> dirOverlay)))))
                        (if doFilter
                         then handle_filter_loop (he_visible env (ho_Policy dirOverlay)) (real continueClass)
                                ntInfoClass dwBufferSize (result, error, buf, q)
                         else Some (Some (result, error, buf, q)))
               | _ \<Rightarrow> unchanged))"


section \<open>A scan of the operating system\<close>

text \<open>
  \<open>bs\<close>, the batches that a scan still had to give, after a call: the first of them is in the buffer,
  and \<open>left\<close> reads the others off the position.
\<close>

definition gives :: "nat \<Rightarrow> nat \<Rightarrow> u32 \<Rightarrow> ('q \<Rightarrow> dir_record list list) \<Rightarrow> dir_record list list \<Rightarrow> u32 \<Rightarrow> bytes \<Rightarrow> 'q \<Rightarrow> bool" where
  "gives nameLenOff nameOff Length left bs status buf q \<longleftrightarrow>
     unat Length \<le> length buf \<and>
     (case bs of
        [] \<Rightarrow> status = kStatusNoMoreFiles \<and> left q = []
      | recs # rest \<Rightarrow> status = kStatusSuccess \<and> dir_chain nameLenOff nameOff (unat Length) buf recs \<and> left q = rest)"

text \<open>The documented behaviour of a call that goes on with a scan, and of the one by handle.\<close>

definition nt_scans :: "nat \<Rightarrow> nat \<Rightarrow> u32 \<Rightarrow> ('q \<Rightarrow> dir_record list list) \<Rightarrow> (bytes \<Rightarrow> 'q \<Rightarrow> u32 \<times> u32 \<times> bytes \<times> 'q) \<Rightarrow> bool" where
  "nt_scans nameLenOff nameOff Length left real \<longleftrightarrow>
     (\<forall>buf q. unat Length \<le> length buf \<longrightarrow>
        (case real buf q of (status, error, buf', q') \<Rightarrow>
           gives nameLenOff nameOff Length left (left q) status buf' q'))"

definition handle_scans :: "nat \<Rightarrow> nat \<Rightarrow> u32 \<Rightarrow> ('q \<Rightarrow> dir_record list list) \<Rightarrow> (bytes \<Rightarrow> 'q \<Rightarrow> bool \<times> u32 \<times> bytes \<times> 'q) \<Rightarrow> bool" where
  "handle_scans nameLenOff nameOff Length left real \<longleftrightarrow>
     (\<forall>buf q. unat Length \<le> length buf \<longrightarrow>
        (case real buf q of (result, error, buf', q') \<Rightarrow>
           (result \<or> error = ERROR_NO_MORE_FILES) \<and>
           gives nameLenOff nameOff Length left (left q)
             (if result then kStatusSuccess else kStatusNoMoreFiles) buf' q'))"

lemma nt_scansD:
  assumes "nt_scans nameLenOff nameOff Length left real" "unat Length \<le> length buf"
    and "real buf q = (status, error, buf', q')"
  shows "gives nameLenOff nameOff Length left (left q) status buf' q'"
  using assms(1) [unfolded nt_scans_def, rule_format, OF assms(2), of q] assms(3) by simp

lemma handle_scansD:
  assumes "handle_scans nameLenOff nameOff Length left real" "unat Length \<le> length buf"
    and "real buf q = (result, error, buf', q')"
  shows "result \<or> error = ERROR_NO_MORE_FILES"
    and "gives nameLenOff nameOff Length left (left q) (if result then kStatusSuccess else kStatusNoMoreFiles) buf' q'"
  using assms(1) [unfolded handle_scans_def, rule_format, OF assms(2), of q] assms(3) by simp_all

text \<open>What the filter leaves of the batches, and the names that it lets through in all.\<close>

definition hidden_batch :: "(wstr \<Rightarrow> bool) \<Rightarrow> dir_record list \<Rightarrow> bool" where
  "hidden_batch visible recs \<longleftrightarrow> list_all (\<lambda>r. \<not> visible (snd r)) recs"

definition shown_batches :: "(wstr \<Rightarrow> bool) \<Rightarrow> dir_record list list \<Rightarrow> dir_record list list" where
  "shown_batches visible bs =
     (case dropWhile (hidden_batch visible) bs of [] \<Rightarrow> [] | recs # rest \<Rightarrow> shown visible recs # rest)"

definition shown_names :: "(wstr \<Rightarrow> bool) \<Rightarrow> dir_record list list \<Rightarrow> wstr list" where
  "shown_names visible bs =
     concat (map (\<lambda>recs. map snd (shown visible recs)) (filter (\<lambda>recs. \<not> hidden_batch visible recs) bs))"

lemma hidden_batch_iff: "hidden_batch visible recs \<longleftrightarrow> filter (\<lambda>r. visible (snd r)) recs = []"
  by (auto simp: hidden_batch_def list_all_iff filter_empty_conv)

lemma kStatus_success [simp]: "NT_SUCCESS kStatusSuccess" "\<not> NT_SUCCESS kStatusNoMoreFiles"
  by (simp_all add: NT_SUCCESS_def kStatusSuccess_def kStatusNoMoreFiles_def)

lemma kStatus_distinct [simp]: "kStatusSuccess \<noteq> kStatusNoMoreFiles" "kStatusNoMoreFiles \<noteq> kStatusSuccess"
  by (simp_all add: kStatusSuccess_def kStatusNoMoreFiles_def)

lemma shown_names_dropWhile: "shown_names visible (dropWhile (hidden_batch visible) bs) = shown_names visible bs"
  by (induction bs) (simp_all add: shown_names_def)

text \<open>A batch in the buffer is filtered in place.\<close>

lemma gives_filtered:
  assumes layout: "TryGetDirInfoLayout infoClass = Some (nameLenOff, nameOff)"
    and g: "gives nameLenOff nameOff Length left (recs # rest) status buf q"
  obtains buf' where
    "FilterDirectoryInformation visible buf infoClass Length =
       Some (Some (Some (length (filter (\<lambda>r. visible (snd r)) recs)), buf'))"
    "unat Length \<le> length buf'"
    "\<not> hidden_batch visible recs \<longrightarrow> gives nameLenOff nameOff Length left (shown visible recs # rest) status buf' q"
proof -
  have c: "dir_chain nameLenOff nameOff (unat Length) buf recs" and len: "unat Length \<le> length buf"
    using g by (simp_all add: gives_def)
  obtain buf' where f: "FilterDirectoryInformation visible buf infoClass Length =
      Some (Some (Some (length (filter (\<lambda>r. visible (snd r)) recs)), buf'))"
    and chain: "filter (\<lambda>r. visible (snd r)) recs \<noteq> [] \<Longrightarrow> dir_chain nameLenOff nameOff (unat Length) buf' (shown visible recs)"
    using FilterDirectoryInformation_chain [OF layout c, of visible] by (auto split: if_splits)
  have "length buf' = length buf" using FilterDirectoryInformation_in_bounds [OF f len] by auto
  with that [OF f] chain g len show thesis by (simp add: gives_def hidden_batch_iff)
qed

lemma nt_filter_gives:
  assumes layout: "TryGetDirInfoLayout infoClass = Some (nameLenOff, nameOff)"
    and real: "nt_scans nameLenOff nameOff Length left (realFn flags)"
    and "gives nameLenOff nameOff Length left bs (qs_result s) (qs_FileInformation s) (qs_world s)"
  shows "\<exists>s'. ApplyEnumerationFilter_loop visible (requery realFn dosError flags False Length) False infoClass Length s =
      Some (Some s') \<and>
    gives nameLenOff nameOff Length left (shown_batches visible bs) (qs_result s') (qs_FileInformation s') (qs_world s')"
  using assms(3)
proof (induction bs arbitrary: s)
  case Nil
  then show ?case
    by (subst ApplyEnumerationFilter_loop.simps) (auto simp: gives_def shown_batches_def)
next
  case (Cons recs rest)
  obtain buf' where f: "FilterDirectoryInformation visible (qs_FileInformation s) infoClass Length =
      Some (Some (Some (length (filter (\<lambda>r. visible (snd r)) recs)), buf'))" "unat Length \<le> length buf'"
    "\<not> hidden_batch visible recs \<longrightarrow>
      gives nameLenOff nameOff Length left (shown visible recs # rest) (qs_result s) buf' (qs_world s)"
    by (rule gives_filtered [OF layout Cons.prems, where visible = visible])
  have success: "NT_SUCCESS (qs_result s)" and rest: "left (qs_world s) = rest"
    using Cons.prems by (simp_all add: gives_def)
  let ?s = "s\<lparr>qs_FileInformation := buf', qs_buffer := buf'\<rparr>"
  show ?case
  proof (cases "hidden_batch visible recs")
    case False
    with f(1) success have "ApplyEnumerationFilter_loop visible (requery realFn dosError flags False Length) False infoClass Length s =
        Some (Some ?s)"
      by (subst ApplyEnumerationFilter_loop.simps) (simp add: Let_def hidden_batch_iff)
    with False f(3) show ?thesis by (simp add: shown_batches_def)
  next
    case True
    let ?t = "requery realFn dosError flags False Length ?s"
    have again: "ApplyEnumerationFilter_loop visible (requery realFn dosError flags False Length) False infoClass Length s =
        ApplyEnumerationFilter_loop visible (requery realFn dosError flags False Length) False infoClass Length ?t"
      using True f(1) success
      by (subst ApplyEnumerationFilter_loop.simps) (simp add: Let_def hidden_batch_iff)
    have "gives nameLenOff nameOff Length left rest (qs_result ?t) (qs_FileInformation ?t) (qs_world ?t)"
      using nt_scansD [OF real f(2)] rest by (auto simp: requery_def split: prod.splits)
    from Cons.IH [OF this] True show ?thesis unfolding again by (simp add: shown_batches_def)
  qed
qed

lemma handle_filter_gives:
  assumes layout: "TryGetDirInfoLayout infoClass = Some (nameLenOff, nameOff)"
    and real: "handle_scans nameLenOff nameOff Length left continue"
    and "gives nameLenOff nameOff Length left (recs # rest) kStatusSuccess buf q"
  shows "\<exists>result error' buf' q'. handle_filter_loop visible continue infoClass Length (True, error, buf, q) =
      Some (Some (result, error', buf', q')) \<and> (result \<or> error' = ERROR_NO_MORE_FILES) \<and>
    gives nameLenOff nameOff Length left (shown_batches visible (recs # rest))
      (if result then kStatusSuccess else kStatusNoMoreFiles) buf' q'"
  using assms(3)
proof (induction rest arbitrary: recs error buf q)
  case (Nil recs)
  obtain buf' where f: "FilterDirectoryInformation visible buf infoClass Length =
      Some (Some (Some (length (filter (\<lambda>r. visible (snd r)) recs)), buf'))" "unat Length \<le> length buf'"
    "\<not> hidden_batch visible recs \<longrightarrow>
      gives nameLenOff nameOff Length left [shown visible recs] kStatusSuccess buf' q"
    by (rule gives_filtered [OF layout Nil.prems, where visible = visible])
  obtain result error' buf'' q' where call: "continue buf' q = (result, error', buf'', q')" by (metis prod_cases4)
  have q: "left q = []" using Nil.prems by (simp add: gives_def)
  have next_call: "result \<or> error' = ERROR_NO_MORE_FILES"
    "gives nameLenOff nameOff Length left [] (if result then kStatusSuccess else kStatusNoMoreFiles) buf'' q'"
    using handle_scansD [OF real f(2) call] q by simp_all
  then have "\<not> result" by (simp add: gives_def split: if_splits)
  with f call next_call show ?case
    by (subst handle_filter_loop.simps) (auto simp: hidden_batch_iff shown_batches_def)
next
  case (Cons recs' rest recs)
  obtain buf' where f: "FilterDirectoryInformation visible buf infoClass Length =
      Some (Some (Some (length (filter (\<lambda>r. visible (snd r)) recs)), buf'))" "unat Length \<le> length buf'"
    "\<not> hidden_batch visible recs \<longrightarrow>
      gives nameLenOff nameOff Length left (shown visible recs # recs' # rest) kStatusSuccess buf' q"
    by (rule gives_filtered [OF layout Cons.prems, where visible = visible])
  obtain result error' buf'' q' where call: "continue buf' q = (result, error', buf'', q')" by (metis prod_cases4)
  have q: "left q = recs' # rest" using Cons.prems by (simp add: gives_def)
  have next_call: "gives nameLenOff nameOff Length left (recs' # rest)
      (if result then kStatusSuccess else kStatusNoMoreFiles) buf'' q'"
    using handle_scansD [OF real f(2) call] q by simp_all
  then have result by (simp add: gives_def split: if_splits)
  with next_call have g: "gives nameLenOff nameOff Length left (recs' # rest) kStatusSuccess buf'' q'" by simp
  show ?case
  proof (cases "hidden_batch visible recs")
    case False
    with f show ?thesis
      by (subst handle_filter_loop.simps) (auto simp: hidden_batch_iff shown_batches_def)
  next
    case True
    with f call \<open>result\<close> have "handle_filter_loop visible continue infoClass Length (True, error, buf, q) =
        handle_filter_loop visible continue infoClass Length (True, error', buf'', q')"
      by (subst handle_filter_loop.simps) (simp add: hidden_batch_iff)
    with Cons.IH [OF g, of error'] True show ?thesis by (simp add: shown_batches_def)
  qed
qed


lemma shown_names_batches:
  "shown_names visible bs =
     (case shown_batches visible bs of [] \<Rightarrow> [] | recs # rest \<Rightarrow> map snd recs @ shown_names visible rest)"
proof (induction bs)
  case (Cons recs rest)
  then show ?case
    by (cases "hidden_batch visible recs") (simp_all add: shown_names_def shown_batches_def)
qed (simp add: shown_names_def shown_batches_def)

lemma shown_batches_all:
  "gives nameLenOff nameOff Length left bs status buf q \<Longrightarrow> shown_batches (\<lambda>name. True) bs = bs"
  by (cases bs) (auto simp: gives_def shown_batches_def hidden_batch_iff shown_def dir_chain_def
      takeWhile_eq_Nil_iff)

lemma gives_walked:
  assumes "gives nameLenOff nameOff Length left bs status buf q" "4 \<le> nameOff"
  shows "(if NT_SUCCESS status then walk_chain (unat Length) nameLenOff nameOff buf 0 else []) =
    (case bs of [] \<Rightarrow> [] | recs # rest \<Rightarrow> map snd recs)"
  using assms walk_chain_dir_chain [OF _ assms(2) order_refl] by (cases bs) (auto simp: gives_def)


section \<open>The splice after a call\<close>

lemma EnsureOverlayEnumSnapshot_frame [simp]:
  "ho_Policy (EnsureOverlayEnumSnapshot g ea enumDir w ov) = ho_Policy ov"
  "ho_Type (EnsureOverlayEnumSnapshot g ea enumDir w ov) = ho_Type ov"
  "EnumerationHasBeenReported (EnsureOverlayEnumSnapshot g ea enumDir w ov) = EnumerationHasBeenReported ov"
  by (simp_all add: EnsureOverlayEnumSnapshot_def Let_def)

lemma InsertOverlayEntries_frame:
  assumes "InsertOverlayEntries g ea Length infoClass single RestartScan enumDir w (buf, iosb, Some ov, status) =
    (buf', iosb', overlay, status')"
  obtains ov' where "overlay = Some ov'" "ho_Policy ov' = ho_Policy ov" "ho_Type ov' = ho_Type ov"
    "EnumerationHasBeenReported ov' = EnumerationHasBeenReported ov"
  using assms unfolding InsertOverlayEntries_def Let_def
  by (auto split: option.splits if_splits prod.splits)

lemma InsertOverlayEntries_status_block:
  assumes "InsertOverlayEntries g ea Length infoClass single False enumDir w (buf, None, Some ov, status) =
    (buf', iosb', overlay, status')"
  shows "\<exists>iosb''. InsertOverlayEntries g ea Length infoClass single False enumDir w (buf, Some iosb, Some ov, status) =
    (buf', Some iosb'', overlay, status')"
proof (cases "TryGetDirInfoLayout infoClass")
  case None
  with assms show ?thesis by (auto simp: InsertOverlayEntries_def)
next
  case (Some layout)
  obtain nameLenOff nameOff where layout: "layout = (nameLenOff, nameOff)" by (cases layout)
  define ov1 where "ov1 = EnsureOverlayEnumSnapshot g ea enumDir w ov"
  define st where "st = InsertOverlayEntries_loop (\<lambda>nm. OverlayNameMatchesFilter ea nm (OverlayEnumFilter ov1))
      (\<lambda>nm. FillOverlayDirRecordMetadata ea infoClass (OverlayBackingPath g (JoinDirAndName enumDir nm)) w)
      single nameLenOff nameOff Length (drop (OverlayEnumCursor ov1) (OverlayEnumSnapshot ov1))
      \<lparr>is_buf = buf, is_cursor = OverlayEnumCursor ov1, is_prev = None, is_writeOff = AlignUp8 0,
       is_lastWrittenEnd = 0\<rparr>"
  have call: "InsertOverlayEntries g ea Length infoClass single False enumDir w (buf, j, Some ov, status) =
      (if enumDir \<noteq> [] \<and> \<not> OverlayIsDirectory (fa_attributes (ea_files ea) w) (ext_prefix @ enumDir)
       then (buf, j, Some ov, status)
       else if length (OverlayEnumSnapshot ov1) \<le> OverlayEnumCursor ov1 \<or> NT_SUCCESS status \<or>
         status \<noteq> kStatusNoMoreFiles \<and> status \<noteq> kStatusNoSuchFile then (buf, j, Some ov1, status)
       else if is_prev st = None then (is_buf st, j, Some (ov1\<lparr>OverlayEnumCursor := is_cursor st\<rparr>), status)
       else (is_buf st, map_option (\<lambda>_. (kStatusSuccess, is_lastWrittenEnd st)) j,
             Some (ov1\<lparr>OverlayEnumCursor := is_cursor st\<rparr>), kStatusSuccess))" for j
    unfolding InsertOverlayEntries_def prod.case option.case Some layout Let_def if_False ov1_def [symmetric] st_def [symmetric]
    by simp
  show ?thesis using assms unfolding call by (auto split: if_split_asm)
qed

lemma InsertOverlayEntries_success:
  assumes "TryGetDirInfoLayout infoClass = Some layout" "NT_SUCCESS status"
    and "enumDir = [] \<or> OverlayIsDirectory (fa_attributes (ea_files ea) w) (ext_prefix @ enumDir)"
  shows "InsertOverlayEntries g ea Length infoClass single False enumDir w (buf, iosb, Some ov, status) =
    (buf, iosb, Some (EnsureOverlayEnumSnapshot g ea enumDir w ov), status)"
  using assms by (cases layout) (auto simp: InsertOverlayEntries_def Let_def)

text \<open>
  One call of either hook after its filter: \<open>out\<close> is what the caller reads, the batch in the buffer
  or, at the end, the next names of the overlay.
\<close>

lemma splice_step:
  assumes layout: "TryGetDirInfoLayout infoClass = Some (nameLenOff, nameOff)"
    and ok: "nt_ok g ea Length infoClass enumDir w (buf, ov)"
    and given: "gives nameLenOff nameOff Length left bs status buf q"
  obtains buf' iosb' ov' status' where
    "InsertOverlayEntries g ea Length infoClass single False enumDir w (buf, Some iosb, Some ov, status) =
       (buf', Some iosb', Some ov', status')"
    "ho_Policy ov' = ho_Policy ov" "ho_Type ov' = ho_Type ov"
    "EnumerationHasBeenReported ov' = EnumerationHasBeenReported ov"
    "nt_ok g ea Length infoClass enumDir w (buf', ov')"
    "(case bs of [] \<Rightarrow> [] | recs # rest \<Rightarrow> map snd recs) @ pending_scan g ea enumDir w ov =
       (if NT_SUCCESS status' then walk_chain (unat Length) nameLenOff nameOff buf' 0 else []) @
       pending_scan g ea enumDir w ov'"
    "(if NT_SUCCESS status' then walk_chain (unat Length) nameLenOff nameOff buf' 0 else []) = [] \<Longrightarrow>
       bs = [] \<and> pending_scan g ea enumDir w ov = []"
    "NT_SUCCESS status \<Longrightarrow> status' = status"
proof -
  have nameOff: "4 \<le> nameOff" using TryGetDirInfoLayout_bounds [OF layout] by simp
  have dir: "enumDir = [] \<or> OverlayIsDirectory (fa_attributes (ea_files ea) w) (ext_prefix @ enumDir)"
    using ok by (simp add: nt_ok_def)
  let ?ov1 = "EnsureOverlayEnumSnapshot g ea enumDir w ov"
  show thesis
  proof (cases bs)
    case (Cons recs rest)
    then have s: "NT_SUCCESS status" and recs: "recs \<noteq> []" using given by (auto simp: gives_def dir_chain_def)
    have started: "EnsureOverlayEnumSnapshot g ea enumDir w ?ov1 = ?ov1"
      by (rule EnsureOverlayEnumSnapshot_started) simp
    have walked: "walk_chain (unat Length) nameLenOff nameOff buf 0 = map snd recs"
      using gives_walked [OF given nameOff] s Cons by simp
    show thesis
      by (rule that [OF InsertOverlayEntries_success [OF layout s dir]])
        (use ok s Cons recs walked in \<open>simp_all add: nt_ok_def layout pending_scan_def started\<close>)
  next
    case Nil
    then have s: "status = kStatusNoMoreFiles" using given by (simp add: gives_def)
    obtain b i o' r where call: "InsertOverlayEntries g ea Length infoClass single False enumDir w
        (buf, None, Some ov, kStatusNoMoreFiles) = (b, i, o', r)" by (metis prod_cases4)
    obtain ov' where frame: "o' = Some ov'" "ho_Policy ov' = ho_Policy ov" "ho_Type ov' = ho_Type ov"
      "EnumerationHasBeenReported ov' = EnumerationHasBeenReported ov"
      by (rule InsertOverlayEntries_frame [OF call])
    have ask: "nt_ask g ea Length infoClass single enumDir w (buf, ov) =
        (if NT_SUCCESS r then walk_chain (unat Length) nameLenOff nameOff b 0 else [], b, ov')"
      using call frame(1) layout by (simp add: nt_ask_def)
    from InsertOverlayEntries_status_block [OF call, of iosb] frame(1) s obtain iosb' where
      "InsertOverlayEntries g ea Length infoClass single False enumDir w (buf, Some iosb, Some ov, status) =
         (b, Some iosb', Some ov', r)" by auto
    from that [OF this frame(2-4) nt_ask_step(1) [OF ok ask]] nt_ask_step(2,3) [OF ok ask] Nil s show thesis by simp
  qed
qed


section \<open>A caller's scan\<close>

text \<open>A handle to a directory that the hooks look after, with a buffer in which each overlay name fits.\<close>

definition hook_ok :: "'w hook_env \<Rightarrow> 'h \<Rightarrow> PolicyResult \<Rightarrow> u32 \<Rightarrow> u32 \<Rightarrow> bytes \<times> 'q \<times> 'h handle_overlays \<Rightarrow> bool" where
  "hook_ok env handle policy Length infoClass s \<longleftrightarrow>
     (case s of (buf, q, overlays) \<Rightarrow>
        unat Length \<le> length buf \<and>
        (case overlays handle of
           None \<Rightarrow> False
         | Some ov \<Rightarrow>
             ho_Type ov = HT_Directory \<and> ho_Policy ov = policy \<and> \<not> leaves_alone (he_disabled env) (Some ov) \<and>
             (if ShouldWriteOverlay (g_fileAccessManifestExtraFlags (he_globals env))
              then nt_ok (he_globals env) (he_api env) Length infoClass (TranslatedPath policy) (he_world env) (buf, ov)
              else True)))"

text \<open>
  What is still to come: the names of the real batches that the filter lets through, then those of the
  overlay.
\<close>

definition hook_visible :: "'w hook_env \<Rightarrow> PolicyResult \<Rightarrow> wstr \<Rightarrow> bool" where
  "hook_visible env policy =
     (if ShouldFilterDirectoryEnumeration (g_fileAccessManifestExtraFlags (he_globals env))
      then he_visible env policy else (\<lambda>name. True))"

definition overlay_names :: "'w hook_env \<Rightarrow> PolicyResult \<Rightarrow> HandleOverlay \<Rightarrow> wstr list" where
  "overlay_names env policy ov =
     (if ShouldWriteOverlay (g_fileAccessManifestExtraFlags (he_globals env))
      then pending_scan (he_globals env) (he_api env) (TranslatedPath policy) (he_world env) ov else [])"

definition hook_pending :: "'w hook_env \<Rightarrow> 'h \<Rightarrow> PolicyResult \<Rightarrow> ('q \<Rightarrow> dir_record list list) \<Rightarrow>
    bytes \<times> 'q \<times> 'h handle_overlays \<Rightarrow> wstr list" where
  "hook_pending env handle policy left s =
     (case s of (buf, q, overlays) \<Rightarrow>
        shown_names (hook_visible env policy) (left q) @ overlay_names env policy (the (overlays handle)))"

text \<open>What the caller reads after a call.\<close>

definition read_names :: "u32 \<Rightarrow> u32 \<Rightarrow> bool \<Rightarrow> bytes \<Rightarrow> wstr list" where
  "read_names infoClass Length success buf =
     (case TryGetDirInfoLayout infoClass of
        Some (nameLenOff, nameOff) \<Rightarrow> if success then walk_chain (unat Length) nameLenOff nameOff buf 0 else []
      | None \<Rightarrow> [])"

lemma overlay_names_started [simp]:
  "overlay_names env policy (EnsureOverlayEnumSnapshot (he_globals env) (he_api env) (TranslatedPath policy)
     (he_world env) ov) = overlay_names env policy ov"
  by (simp add: overlay_names_def pending_scan_def EnsureOverlayEnumSnapshot_started)

lemma leaves_alone_overlay:
  "\<not> leaves_alone disabled (Some ov) \<Longrightarrow> \<not> EnumerationHasBeenReported ov \<and> \<not> disabled"
  "ho_Policy ov' = ho_Policy ov \<Longrightarrow> EnumerationHasBeenReported ov' = EnumerationHasBeenReported ov \<Longrightarrow>
     leaves_alone disabled (Some ov') = leaves_alone disabled (Some ov)"
  by (simp_all add: leaves_alone_def)

lemma hook_okD:
  assumes "hook_ok env handle policy Length infoClass (buf, q, overlays)"
  obtains ov where "overlays handle = Some ov" "ho_Type ov = HT_Directory" "ho_Policy ov = policy"
    "\<not> leaves_alone (he_disabled env) (Some ov)" "unat Length \<le> length buf"
    "ShouldWriteOverlay (g_fileAccessManifestExtraFlags (he_globals env)) \<longrightarrow>
       nt_ok (he_globals env) (he_api env) Length infoClass (TranslatedPath policy) (he_world env) (buf, ov)"
  using assms by (auto simp: hook_ok_def split: option.splits if_splits)

text \<open>The splice of either hook, or its absence, after the filter has given \<open>shown_batches\<close>.\<close>

lemma hook_splice_step:
  fixes env :: "'w hook_env" and policy :: PolicyResult and ov :: HandleOverlay
  defines "wo \<equiv> ShouldWriteOverlay (g_fileAccessManifestExtraFlags (he_globals env))"
  assumes layout: "TryGetDirInfoLayout infoClass = Some (nameLenOff, nameOff)"
    and ok: "wo \<longrightarrow> nt_ok (he_globals env) (he_api env) Length infoClass (TranslatedPath policy) (he_world env) (buf, ov)"
    and given: "gives nameLenOff nameOff Length left (shown_batches (hook_visible env policy) bs) status buf q"
  obtains buf' iosb' ov' status' where
    "(if wo then InsertOverlayEntries (he_globals env) (he_api env) Length infoClass single False
        (TranslatedPath policy) (he_world env) (buf, Some iosb, Some ov, status)
      else (buf, Some iosb, Some ov, status)) = (buf', Some iosb', Some ov', status')"
    "ho_Policy ov' = ho_Policy ov" "ho_Type ov' = ho_Type ov"
    "EnumerationHasBeenReported ov' = EnumerationHasBeenReported ov" "unat Length \<le> length buf'"
    "wo \<longrightarrow> nt_ok (he_globals env) (he_api env) Length infoClass (TranslatedPath policy) (he_world env) (buf', ov')"
    "shown_names (hook_visible env policy) bs @ overlay_names env policy ov =
       read_names infoClass Length (NT_SUCCESS status') buf' @
       shown_names (hook_visible env policy) (left q) @ overlay_names env policy ov'"
    "read_names infoClass Length (NT_SUCCESS status') buf' = [] \<longrightarrow>
       shown_names (hook_visible env policy) bs @ overlay_names env policy ov = []"
    "NT_SUCCESS status \<longrightarrow> status' = status"
proof -
  let ?bs = "shown_batches (hook_visible env policy) bs"
  let ?names = "\<lambda>bs. shown_names (hook_visible env policy) bs"
  have nameOff: "4 \<le> nameOff" using TryGetDirInfoLayout_bounds [OF layout] by simp
  have walked: "(if NT_SUCCESS status then walk_chain (unat Length) nameLenOff nameOff buf 0 else []) =
      (case ?bs of [] \<Rightarrow> [] | recs # rest \<Rightarrow> map snd recs)"
    by (rule gives_walked [OF given nameOff])
  have len: "unat Length \<le> length buf" using given by (simp add: gives_def)
  have names: "?names bs = (case ?bs of [] \<Rightarrow> [] | recs # rest \<Rightarrow> map snd recs) @ ?names (left q)"
    using given shown_names_batches [of "hook_visible env policy" bs]
    by (cases ?bs) (auto simp: gives_def shown_names_def)
  have nonempty: "(case ?bs of [] \<Rightarrow> [] | recs # rest \<Rightarrow> map snd recs) = [] \<Longrightarrow> ?bs = [] \<and> left q = []"
    using given by (cases ?bs) (auto simp: gives_def dir_chain_def)
  show thesis
  proof (cases wo)
    case True
    with ok have ok: "nt_ok (he_globals env) (he_api env) Length infoClass (TranslatedPath policy) (he_world env) (buf, ov)"
      by simp
    obtain buf' iosb' ov' status' where step:
      "InsertOverlayEntries (he_globals env) (he_api env) Length infoClass single False (TranslatedPath policy)
         (he_world env) (buf, Some iosb, Some ov, status) = (buf', Some iosb', Some ov', status')"
      "ho_Policy ov' = ho_Policy ov" "ho_Type ov' = ho_Type ov"
      "EnumerationHasBeenReported ov' = EnumerationHasBeenReported ov"
      "nt_ok (he_globals env) (he_api env) Length infoClass (TranslatedPath policy) (he_world env) (buf', ov')"
      "(case ?bs of [] \<Rightarrow> [] | recs # rest \<Rightarrow> map snd recs) @ overlay_names env policy ov =
         read_names infoClass Length (NT_SUCCESS status') buf' @ overlay_names env policy ov'"
      "read_names infoClass Length (NT_SUCCESS status') buf' = [] \<Longrightarrow> ?bs = [] \<and> overlay_names env policy ov = []"
      "NT_SUCCESS status \<Longrightarrow> status' = status"
      using splice_step [OF layout ok given, of single iosb thesis] True
      by (simp add: overlay_names_def read_names_def layout wo_def)
    have len': "unat Length \<le> length buf'" using step(5) by (simp add: nt_ok_def)
    have all: "?names bs @ overlay_names env policy ov = read_names infoClass Length (NT_SUCCESS status') buf' @
        ?names (left q) @ overlay_names env policy ov'"
    proof (cases ?bs)
      case Nil
      then have "?names (left q) = []" using given by (simp add: gives_def shown_names_def)
      with Nil names step(6) show ?thesis by simp
    next
      case (Cons recs rest)
      then have s: "NT_SUCCESS status" using given by (simp add: gives_def)
      have dir: "TranslatedPath policy = [] \<or>
          OverlayIsDirectory (fa_attributes (ea_files (he_api env)) (he_world env)) (ext_prefix @ TranslatedPath policy)"
        using ok by (simp add: nt_ok_def)
      have same: "buf' = buf" "status' = status" "overlay_names env policy ov' = overlay_names env policy ov"
        using step(1) unfolding InsertOverlayEntries_success [OF layout s dir] by auto
      with step(6) names Cons show ?thesis by simp
    qed
    have empty: "?names bs @ overlay_names env policy ov = []"
      if "read_names infoClass Length (NT_SUCCESS status') buf' = []"
      using step(7) [OF that] names given by (simp add: gives_def shown_names_def)
    show thesis
      by (rule that [of buf' iosb' ov' status']) (use True step(1-5,8) len' all empty in simp_all)
  next
    case False
    then show thesis
      using names nonempty walked len
      by (intro that [of buf iosb ov status]) (auto simp: overlay_names_def wo_def read_names_def layout shown_names_def)
  qed
qed


text \<open>A call of each hook on such a handle, when reports are off.\<close>

lemma nt_hook_step:
  assumes layout: "TryGetDirInfoLayout infoClass = Some (nameLenOff, nameOff)"
    and real: "nt_scans nameLenOff nameOff Length (\<lambda>q. left (fst q)) (realFn False)"
    and quiet: "\<not> CheckReportAnyAccess (g_fileAccessManifestFlags (he_globals env)) False"
    and ok: "hook_ok env handle policy Length infoClass s"
  obtains status s' where
    "Detoured_NtQueryDirectoryFile env realFn handle Length infoClass single None False s = Some (Some (status, s'))"
    "hook_ok env handle policy Length infoClass s'"
    "hook_pending env handle policy (\<lambda>q. left (fst q)) s =
       read_names infoClass Length (NT_SUCCESS status) (fst s') @ hook_pending env handle policy (\<lambda>q. left (fst q)) s'"
    "read_names infoClass Length (NT_SUCCESS status) (fst s') = [] \<Longrightarrow> hook_pending env handle policy (\<lambda>q. left (fst q)) s = []"
proof -
  let ?g = "he_globals env"
  let ?loop = "ApplyEnumerationFilter_loop (he_visible env policy) (requery realFn (he_dosError env) False False Length) False infoClass Length"
  obtain buf q overlays where s: "s = (buf, q, overlays)" by (cases s)
  obtain ov where ov: "overlays handle = Some ov" "ho_Type ov = HT_Directory" "ho_Policy ov = policy"
    "\<not> leaves_alone (he_disabled env) (Some ov)" "unat Length \<le> length buf"
    "ShouldWriteOverlay (g_fileAccessManifestExtraFlags ?g) \<longrightarrow>
       nt_ok ?g (he_api env) Length infoClass (TranslatedPath policy) (he_world env) (buf, ov)"
    by (rule hook_okD [OF ok [unfolded s]])
  obtain status error buf1 q1 where call: "realFn False buf q = (status, error, buf1, q1)" by (metis prod_cases4)
  let ?st = "\<lparr>qs_world = q1, qs_buffer = buf1, qs_FileInformation = buf1, qs_result = status,
      qs_reportedError = he_dosError env status, qs_lastError = error\<rparr>"
  have given: "gives nameLenOff nameOff Length (\<lambda>q. left (fst q)) (left (fst q)) status buf1 q1" by (rule nt_scansD [OF real ov(5) call])
  obtain st where st: "(if ShouldFilterDirectoryEnumeration (g_fileAccessManifestExtraFlags ?g)
      then ?loop ?st else Some (Some ?st)) = Some (Some st)"
    "gives nameLenOff nameOff Length (\<lambda>q. left (fst q)) (shown_batches (hook_visible env policy) (left (fst q))) (qs_result st)
       (qs_FileInformation st) (qs_world st)"
    using nt_filter_gives [where realFn = realFn and flags = False and s = ?st and visible = "he_visible env policy" and dosError = "he_dosError env",
        OF layout real] given
    by (cases "ShouldFilterDirectoryEnumeration (g_fileAccessManifestExtraFlags ?g)")
      (auto simp: hook_visible_def shown_batches_all [OF given])
  have ok1: "ShouldWriteOverlay (g_fileAccessManifestExtraFlags ?g) \<longrightarrow>
      nt_ok ?g (he_api env) Length infoClass (TranslatedPath policy) (he_world env) (qs_FileInformation st, ov)"
    using ov(6) st(2) by (simp add: nt_ok_def gives_def layout)
  obtain buf' iosb' ov' status' where step:
    "(if ShouldWriteOverlay (g_fileAccessManifestExtraFlags ?g)
      then InsertOverlayEntries ?g (he_api env) Length infoClass single False (TranslatedPath policy) (he_world env)
        (qs_FileInformation st, Some (snd (qs_world st)), Some ov, qs_result st)
      else (qs_FileInformation st, Some (snd (qs_world st)), Some ov, qs_result st)) = (buf', Some iosb', Some ov', status')"
    "ho_Policy ov' = ho_Policy ov" "ho_Type ov' = ho_Type ov"
    "EnumerationHasBeenReported ov' = EnumerationHasBeenReported ov" "unat Length \<le> length buf'"
    "ShouldWriteOverlay (g_fileAccessManifestExtraFlags ?g) \<longrightarrow>
       nt_ok ?g (he_api env) Length infoClass (TranslatedPath policy) (he_world env) (buf', ov')"
    "shown_names (hook_visible env policy) (left (fst q)) @ overlay_names env policy ov =
       read_names infoClass Length (NT_SUCCESS status') buf' @
       shown_names (hook_visible env policy) (left (fst (qs_world st))) @ overlay_names env policy ov'"
    "read_names infoClass Length (NT_SUCCESS status') buf' = [] \<longrightarrow>
       shown_names (hook_visible env policy) (left (fst q)) @ overlay_names env policy ov = []"
    by (rule hook_splice_step [OF layout ok1 st(2), where single = single and iosb = "snd (qs_world st)"])
  have unreported: "EnumerationHasBeenReported ov' = False" using step(4) leaves_alone_overlay(1) [OF ov(4)] by simp
  then have same: "ov'\<lparr>EnumerationHasBeenReported := False\<rparr> = ov'" by simp
  let ?s' = "(buf', (fst (qs_world st), iosb'), overlays(handle \<mapsto> ov'))"
  have "show_entries env (\<lambda>visible. ApplyEnumerationFilterNt visible realFn (he_dosError env) False infoClass Length)
      Length infoClass single None False ov ?st = Some (Some (status', buf', (fst (qs_world st), iosb'), ov'))"
  proof (cases "ShouldWriteOverlay (g_fileAccessManifestExtraFlags ?g)")
    case True
    with st(1) step(1) quiet same show ?thesis
      unfolding show_entries_def Let_def ov(3) ApplyEnumerationFilterNt_def
      by (simp add: CaptureOverlayEnumFilter_def ShouldReport_def access_check_def)
  next
    case False
    moreover from this step(1) have "qs_world st = (fst (qs_world st), iosb')" by (simp add: prod_eq_iff)
    ultimately show ?thesis
      using st(1) step(1) quiet same
      unfolding show_entries_def Let_def ov(3) ApplyEnumerationFilterNt_def
      by (simp add: ShouldReport_def access_check_def)
  qed
  then have "Detoured_NtQueryDirectoryFile env realFn handle Length infoClass single None False s = Some (Some (status', ?s'))"
    unfolding Detoured_NtQueryDirectoryFile_def query_hook_def s Let_def prod.case TryLookupHandleOverlay_def ov(1) call option.case
    using ov(2,4) by simp
  moreover have "hook_ok env handle policy Length infoClass ?s'"
    using step(2-6) ov leaves_alone_overlay(2) [OF step(2,4)] by (simp add: hook_ok_def)
  ultimately show thesis
    by (rule that) (use step(7,8) ov(1) in \<open>simp_all add: hook_pending_def s\<close>)
qed


lemma handle_hook_step:
  assumes mapped: "TryMapHandleDirInfoClass cls = Some (infoClass, cls)"
    and layout: "TryGetDirInfoLayout infoClass = Some (nameLenOff, nameOff)"
    and real: "handle_scans nameLenOff nameOff Length left (realFn cls)"
    and ok: "hook_ok env handle policy Length infoClass s"
  obtains result error buf' q' overlays' where
    "Detoured_GetFileInformationByHandleEx env realFn False handle cls Length s =
       Some (Some (result, error, buf', q', overlays'))"
    "hook_ok env handle policy Length infoClass (buf', q', overlays')"
    "hook_pending env handle policy left s =
       read_names infoClass Length result buf' @ hook_pending env handle policy left (buf', q', overlays')"
    "read_names infoClass Length result buf' = [] \<Longrightarrow> hook_pending env handle policy left s = []"
proof -
  let ?g = "he_globals env"
  let ?filter = "ShouldFilterDirectoryEnumeration (g_fileAccessManifestExtraFlags ?g)"
  let ?wo = "ShouldWriteOverlay (g_fileAccessManifestExtraFlags ?g)"
  let ?status = "\<lambda>result. if result then kStatusSuccess else kStatusNoMoreFiles"
  obtain buf q overlays where s: "s = (buf, q, overlays)" by (cases s)
  obtain ov where ov: "overlays handle = Some ov" "ho_Type ov = HT_Directory" "ho_Policy ov = policy"
    "\<not> leaves_alone (he_disabled env) (Some ov)" "unat Length \<le> length buf"
    "?wo \<longrightarrow> nt_ok ?g (he_api env) Length infoClass (TranslatedPath policy) (he_world env) (buf, ov)"
    by (rule hook_okD [OF ok [unfolded s]])
  have restart: "cls \<noteq> 11" "cls \<noteq> 15" using mapped by (auto simp: TryMapHandleDirInfoClass_def split: if_splits)
  obtain r e b1 q1 where call: "realFn cls buf q = (r, e, b1, q1)" by (metis prod_cases4)
  have given: "gives nameLenOff nameOff Length left (left q) (?status r) b1 q1" and err: "r \<or> e = ERROR_NO_MORE_FILES"
    using handle_scansD [OF real ov(5) call] by simp_all
  have "\<exists>r' e' b' q'. (if r \<and> ?filter
      then handle_filter_loop (he_visible env policy) (realFn cls) infoClass Length (r, e, b1, q1)
      else Some (Some (r, e, b1, q1))) = Some (Some (r', e', b', q')) \<and> (r' \<or> e' = ERROR_NO_MORE_FILES) \<and>
    gives nameLenOff nameOff Length left (shown_batches (hook_visible env policy) (left q)) (?status r') b' q'"
  proof (cases "r \<and> ?filter")
    case True
    then obtain recs rest where "left q = recs # rest" using given by (cases "left q") (auto simp: gives_def)
    with True given handle_filter_gives [OF layout real, of recs rest b1 q1 "he_visible env policy" e] show ?thesis
      by (simp add: hook_visible_def)
  next
    case False
    then have "shown_batches (hook_visible env policy) (left q) = left q"
      using shown_batches_all [OF given] given
      by (cases "?filter") (auto simp: hook_visible_def gives_def shown_batches_def split: list.splits)
    with False given err show ?thesis by auto
  qed
  then obtain r' e' b' q' where filtered: "(if r \<and> ?filter
      then handle_filter_loop (he_visible env policy) (realFn cls) infoClass Length (r, e, b1, q1)
      else Some (Some (r, e, b1, q1))) = Some (Some (r', e', b', q'))" "r' \<or> e' = ERROR_NO_MORE_FILES"
    "gives nameLenOff nameOff Length left (shown_batches (hook_visible env policy) (left q)) (?status r') b' q'"
    by blast
  have ok1: "?wo \<longrightarrow> nt_ok ?g (he_api env) Length infoClass (TranslatedPath policy) (he_world env) (b', ov)"
    using ov(6) filtered(3) by (simp add: nt_ok_def gives_def layout)
  obtain buf' iosb' ov' status' where step:
    "(if ?wo then InsertOverlayEntries ?g (he_api env) Length infoClass False False (TranslatedPath policy) (he_world env)
        (b', Some (?status r', 0), Some ov, ?status r')
      else (b', Some (?status r', 0), Some ov, ?status r')) = (buf', Some iosb', Some ov', status')"
    "ho_Policy ov' = ho_Policy ov" "ho_Type ov' = ho_Type ov"
    "EnumerationHasBeenReported ov' = EnumerationHasBeenReported ov" "unat Length \<le> length buf'"
    "?wo \<longrightarrow> nt_ok ?g (he_api env) Length infoClass (TranslatedPath policy) (he_world env) (buf', ov')"
    "shown_names (hook_visible env policy) (left q) @ overlay_names env policy ov =
       read_names infoClass Length (NT_SUCCESS status') buf' @
       shown_names (hook_visible env policy) (left q') @ overlay_names env policy ov'"
    "read_names infoClass Length (NT_SUCCESS status') buf' = [] \<longrightarrow>
       shown_names (hook_visible env policy) (left q) @ overlay_names env policy ov = []"
    "NT_SUCCESS (?status r') \<longrightarrow> status' = ?status r'"
    by (rule hook_splice_step [OF layout ok1 filtered(3), where single = False and iosb = "(?status r', 0)"])
  let ?result = "NT_SUCCESS status'" and ?error = "if NT_SUCCESS status' \<and> \<not> r' then ERROR_SUCCESS else e'"
  have result: "(NT_SUCCESS status' \<and> \<not> r') \<or> r' = NT_SUCCESS status'" using step(9) by (cases r') auto
  have "Detoured_GetFileInformationByHandleEx env realFn False handle cls Length s =
      Some (Some (?result, ?error, buf', q', overlays(handle \<mapsto> ov')))"
  proof (cases ?wo)
    case True
    then have "splice_by_handle env cls infoClass Length ov (r', e', b', q') = ((?result, ?error, buf', q'), ov')"
      using step(1) result filtered(2) restart ov(3) by (auto simp: splice_by_handle_def)
    with True filtered(1) show ?thesis
      unfolding Detoured_GetFileInformationByHandleEx_def s Let_def prod.case call mapped TryLookupHandleOverlay_def
        ov(1) option.case ov(3)
      by (simp add: ov(2))
  next
    case False
    with step(1) have "buf' = b'" "ov' = ov" "status' = ?status r'" by simp_all
    moreover have "overlays(handle \<mapsto> ov) = overlays" using ov(1) by auto
    ultimately show ?thesis
      using False filtered(1)
      unfolding Detoured_GetFileInformationByHandleEx_def s Let_def prod.case call mapped TryLookupHandleOverlay_def
        ov(1) option.case ov(3)
      by (cases r') (auto simp: ov(2) split: if_split_asm)
  qed
  moreover have "hook_ok env handle policy Length infoClass (buf', q', overlays(handle \<mapsto> ov'))"
    using step(2-6) ov leaves_alone_overlay(2) [OF step(2,4)] by (simp add: hook_ok_def)
  ultimately show thesis
    by (rule that) (use step(7,8) ov(1) in \<open>simp_all add: hook_pending_def s\<close>)
qed


text \<open>One call, as its caller sees it: the names read, and the state left.\<close>

definition nt_hook_ask :: "'w hook_env \<Rightarrow> (bool, 'q scan) query_api \<Rightarrow> 'h \<Rightarrow> u32 \<Rightarrow> u32 \<Rightarrow> bool \<Rightarrow> ('h, 'q) hook_state \<Rightarrow>
    wstr list \<times> ('h, 'q) hook_state" where
  "nt_hook_ask env realFn handle Length infoClass single s =
     (case Detoured_NtQueryDirectoryFile env realFn handle Length infoClass single None False s of
        Some (Some (status, s')) \<Rightarrow> (read_names infoClass Length (NT_SUCCESS status) (fst s'), s')
      | _ \<Rightarrow> ([], s))"

definition handle_hook_ask :: "'w hook_env \<Rightarrow> 'q handle_api \<Rightarrow> 'h \<Rightarrow> u32 \<Rightarrow> u32 \<Rightarrow> int \<Rightarrow> bytes \<times> 'q \<times> 'h handle_overlays \<Rightarrow>
    wstr list \<times> bytes \<times> 'q \<times> 'h handle_overlays" where
  "handle_hook_ask env realFn handle Length infoClass cls s =
     (case Detoured_GetFileInformationByHandleEx env realFn False handle cls Length s of
        Some (Some (result, error, s')) \<Rightarrow> (read_names infoClass Length result (fst s'), s')
      | _ \<Rightarrow> ([], s))"

definition nt_listing_ok :: "'w hook_env \<Rightarrow> (bool, 'q scan) query_api \<Rightarrow> 'h \<Rightarrow> PolicyResult \<Rightarrow> u32 \<Rightarrow> u32 \<Rightarrow>
    ('q \<Rightarrow> dir_record list list) \<Rightarrow> ('h, 'q) hook_state \<Rightarrow> bool" where
  "nt_listing_ok env realFn handle policy Length infoClass left s \<longleftrightarrow>
     \<not> CheckReportAnyAccess (g_fileAccessManifestFlags (he_globals env)) False \<and>
     hook_ok env handle policy Length infoClass s \<and>
     (case TryGetDirInfoLayout infoClass of
        Some (nameLenOff, nameOff) \<Rightarrow> nt_scans nameLenOff nameOff Length (\<lambda>q. left (fst q)) (realFn False)
      | None \<Rightarrow> False)"

definition handle_listing_ok :: "'w hook_env \<Rightarrow> 'q handle_api \<Rightarrow> 'h \<Rightarrow> PolicyResult \<Rightarrow> u32 \<Rightarrow> u32 \<Rightarrow> int \<Rightarrow>
    ('q \<Rightarrow> dir_record list list) \<Rightarrow> bytes \<times> 'q \<times> 'h handle_overlays \<Rightarrow> bool" where
  "handle_listing_ok env realFn handle policy Length infoClass cls left s \<longleftrightarrow>
     TryMapHandleDirInfoClass cls = Some (infoClass, cls) \<and>
     hook_ok env handle policy Length infoClass s \<and>
     (case TryGetDirInfoLayout infoClass of
        Some (nameLenOff, nameOff) \<Rightarrow> handle_scans nameLenOff nameOff Length left (realFn cls)
      | None \<Rightarrow> False)"

lemma nt_hook_ask_step:
  assumes "nt_listing_ok env realFn handle policy Length infoClass left s"
  shows "nt_listing_ok env realFn handle policy Length infoClass left (snd (nt_hook_ask env realFn handle Length infoClass single s))"
    and "hook_pending env handle policy (\<lambda>q. left (fst q)) s = fst (nt_hook_ask env realFn handle Length infoClass single s) @
      hook_pending env handle policy (\<lambda>q. left (fst q)) (snd (nt_hook_ask env realFn handle Length infoClass single s))"
    and "fst (nt_hook_ask env realFn handle Length infoClass single s) = [] \<Longrightarrow>
      hook_pending env handle policy (\<lambda>q. left (fst q)) s = []"
    and "\<exists>status s'. Detoured_NtQueryDirectoryFile env realFn handle Length infoClass single None False s = Some (Some (status, s'))"
proof -
  obtain nameLenOff nameOff where layout: "TryGetDirInfoLayout infoClass = Some (nameLenOff, nameOff)"
    and real: "nt_scans nameLenOff nameOff Length (\<lambda>q. left (fst q)) (realFn False)"
    and quiet: "\<not> CheckReportAnyAccess (g_fileAccessManifestFlags (he_globals env)) False"
    and ok: "hook_ok env handle policy Length infoClass s"
    using assms by (auto simp: nt_listing_ok_def split: option.splits)
  obtain status s' where step:
    "Detoured_NtQueryDirectoryFile env realFn handle Length infoClass single None False s = Some (Some (status, s'))"
    "hook_ok env handle policy Length infoClass s'"
    "hook_pending env handle policy (\<lambda>q. left (fst q)) s = read_names infoClass Length (NT_SUCCESS status) (fst s') @
       hook_pending env handle policy (\<lambda>q. left (fst q)) s'"
    "read_names infoClass Length (NT_SUCCESS status) (fst s') = [] \<Longrightarrow> hook_pending env handle policy (\<lambda>q. left (fst q)) s = []"
    by (rule nt_hook_step [where realFn = realFn and left = left and single = single, OF layout real quiet ok]) blast
  show "\<exists>status s'. Detoured_NtQueryDirectoryFile env realFn handle Length infoClass single None False s = Some (Some (status, s'))"
    by (intro exI) (rule step(1))
  show "nt_listing_ok env realFn handle policy Length infoClass left (snd (nt_hook_ask env realFn handle Length infoClass single s))"
    "hook_pending env handle policy (\<lambda>q. left (fst q)) s = fst (nt_hook_ask env realFn handle Length infoClass single s) @
      hook_pending env handle policy (\<lambda>q. left (fst q)) (snd (nt_hook_ask env realFn handle Length infoClass single s))"
    "fst (nt_hook_ask env realFn handle Length infoClass single s) = [] \<Longrightarrow>
      hook_pending env handle policy (\<lambda>q. left (fst q)) s = []"
    using step assms by (simp_all add: nt_hook_ask_def nt_listing_ok_def)
qed

interpretation nt_hook: cursor_listing "nt_listing_ok env realFn handle policy Length infoClass left"
    "hook_pending env handle policy (\<lambda>q. left (fst q))" "nt_hook_ask env realFn handle Length infoClass single"
  for env realFn handle policy Length infoClass left single
  by unfold_locales (rule nt_hook_ask_step; assumption)+

lemma handle_hook_ask_step:
  assumes "handle_listing_ok env realFn handle policy Length infoClass cls left s"
  shows "handle_listing_ok env realFn handle policy Length infoClass cls left
      (snd (handle_hook_ask env realFn handle Length infoClass cls s))"
    and "hook_pending env handle policy left s = fst (handle_hook_ask env realFn handle Length infoClass cls s) @
      hook_pending env handle policy left (snd (handle_hook_ask env realFn handle Length infoClass cls s))"
    and "fst (handle_hook_ask env realFn handle Length infoClass cls s) = [] \<Longrightarrow> hook_pending env handle policy left s = []"
proof -
  obtain nameLenOff nameOff where layout: "TryGetDirInfoLayout infoClass = Some (nameLenOff, nameOff)"
    and real: "handle_scans nameLenOff nameOff Length left (realFn cls)"
    and mapped: "TryMapHandleDirInfoClass cls = Some (infoClass, cls)"
    and ok: "hook_ok env handle policy Length infoClass s"
    using assms by (auto simp: handle_listing_ok_def split: option.splits)
  obtain result error buf' q' overlays' where step:
    "Detoured_GetFileInformationByHandleEx env realFn False handle cls Length s =
       Some (Some (result, error, buf', q', overlays'))"
    "hook_ok env handle policy Length infoClass (buf', q', overlays')"
    "hook_pending env handle policy left s =
       read_names infoClass Length result buf' @ hook_pending env handle policy left (buf', q', overlays')"
    "read_names infoClass Length result buf' = [] \<Longrightarrow> hook_pending env handle policy left s = []"
    by (rule handle_hook_step [where realFn = realFn and left = left, OF mapped layout real ok]) blast
  then show "handle_listing_ok env realFn handle policy Length infoClass cls left
      (snd (handle_hook_ask env realFn handle Length infoClass cls s))"
    "hook_pending env handle policy left s = fst (handle_hook_ask env realFn handle Length infoClass cls s) @
      hook_pending env handle policy left (snd (handle_hook_ask env realFn handle Length infoClass cls s))"
    "fst (handle_hook_ask env realFn handle Length infoClass cls s) = [] \<Longrightarrow> hook_pending env handle policy left s = []"
    using assms by (simp_all add: handle_hook_ask_def handle_listing_ok_def)
qed

interpretation handle_hook: cursor_listing "handle_listing_ok env realFn handle policy Length infoClass cls left"
    "hook_pending env handle policy left" "handle_hook_ask env realFn handle Length infoClass cls"
  for env realFn handle policy Length infoClass cls left
  by unfold_locales (rule handle_hook_ask_step; assumption)+

lemma shown_names_visible:
  "list_all (\<lambda>recs. visible (snd (hd recs))) bs \<Longrightarrow> shown_names visible bs = filter visible (map snd (concat bs))"
proof (induction bs)
  case (Cons recs bs)
  then show ?case
    by (cases recs) (auto simp: shown_names_def hidden_batch_iff shown_def filter_map comp_def)
qed (simp add: shown_names_def)


lemma overlay_names_fresh:
  assumes "ShouldWriteOverlay (g_fileAccessManifestExtraFlags (he_globals env))"
    and "fresh_scan (he_api env) (TranslatedPath policy) (he_world env) ov"
  shows "mset (overlay_names env policy ov) =
      mset (filter (\<lambda>nm. OverlayNameMatchesFilter (he_api env) nm (OverlayEnumFilter ov))
        (overlay_only (he_globals env) (he_api env) (TranslatedPath policy) (he_world env)))"
    and "distinct (ListBackingChildren (he_globals env) (ea_files (he_api env)) (TranslatedPath policy) (he_world env)) \<Longrightarrow>
      distinct (overlay_names env policy ov)"
proof -
  show "mset (overlay_names env policy ov) =
      mset (filter (\<lambda>nm. OverlayNameMatchesFilter (he_api env) nm (OverlayEnumFilter ov))
        (overlay_only (he_globals env) (he_api env) (TranslatedPath policy) (he_world env)))"
    using assms by (simp only: overlay_names_def if_True pending_scan_fresh)
  from mset_eq_imp_distinct_iff [OF this]
  show "distinct (ListBackingChildren (he_globals env) (ea_files (he_api env)) (TranslatedPath policy) (he_world env)) \<Longrightarrow>
      distinct (overlay_names env policy ov)"
    by (simp add: overlay_only_def)
qed


section \<open>Properties\<close>

text \<open>
  C11: what an action sees of a directory. A caller that repeats \<open>NtQueryDirectoryFile\<close> on the handle of a
  directory, without a pattern or a restart and with a buffer that holds each name, is given, where \<open>--trace\<close> is
  off, the names of each real batch that has a visible one, the hidden ones left out except those before the first
  visible one of the batch, which stay; and then names of the overlay. In a new scan of a
  directory that is real, these are the children that only the backing store has and that
  the handle's pattern admits, as often as the store lists them. No call fails to return. Where every batch begins with a
  visible entry the real names are exactly the visible ones, in the order of the file system.
\<close>
theorem hook_lists_merged_directory:
  assumes "nt_listing_ok env realFn handle policy Length infoClass left (buf, q, overlays)"
    and "overlays handle = Some ov"
    and "length (hook_pending env handle policy (\<lambda>q. left (fst q)) (buf, q, overlays)) \<le> n"
  shows "drain (nt_hook_ask env realFn handle Length infoClass single) n (buf, q, overlays) =
      shown_names (hook_visible env policy) (left (fst q)) @ overlay_names env policy ov \<and>
    (list_all (\<lambda>recs. hook_visible env policy (snd (hd recs))) (left (fst q)) \<longrightarrow>
      drain (nt_hook_ask env realFn handle Length infoClass single) n (buf, q, overlays) =
        filter (hook_visible env policy) (map snd (concat (left (fst q)))) @ overlay_names env policy ov) \<and>
    (ShouldWriteOverlay (g_fileAccessManifestExtraFlags (he_globals env)) \<and>
     fresh_scan (he_api env) (TranslatedPath policy) (he_world env) ov \<longrightarrow>
      mset (overlay_names env policy ov) =
        mset (filter (\<lambda>nm. OverlayNameMatchesFilter (he_api env) nm (OverlayEnumFilter ov))
          (overlay_only (he_globals env) (he_api env) (TranslatedPath policy) (he_world env))) \<and>
      (distinct (ListBackingChildren (he_globals env) (ea_files (he_api env)) (TranslatedPath policy) (he_world env)) \<longrightarrow>
        distinct (overlay_names env policy ov))) \<and>
    (\<exists>status s'. Detoured_NtQueryDirectoryFile env realFn handle Length infoClass single None False (buf, q, overlays) =
      Some (Some (status, s')))"
proof -
  have drained: "drain (nt_hook_ask env realFn handle Length infoClass single) n (buf, q, overlays) =
      shown_names (hook_visible env policy) (left (fst q)) @ overlay_names env policy ov"
    using nt_hook.drain_complete [OF assms(1,3), of single] assms(2) by (simp add: hook_pending_def)
  show ?thesis
    unfolding drained
    by (intro conjI impI nt_hook_ask_step(4) [OF assms(1)]) (simp_all add: shown_names_visible overlay_names_fresh)
qed

text \<open>
  C31: without \<open>--trace\<close> the two ways to list a directory agree. For the classes that both know,
  \<open>GetFileInformationByHandleEx\<close> gives the names that \<open>NtQueryDirectoryFile\<close> gives, in the same order, when the
  operating system gives both the same batches. With \<open>--trace\<close> they differ, as C32 shows of the latter.
\<close>
theorem handle_listing_agrees:
  assumes "nt_listing_ok env realFn handle policy Length infoClass left (buf, q, overlays)"
    and "handle_listing_ok env realFn' handle policy Length infoClass cls left' (buf', q', overlays)"
    and "left (fst q) = left' q'"
    and "length (hook_pending env handle policy left' (buf', q', overlays)) \<le> n"
  shows "drain (handle_hook_ask env realFn' handle Length infoClass cls) n (buf', q', overlays) =
    drain (nt_hook_ask env realFn handle Length infoClass single) n (buf, q, overlays)"
proof -
  have "hook_pending env handle policy (\<lambda>q. left (fst q)) (buf, q, overlays) =
      hook_pending env handle policy left' (buf', q', overlays)"
    using assms(3) by (simp add: hook_pending_def)
  then show ?thesis
    using nt_hook.drain_complete [OF assms(1), of n single] handle_hook.drain_complete [OF assms(2,4)] assms(4) by simp
qed


section \<open>An example\<close>

text \<open>A scan with \<open>n\<close> batches left, each with the names \<open>b\<close> and \<open>a\<close>, of which \<open>a\<close> is hidden.\<close>

definition example_query :: "(bool, nat scan) query_api" where
  "example_query restart b q =
     (if fst q = 0 then (kStatusNoMoreFiles, 18, b, q) else (kStatusSuccess, 0, example_listing, (fst q - 1, snd q)))"

definition listing_env :: "unit hook_env" where
  "listing_env = \<lparr>he_globals = example_globals\<lparr>g_fileAccessManifestExtraFlags := 0x1C00\<rparr>, he_api = example_api,
     he_world = (), he_visible = (\<lambda>policy name. name \<noteq> wide ''a''), he_dosError = (\<lambda>status. 18), he_disabled = False\<rparr>"

definition example_left :: "nat \<Rightarrow> dir_record list list" where
  "example_left n = replicate n [(0, wide ''b''), (16, wide ''a'')]"

definition example_state :: "(nat, nat) hook_state" where
  "example_state = (example_listing, (2, (0, 0)), [7 \<mapsto> example_overlay])"

lemma example_env_snapshot:
  "OverlayEnumSnapshot (EnsureOverlayEnumSnapshot (he_globals listing_env) (he_api listing_env) example_dir () example_overlay) =
     map wide [''B'', ''c'']"
  by code_simp

lemma example_hook_ok: "hook_ok listing_env 7 (example_result example_dir) 30 12 example_state"
proof -
  have dir: "OverlayIsDirectory (fa_attributes (ea_files (he_api listing_env)) (he_world listing_env))
      (ext_prefix @ TranslatedPath (example_result example_dir))" by code_simp
  have path: "TranslatedPath (example_result example_dir) = example_dir" "he_world listing_env = ()" by code_simp+
  have ov: "ho_Type example_overlay = HT_Directory" "ho_Policy example_overlay = example_result example_dir"
    by (simp_all add: example_overlay_def new_HandleOverlay_def)
  have alone: "\<not> leaves_alone (he_disabled listing_env) (Some example_overlay)" by code_simp
  have "nt_ok (he_globals listing_env) (he_api listing_env) 30 12 example_dir () (example_listing, example_overlay)"
    using dir unfolding path
    by (simp add: nt_ok_def example_env_snapshot TryGetDirInfoLayout_def) (simp add: example_listing_def)
  then show ?thesis
    using ov alone unfolding hook_ok_def example_state_def path by (simp add: example_listing_def)
qed

lemma example_scans:
  "nt_listing_ok listing_env example_query 7 (example_result example_dir) 30 12 example_left example_state"
proof -
  have "nt_scans 8 12 30 (\<lambda>q. example_left (fst q)) (example_query False)"
    unfolding nt_scans_def
  proof (intro allI impI)
    fix b :: bytes and q :: "nat scan"
    assume "unat (30 :: u32) \<le> length b"
    moreover have "unat (30 :: u32) \<le> length example_listing" by code_simp
    ultimately show "case example_query False b q of (status, error, b', q') \<Rightarrow>
        gives 8 12 30 (\<lambda>q. example_left (fst q)) (example_left (fst q)) status b' q'"
      using example_listing_chain
      by (cases "fst q") (simp_all add: example_query_def gives_def example_left_def)
  qed
  moreover have "\<not> CheckReportAnyAccess (g_fileAccessManifestFlags (he_globals listing_env)) False" by code_simp
  ultimately show ?thesis using example_hook_ok by (simp add: nt_listing_ok_def TryGetDirInfoLayout_def)
qed

lemma example_shown:
  "shown_names (hook_visible listing_env (example_result example_dir)) (example_left 2) = map wide [''b'', ''b'']"
  "overlay_names listing_env (example_result example_dir) example_overlay = map wide [''B'', ''c'']"
  by code_simp+

theorem hook_lists_merged_directory_witness:
  "drain (nt_hook_ask listing_env example_query 7 30 12 False) 4 example_state = map wide [''b'', ''b'', ''B'', ''c'']"
proof -
  have "length (hook_pending listing_env 7 (example_result example_dir) (\<lambda>q. example_left (fst q)) example_state) \<le> 4"
    by (simp add: hook_pending_def example_state_def example_shown)
  then show ?thesis
    using hook_lists_merged_directory [OF example_scans [unfolded example_state_def], of example_overlay 4 False]
    by (simp add: example_state_def example_shown)
qed

text \<open>
  A scan that gives the name \<open>b\<close> twice as \<open>FileFullDirectoryInformation\<close>, by \<open>NtQueryDirectoryFile\<close> and
  by handle.
\<close>

definition example_record :: bytes where
  "example_record = u32_le 0 @ replicate 56 0 @ u32_le 2 @ replicate 4 0 @ wchar_bytes (wide ''b'')"

definition full_query :: "(bool, nat scan) query_api" where
  "full_query restart b q =
     (if fst q = 0 then (kStatusNoMoreFiles, 18, b, q) else (kStatusSuccess, 0, example_record, (fst q - 1, snd q)))"

definition full_handle :: "nat handle_api" where
  "full_handle cls b q = (if q = 0 then (False, 18, b, q) else (True, 0, example_record, q - 1))"

definition full_left :: "nat \<Rightarrow> dir_record list list" where
  "full_left n = replicate n [(0, wide ''b'')]"

lemma example_record_chain: "dir_chain 60 68 (unat (70 :: u32)) example_record [(0, wide ''b'')]"
  by (simp add: dir_chain_def linked_def apart_def rec_ok_def rec_end_def) (intro conjI; code_simp)

lemma length_example_record [simp]: "length example_record = 70" by (simp add: example_record_def)

lemma full_ok: "hook_ok listing_env (7 :: nat) (example_result example_dir) 70 2 (example_record, q, [7 \<mapsto> example_overlay])"
proof -
  have dir: "OverlayIsDirectory (fa_attributes (ea_files (he_api listing_env)) (he_world listing_env))
      (ext_prefix @ TranslatedPath (example_result example_dir))" by code_simp
  have path: "TranslatedPath (example_result example_dir) = example_dir" "he_world listing_env = ()" by code_simp+
  have ov: "ho_Type example_overlay = HT_Directory" "ho_Policy example_overlay = example_result example_dir"
    by (simp_all add: example_overlay_def new_HandleOverlay_def)
  have alone: "\<not> leaves_alone (he_disabled listing_env) (Some example_overlay)" by code_simp
  have "nt_ok (he_globals listing_env) (he_api listing_env) 70 2 example_dir () (example_record, example_overlay)"
    using dir unfolding path by (simp add: nt_ok_def example_env_snapshot TryGetDirInfoLayout_def)
  then show ?thesis using ov alone unfolding hook_ok_def path by simp
qed

theorem handle_listing_agrees_witness:
  "drain (handle_hook_ask listing_env full_handle (7 :: nat) 70 2 14) 4 (example_record, 2, [7 \<mapsto> example_overlay]) =
     drain (nt_hook_ask listing_env full_query (7 :: nat) 70 2 True) 4 (example_record, (2, (0, 0)), [7 \<mapsto> example_overlay])"
proof (rule handle_listing_agrees [where left = full_left and left' = full_left and policy = "example_result example_dir"])
  have "nt_scans 60 68 70 (\<lambda>q. full_left (fst q)) (full_query False)"
    unfolding nt_scans_def
  proof (intro allI impI)
    fix b :: bytes and q :: "nat scan"
    assume "unat (70 :: u32) \<le> length b"
    then show "case full_query False b q of (status, error, b', q') \<Rightarrow>
        gives 60 68 70 (\<lambda>q. full_left (fst q)) (full_left (fst q)) status b' q'"
      using example_record_chain by (cases "fst q") (simp_all add: full_query_def gives_def full_left_def)
  qed
  moreover have "\<not> CheckReportAnyAccess (g_fileAccessManifestFlags (he_globals listing_env)) False" by code_simp
  ultimately show "nt_listing_ok listing_env full_query (7 :: nat) (example_result example_dir) 70 2 full_left
      (example_record, (2, (0, 0)), [7 \<mapsto> example_overlay])"
    using full_ok by (simp add: nt_listing_ok_def TryGetDirInfoLayout_def)
  have "handle_scans 60 68 70 full_left (full_handle 14)"
    unfolding handle_scans_def
  proof (intro allI impI)
    fix b :: bytes and q :: nat
    assume "unat (70 :: u32) \<le> length b"
    then show "case full_handle 14 b q of (result, error, b', q') \<Rightarrow> (result \<or> error = ERROR_NO_MORE_FILES) \<and>
        gives 60 68 70 full_left (full_left q) (if result then kStatusSuccess else kStatusNoMoreFiles) b' q'"
      using example_record_chain by (cases q) (simp_all add: full_handle_def gives_def full_left_def)
  qed
  then show "handle_listing_ok listing_env full_handle (7 :: nat) (example_result example_dir) 70 2 14 full_left
      (example_record, 2, [7 \<mapsto> example_overlay])"
    using full_ok by (simp add: handle_listing_ok_def TryGetDirInfoLayout_def TryMapHandleDirInfoClass_def)
  have "shown_names (hook_visible listing_env (example_result example_dir)) (full_left 2) = map wide [''b'', ''b'']"
    by code_simp
  then show "length (hook_pending listing_env (7 :: nat) (example_result example_dir) full_left
      (example_record, 2, [7 \<mapsto> example_overlay])) \<le> 4"
    by (simp add: hook_pending_def example_shown)
qed simp

end
