(* ===== verification/File_Hooks.thy ===== *)
theory File_Hooks
  imports Enum_Hooks
begin

text \<open>
  The hooks that take a path (\<open>vendor/detours-services/DetouredFunctions.cpp\<close>): opening, probing,
  deleting, creating and removing directories, copying and moving. A hook looks up the policy of its
  path, refuses, or calls the real function on the path or on its place in the overlay, and then
  looks at the result again. Windows is a record of functions on a world \<open>'w\<close>, handles are of type
  \<open>'h\<close>. Reports are left out; only what they leave behind as last error is kept.
\<close>

section \<open>Windows\<close>

text \<open>
  Each call gives its result, the last error and the world after it. \<open>fs_find\<close> is a whole search by
  \<open>FindFirstFileW\<close> and \<open>FindNextFileW\<close>: \<open>None\<close> where the first call fails, else the names with their
  attributes and the error that ended the search.
\<close>

record ('w, 'h) file_os =
  fs_files :: "'w file_api"
  fs_CreateFileW :: "wstr \<Rightarrow> u32 \<Rightarrow> u32 \<Rightarrow> u32 \<Rightarrow> u32 \<Rightarrow> 'w \<Rightarrow> 'h option \<times> u32 \<times> 'w"
  fs_CloseHandle :: "'h \<Rightarrow> 'w \<Rightarrow> bool \<times> u32 \<times> 'w"
  fs_attributesByHandle :: "'w \<Rightarrow> 'h \<Rightarrow> u32 option"
  fs_finalPath :: "'w \<Rightarrow> 'h \<Rightarrow> nat \<Rightarrow> nat \<times> wstr"
  fs_finalPathError :: u32
  fs_GetFileAttributesExW :: "'w \<Rightarrow> wstr \<Rightarrow> u32 \<Rightarrow> file_data option \<Rightarrow> bool \<times> u32 \<times> file_data option"
  fs_DeleteFileW :: "wstr \<Rightarrow> 'w \<Rightarrow> bool \<times> u32 \<times> 'w"
  fs_CreateDirectoryW :: "wstr \<Rightarrow> 'w \<Rightarrow> bool \<times> u32 \<times> 'w"
  fs_RemoveDirectoryW :: "wstr \<Rightarrow> 'w \<Rightarrow> bool \<times> u32 \<times> 'w"
  fs_CopyFileExW :: "u32 \<Rightarrow> wstr \<Rightarrow> wstr \<Rightarrow> 'w \<Rightarrow> bool \<times> u32 \<times> 'w"
  fs_MoveFileWithProgressW :: "u32 \<Rightarrow> wstr \<Rightarrow> wstr \<Rightarrow> 'w \<Rightarrow> bool \<times> u32 \<times> 'w"
  fs_find :: "'w \<Rightarrow> wstr \<Rightarrow> ((wstr \<times> u32) list \<times> u32) option"
  fs_normalize :: "wstr \<Rightarrow> wstr"

text \<open>
  What every hook is given: the manifest, parsed and as bytes, and Windows. \<open>fe_pathError\<close> is the last
  error after \<open>GetFullPathNameW\<close> has failed, \<open>fe_lastError\<close> the one that other calls happen to leave
  where the sources do not set it. The working directory of the process stands still.
\<close>

record ('w, 'h) file_env =
  fe_globals :: parsed_manifest
  fe_manifest :: bytes
  fe_fullPathName :: buffer_api
  fe_pathError :: u32
  fe_lastError :: u32
  fe_disabled :: bool
  fe_os :: "('w, 'h) file_os"

text \<open>The world and the registry of handles.\<close>

type_synonym ('w, 'h) file_state = "'w \<times> 'h handle_overlays"

abbreviation FILE_SHARE_READ :: u32 where "FILE_SHARE_READ \<equiv> 1"
abbreviation FILE_SHARE_DELETE :: u32 where "FILE_SHARE_DELETE \<equiv> 4"
abbreviation ATTRIBUTE_REPARSE_POINT :: u32 where "ATTRIBUTE_REPARSE_POINT \<equiv> 0x400"
abbreviation FILE_FLAG_OPEN_REPARSE_POINT :: u32 where "FILE_FLAG_OPEN_REPARSE_POINT \<equiv> 0x00200000"
abbreviation MOVEFILE_COPY_ALLOWED :: u32 where "MOVEFILE_COPY_ALLOWED \<equiv> 2"
abbreviation INVALID_FILE_ATTRIBUTES :: u32 where "INVALID_FILE_ATTRIBUTES \<equiv> 0xFFFFFFFF"


section \<open>Shared steps\<close>

text \<open>The calls that are passed on untouched.\<close>

definition leave_path :: "('w, 'h) file_env \<Rightarrow> wstr \<Rightarrow> bool" where
  "leave_path env p \<longleftrightarrow> fe_disabled env \<or> p = [] \<or> IsSpecialDeviceName p"

text \<open>The name with which a hook goes on, after the reverse mapping.\<close>

definition mapped_name :: "('w, 'h) file_env \<Rightarrow> 'w \<Rightarrow> wstr \<Rightarrow> wstr" where
  "mapped_name env w p =
     (case ReverseMapWin32Path (fe_globals env) (fe_fullPathName env) (fa_attributes (fs_files (fe_os env)) w) p of
        Some virt \<Rightarrow> virt
      | None \<Rightarrow> p)"

text \<open>\<open>None\<close> is a read outside the manifest; \<open>fail\<close> is what follows a path without a policy.\<close>

definition with_policy :: "('w, 'h) file_env \<Rightarrow> wstr \<Rightarrow> 'r \<Rightarrow> (PolicyResult \<Rightarrow> 'r option) \<Rightarrow> 'r option" where
  "with_policy env p fail k =
     (case Initialize (fe_fullPathName env) (fe_pathError env) (fe_manifest env) (g_manifestTreeRoot (fe_globals env)) p of
        None \<Rightarrow> None
      | Some None \<Rightarrow> Some fail
      | Some (Some pr) \<Rightarrow> k pr)"

definition checks_in :: "('w, 'h) file_env \<Rightarrow> 'w \<Rightarrow> check_env" where
  "checks_in env w = process_env (fe_globals env) (fa_attributes (fs_files (fe_os env)) w)"

definition mask_reads :: "('w, 'h) file_env \<Rightarrow> bool" where
  "mask_reads env = ShouldDeniedReadsAsNotFound (g_fileAccessManifestExtraFlags (fe_globals env))"

definition GetReportedError :: "bool \<Rightarrow> u32 \<Rightarrow> u32" where
  "GetReportedError result error = (if result then ERROR_SUCCESS else error)"

definition attribute_word :: "u32 + u32 \<Rightarrow> u32" where
  "attribute_word a = (case a of Inl error \<Rightarrow> INVALID_FILE_ATTRIBUTES | Inr attributes \<Rightarrow> attributes)"

definition IsDirectoryFromAttributes :: "u32 \<Rightarrow> bool \<Rightarrow> bool" where
  "IsDirectoryFromAttributes attributes treatReparsePointAsFile =
     (let isDirectory = (attributes \<noteq> INVALID_FILE_ATTRIBUTES \<and> attributes AND FILE_ATTRIBUTE_DIRECTORY \<noteq> 0)
      in isDirectory \<and> (\<not> treatReparsePointAsFile \<or> attributes AND ATTRIBUTE_REPARSE_POINT = 0))"

definition IsHandleOrPathToDirectory :: "('w, 'h) file_env \<Rightarrow> 'h option \<Rightarrow> wstr \<Rightarrow> bool \<Rightarrow> 'w \<Rightarrow> bool" where
  "IsHandleOrPathToDirectory env hFile lpFileName treatReparsePointAsFile w =
     (let fromHandle = Option.bind hFile (fs_attributesByHandle (fe_os env) w);
          attributes = (case fromHandle of
             Some attributes \<Rightarrow> attributes
           | None \<Rightarrow> attribute_word (fa_attributes (fs_files (fe_os env)) w lpFileName))
      in IsDirectoryFromAttributes attributes treatReparsePointAsFile)"

text \<open>\<open>GetFinalPathNameByHandleW\<close> of one handle, from the size of the buffer.\<close>

definition DetourGetFinalPathByHandle :: "(nat \<Rightarrow> nat \<times> wstr) \<Rightarrow> u32 \<Rightarrow> u32 \<times> wstr" where
  "DetourGetFinalPathByHandle finalPath lastError =
     (let (result, buf) = finalPath MAX_PATH
      in if result = 0 then (lastError, [])
         else if result < MAX_PATH then (ERROR_SUCCESS, take result buf)
         else (let (next_result, buffer) = finalPath result
               in if next_result = 0 then (lastError, [])
                  else if next_result < result then (ERROR_SUCCESS, take next_result buffer)
                  else (ERROR_NOT_ENOUGH_MEMORY, [])))"


section \<open>CreateFileW\<close>

definition write_check :: "('w, 'h) file_env \<Rightarrow> PolicyResult \<Rightarrow> u32 \<Rightarrow> 'w \<Rightarrow> AccessCheckResult" where
  "write_check env pr dwDesiredAccess w =
     (if WantsWriteAccess dwDesiredAccess then CheckWriteAccess (checks_in env w) False pr
      else access_check Access_None Allow Ignore Valid)"

text \<open>The real call, with the sharing that tracked files get and on the path that the overlay picks.\<close>

definition open_resolved :: "('w, 'h) file_env \<Rightarrow> PolicyResult \<Rightarrow> AccessCheckResult \<Rightarrow> wstr \<Rightarrow> u32 \<Rightarrow> u32 \<Rightarrow> u32 \<Rightarrow> u32 \<Rightarrow>
    'w \<Rightarrow> 'h option \<times> u32 \<times> 'w" where
  "open_resolved env pr accessCheck lpFileName dwDesiredAccess dwShareMode dwCreationDisposition dwFlagsAndAttributes w =
     (let sharedAccess =
            (if \<not> IndicateUntracked pr
             then dwShareMode OR (if ShouldForceReadSharing (checks_in env w) accessCheck pr then FILE_SHARE_READ else 0)
                    OR FILE_SHARE_DELETE
             else dwShareMode);
          (overlayOpenPath, w) =
            ResolveOverlayOpenPath (fe_globals env) (fs_files (fe_os env)) pr dwDesiredAccess dwCreationDisposition w
      in fs_CreateFileW (fe_os env) (if overlayOpenPath = [] then lpFileName else overlayOpenPath)
           dwDesiredAccess sharedAccess dwCreationDisposition dwFlagsAndAttributes w)"

definition open_context :: "('w, 'h) file_env \<Rightarrow> wstr \<Rightarrow> 'h option \<Rightarrow> u32 \<Rightarrow> 'w \<Rightarrow> FileReadContext" where
  "open_context env lpFileName handle error w =
     InferExistenceFromError (GetReportedError (handle \<noteq> None) error)
       \<lparr>Existence = Nonexistent, OpenedDirectory = IsHandleOrPathToDirectory env handle lpFileName False w\<rparr>"

definition open_check :: "('w, 'h) file_env \<Rightarrow> PolicyResult \<Rightarrow> AccessCheckResult \<Rightarrow> u32 \<Rightarrow> FileReadContext \<Rightarrow> 'w \<Rightarrow>
    AccessCheckResult" where
  "open_check env pr accessCheck dwDesiredAccess readContext w =
     (if WantsReadAccess dwDesiredAccess
      then Combine accessCheck (CheckReadAccess (checks_in env w) RRA_Read readContext pr)
      else if WantsProbeOnlyAccess dwDesiredAccess
      then Combine accessCheck (CheckReadAccess (checks_in env w) RRA_Probe readContext pr)
      else accessCheck)"

text \<open>A read that is denied on its path is allowed when the handle turns out to be a declared input.\<close>

definition resolved_check :: "('w, 'h) file_env \<Rightarrow> AccessCheckResult \<Rightarrow> 'h \<Rightarrow> u32 \<Rightarrow> FileReadContext \<Rightarrow> 'w \<Rightarrow>
    AccessCheckResult option" where
  "resolved_check env accessCheck handle dwDesiredAccess readContext w =
     (let (error, resolvedPath) = DetourGetFinalPathByHandle (fs_finalPath (fe_os env) w handle) (fs_finalPathError (fe_os env))
      in if error = ERROR_SUCCESS \<and> resolvedPath \<noteq> []
         then with_policy env resolvedPath accessCheck (\<lambda>resolvedPolicy.
                (let requested = (if WantsReadAccess dwDesiredAccess then RRA_Read else RRA_Probe);
                     resolvedCheck = CheckReadAccess (checks_in env w) requested readContext resolvedPolicy
                 in Some (if \<not> ShouldDenyAccess resolvedCheck \<and> IsDeclaredInput resolvedPolicy
                          then resolvedCheck else accessCheck)))
         else Some accessCheck)"

definition finish_open :: "('w, 'h) file_env \<Rightarrow> PolicyResult \<Rightarrow> AccessCheckResult \<Rightarrow> 'h option \<Rightarrow> u32 \<Rightarrow> FileReadContext \<Rightarrow>
    ('w, 'h) file_state \<Rightarrow> 'h option \<times> u32 \<times> ('w, 'h) file_state" where
  "finish_open env pr accessCheck handle error readContext s =
     (let (w, overlays) = s
      in if ShouldDenyAccess accessCheck
         then (None, DenialError_masked (mask_reads env) accessCheck,
               (case handle of None \<Rightarrow> w | Some h \<Rightarrow> snd (snd (fs_CloseHandle (fe_os env) h w))), overlays)
         else (case handle of
                 None \<Rightarrow> (None, error, w, overlays)
               | Some h \<Rightarrow>
                   (Some h, error, w,
                    RegisterHandleOverlay h accessCheck pr (if OpenedDirectory readContext then HT_Directory else HT_File)
                      overlays)))"

text \<open>What follows the check of a write.\<close>

definition open_granted :: "('w, 'h) file_env \<Rightarrow> PolicyResult \<Rightarrow> AccessCheckResult \<Rightarrow> wstr \<Rightarrow> u32 \<Rightarrow> u32 \<Rightarrow> u32 \<Rightarrow> u32 \<Rightarrow>
    ('w, 'h) file_state \<Rightarrow> ('h option \<times> u32 \<times> ('w, 'h) file_state) option" where
  "open_granted env pr accessCheck lpFileName dwDesiredAccess dwShareMode dwCreationDisposition dwFlagsAndAttributes s =
     (let (w, overlays) = s;
          (handle, error, w) = open_resolved env pr accessCheck lpFileName dwDesiredAccess
             dwShareMode dwCreationDisposition dwFlagsAndAttributes w;
          readContext = open_context env lpFileName handle error w;
          accessCheck = open_check env pr accessCheck dwDesiredAccess readContext w;
          isHandleToReparsePoint = (dwFlagsAndAttributes AND FILE_FLAG_OPEN_REPARSE_POINT \<noteq> 0);
          finalCheck =
            (case handle of
               Some h \<Rightarrow>
                 if ShouldDenyAccess accessCheck \<and> \<not> WantsWriteAccess dwDesiredAccess \<and>
                    (WantsReadAccess dwDesiredAccess \<or> WantsProbeOnlyAccess dwDesiredAccess) \<and>
                    \<not> isHandleToReparsePoint
                 then resolved_check env accessCheck h dwDesiredAccess readContext w
                 else Some accessCheck
             | None \<Rightarrow> Some accessCheck)
      in map_option (\<lambda>accessCheck. finish_open env pr accessCheck handle error readContext (w, overlays)) finalCheck)"

text \<open>Returns the handle and the last error.\<close>

definition Detoured_CreateFileW :: "('w, 'h) file_env \<Rightarrow> wstr \<Rightarrow> u32 \<Rightarrow> u32 \<Rightarrow> u32 \<Rightarrow> u32 \<Rightarrow> ('w, 'h) file_state \<Rightarrow>
    ('h option \<times> u32 \<times> ('w, 'h) file_state) option" where
  "Detoured_CreateFileW env lpFileName dwDesiredAccess dwShareMode dwCreationDisposition dwFlagsAndAttributes s =
     (let (w, overlays) = s
      in if leave_path env lpFileName
         then (let (handle, error, w) = fs_CreateFileW (fe_os env) lpFileName dwDesiredAccess dwShareMode
                     dwCreationDisposition dwFlagsAndAttributes w
               in Some (handle, error, w, overlays))
         else (let lpFileName = mapped_name env w lpFileName
               in with_policy env lpFileName (None, fe_lastError env, w, overlays) (\<lambda>pr.
                    (let accessCheck = write_check env pr dwDesiredAccess w
                     in if ShouldDenyAccess accessCheck
                        then Some (None, DenialError_masked (mask_reads env) accessCheck, w, overlays)
                        else open_granted env pr accessCheck lpFileName dwDesiredAccess dwShareMode
                               dwCreationDisposition dwFlagsAndAttributes (w, overlays)))))"

text \<open>\<open>invalid\<close>: the handle is null or invalid.\<close>

definition Detoured_CloseHandle :: "('w, 'h) file_env \<Rightarrow> bool \<Rightarrow> 'h \<Rightarrow> ('w, 'h) file_state \<Rightarrow>
    bool \<times> u32 \<times> ('w, 'h) file_state" where
  "Detoured_CloseHandle env invalid handle s =
     (let (w, overlays) = s;
          overlays = (if fe_disabled env \<or> invalid then overlays else CloseHandleOverlay handle overlays);
          (result, error, w) = fs_CloseHandle (fe_os env) handle w
      in (result, error, w, overlays))"


section \<open>Probing\<close>

text \<open>The attributes, or the last error.\<close>

definition Detoured_GetFileAttributesW :: "('w, 'h) file_env \<Rightarrow> wstr \<Rightarrow> 'w \<Rightarrow> (u32 + u32) option" where
  "Detoured_GetFileAttributesW env lpFileName w =
     (let real = fa_attributes (fs_files (fe_os env)) w
      in if leave_path env lpFileName then Some (real lpFileName)
         else (let lpFileName = mapped_name env w lpFileName
               in with_policy env lpFileName (Inl (fe_lastError env)) (\<lambda>policyResult.
                    (let overlayProbe = ResolveOverlayProbePath (fe_globals env) real policyResult;
                         attributes = real (if overlayProbe = [] then lpFileName else overlayProbe);
                         reportedError = (case attributes of Inl error \<Rightarrow> error | Inr _ \<Rightarrow> ERROR_SUCCESS);
                         fileReadContext = InferExistenceFromError reportedError
                           \<lparr>Existence = Nonexistent,
                            OpenedDirectory = IsDirectoryFromAttributes (attribute_word attributes) False\<rparr>;
                         accessCheck = CheckReadAccess (checks_in env w) RRA_Probe fileReadContext policyResult
                     in Some (if ShouldDenyAccess accessCheck
                              then Inl (DenialError_masked (mask_reads env) accessCheck)
                              else attributes)))))"

text \<open>
  Returns the result, the last error, and what the caller's structure holds then; \<open>None\<close> is a null
  pointer. The level \<open>GetFileExInfoStandard\<close> is 0.
\<close>

definition Detoured_GetFileAttributesExW :: "('w, 'h) file_env \<Rightarrow> wstr \<Rightarrow> u32 \<Rightarrow> file_data option \<Rightarrow> 'w \<Rightarrow>
    (bool \<times> u32 \<times> file_data option) option" where
  "Detoured_GetFileAttributesExW env lpFileName fInfoLevelId lpFileInformation w =
     (let real = fs_GetFileAttributesExW (fe_os env) w
      in if leave_path env lpFileName then Some (real lpFileName fInfoLevelId lpFileInformation)
         else (let lpFileName = mapped_name env w lpFileName
               in with_policy env lpFileName (False, fe_lastError env, lpFileInformation) (\<lambda>policyResult.
                    (let (querySucceeded, error, info) = real lpFileName fInfoLevelId lpFileInformation;
                         overlayProbe = ResolveOverlayProbePath (fe_globals env) (fa_attributes (fs_files (fe_os env)) w)
                           policyResult;
                         (querySucceeded, error, info) =
                           (if overlayProbe \<noteq> [] then real overlayProbe fInfoLevelId info
                            else (querySucceeded, error, info));
                         reportedError = GetReportedError querySucceeded error;
                         fileReadContext = InferExistenceFromError reportedError
                           \<lparr>Existence = Nonexistent,
                            OpenedDirectory = querySucceeded \<and> fInfoLevelId = 0 \<and>
                              (case info of None \<Rightarrow> False
                               | Some data \<Rightarrow> IsDirectoryFromAttributes (fad_attributes data) False)\<rparr>;
                         accessCheck = CheckReadAccess (checks_in env w) RRA_Probe fileReadContext policyResult
                     in Some (if ShouldDenyAccess accessCheck
                              then (False, DenialError_masked (mask_reads env) accessCheck, info)
                              else (querySucceeded, error, info))))))"


section \<open>DeleteFileW and CreateDirectoryW\<close>

text \<open>Returns the result and the last error; the probe after a refusal is for the report alone.\<close>

definition Detoured_DeleteFileW :: "('w, 'h) file_env \<Rightarrow> wstr \<Rightarrow> 'w \<Rightarrow> (bool \<times> u32 \<times> 'w) option" where
  "Detoured_DeleteFileW env lpFileName w =
     (if leave_path env lpFileName then Some (fs_DeleteFileW (fe_os env) lpFileName w)
      else (let lpFileName = mapped_name env w lpFileName
            in with_policy env lpFileName (False, fe_lastError env, w) (\<lambda>policyResult.
                 (let accessCheck = CheckWriteAccess (checks_in env w) False policyResult
                  in if ShouldDenyAccess accessCheck then Some (False, DenialError accessCheck, w)
                     else if ShouldRedirectToOverlay (fe_globals env) policyResult
                     then (case ResolveOverlayDelete (fe_globals env) (fa_attributes (fs_files (fe_os env)) w) policyResult of
                             (DenyAccess, _) \<Rightarrow> Some (False, ERROR_ACCESS_DENIED, w)
                           | (NotFound, _) \<Rightarrow> Some (False, ERROR_FILE_NOT_FOUND, w)
                           | (RedirectToBacking, overlayBacking) \<Rightarrow> Some (fs_DeleteFileW (fe_os env) overlayBacking w)
                           | (PassThrough, _) \<Rightarrow> Some (fs_DeleteFileW (fe_os env) lpFileName w))
                     else Some (fs_DeleteFileW (fe_os env) lpFileName w)))))"

definition Detoured_CreateDirectoryW :: "('w, 'h) file_env \<Rightarrow> wstr \<Rightarrow> 'w \<Rightarrow> (bool \<times> u32 \<times> 'w) option" where
  "Detoured_CreateDirectoryW env lpPathName w =
     (if leave_path env lpPathName then Some (fs_CreateDirectoryW (fe_os env) lpPathName w)
      else with_policy env lpPathName (False, fe_lastError env, w) (\<lambda>policyResult.
             (let accessCheck = CheckCreateDirectoryAccess (checks_in env w) policyResult
              in if ShouldDenyAccess accessCheck then Some (False, DenialError accessCheck, w)
                 else (let overlayDirBacking =
                             (if ShouldRedirectToOverlay (fe_globals env) policyResult
                              then OverlayBackingPath (fe_globals env) (TranslatedPath policyResult) else [])
                       in Some (if overlayDirBacking \<noteq> []
                                then fs_CreateDirectoryW (fe_os env) overlayDirBacking
                                       (EnsureBackingParentDirs (fs_files (fe_os env)) overlayDirBacking w)
                                else fs_CreateDirectoryW (fe_os env) lpPathName w)))))"


section \<open>Moving and removing directories\<close>

text \<open>
  \<open>stack\<close> holds the directories still to be read, the top first. \<open>None\<close> is a tree without an end.
\<close>

partial_function (option) EnumerateDirectory_loop :: "(wstr \<Rightarrow> ((wstr \<times> u32) list \<times> u32) option) \<Rightarrow> wstr \<Rightarrow> bool \<Rightarrow>
    bool \<Rightarrow> wstr list \<Rightarrow> (wstr \<times> u32) list \<Rightarrow> (bool \<times> (wstr \<times> u32) list) option" where
  "EnumerateDirectory_loop search pattern recursive treatReparsePointAsFile stack found =
     (case stack of
        [] \<Rightarrow> Some (True, found)
      | directoryToEnumerate # rest \<Rightarrow>
          (case search (PathCombine directoryToEnumerate pattern) of
             None \<Rightarrow> Some (False, found)
           | Some (entries, error) \<Rightarrow>
               (let paths = map (\<lambda>(name, attributes). (PathCombine directoryToEnumerate name, attributes))
                      (filter (\<lambda>(name, _). cstr name \<noteq> [DOT] \<and> cstr name \<noteq> [DOT, DOT]) entries);
                    directories = map fst (filter (\<lambda>(_, attributes). recursive \<and>
                      attributes AND FILE_ATTRIBUTE_DIRECTORY \<noteq> 0 \<and>
                      (\<not> treatReparsePointAsFile \<or> attributes AND ATTRIBUTE_REPARSE_POINT = 0)) paths)
                in if error \<noteq> ERROR_NO_MORE_FILES then Some (False, found @ paths)
                   else EnumerateDirectory_loop search pattern recursive treatReparsePointAsFile
                          (rev directories @ rest) (found @ paths))))"

declare EnumerateDirectory_loop.simps [code]

definition EnumerateDirectory :: "(wstr \<Rightarrow> ((wstr \<times> u32) list \<times> u32) option) \<Rightarrow> (wstr \<Rightarrow> wstr) \<Rightarrow> wstr \<Rightarrow> wstr \<Rightarrow> bool \<Rightarrow>
    bool \<Rightarrow> (bool \<times> (wstr \<times> u32) list) option" where
  "EnumerateDirectory search canonical directoryPath pattern recursive treatReparsePointAsFile =
     EnumerateDirectory_loop (\<lambda>spec. search (canonical spec)) pattern recursive treatReparsePointAsFile [directoryPath] []"

definition with_separator :: "wstr \<Rightarrow> wstr" where
  "with_separator p = (if last p \<noteq> BACKSLASH then p @ [BACKSLASH] else p)"

text \<open>
  The checks of the entries: \<open>None\<close> when all pass, else the last error. The target of an entry has the
  new directory in place of the old one.
\<close>

fun validate_entries :: "('w, 'h) file_env \<Rightarrow> 'w \<Rightarrow> wstr \<Rightarrow> wstr option \<Rightarrow> (wstr \<times> u32) list \<Rightarrow> u32 option option" where
  "validate_entries env w sourceDirectory targetDirectory [] = Some None"
| "validate_entries env w sourceDirectory targetDirectory ((file, attributes) # entries) =
     with_policy env (fs_normalize (fe_os env) file) (Some (fe_lastError env)) (\<lambda>sourcePolicyResult.
       (let sourceAccessCheck = CheckWriteAccess (checks_in env w) False sourcePolicyResult
        in if ShouldDenyAccess sourceAccessCheck then Some (Some (DenialError sourceAccessCheck))
           else (case targetDirectory of
                   None \<Rightarrow> validate_entries env w sourceDirectory targetDirectory entries
                 | Some target \<Rightarrow>
                     with_policy env (fs_normalize (fe_os env) (target @ drop (length sourceDirectory) file))
                       (Some (fe_lastError env)) (\<lambda>destPolicyResult.
                         (let destAccessCheck =
                                (if attributes AND FILE_ATTRIBUTE_DIRECTORY \<noteq> 0
                                 then CheckCreateDirectoryAccess (checks_in env w) destPolicyResult
                                 else CheckWriteAccess (checks_in env w) False destPolicyResult)
                          in if ShouldDenyAccess destAccessCheck then Some (Some (DenialError destAccessCheck))
                             else validate_entries env w sourceDirectory targetDirectory entries)))))"

text \<open>\<open>Some None\<close> is the return of \<open>true\<close>, \<open>Some (Some e)\<close> that of \<open>false\<close> with the last error \<open>e\<close>.\<close>

definition ValidateMoveDirectory :: "('w, 'h) file_env \<Rightarrow> wstr \<Rightarrow> wstr option \<Rightarrow> 'w \<Rightarrow> u32 option option" where
  "ValidateMoveDirectory env lpExistingFileName lpNewFileName w =
     (let directoryAttributes = attribute_word (fa_attributes (fs_files (fe_os env)) w lpExistingFileName);
          isDirectory = (directoryAttributes AND FILE_ATTRIBUTE_DIRECTORY \<noteq> 0 \<and>
            directoryAttributes AND ATTRIBUTE_REPARSE_POINT = 0)
      in if \<not> isDirectory then Some None
         else (case EnumerateDirectory (fs_find (fe_os env) w) (fs_normalize (fe_os env)) lpExistingFileName [STAR] True True of
                 None \<Rightarrow> None
               | Some (False, _) \<Rightarrow> Some (Some (fe_lastError env))
               | Some (True, filesAndDirectories) \<Rightarrow>
                   validate_entries env w (with_separator lpExistingFileName) (map_option with_separator lpNewFileName)
                     filesAndDirectories))"

text \<open>The last error after a report is what the report leaves.\<close>

definition Detoured_RemoveDirectoryW :: "('w, 'h) file_env \<Rightarrow> wstr \<Rightarrow> 'w \<Rightarrow> (bool \<times> u32 \<times> 'w) option" where
  "Detoured_RemoveDirectoryW env lpPathName w =
     (if leave_path env lpPathName then Some (fs_RemoveDirectoryW (fe_os env) lpPathName w)
      else with_policy env lpPathName (False, fe_lastError env, w) (\<lambda>policyResult.
             (let accessCheck = CheckWriteAccess (checks_in env w) False policyResult;
                  remove = (\<lambda>target. case fs_RemoveDirectoryW (fe_os env) target w of
                    (result, error, w) \<Rightarrow> Some (result, fe_lastError env, w))
              in if ShouldDenyAccess accessCheck then Some (False, DenialError accessCheck, w)
                 else (case ValidateMoveDirectory env (GetPathString (m_canonicalizedPath policyResult)) None w of
                         None \<Rightarrow> None
                       | Some (Some error) \<Rightarrow> Some (False, error, w)
                       | Some None \<Rightarrow>
                           if ShouldRedirectToOverlay (fe_globals env) policyResult
                           then (case ResolveOverlayDelete (fe_globals env) (fa_attributes (fs_files (fe_os env)) w)
                                        policyResult of
                                   (DenyAccess, _) \<Rightarrow> Some (False, ERROR_ACCESS_DENIED, w)
                                 | (NotFound, _) \<Rightarrow> Some (False, ERROR_FILE_NOT_FOUND, w)
                                 | (RedirectToBacking, overlayBacking) \<Rightarrow> remove overlayBacking
                                 | (PassThrough, _) \<Rightarrow> remove lpPathName)
                           else remove lpPathName))))"

section \<open>Copying and moving\<close>

text \<open>The source and the destination of the real copy, and the verdict on the source after it.\<close>

definition copy_target :: "('w, 'h) file_env \<Rightarrow> PolicyResult \<Rightarrow> PolicyResult \<Rightarrow> wstr \<Rightarrow> wstr \<Rightarrow> 'w \<Rightarrow> wstr \<times> wstr \<times> 'w" where
  "copy_target env sourcePolicyResult destPolicyResult lpExistingFileName lpNewFileName w =
     (if ShouldWriteOverlay (g_fileAccessManifestExtraFlags (fe_globals env))
      then (let overlayCopySource = ResolveOverlayProbePath (fe_globals env) (fa_attributes (fs_files (fe_os env)) w)
                  sourcePolicyResult;
                (overlayCopyDest, w) = ResolveOverlayRenameDest (fe_globals env) (fs_files (fe_os env)) destPolicyResult w
            in (if overlayCopySource = [] then lpExistingFileName else overlayCopySource,
                if overlayCopyDest = [] then lpNewFileName else overlayCopyDest, w))
      else (lpExistingFileName, lpNewFileName, w))"

definition copy_result :: "('w, 'h) file_env \<Rightarrow> PolicyResult \<Rightarrow> bool \<times> u32 \<times> 'w \<Rightarrow> bool \<times> u32 \<times> 'w" where
  "copy_result env sourcePolicyResult r =
     (let (result, error, w) = r;
          sourceReadContext = InferExistenceFromError (GetReportedError result error)
            \<lparr>Existence = Nonexistent, OpenedDirectory = False\<rparr>;
          sourceAccessCheck = CheckReadAccess (checks_in env w) RRA_Read sourceReadContext sourcePolicyResult
      in if ShouldDenyAccess sourceAccessCheck
         then (False, DenialError_masked (mask_reads env) sourceAccessCheck, w)
         else (result, error, w))"

text \<open>\<open>real\<close> is the copy or the move with the other arguments of the caller, transacted or not.\<close>

definition DetoursCopyFileEx :: "('w, 'h) file_env \<Rightarrow> (wstr \<Rightarrow> wstr \<Rightarrow> 'w \<Rightarrow> bool \<times> u32 \<times> 'w) \<Rightarrow> wstr \<Rightarrow> wstr \<Rightarrow> 'w \<Rightarrow>
    (bool \<times> u32 \<times> 'w) option" where
  "DetoursCopyFileEx env real lpExistingFileName lpNewFileName w =
     (if leave_path env lpExistingFileName \<or> leave_path env lpNewFileName
      then Some (real lpExistingFileName lpNewFileName w)
      else (let lpExistingFileName = mapped_name env w lpExistingFileName;
                lpNewFileName = mapped_name env w lpNewFileName
            in with_policy env lpExistingFileName (False, fe_lastError env, w) (\<lambda>sourcePolicyResult.
                 with_policy env lpNewFileName (False, fe_lastError env, w) (\<lambda>destPolicyResult.
                   (let destAccessCheck = CheckWriteAccess (checks_in env w) False destPolicyResult
                    in if ShouldDenyAccess destAccessCheck then Some (False, DenialError destAccessCheck, w)
                       else (let (effExistingFileName, effNewFileName, w) = copy_target env sourcePolicyResult
                                   destPolicyResult lpExistingFileName lpNewFileName w
                             in Some (copy_result env sourcePolicyResult (real effExistingFileName effNewFileName w))))))))"

text \<open>The source and the destination of the real move, \<open>Inl\<close> for the error of a refusal.\<close>

definition move_target :: "('w, 'h) file_env \<Rightarrow> bool \<Rightarrow> PolicyResult \<Rightarrow> PolicyResult \<Rightarrow> wstr \<Rightarrow> wstr \<Rightarrow> 'w \<Rightarrow>
    u32 + wstr \<times> wstr \<times> 'w" where
  "move_target env moveDirectory sourcePolicyResult destPolicyResult lpExistingFileName lpNewFileName w =
     (let source =
            (if \<not> moveDirectory \<and> ShouldRedirectToOverlay (fe_globals env) sourcePolicyResult
             then (case ResolveOverlayDelete (fe_globals env) (fa_attributes (fs_files (fe_os env)) w) sourcePolicyResult of
                     (DenyAccess, _) \<Rightarrow> Inl ERROR_ACCESS_DENIED
                   | (NotFound, _) \<Rightarrow> Inl ERROR_FILE_NOT_FOUND
                   | (RedirectToBacking, overlaySourceBacking) \<Rightarrow> Inr overlaySourceBacking
                   | (PassThrough, _) \<Rightarrow> Inr lpExistingFileName)
             else Inr lpExistingFileName)
      in case source of
           Inl error \<Rightarrow> Inl error
         | Inr moveSource \<Rightarrow>
             (let (overlayDestBacking, w) =
                    (if \<not> moveDirectory
                     then ResolveOverlayRenameDest (fe_globals env) (fs_files (fe_os env)) destPolicyResult w
                     else ([], w))
              in Inr (moveSource, if overlayDestBacking = [] then lpNewFileName else overlayDestBacking, w)))"

text \<open>What is checked before the move: \<open>None\<close> when it may go on, else the last error.\<close>

definition move_checks :: "('w, 'h) file_env \<Rightarrow> bool \<Rightarrow> u32 \<Rightarrow> PolicyResult \<Rightarrow> PolicyResult \<Rightarrow> 'w \<Rightarrow> u32 option option" where
  "move_checks env moveDirectory dwFlags sourcePolicyResult destPolicyResult w =
     (let sourceAccessCheck = CheckWriteAccess (checks_in env w) False sourcePolicyResult;
          destAccessCheck = CheckWriteAccess (checks_in env w) False destPolicyResult
      in if ShouldDenyAccess sourceAccessCheck then Some (Some (DenialError sourceAccessCheck))
         else if ShouldDenyAccess destAccessCheck then Some (Some (DenialError destAccessCheck))
         else if moveDirectory
         then ValidateMoveDirectory env (GetPathString (m_canonicalizedPath sourcePolicyResult))
                (Some (GetPathString (m_canonicalizedPath destPolicyResult))) w
         else if dwFlags AND MOVEFILE_COPY_ALLOWED \<noteq> 0
         then (let sourceAccessCheck = Combine sourceAccessCheck (CheckReadAccess (checks_in env w) RRA_Read
                     \<lparr>Existence = Existent, OpenedDirectory = False\<rparr> sourcePolicyResult)
               in Some (if ShouldDenyAccess sourceAccessCheck then Some (DenialError sourceAccessCheck) else None))
         else Some None)"

definition DetoursMoveFileWithProgress :: "('w, 'h) file_env \<Rightarrow> (wstr \<Rightarrow> wstr \<Rightarrow> 'w \<Rightarrow> bool \<times> u32 \<times> 'w) \<Rightarrow> wstr \<Rightarrow> wstr \<Rightarrow>
    u32 \<Rightarrow> 'w \<Rightarrow> (bool \<times> u32 \<times> 'w) option" where
  "DetoursMoveFileWithProgress env real lpExistingFileName lpNewFileName dwFlags w =
     (if leave_path env lpExistingFileName \<or> leave_path env lpNewFileName
      then Some (real lpExistingFileName lpNewFileName w)
      else (let lpExistingFileName = mapped_name env w lpExistingFileName;
                lpNewFileName = mapped_name env w lpNewFileName;
                moveDirectory = IsHandleOrPathToDirectory env None lpExistingFileName True w
            in with_policy env lpExistingFileName (False, fe_lastError env, w) (\<lambda>sourcePolicyResult.
                 with_policy env lpNewFileName (False, fe_lastError env, w) (\<lambda>destPolicyResult.
                   (case move_checks env moveDirectory dwFlags sourcePolicyResult destPolicyResult w of
                      None \<Rightarrow> None
                    | Some (Some error) \<Rightarrow> Some (False, error, w)
                    | Some None \<Rightarrow>
                        (case move_target env moveDirectory sourcePolicyResult destPolicyResult lpExistingFileName
                                lpNewFileName w of
                           Inl error \<Rightarrow> Some (False, error, w)
                         | Inr (moveSource, moveDest, w) \<Rightarrow> Some (real moveSource moveDest w)))))))"

text \<open>The calls on top of them; callbacks, cancellation and transactions are left to the real functions.\<close>

definition Detoured_CopyFileExW :: "('w, 'h) file_env \<Rightarrow> wstr \<Rightarrow> wstr \<Rightarrow> u32 \<Rightarrow> 'w \<Rightarrow> (bool \<times> u32 \<times> 'w) option" where
  "Detoured_CopyFileExW env lpExistingFileName lpNewFileName dwCopyFlags w =
     DetoursCopyFileEx env (fs_CopyFileExW (fe_os env) dwCopyFlags) lpExistingFileName lpNewFileName w"

definition Detoured_CopyFileW :: "('w, 'h) file_env \<Rightarrow> wstr \<Rightarrow> wstr \<Rightarrow> bool \<Rightarrow> 'w \<Rightarrow> (bool \<times> u32 \<times> 'w) option" where
  "Detoured_CopyFileW env lpExistingFileName lpNewFileName bFailIfExists w =
     Detoured_CopyFileExW env lpExistingFileName lpNewFileName (if bFailIfExists then 1 else 0) w"

definition Detoured_MoveFileWithProgressW :: "('w, 'h) file_env \<Rightarrow> wstr \<Rightarrow> wstr \<Rightarrow> u32 \<Rightarrow> 'w \<Rightarrow>
    (bool \<times> u32 \<times> 'w) option" where
  "Detoured_MoveFileWithProgressW env lpExistingFileName lpNewFileName dwFlags w =
     DetoursMoveFileWithProgress env (fs_MoveFileWithProgressW (fe_os env) dwFlags) lpExistingFileName lpNewFileName
       dwFlags w"

definition Detoured_MoveFileExW :: "('w, 'h) file_env \<Rightarrow> wstr \<Rightarrow> wstr \<Rightarrow> u32 \<Rightarrow> 'w \<Rightarrow> (bool \<times> u32 \<times> 'w) option" where
  "Detoured_MoveFileExW env lpExistingFileName lpNewFileName dwFlags w =
     Detoured_MoveFileWithProgressW env lpExistingFileName lpNewFileName dwFlags w"

definition Detoured_MoveFileW :: "('w, 'h) file_env \<Rightarrow> wstr \<Rightarrow> wstr \<Rightarrow> 'w \<Rightarrow> (bool \<times> u32 \<times> 'w) option" where
  "Detoured_MoveFileW env lpExistingFileName lpNewFileName w =
     Detoured_MoveFileWithProgressW env lpExistingFileName lpNewFileName MOVEFILE_COPY_ALLOWED w"


section \<open>Which policy a hook meets\<close>

definition policy_at :: "('w, 'h) file_env \<Rightarrow> wstr \<Rightarrow> PolicyResult option" where
  "policy_at env p = Option.bind (with_policy env p None (\<lambda>pr. Some (Some pr))) id"

lemma with_policy_at: "policy_at env p = Some pr \<Longrightarrow> with_policy env p fail k = k pr"
  by (auto simp: policy_at_def with_policy_def split: option.splits)

lemma with_policyE:
  assumes "with_policy env p fail k = Some r"
  obtains "r = fail" | pr where "policy_at env p = Some pr" "k pr = Some r"
  using assms by (auto simp: policy_at_def with_policy_def split: option.splits)

text \<open>The manifest holds a well-formed tree, and \<open>GetFullPathNameW\<close> keeps its contract.\<close>

definition good_env :: "('w, 'h) file_env \<Rightarrow> bool" where
  "good_env env \<longleftrightarrow>
     (\<exists>n. record_at (fe_manifest env) (g_manifestTreeRoot (fe_globals env)) n \<and> tree_wf n) \<and>
     (\<exists>full. returns_string (fe_fullPathName env) full) \<and>
     0 \<notin> set (OverlaySourceRoot (fe_globals env))"

lemma GetFullPath_noNUL:
  assumes "returns_string fullPathName full"
  shows "0 \<notin> set (snd (GetFullPath fullPathName lastError path))"
proof -
  have nul: "0 \<notin> set (snd (fullPathName path sz))" for sz
    by (cases "full path"; cases "length (the (full path)) < sz") (simp_all add: returns_stringD [OF assms])
  obtain n buf where first: "fullPathName path MAX_PATH = (n, buf)" by fastforce
  obtain n2 buf2 where second: "fullPathName path n = (n2, buf2)" by fastforce
  have "0 \<notin> set buf" "0 \<notin> set buf2" using nul [of MAX_PATH] nul [of n] first second by simp_all
  then show ?thesis
    by (auto simp: GetFullPath_def first second dest: in_set_takeD)
qed

lemma with_policy_returns:
  assumes "good_env env" "0 \<notin> set p" "\<And>pr. \<exists>r. k pr = Some r"
  shows "\<exists>r. with_policy env p fail k = Some r"
proof -
  obtain n full where n: "record_at (fe_manifest env) (g_manifestTreeRoot (fe_globals env)) n" "tree_wf n"
    and full: "returns_string (fe_fullPathName env) full"
    using assms(1) by (auto simp: good_env_def)
  define cp where "cp = Canonicalize (fe_fullPathName env) (fe_pathError env) p"
  have "0 \<notin> set (cp_value cp)"
    using assms(2) GetFullPath_noNUL [OF full, of "fe_pathError env" p]
    by (auto simp: cp_def Canonicalize_def Let_def null_path_def split: prod.splits)
  then have nul: "0 \<notin> set (GetPathStringWithoutTypePrefix cp)"
    using in_set_dropD [of 0 4 "cp_value cp"]
    by (auto simp: GetPathStringWithoutTypePrefix_def GetPathString_def split: PathType.split)
  show ?thesis
  proof (cases "cp_IsNull cp")
    case True
    then show ?thesis by (simp add: with_policy_def Initialize_def cp_def [symmetric])
  next
    case False
    obtain pr where "Initialize_canonical (fe_manifest env) (g_manifestTreeRoot (fe_globals env)) cp = Some pr"
      using Initialize_returns [OF n False nul] by blast
    with False assms(3) show ?thesis by (simp add: with_policy_def Initialize_def cp_def [symmetric])
  qed
qed

lemma mapped_name_noNUL:
  assumes "good_env env" "0 \<notin> set p"
  shows "0 \<notin> set (mapped_name env w p)"
proof -
  let ?g = "fe_globals env"
  obtain full where full: "returns_string (fe_fullPathName env) full" and src: "0 \<notin> set (OverlaySourceRoot ?g)"
    using assms(1) by (auto simp: good_env_def)
  have reversed: "0 \<notin> set virt" if "ReverseOverlayFinalPath ?g path = Some virt" "0 \<notin> set path" for path virt
  proof -
    obtain pre body where s: "split_prefix path = (pre, body)" by (cases "split_prefix path")
    with that zero_notin_trim_sep [OF src] split_prefix_append [OF s] in_set_dropD [of 0 _ body] show ?thesis
      by (auto simp: ReverseOverlayFinalPath_def Let_def split: if_splits)
  qed
  have "0 \<notin> set virt"
    if "ReverseMapWin32Path ?g (fe_fullPathName env) attributes p = Some virt" for attributes virt
  proof (cases "full p")
    case None
    with that show ?thesis
      by (simp add: ReverseMapWin32Path_def Let_def returns_stringD [OF full] split: if_splits)
  next
    case (Some s)
    then have "0 \<notin> set s" "fst (fe_fullPathName env p 0) = length s + 1"
      "fe_fullPathName env p (length s + 1) = (length s, s)"
      using returns_stringD [OF full] by auto
    with that reversed [of s virt] show ?thesis
      by (auto simp: ReverseMapWin32Path_def Let_def split: if_splits option.splits)
  qed
  with assms(2) show ?thesis by (auto simp: mapped_name_def split: option.splits)
qed


section \<open>An example\<close>

text \<open>
  A file system that is a list of names with their attributes; \<open>plain_name\<close> takes off the prefix \<open>\\?\\<close> or
  \<open>\??\\<close>. The manifest denies everything but the drive \<open>C:\<close>, which is the cone of the overlay.
\<close>

type_synonym name_list = "(wstr \<times> u32) list"

definition plain_name :: "wstr \<Rightarrow> wstr" where
  "plain_name p = (if take 4 p = ext_prefix \<or> take 4 p = nt_prefix then drop 4 p else p)"

definition found_at :: "name_list \<Rightarrow> wstr \<Rightarrow> u32 option" where
  "found_at w p = map_of w (plain_name p)"

definition add_name :: "wstr \<Rightarrow> u32 \<Rightarrow> name_list \<Rightarrow> name_list" where
  "add_name p attributes w = (plain_name p, attributes) # filter (\<lambda>e. fst e \<noteq> plain_name p) w"

definition remove_name :: "wstr \<Rightarrow> name_list \<Rightarrow> name_list" where
  "remove_name p w = filter (\<lambda>e. fst e \<noteq> plain_name p) w"

definition list_files :: "name_list file_api" where
  "list_files = \<lparr>fa_attributes = (\<lambda>w p. case found_at w p of None \<Rightarrow> Inl 2 | Some a \<Rightarrow> Inr a),
     fa_createDirectory = (\<lambda>p w. w),
     fa_copyFile = (\<lambda>src dst failIfExists w. add_name dst 0x20 w), fa_findFiles = (\<lambda>w p. None)\<rparr>"

definition list_os :: "(name_list, nat) file_os" where
  "list_os = \<lparr>fs_files = list_files,
     fs_CreateFileW = (\<lambda>p access share disposition flags w.
       if disposition = OPEN_EXISTING then (if found_at w p = None then (None, 2, w) else (Some 7, 0, w))
       else if disposition = CREATE_NEW \<and> found_at w p \<noteq> None \<or> found_at w p = Some 0x10 then (None, 80, w)
       else (Some 7, 0, add_name p 0x20 w)),
     fs_CloseHandle = (\<lambda>h w. (True, 0, w)),
     fs_attributesByHandle = (\<lambda>w h. Some 0x20),
     fs_finalPath = (\<lambda>w h n. (0, [])), fs_finalPathError = 6,
     fs_GetFileAttributesExW = (\<lambda>w p level info. case found_at w p of
         None \<Rightarrow> (False, 2, info) | Some a \<Rightarrow> (True, 0, map_option (fad_attributes_update (\<lambda>_. a)) info)),
     fs_DeleteFileW = (\<lambda>p w. if found_at w p = None then (False, 2, w) else (True, 0, remove_name p w)),
     fs_CreateDirectoryW = (\<lambda>p w. if found_at w p = None then (True, 0, add_name p 0x10 w) else (False, 183, w)),
     fs_RemoveDirectoryW = (\<lambda>p w. if found_at w p = None then (False, 2, w) else (True, 0, remove_name p w)),
     fs_CopyFileExW = (\<lambda>flags src dst w. case found_at w src of None \<Rightarrow> (False, 2, w) | Some a \<Rightarrow> (True, 0, add_name dst a w)),
     fs_MoveFileWithProgressW = (\<lambda>flags src dst w. case found_at w src of
         None \<Rightarrow> (False, 2, w) | Some a \<Rightarrow> (True, 0, add_name dst a (remove_name src w))),
     fs_find = (\<lambda>w p. Some ([], 18)),
     fs_normalize = filter (\<lambda>c. c \<noteq> 0)\<rparr>"

definition hook_tree :: mnode where
  "hook_tree = MNode [] 0 default_acc 0 0
     [(wide ''C:'', MNode (wide ''C:'') (HashPath (wide ''C:'')) default_acc
        (Policy_AllowAll OR Policy_OverrideAllowWriteForExistingFiles)
        (Policy_AllowAll OR Policy_OverrideAllowWriteForExistingFiles) [])]"

definition sandbox_env :: "(name_list, nat) file_env" where
  "sandbox_env = \<lparr>fe_globals = example_globals, fe_manifest = the (SerializeNode hook_tree []),
     fe_fullPathName = string_api identity_full, fe_pathError = 3, fe_lastError = 0, fe_disabled = False, fe_os = list_os\<rparr>"

lemma hook_tree_wf: "tree_wf hook_tree"
  unfolding hook_tree_def by code_simp

lemma sandbox_record: "record_at (fe_manifest sandbox_env) (g_manifestTreeRoot (fe_globals sandbox_env)) hook_tree"
proof -
  have "node_size hook_tree \<le> 100" by (simp add: hook_tree_def bucketCount_of_def fragment_bytes_def length_u16_string pad_length_def)
  then show ?thesis
    using SerializeNode_writes [of "[]" hook_tree] by (auto simp: sandbox_env_def example_globals_def writes_node_def bytes_at_def)
qed

lemma sandbox_good: "good_env sandbox_env"
  using sandbox_record hook_tree_wf returns_identity_full
  by (auto simp: good_env_def sandbox_env_def example_globals_def OverlaySourceRoot_def)

text \<open>The policy of a path is that of the tree, unless the path is a special case.\<close>

definition sandbox_path :: "wstr \<Rightarrow> CanonicalizedPath" where
  "sandbox_path p = Canonicalize (string_api identity_full) 3 p"

definition plain_path :: "wstr \<Rightarrow> bool" where
  "plain_path p \<longleftrightarrow>
     (let cp = sandbox_path p; t = GetPathStringWithoutTypePrefix cp
      in \<not> cp_IsNull cp \<and> 0 \<notin> set t \<and> GetSpecialCaseRulesForWindows t = None \<and>
         GetSpecialCaseRulesForCoverageAndSpecialDevices t (cp_Type cp) = None)"

definition searched :: "wstr \<Rightarrow> mnode \<times> bool" where
  "searched p = tree_search (search_keys (GetPathStringWithoutTypePrefix (sandbox_path p))) hook_tree"

lemma sandbox_policy:
  assumes "plain_path p"
  obtains pr where "policy_at sandbox_env p = Some pr" "m_canonicalizedPath pr = sandbox_path p"
    "m_policy pr = policy_of (searched p)" "IsExactManifestNode pr \<longleftrightarrow> \<not> snd (searched p)"
proof -
  let ?cp = "sandbox_path p"
  note plain = assms [unfolded plain_path_def Let_def]
  obtain pr where pr: "Initialize_canonical (fe_manifest sandbox_env) (g_manifestTreeRoot (fe_globals sandbox_env)) ?cp = Some pr"
    "m_canonicalizedPath pr = ?cp" "m_policy pr = policy_of (searched p)" "IsExactManifestNode pr \<longleftrightarrow> \<not> snd (searched p)"
    by (rule Initialize_searched [OF sandbox_record hook_tree_wf, of ?cp]) (use plain in \<open>auto simp: searched_def\<close>)
  then have "policy_at sandbox_env p = Some pr"
    using plain by (simp add: policy_at_def with_policy_def Initialize_def sandbox_env_def sandbox_path_def [symmetric] Let_def)
  with pr that show ?thesis by blast
qed

lemma sandbox_simps [simp]:
  "fe_globals sandbox_env = example_globals" "fe_os sandbox_env = list_os" "\<not> fe_disabled sandbox_env"
  "fe_lastError sandbox_env = 0"
  by (simp_all add: sandbox_env_def)

lemma sandbox_mapped:
  assumes "ReverseOverlayFinalPath example_globals p = None"
  shows "mapped_name sandbox_env w p = p"
  using assms
  by (simp add: mapped_name_def ReverseMapWin32Path_def sandbox_env_def string_api_def identity_full_def Let_def
      split: prod.splits)

abbreviation real_file :: wstr where "real_file \<equiv> example_file ''a''"

definition denied_file :: wstr where "denied_file = wide ''E:'' @ BACKSLASH # wide ''x''"

lemma example_mapped [simp]: "mapped_name sandbox_env w real_file = real_file"
  "mapped_name sandbox_env w (example_file ''b'') = example_file ''b''"
  "mapped_name sandbox_env w denied_file = denied_file"
  by (rule sandbox_mapped, code_simp)+

lemma sandbox_kept: "p \<noteq> [] \<and> \<not> IsSpecialDeviceName p \<Longrightarrow> \<not> leave_path sandbox_env p"
  by (simp add: leave_path_def)

lemma example_kept [simp]: "\<not> leave_path sandbox_env real_file" "\<not> leave_path sandbox_env (example_file ''b'')"
  "\<not> leave_path sandbox_env denied_file"
  by (rule sandbox_kept, code_simp)+

lemma overlay_policy:
  assumes "plain_name p = real_file \<or> p = example_file ''b''"
  obtains pr where "policy_at sandbox_env p = Some pr"
    "m_policy pr = Policy_AllowAll OR Policy_OverrideAllowWriteForExistingFiles"
    "TranslatedPath pr = plain_name p" "redirected example_globals pr"
proof -
  have "p \<in> {real_file, ext_prefix @ real_file, nt_prefix @ real_file, example_file ''b''}"
    using assms unfolding plain_name_def by (metis append_take_drop_id insertCI)
  then have p: "plain_path p" "policy_of (searched p) = Policy_AllowAll OR Policy_OverrideAllowWriteForExistingFiles"
    "GetPathStringWithoutTypePrefix (sandbox_path p) = plain_name p"
    "OverlayBackingPath example_globals (plain_name p) \<noteq> []"
    by (elim insertE; clarify; code_simp)+
  obtain pr where pr: "policy_at sandbox_env p = Some pr" "m_canonicalizedPath pr = sandbox_path p"
    "m_policy pr = policy_of (searched p)"
    by (rule sandbox_policy [OF p(1)])
  then have "TranslatedPath pr = plain_name p" by (simp add: TranslatedPath_def p(3))
  moreover have "ShouldRedirectToOverlay example_globals pr"
    using pr(3) p(2)
    by (simp add: ShouldRedirectToOverlay_def OverrideAllowWriteForExistingFiles_def) code_simp
  ultimately show ?thesis using that pr p(2,4) by (auto simp: redirected_def)
qed

lemma denied_policy:
  obtains pr where "policy_at sandbox_env denied_file = Some pr" "m_policy pr = 0"
    "TranslatedPath pr = denied_file" "\<not> ShouldRedirectToOverlay example_globals pr"
    "GetPathString (m_canonicalizedPath pr) = denied_file"
proof -
  have p: "plain_path denied_file" "policy_of (searched denied_file) = 0"
    "GetPathStringWithoutTypePrefix (sandbox_path denied_file) = denied_file"
    "GetPathString (sandbox_path denied_file) = denied_file" by code_simp+
  obtain pr where pr: "policy_at sandbox_env denied_file = Some pr" "m_canonicalizedPath pr = sandbox_path denied_file"
    "m_policy pr = policy_of (searched denied_file)"
    by (rule sandbox_policy [OF p(1)])
  with p that [OF pr(1)] show ?thesis
    by (simp add: TranslatedPath_def ShouldRedirectToOverlay_def OverrideAllowWriteForExistingFiles_def)
qed

lemma list_files_directories: "EnsureBackingParentDirs list_files p w = w"
  by (rule EnsureBackingParentDirs_invariant [where P = "\<lambda>w'. w' = w"]) (simp_all add: list_files_def)

lemma example_names: "0 \<notin> set real_file" "0 \<notin> set denied_file" "plain_name real_file = real_file"
    "plain_name denied_file = denied_file" "plain_name (example_file ''b'') = example_file ''b''"
  by code_simp+

lemma example_checks:
  "m_policy pr = Policy_AllowAll OR Policy_OverrideAllowWriteForExistingFiles \<Longrightarrow> \<not> ShouldDenyAccess (CheckWriteAccess cenv b pr)"
  "m_policy pr = 0 \<Longrightarrow> ShouldDenyAccess (CheckWriteAccess cenv b pr)"
  "m_policy pr = 0 \<Longrightarrow> ShouldDenyAccess (CheckExistingFileReadAccess cenv pr)"
proof -
  have "(Policy_AllowAll OR Policy_OverrideAllowWriteForExistingFiles) AND FileAccessPolicy_AllowAll = FileAccessPolicy_AllowAll"
    "(Policy_AllowAll OR Policy_OverrideAllowWriteForExistingFiles) AND Policy_AllowWrite \<noteq> 0" by code_simp+
  then show "m_policy pr = Policy_AllowAll OR Policy_OverrideAllowWriteForExistingFiles \<Longrightarrow> \<not> ShouldDenyAccess (CheckWriteAccess cenv b pr)"
    by (simp add: CheckWriteAccess_def CreateAccessCheckResult_def AllowWrite_def IndicateUntracked_def ShouldDenyAccess_def
        access_check_def)
  show "m_policy pr = 0 \<Longrightarrow> ShouldDenyAccess (CheckWriteAccess cenv b pr)"
    by (simp add: CheckWriteAccess_def CreateAccessCheckResult_def AllowWrite_def ShouldDenyAccess_def access_check_def Let_def)
  show "m_policy pr = 0 \<Longrightarrow> ShouldDenyAccess (CheckExistingFileReadAccess cenv pr)"
    by (simp add: CheckExistingFileReadAccess_def CheckReadAccess_def AllowRead_def OverrideAllowWriteForExistingFiles_def
        ShouldDenyAccess_def access_check_def)
qed

end
