(* ===== verification/Hook_Runs.thy ===== *)
theory Hook_Runs
  imports File_Hooks
begin

text \<open>
  Sequences of the calls of \<open>File_Hooks\<close>. A process makes any calls in any order; \<open>perform\<close> is one of
  them, \<open>call_runs\<close> many. The theorems say what no sequence changes: the files outside the overlay that
  the policies do not open for writing, and the registry of handles.
\<close>

section \<open>Calls\<close>

datatype 'h file_call =
    CreateFileW wstr u32 u32 u32 u32
  | CloseHandle bool 'h
  | GetFileAttributesW wstr
  | GetFileAttributesExW wstr u32
  | DeleteFileW wstr
  | CreateDirectoryW wstr
  | RemoveDirectoryW wstr
  | CopyFileExW wstr wstr u32
  | MoveFileWithProgressW wstr wstr u32

text \<open>The state after a call; \<open>None\<close> where it does not return.\<close>

definition world_call :: "(bool \<times> u32 \<times> 'w) option \<Rightarrow> 'h handle_overlays \<Rightarrow> ('w, 'h) file_state option" where
  "world_call r overlays = map_option (\<lambda>(result, error, w). (w, overlays)) r"

fun perform :: "('w, 'h) file_env \<Rightarrow> 'h file_call \<Rightarrow> ('w, 'h) file_state \<Rightarrow> ('w, 'h) file_state option" where
  "perform env (CreateFileW p access share disposition flags) s =
     map_option (\<lambda>(handle, error, s). s) (Detoured_CreateFileW env p access share disposition flags s)"
| "perform env (CloseHandle invalid handle) s =
     (case Detoured_CloseHandle env invalid handle s of (result, error, s) \<Rightarrow> Some s)"
| "perform env (GetFileAttributesW p) (w, overlays) =
     map_option (\<lambda>_. (w, overlays)) (Detoured_GetFileAttributesW env p w)"
| "perform env (GetFileAttributesExW p level) (w, overlays) =
     map_option (\<lambda>_. (w, overlays)) (Detoured_GetFileAttributesExW env p level None w)"
| "perform env (DeleteFileW p) (w, overlays) = world_call (Detoured_DeleteFileW env p w) overlays"
| "perform env (CreateDirectoryW p) (w, overlays) = world_call (Detoured_CreateDirectoryW env p w) overlays"
| "perform env (RemoveDirectoryW p) (w, overlays) = world_call (Detoured_RemoveDirectoryW env p w) overlays"
| "perform env (CopyFileExW src dst flags) (w, overlays) = world_call (Detoured_CopyFileExW env src dst flags w) overlays"
| "perform env (MoveFileWithProgressW src dst flags) (w, overlays) =
     world_call (Detoured_MoveFileWithProgressW env src dst flags w) overlays"

text \<open>Runs whose calls satisfy \<open>ok\<close> in the state in which they are made.\<close>

inductive call_runs :: "('c \<Rightarrow> 's \<Rightarrow> 's option) \<Rightarrow> ('s \<Rightarrow> 'c \<Rightarrow> bool) \<Rightarrow> 's \<Rightarrow> 'c list \<Rightarrow> 's \<Rightarrow> bool" for call ok where
  runs_nil: "call_runs call ok s [] s"
| runs_cons: "ok s c \<Longrightarrow> call c s = Some s' \<Longrightarrow> call_runs call ok s' cs s'' \<Longrightarrow> call_runs call ok s (c # cs) s''"

inductive_cases call_runs_consE: "call_runs call ok s (c # cs) s''"

inductive_simps call_runs_simps [simp]: "call_runs call ok s [] s'" "call_runs call ok s (c # cs) s'"

text \<open>What every call keeps, a run keeps.\<close>

locale kept_by_calls =
  fixes call :: "'c \<Rightarrow> 's \<Rightarrow> 's option" and ok :: "'s \<Rightarrow> 'c \<Rightarrow> bool" and inv :: "'s \<Rightarrow> bool"
  assumes call_keeps: "inv s \<Longrightarrow> ok s c \<Longrightarrow> call c s = Some s' \<Longrightarrow> inv s'"
begin

lemma run_keeps: "call_runs call ok s cs s' \<Longrightarrow> inv s \<Longrightarrow> inv s'"
  by (induction rule: call_runs.induct) (auto intro: call_keeps)

lemma run_keeps_prefix:
  "call_runs call ok s (cs @ cs') s' \<Longrightarrow> inv s \<Longrightarrow> \<exists>t. call_runs call ok s cs t \<and> inv t \<and> call_runs call ok t cs' s'"
proof (induction cs arbitrary: s)
  case (Cons c cs)
  then obtain t where "ok s c" "call c s = Some t" "call_runs call ok t (cs @ cs') s'" by auto
  with Cons.IH [of t] Cons.prems(2) call_keeps show ?case by auto
qed simp

end


section \<open>What the action may change\<close>

text \<open>
  Paths that may be changed: those of the backing store, and those whose policy allows writing and that the
  overlay does not take over.
\<close>

definition may_write :: "('w, 'h) file_env \<Rightarrow> wstr \<Rightarrow> bool" where
  "may_write env p \<longleftrightarrow>
     p = [] \<or> IsSpecialDeviceName p \<or> below_backing (fe_globals env) p \<or> above_backing (fe_globals env) p \<or>
     (\<exists>pr. policy_at env p = Some pr \<and> m_policy pr AND (Policy_AllowWrite OR Policy_AllowCreateDirectory) \<noteq> 0 \<and>
        \<not> redirected (fe_globals env) pr)"

text \<open>Names of which the overlay knows that there is a real file, or directory.\<close>

definition real_at :: "('w, 'h) file_env \<Rightarrow> (attributes_api \<Rightarrow> wstr \<Rightarrow> bool) \<Rightarrow> 'w \<Rightarrow> wstr \<Rightarrow> bool" where
  "real_at env what w p \<longleftrightarrow>
     (\<exists>pr. policy_at env p = Some pr \<and>
        what (fa_attributes (fs_files (fe_os env)) w) (ext_prefix @ TranslatedPath pr))"

text \<open>A name of the overlay's cone at which there is no real file.\<close>

definition cone_missing :: "('w, 'h) file_env \<Rightarrow> 'w \<Rightarrow> wstr \<Rightarrow> bool" where
  "cone_missing env w p \<longleftrightarrow>
     (\<exists>pr. policy_at env p = Some pr \<and> redirected (fe_globals env) pr \<and>
        \<not> OverlayPathExists (fa_attributes (fs_files (fe_os env)) w) (ext_prefix @ TranslatedPath pr))"

abbreviation FILE_FLAG_DELETE_ON_CLOSE :: u32 where "FILE_FLAG_DELETE_ON_CLOSE \<equiv> 0x04000000"

text \<open>
  Opens that change nothing: an existing file for reading, or an existing directory, unless it is to be deleted
  with the handle; and \<open>CREATE_NEW\<close> where there is a file.
\<close>

definition harmless_open :: "('w, 'h) file_env \<Rightarrow> 'w \<Rightarrow> wstr \<Rightarrow> u32 \<Rightarrow> u32 \<Rightarrow> u32 \<Rightarrow> bool" where
  "harmless_open env w p access disposition flags \<longleftrightarrow>
     \<not> WantsWriteAccess access \<and> disposition = OPEN_EXISTING \<and> flags AND FILE_FLAG_DELETE_ON_CLOSE = 0 \<or>
     real_at env OverlayIsDirectory w p \<and> flags AND FILE_FLAG_DELETE_ON_CLOSE = 0 \<or>
     disposition = CREATE_NEW \<and> real_at env OverlayPathExists w p"

definition after :: "'a \<times> 'b \<times> 'w \<Rightarrow> 'w" where "after r = snd (snd r)"

lemma after_simp [simp]: "after (a, b, w) = w"
  by (simp add: after_def)

text \<open>
  \<open>I\<close> holds whatever is done to paths that may be changed: what it states concerns other files. Calls
  on a missing file change nothing, and to prepare the backing store makes no real file of the cone.
\<close>

definition states_protected :: "('w, 'h) file_env \<Rightarrow> ('w \<Rightarrow> bool) \<Rightarrow> bool" where
  "states_protected env I \<longleftrightarrow>
     (\<forall>w. I w \<longrightarrow>
        (\<forall>p. below_backing (fe_globals env) p \<or> above_backing (fe_globals env) p \<longrightarrow>
           I (fa_createDirectory (fs_files (fe_os env)) p w) \<and>
           (\<forall>src. cone_missing env w src \<longrightarrow> cone_missing env (fa_createDirectory (fs_files (fe_os env)) p w) src)) \<and>
        (\<forall>src dst failIfExists. below_backing (fe_globals env) dst \<longrightarrow>
           I (fa_copyFile (fs_files (fe_os env)) src dst failIfExists w)) \<and>
        (\<forall>p access share disposition flags. may_write env p \<or> harmless_open env w p access disposition flags \<longrightarrow>
           I (after (fs_CreateFileW (fe_os env) p access share disposition flags w))) \<and>
        (\<forall>handle. I (after (fs_CloseHandle (fe_os env) handle w))) \<and>
        (\<forall>p. may_write env p \<longrightarrow> I (after (fs_CreateDirectoryW (fe_os env) p w))) \<and>
        (\<forall>p. may_write env p \<or> cone_missing env w p \<longrightarrow>
           I (after (fs_DeleteFileW (fe_os env) p w)) \<and> I (after (fs_RemoveDirectoryW (fe_os env) p w))) \<and>
        (\<forall>src dst flags. may_write env dst \<longrightarrow> I (after (fs_CopyFileExW (fe_os env) flags src dst w))) \<and>
        (\<forall>src dst flags. (may_write env src \<or> cone_missing env w src) \<and> may_write env dst \<longrightarrow>
           I (after (fs_MoveFileWithProgressW (fe_os env) flags src dst w))))"

lemma states_protectedD:
  assumes "states_protected env I" "I w"
  shows "below_backing (fe_globals env) p \<or> above_backing (fe_globals env) p \<Longrightarrow>
      I (fa_createDirectory (fs_files (fe_os env)) p w)"
    and "below_backing (fe_globals env) p \<or> above_backing (fe_globals env) p \<Longrightarrow> cone_missing env w src \<Longrightarrow>
      cone_missing env (fa_createDirectory (fs_files (fe_os env)) p w) src"
    and "below_backing (fe_globals env) dst \<Longrightarrow> I (fa_copyFile (fs_files (fe_os env)) src dst failIfExists w)"
    and "may_write env p \<or> harmless_open env w p access disposition flags \<Longrightarrow>
      I (after (fs_CreateFileW (fe_os env) p access share disposition flags w))"
    and "I (after (fs_CloseHandle (fe_os env) handle w))"
    and "may_write env p \<Longrightarrow> I (after (fs_CreateDirectoryW (fe_os env) p w))"
    and "may_write env p \<or> cone_missing env w p \<Longrightarrow> I (after (fs_DeleteFileW (fe_os env) p w))"
    and "may_write env p \<or> cone_missing env w p \<Longrightarrow> I (after (fs_RemoveDirectoryW (fe_os env) p w))"
    and "may_write env dst \<Longrightarrow> I (after (fs_CopyFileExW (fe_os env) flags src dst w))"
    and "may_write env src \<or> cone_missing env w src \<Longrightarrow> may_write env dst \<Longrightarrow>
      I (after (fs_MoveFileWithProgressW (fe_os env) flags src dst w))"
  by (insert assms(1) [unfolded states_protected_def, THEN spec, THEN mp, OF assms(2)]) blast+

text \<open>
  The calls that are claimed about. The others are: opens that do not ask to write and yet create, truncate
  or delete on close; opens that delete a real directory on close; copies and moves of which one name is empty
  or a special device, such as a pipe, and that reach a protected path with the other; moves of directories.
\<close>

definition ordinary_call :: "('w, 'h) file_env \<Rightarrow> ('w, 'h) file_state \<Rightarrow> 'h file_call \<Rightarrow> bool" where
  "ordinary_call env s c \<longleftrightarrow>
     (case c of
        CreateFileW p access share disposition flags \<Rightarrow>
          (WantsWriteAccess access \<or> disposition = OPEN_EXISTING) \<and>
          (flags AND FILE_FLAG_DELETE_ON_CLOSE = 0 \<or>
           WantsWriteAccess access \<and> \<not> real_at env OverlayIsDirectory (fst s) (mapped_name env (fst s) p))
      | CopyFileExW src dst flags \<Rightarrow> leave_path env src \<or> leave_path env dst \<longrightarrow> may_write env dst
      | MoveFileWithProgressW src dst flags \<Rightarrow>
          (if leave_path env src \<or> leave_path env dst then may_write env src \<and> may_write env dst
           else \<not> IsHandleOrPathToDirectory env None (mapped_name env (fst s) src) True (fst s))
      | _ \<Rightarrow> True)"


section \<open>One call\<close>

lemma AllowWrite_policy: "AllowWrite cenv basedOnlyOnPolicy pr \<Longrightarrow> m_policy pr AND Policy_AllowWrite \<noteq> 0"
  by (auto simp: AllowWrite_def Let_def split: if_splits)

lemma and_or_nonzero:
  fixes a :: u32
  shows "a AND b \<noteq> 0 \<Longrightarrow> a AND (b OR c) \<noteq> 0" "a AND c \<noteq> 0 \<Longrightarrow> a AND (b OR c) \<noteq> 0"
  by (simp_all add: bit.conj_disj_distrib or_eq_0_iff)

lemma write_allowed:
  assumes "policy_at env p = Some pr" "\<not> ShouldDenyAccess (CheckWriteAccess cenv False pr)"
  shows "redirected (fe_globals env) pr \<or> may_write env p"
  using assms AllowWrite_policy [of cenv False pr]
  by (auto simp: may_write_def CheckWriteAccess_def CreateAccessCheckResult_def ShouldDenyAccess_def access_check_def
      Let_def and_or_nonzero split: if_splits)

lemma create_allowed:
  assumes "policy_at env p = Some pr" "\<not> ShouldDenyAccess (CheckCreateDirectoryAccess cenv pr)"
  shows "redirected (fe_globals env) pr \<or> may_write env p"
  using assms
  by (auto simp: may_write_def CheckCreateDirectoryAccess_def CreateAccessCheckResult_def AllowCreateDirectory_def
      ShouldDenyAccess_def access_check_def Let_def and_or_nonzero split: if_splits)

lemma may_write_backing [simp]: "below_backing (fe_globals env) p \<Longrightarrow> may_write env p"
  by (simp add: may_write_def)

lemma leave_path_enabled: "\<not> fe_disabled env \<Longrightarrow> leave_path env p \<Longrightarrow> may_write env p"
  by (auto simp: leave_path_def may_write_def)

lemma resolvers_protected:
  assumes "states_protected env I" "I w"
  shows "ResolveOverlayOpenPath (fe_globals env) (fs_files (fe_os env)) pr access disposition w = (path, w') \<Longrightarrow>
      I w' \<and> (path = [] \<or> below_backing (fe_globals env) path)"
    and "ResolveOverlayRenameDest (fe_globals env) (fs_files (fe_os env)) pr w = (path, w') \<Longrightarrow>
      I w' \<and> (path = [] \<or> below_backing (fe_globals env) path)"
  using overlay_resolvers_keep [where I = I and g = "fe_globals env" and api = "fs_files (fe_os env)" and pr = pr
      and access = access and disposition = disposition, OF _ _ assms(2)] states_protectedD(1,3) [OF assms(1)]
  by fastforce+

lemma dest_may_write:
  assumes "policy_at env p = Some pr" "\<not> ShouldDenyAccess (CheckWriteAccess cenv False pr)"
    and "ResolveOverlayRenameDest (fe_globals env) api pr w = ([], w')"
  shows "may_write env p"
  using write_allowed [OF assms(1,2)] assms(3)
  by (auto simp: redirected_def ResolveOverlayRenameDest_def Let_def split: if_splits)

text \<open>An open that the overlay leaves on its path.\<close>

lemma open_unredirected:
  assumes "policy_at env p = Some pr" "\<not> ShouldDenyAccess (write_check env pr access w0)"
    and "WantsWriteAccess access \<or> disposition = OPEN_EXISTING"
    and "flags AND FILE_FLAG_DELETE_ON_CLOSE = 0 \<or> WantsWriteAccess access \<and> \<not> real_at env OverlayIsDirectory w p"
    and "ResolveOverlayOpenPath (fe_globals env) (fs_files (fe_os env)) pr access disposition w = ([], w')"
  shows "may_write env p \<or> harmless_open env w' p access disposition flags"
proof (cases "WantsWriteAccess access \<and> redirected (fe_globals env) pr")
  case True
  then have backing: "OverlayBackingPath (fe_globals env) (TranslatedPath pr) \<noteq> []"
    "ShouldRedirectToOverlay (fe_globals env) pr" by (simp_all add: redirected_def)
  with True assms(1,4,5) show ?thesis
    by (auto simp: harmless_open_def real_at_def ResolveOverlayOpenPath_def Let_def split: if_splits)
next
  case False
  with assms(1-4) write_allowed [OF assms(1), of "checks_in env w0"] show ?thesis
    by (auto simp: write_check_def harmless_open_def split: if_splits)
qed

lemma with_policy_keeps:
  assumes "with_policy env p fail k = Some r" "P fail"
    and "\<And>pr. policy_at env p = Some pr \<Longrightarrow> k pr = Some r \<Longrightarrow> P r"
  shows "P r"
  using assms by (auto elim: with_policyE)

lemma open_granted_cases:
  assumes "open_granted env pr check p access share disposition flags (w, overlays) = Some r"
  obtains handle error w1 check' where
    "open_resolved env pr check p access share disposition flags w = (handle, error, w1)"
    "r = finish_open env pr check' handle error (open_context env p handle error w1) (w1, overlays)"
    "check' = open_check env pr check access (open_context env p handle error w1) w1 \<or>
     (\<exists>h. handle = Some h \<and> \<not> WantsWriteAccess access \<and>
       resolved_check env (open_check env pr check access (open_context env p handle error w1) w1) h access
         (open_context env p handle error w1) w1 = Some check')"
  using assms unfolding open_granted_def Let_def prod.case
  by (auto split: prod.splits option.splits if_splits)

lemma CreateFileW_protected:
  assumes I: "states_protected env I" and ok: "ordinary_call env (w, overlays) (CreateFileW p access share disposition flags)"
    and "\<not> fe_disabled env" "I w"
    and call: "Detoured_CreateFileW env p access share disposition flags (w, overlays) = Some r"
  shows "I (fst (snd (snd r)))"
proof (cases "leave_path env p")
  case True
  with call have "after (fs_CreateFileW (fe_os env) p access share disposition flags w) = fst (snd (snd r))"
    by (auto simp: Detoured_CreateFileW_def split: prod.splits)
  with states_protectedD(4) [OF I assms(4)] leave_path_enabled [OF assms(3) True] show ?thesis by metis
next
  case False
  let ?p = "mapped_name env w p"
  have granted: "I (fst (snd (snd r)))"
    if pr: "policy_at env ?p = Some pr" "\<not> ShouldDenyAccess (write_check env pr access w)"
      and k: "open_granted env pr (write_check env pr access w) ?p access share disposition flags (w, overlays) = Some r"
    for pr
  proof -
    obtain handle error w1 check' where opened:
      "open_resolved env pr (write_check env pr access w) ?p access share disposition flags w = (handle, error, w1)"
      "r = finish_open env pr check' handle error (open_context env ?p handle error w1) (w1, overlays)"
      by (rule open_granted_cases [OF k]) blast
    obtain path w0 where path: "ResolveOverlayOpenPath (fe_globals env) (fs_files (fe_os env)) pr access disposition w = (path, w0)"
      by fastforce
    have w0: "I w0" "path = [] \<or> below_backing (fe_globals env) path"
      using resolvers_protected(1) [OF I assms(4) path] by auto
    have target: "may_write env (if path = [] then ?p else path) \<or>
        harmless_open env w0 (if path = [] then ?p else path) access disposition flags"
      using open_unredirected [OF pr, of disposition flags w w0] ok path w0(2) by (auto simp: ordinary_call_def)
    have "w1 = after (open_resolved env pr (write_check env pr access w) ?p access share disposition flags w)"
      by (simp add: opened(1))
    then have "I w1"
      unfolding open_resolved_def Let_def path prod.case
      using states_protectedD(4) [OF I w0(1) target] by (auto split: if_splits)
    with states_protectedD(5) [OF I this] show ?thesis
      unfolding opened(2) finish_open_def Let_def prod.case
      by (cases handle) (simp_all add: after_def)
  qed
  from call False have "with_policy env ?p (None, fe_lastError env, w, overlays) (\<lambda>pr.
      if ShouldDenyAccess (write_check env pr access w)
      then Some (None, DenialError_masked (mask_reads env) (write_check env pr access w), w, overlays)
      else open_granted env pr (write_check env pr access w) ?p access share disposition flags (w, overlays)) = Some r"
    by (simp add: Detoured_CreateFileW_def Let_def)
  then show ?thesis
  proof (rule with_policy_keeps)
    fix pr
    assume "policy_at env ?p = Some pr" "(if ShouldDenyAccess (write_check env pr access w)
      then Some (None, DenialError_masked (mask_reads env) (write_check env pr access w), w, overlays)
      else open_granted env pr (write_check env pr access w) ?p access share disposition flags (w, overlays)) = Some r"
    then show "I (fst (snd (snd r)))"
      using granted [of pr] assms(4) by (cases "ShouldDenyAccess (write_check env pr access w)") auto
  qed (simp add: assms(4))
qed

lemma delete_target:
  assumes "policy_at env p = Some pr" "\<not> ShouldDenyAccess (CheckWriteAccess cenv False pr)"
    and "ResolveOverlayDelete (fe_globals env) (fa_attributes (fs_files (fe_os env)) w) pr = (action, backing)"
  shows "action = RedirectToBacking \<Longrightarrow> may_write env backing"
    and "action = PassThrough \<Longrightarrow> may_write env p \<or> cone_missing env w p"
  using write_allowed [OF assms(1,2)] assms(1,3) backing_below [of "fe_globals env" "TranslatedPath pr"]
  by (auto simp: ResolveOverlayDelete_def redirected_def cone_missing_def Let_def split: if_splits)

lemma not_redirected_may_write:
  assumes "policy_at env p = Some pr" "\<not> ShouldDenyAccess (CheckWriteAccess cenv False pr)"
    and "\<not> ShouldRedirectToOverlay (fe_globals env) pr"
  shows "may_write env p"
  using write_allowed [OF assms(1,2)] assms(3) by (simp add: redirected_def)

lemma DeleteFileW_protected:
  assumes I: "states_protected env I" and "\<not> fe_disabled env" and w: "I w"
    and call: "Detoured_DeleteFileW env p w = Some r"
  shows "I (after r)"
proof (cases "leave_path env p")
  case True
  then show ?thesis
    using call states_protectedD(7) [OF I w] leave_path_enabled [OF assms(2) True]
    by (auto simp: Detoured_DeleteFileW_def)
next
  case False
  show ?thesis
    using call unfolding Detoured_DeleteFileW_def if_not_P [OF False] Let_def
  proof (rule with_policy_keeps)
    fix pr
    assume pr: "policy_at env (mapped_name env w p) = Some pr"
      and k: "(if ShouldDenyAccess (CheckWriteAccess (checks_in env w) False pr)
         then Some (False, DenialError (CheckWriteAccess (checks_in env w) False pr), w)
         else if ShouldRedirectToOverlay (fe_globals env) pr
         then (case ResolveOverlayDelete (fe_globals env) (fa_attributes (fs_files (fe_os env)) w) pr of
                 (PassThrough, _) \<Rightarrow> Some (fs_DeleteFileW (fe_os env) (mapped_name env w p) w)
               | (RedirectToBacking, overlayBacking) \<Rightarrow> Some (fs_DeleteFileW (fe_os env) overlayBacking w)
               | (DenyAccess, _) \<Rightarrow> Some (False, ERROR_ACCESS_DENIED, w)
               | (NotFound, _) \<Rightarrow> Some (False, ERROR_FILE_NOT_FOUND, w))
         else Some (fs_DeleteFileW (fe_os env) (mapped_name env w p) w)) = Some r"
    show "I (after r)"
      using k w states_protectedD(7) [OF I w] delete_target [OF pr] not_redirected_may_write [OF pr]
      by (auto split: if_splits prod.splits OverlayDeleteAction.splits)
  qed (use w in simp)
qed

lemma CreateDirectoryW_protected:
  assumes I: "states_protected env I" and "\<not> fe_disabled env" and w: "I w"
    and call: "Detoured_CreateDirectoryW env p w = Some r"
  shows "I (after r)"
proof (cases "leave_path env p")
  case True
  then show ?thesis
    using call states_protectedD(6) [OF I w] leave_path_enabled [OF assms(2) True]
    by (auto simp: Detoured_CreateDirectoryW_def)
next
  case False
  have parents: "I (EnsureBackingParentDirs (fs_files (fe_os env)) (OverlayBackingPath (fe_globals env) (TranslatedPath pr)) w)"
    if "redirected (fe_globals env) pr" for pr
    using resolvers_protected(2) [OF I w, of pr] that by (auto simp: redirected_def ResolveOverlayRenameDest_def Let_def)
  show ?thesis
    using call unfolding Detoured_CreateDirectoryW_def if_not_P [OF False] Let_def
  proof (rule with_policy_keeps)
    fix pr
    let ?b = "if ShouldRedirectToOverlay (fe_globals env) pr
      then OverlayBackingPath (fe_globals env) (TranslatedPath pr) else []"
    assume pr: "policy_at env p = Some pr"
      and k: "(if ShouldDenyAccess (CheckCreateDirectoryAccess (checks_in env w) pr)
         then Some (False, DenialError (CheckCreateDirectoryAccess (checks_in env w) pr), w)
         else Some (if ?b \<noteq> []
           then fs_CreateDirectoryW (fe_os env) ?b (EnsureBackingParentDirs (fs_files (fe_os env)) ?b w)
           else fs_CreateDirectoryW (fe_os env) p w)) = Some r"
    show "I (after r)"
    proof (cases "redirected (fe_globals env) pr")
      case True
      then have "?b = OverlayBackingPath (fe_globals env) (TranslatedPath pr)" "?b \<noteq> []"
        by (simp_all add: redirected_def)
      with k w states_protectedD(6) [OF I parents [OF True]] backing_below [of "fe_globals env" "TranslatedPath pr"]
      show ?thesis by (auto split: if_splits)
    next
      case False
      then have "?b = []" by (simp add: redirected_def)
      with k w states_protectedD(6) [OF I w] create_allowed [OF pr] False show ?thesis by (auto split: if_splits)
    qed
  qed (use w in simp)
qed

lemma RemoveDirectoryW_protected:
  assumes I: "states_protected env I" and "\<not> fe_disabled env" and w: "I w"
    and call: "Detoured_RemoveDirectoryW env p w = Some r"
  shows "I (after r)"
proof (cases "leave_path env p")
  case True
  then show ?thesis
    using call states_protectedD(8) [OF I w] leave_path_enabled [OF assms(2) True]
    by (auto simp: Detoured_RemoveDirectoryW_def)
next
  case False
  have removed: "I w'" if "fs_RemoveDirectoryW (fe_os env) q w = (result, error, w')"
      "may_write env q \<or> cone_missing env w q" for q result error w'
    using states_protectedD(8) [OF I w that(2)] that(1) by simp
  show ?thesis
    using call unfolding Detoured_RemoveDirectoryW_def if_not_P [OF False] Let_def
  proof (rule with_policy_keeps)
    fix pr
    assume pr: "policy_at env p = Some pr"
      and k: "(if ShouldDenyAccess (CheckWriteAccess (checks_in env w) False pr)
         then Some (False, DenialError (CheckWriteAccess (checks_in env w) False pr), w)
         else case ValidateMoveDirectory env (GetPathString (m_canonicalizedPath pr)) None w of
                None \<Rightarrow> None
              | Some None \<Rightarrow>
                  if ShouldRedirectToOverlay (fe_globals env) pr
                  then (case ResolveOverlayDelete (fe_globals env) (fa_attributes (fs_files (fe_os env)) w) pr of
                          (PassThrough, _) \<Rightarrow> (case fs_RemoveDirectoryW (fe_os env) p w of
                            (result, error, w) \<Rightarrow> Some (result, fe_lastError env, w))
                        | (RedirectToBacking, overlayBacking) \<Rightarrow> (case fs_RemoveDirectoryW (fe_os env) overlayBacking w of
                            (result, error, w) \<Rightarrow> Some (result, fe_lastError env, w))
                        | (DenyAccess, _) \<Rightarrow> Some (False, ERROR_ACCESS_DENIED, w)
                        | (NotFound, _) \<Rightarrow> Some (False, ERROR_FILE_NOT_FOUND, w))
                  else (case fs_RemoveDirectoryW (fe_os env) p w of
                          (result, error, w) \<Rightarrow> Some (result, fe_lastError env, w))
              | Some (Some error) \<Rightarrow> Some (False, error, w)) = Some r"
    show "I (after r)"
      using k w removed delete_target [OF pr] not_redirected_may_write [OF pr]
      by (auto split: if_split_asm option.split_asm OverlayDeleteAction.split_asm prod.split_asm)
  qed (use w in simp)
qed

text \<open>The two operands of a copy and of a move.\<close>

lemma two_policies_keep:
  assumes "with_policy env p fail (\<lambda>pr. with_policy env q fail (k pr)) = Some r" "P fail"
    and "\<And>pr qr. policy_at env p = Some pr \<Longrightarrow> policy_at env q = Some qr \<Longrightarrow> k pr qr = Some r \<Longrightarrow> P r"
  shows "P r"
  using assms(1,2)
proof (rule with_policy_keeps)
  fix pr
  assume "policy_at env p = Some pr" "with_policy env q fail (k pr) = Some r"
  from this(2) assms(2) assms(3) [OF this(1)] show "P r" by (rule with_policy_keeps)
qed

lemma copy_target_protected:
  assumes I: "states_protected env I" "I w"
    and qr: "policy_at env q = Some qr" "\<not> ShouldDenyAccess (CheckWriteAccess cenv False qr)"
    and "copy_target env pr qr p q w = (source, dest, w')"
  shows "I w' \<and> may_write env dest"
proof (cases "ShouldWriteOverlay (g_fileAccessManifestExtraFlags (fe_globals env))")
  case True
  obtain backing w0 where res: "ResolveOverlayRenameDest (fe_globals env) (fs_files (fe_os env)) qr w = (backing, w0)"
    by fastforce
  with assms(5) True resolvers_protected(2) [OF I res] dest_may_write [OF qr] show ?thesis
    by (auto simp: copy_target_def Let_def split: if_splits)
next
  case False
  then have "\<not> ShouldRedirectToOverlay (fe_globals env) qr" by (simp add: ShouldRedirectToOverlay_def)
  with assms(2,5) False not_redirected_may_write [OF qr] show ?thesis by (simp add: copy_target_def)
qed

lemma after_copy_result [simp]: "after (copy_result env pr r) = after r"
  by (simp add: copy_result_def Let_def split: prod.split)

lemma CopyFileExW_protected:
  assumes I: "states_protected env I" and ok: "ordinary_call env (w, overlays) (CopyFileExW src dst flags)"
    and w: "I w" and call: "Detoured_CopyFileExW env src dst flags w = Some r"
  shows "I (after r)"
proof -
  let ?p = "mapped_name env w src" and ?q = "mapped_name env w dst"
  show ?thesis
  proof (cases "leave_path env src \<or> leave_path env dst")
    case True
    then have "r = fs_CopyFileExW (fe_os env) flags src dst w" "may_write env dst"
      using call ok by (auto simp: Detoured_CopyFileExW_def DetoursCopyFileEx_def ordinary_call_def)
    then show ?thesis using states_protectedD(9) [OF I w] by simp
  next
    case leave: False
    show ?thesis
    using call unfolding Detoured_CopyFileExW_def DetoursCopyFileEx_def if_not_P [OF leave] Let_def
  proof (rule two_policies_keep)
    fix pr qr
    assume qr: "policy_at env ?q = Some qr"
      and k: "(if ShouldDenyAccess (CheckWriteAccess (checks_in env w) False qr)
        then Some (False, DenialError (CheckWriteAccess (checks_in env w) False qr), w)
        else case copy_target env pr qr ?p ?q w of (source, dest, w) \<Rightarrow>
          Some (copy_result env pr (fs_CopyFileExW (fe_os env) flags source dest w))) = Some r"
    obtain source dest w' where target: "copy_target env pr qr ?p ?q w = (source, dest, w')"
      by (metis prod_cases3)
    show "I (after r)"
      using k w target copy_target_protected [OF I w qr _ target] states_protectedD(9) [OF I]
      by (auto split: if_splits)
  qed (use w in simp)
  qed
qed

lemma ResolveOverlayRenameDest_missing:
  assumes "states_protected env I" "I w" "cone_missing env w src"
    and "ResolveOverlayRenameDest (fe_globals env) (fs_files (fe_os env)) pr w = (path, w')"
  shows "cone_missing env w' src"
proof -
  have "I (EnsureBackingParentDirs (fs_files (fe_os env)) (OverlayBackingPath (fe_globals env) v) w) \<and>
      cone_missing env (EnsureBackingParentDirs (fs_files (fe_os env)) (OverlayBackingPath (fe_globals env) v) w) src"
    if "OverlayBackingPath (fe_globals env) v \<noteq> []" for v
    by (rule backing_parents_keep [where I = "\<lambda>w. I w \<and> cone_missing env w src"])
      (use assms(2,3) that states_protectedD(1,2) [OF assms(1)] in auto)
  then show ?thesis
    using assms(3,4) by (auto simp: ResolveOverlayRenameDest_def Let_def split: if_splits)
qed

lemma move_target_protected:
  assumes I: "states_protected env I" and w: "I w"
    and pr: "policy_at env p = Some pr" "\<not> ShouldDenyAccess (CheckWriteAccess cenv False pr)"
    and qr: "policy_at env q = Some qr" "\<not> ShouldDenyAccess (CheckWriteAccess cenv False qr)"
    and target: "move_target env False pr qr p q w = Inr (source, dest, w')"
  shows "I w' \<and> (may_write env source \<or> cone_missing env w' source) \<and> may_write env dest"
proof -
  obtain action out where action: "ResolveOverlayDelete (fe_globals env) (fa_attributes (fs_files (fe_os env)) w) pr = (action, out)"
    by fastforce
  obtain backing where res: "ResolveOverlayRenameDest (fe_globals env) (fs_files (fe_os env)) qr w = (backing, w')"
    and dest: "dest = (if backing = [] then q else backing)"
    using target by (auto simp: move_target_def Let_def split: if_splits sum.splits prod.splits)
  have source: "may_write env source \<or> cone_missing env w source"
    using target action delete_target [OF pr action] not_redirected_may_write [OF pr]
    by (auto simp: move_target_def Let_def split: if_splits sum.splits prod.splits OverlayDeleteAction.splits)
  show ?thesis
    using source resolvers_protected(2) [OF I w res] dest dest_may_write [OF qr] res
      ResolveOverlayRenameDest_missing [OF I w _ res, of source] by (auto split: if_splits)
qed

lemma MoveFile_protected:
  assumes I: "states_protected env I" and ok: "ordinary_call env (w, overlays) (MoveFileWithProgressW src dst flags)"
    and w: "I w" and call: "Detoured_MoveFileWithProgressW env src dst flags w = Some r"
  shows "I (after r)"
proof -
  let ?p = "mapped_name env w src" and ?q = "mapped_name env w dst"
  show ?thesis
  proof (cases "leave_path env src \<or> leave_path env dst")
    case True
    then have "r = fs_MoveFileWithProgressW (fe_os env) flags src dst w" "may_write env src" "may_write env dst"
      using call ok by (auto simp: Detoured_MoveFileWithProgressW_def DetoursMoveFileWithProgress_def ordinary_call_def)
    then show ?thesis using states_protectedD(10) [OF I w] by simp
  next
    case leave: False
    have no_dir: "IsHandleOrPathToDirectory env None ?p True w = False" using ok leave by (simp add: ordinary_call_def)
    show ?thesis
    using call unfolding Detoured_MoveFileWithProgressW_def DetoursMoveFileWithProgress_def if_not_P [OF leave] Let_def no_dir
  proof (rule two_policies_keep)
    fix pr qr
    assume p: "policy_at env ?p = Some pr" "policy_at env ?q = Some qr"
      and k: "(case move_checks env False flags pr qr w of
          None \<Rightarrow> None
        | Some None \<Rightarrow> (case move_target env False pr qr ?p ?q w of
              Inl error \<Rightarrow> Some (False, error, w)
            | Inr (source, dest, w) \<Rightarrow> Some (fs_MoveFileWithProgressW (fe_os env) flags source dest w))
        | Some (Some error) \<Rightarrow> Some (False, error, w)) = Some r"
    show "I (after r)"
    proof (cases "move_checks env False flags pr qr w = Some None")
      case True
      then have "\<not> ShouldDenyAccess (CheckWriteAccess (checks_in env w) False pr)"
        "\<not> ShouldDenyAccess (CheckWriteAccess (checks_in env w) False qr)"
        by (auto simp: move_checks_def Let_def split: if_splits)
      note granted = move_target_protected [OF I w p(1) this(1) p(2) this(2)]
      show ?thesis
        using True k w granted states_protectedD(10) [OF I]
        by (auto split: sum.splits prod.splits)
    next
      case False
      with k w show ?thesis by (auto split: option.splits)
    qed
  qed (use w in simp)
  qed
qed


section \<open>Any number of calls\<close>

lemma perform_protected:
  assumes "states_protected env I" "\<not> fe_disabled env" "I (fst s)" "ordinary_call env s c" "perform env c s = Some s'"
  shows "I (fst s')"
proof -
  obtain w overlays where s: "s = (w, overlays)" by fastforce
  note facts = assms [unfolded s fst_conv]
  show ?thesis
  proof (cases c)
    case (CreateFileW p access share disposition flags)
    with facts CreateFileW_protected [OF facts(1) _ facts(2,3)] show ?thesis by (auto simp: s split: prod.splits)
  next
    case (CloseHandle invalid handle)
    with facts states_protectedD(5) [OF facts(1,3), of handle] show ?thesis
      by (auto simp: s Detoured_CloseHandle_def after_def Let_def split: prod.splits)
  next
    case (CopyFileExW src dst flags)
    with facts CopyFileExW_protected [OF facts(1) _ facts(3)] show ?thesis
      by (auto simp: s world_call_def after_def)
  next
    case (MoveFileWithProgressW src dst flags)
    with facts MoveFile_protected [OF facts(1) _ facts(3)] show ?thesis
      by (auto simp: s world_call_def after_def)
  next
    case (DeleteFileW p)
    with facts DeleteFileW_protected [OF facts(1-3)] show ?thesis by (auto simp: s world_call_def after_def)
  next
    case (CreateDirectoryW p)
    with facts CreateDirectoryW_protected [OF facts(1-3)] show ?thesis by (auto simp: s world_call_def after_def)
  next
    case (RemoveDirectoryW p)
    with facts RemoveDirectoryW_protected [OF facts(1-3)] show ?thesis by (auto simp: s world_call_def after_def)
  qed (use facts in \<open>auto simp: s\<close>)
qed

interpretation real_tree: kept_by_calls "perform env" "\<lambda>s c. \<not> fe_disabled env \<and> ordinary_call env s c"
    "\<lambda>s. states_protected env I \<and> I (fst s)" for env I
  by unfold_locales (blast intro: perform_protected)


section \<open>The registry\<close>

text \<open>
  What a handle should be registered with: the policy of the name by which it was opened, a check that did not deny,
  and a type, file or directory.
\<close>

definition handle_ok :: "('w, 'h) file_env \<Rightarrow> wstr \<Rightarrow> HandleOverlay \<Rightarrow> bool" where
  "handle_ok env p ov \<longleftrightarrow>
     \<not> ShouldDenyAccess (ho_AccessCheck ov) \<and> (ho_Type ov = HT_File \<or> ho_Type ov = HT_Directory) \<and>
     \<not> m_isIndeterminate (ho_Policy ov) \<and> policy_at env p = Some (ho_Policy ov)"

text \<open>
  The names of the open handles, kept beside the calls: an open that hands out a handle, unless its
  name is one that the hook passes on untouched, and a close.
\<close>

definition note_call :: "('w, 'h) file_env \<Rightarrow> 'h file_call \<Rightarrow> ('w, 'h) file_state \<Rightarrow> ('h \<rightharpoonup> wstr) \<Rightarrow> ('h \<rightharpoonup> wstr)" where
  "note_call env c s names =
     (case c of
        CreateFileW p access share disposition flags \<Rightarrow>
          (case Detoured_CreateFileW env p access share disposition flags s of
             Some (Some h, error, s') \<Rightarrow> if leave_path env p then names else names(h \<mapsto> mapped_name env (fst s) p)
           | _ \<Rightarrow> names)
      | CloseHandle invalid h \<Rightarrow> if invalid then names else names(h := None)
      | _ \<Rightarrow> names)"

definition tracked :: "('w, 'h) file_env \<Rightarrow> 'h file_call \<Rightarrow> ('w, 'h) file_state \<times> ('h \<rightharpoonup> wstr) \<Rightarrow>
    (('w, 'h) file_state \<times> ('h \<rightharpoonup> wstr)) option" where
  "tracked env c t = map_option (\<lambda>s. (s, note_call env c (fst t) (snd t))) (perform env c (fst t))"

text \<open>The registry has the open handles, no others, and what it should have for each.\<close>

definition registry_ok :: "('w, 'h) file_env \<Rightarrow> ('h \<rightharpoonup> wstr) \<Rightarrow> 'h handle_overlays \<Rightarrow> bool" where
  "registry_ok env names overlays \<longleftrightarrow>
     dom overlays = dom names \<and> (\<forall>h ov p. overlays h = Some ov \<longrightarrow> names h = Some p \<longrightarrow> handle_ok env p ov)"

lemma registry_ok_dom: "registry_ok env names overlays \<Longrightarrow> overlays h = None \<longleftrightarrow> names h = None"
  unfolding registry_ok_def by (metis domIff)

lemma registry_ok_remove:
  "registry_ok env names overlays \<Longrightarrow> registry_ok env (names(h := None)) (overlays(h := None))"
  by (auto simp: registry_ok_def)

lemma registry_ok_empty [simp]: "registry_ok env (\<lambda>_. None) (\<lambda>_. None)"
  by (simp add: registry_ok_def)

lemma registry_ok_update:
  "registry_ok env names overlays \<Longrightarrow> handle_ok env p ov \<Longrightarrow> registry_ok env (names(h \<mapsto> p)) (overlays(h \<mapsto> ov))"
  by (auto simp: registry_ok_def)

lemma policy_at_determinate: "policy_at env p = Some pr \<Longrightarrow> \<not> m_isIndeterminate pr"
  by (auto simp: policy_at_def with_policy_def Initialize_def Initialize_canonical_def InitializeFromCursor_def
      Initialize_with_cursor_def Let_def split: option.splits if_splits)

lemma finish_open_registry:
  assumes "registry_ok env names overlays" "policy_at env p = Some pr"
    and "finish_open env pr check handle error ctx (w, overlays) = (given, error', w', overlays')"
  shows "registry_ok env (case given of None \<Rightarrow> names | Some h \<Rightarrow> names(h \<mapsto> p)) overlays'"
  using assms policy_at_determinate [OF assms(2)]
  by (auto simp: finish_open_def RegisterHandleOverlay_def Let_def handle_ok_def new_HandleOverlay_def
      intro!: registry_ok_update split: option.splits if_splits)

lemma CreateFileW_registry:
  assumes overlays: "registry_ok env names overlays"
    and call: "Detoured_CreateFileW env p access share disposition flags (w, overlays) = Some (given, error, w', overlays')"
  shows "registry_ok env (case given of None \<Rightarrow> names
      | Some h \<Rightarrow> if leave_path env p then names else names(h \<mapsto> mapped_name env w p)) overlays'"
proof (cases "leave_path env p")
  case True
  with assms show ?thesis by (auto simp: Detoured_CreateFileW_def split: prod.splits option.split)
next
  case False
  let ?p = "mapped_name env w p"
  let ?ok = "\<lambda>(given, error, w', overlays'). registry_ok env (case given of None \<Rightarrow> names | Some h \<Rightarrow> names(h \<mapsto> ?p)) overlays'"
  from call False have "with_policy env ?p (None, fe_lastError env, w, overlays) (\<lambda>pr.
      if ShouldDenyAccess (write_check env pr access w)
      then Some (None, DenialError_masked (mask_reads env) (write_check env pr access w), w, overlays)
      else open_granted env pr (write_check env pr access w) ?p access share disposition flags (w, overlays)) =
        Some (given, error, w', overlays')"
    by (simp add: Detoured_CreateFileW_def Let_def)
  then have "?ok (given, error, w', overlays')"
  proof (rule with_policy_keeps)
    fix pr
    assume pr: "policy_at env ?p = Some pr" and k: "(if ShouldDenyAccess (write_check env pr access w)
      then Some (None, DenialError_masked (mask_reads env) (write_check env pr access w), w, overlays)
      else open_granted env pr (write_check env pr access w) ?p access share disposition flags (w, overlays)) =
        Some (given, error, w', overlays')"
    show "?ok (given, error, w', overlays')"
    proof (cases "ShouldDenyAccess (write_check env pr access w)")
      case False
      with k have "open_granted env pr (write_check env pr access w) ?p access share disposition flags (w, overlays) =
          Some (given, error, w', overlays')"
        by simp
      then obtain check' handle e w1 where
        "(given, error, w', overlays') = finish_open env pr check' handle e (open_context env ?p handle e w1) (w1, overlays)"
        by (rule open_granted_cases)
      from finish_open_registry [OF overlays pr this [symmetric]] show ?thesis by simp
    qed (use k overlays in auto)
  qed (simp add: overlays)
  with False show ?thesis by (cases given) simp_all
qed

lemma tracked_registry:
  assumes "\<not> fe_disabled env" "registry_ok env (snd t) (snd (fst t))" "tracked env c t = Some t'"
  shows "registry_ok env (snd t') (snd (fst t'))"
proof -
  obtain w overlays names where t: "t = ((w, overlays), names)" by (metis prod.collapse)
  obtain s' where s': "perform env c (w, overlays) = Some s'" "t' = (s', note_call env c (w, overlays) names)"
    using assms(3) by (auto simp: tracked_def t)
  have ok: "registry_ok env names overlays" using assms(2) by (simp add: t)
  have "registry_ok env (note_call env c (w, overlays) names) (snd s')"
  proof (cases c)
    case (CreateFileW p access share disposition flags)
    with s'(1) obtain given error w' overlays' where
      call: "Detoured_CreateFileW env p access share disposition flags (w, overlays) = Some (given, error, w', overlays')"
      "s' = (w', overlays')" by auto
    with CreateFileW_registry [OF ok call(1)] CreateFileW show ?thesis
      by (auto simp: note_call_def split: option.splits)
  next
    case (CloseHandle invalid handle)
    with s'(1) ok registry_ok_remove [OF ok] assms(1) show ?thesis
      by (auto simp: note_call_def Detoured_CloseHandle_def CloseHandleOverlay_def Let_def split: prod.splits if_splits)
  qed (use s'(1) ok in \<open>auto simp: note_call_def world_call_def\<close>)
  then show ?thesis by (simp add: s'(2))
qed

interpretation registry: kept_by_calls "tracked env" "\<lambda>t c. \<not> fe_disabled env" "\<lambda>t. registry_ok env (snd t) (snd (fst t))" for env
  by unfold_locales (rule tracked_registry)

text \<open>A listing changes of a handle only where it stands.\<close>

lemma InsertOverlayEntries_AccessCheck:
  assumes "InsertOverlayEntries g ea Length infoClass single RestartScan enumDir w (buf, iosb, Some ov, status) =
    (buf', iosb', Some ov', status')"
  shows "ho_AccessCheck ov' = ho_AccessCheck ov"
proof -
  have snapshot: "ho_AccessCheck (EnsureOverlayEnumSnapshot g ea enumDir w ov) = ho_AccessCheck ov" for ov
    by (simp add: EnsureOverlayEnumSnapshot_def Let_def)
  show ?thesis
    using assms snapshot unfolding InsertOverlayEntries_def Let_def
    by (auto split: option.splits if_splits prod.splits)
qed

lemma CaptureOverlayEnumFilter_frame:
  obtains ov' where "CaptureOverlayEnumFilter (Some ov) FileName RestartScan = Some ov'"
    "ho_Policy ov' = ho_Policy ov" "ho_Type ov' = ho_Type ov" "ho_AccessCheck ov' = ho_AccessCheck ov"
  by (auto simp: CaptureOverlayEnumFilter_def Let_def split: option.splits if_splits)

lemma show_entries_handle:
  assumes "show_entries lenv apply_filter Length infoClass single FileName RestartScan ov st = Some (Some (status, buf, q, ov'))"
    and "handle_ok env p ov"
  shows "handle_ok env p ov'"
proof -
  obtain ov1 where ov1: "CaptureOverlayEnumFilter (Some ov) FileName RestartScan = Some ov1"
    "ho_Policy ov1 = ho_Policy ov" "ho_Type ov1 = ho_Type ov" "ho_AccessCheck ov1 = ho_AccessCheck ov"
    by (rule CaptureOverlayEnumFilter_frame)
  have spliced: "handle_ok env p (the overlay)"
    if splice: "InsertOverlayEntries g ea Length infoClass single RestartScan enumDir w (b, iosb, Some ov1, s) =
      (b', iosb', overlay, s')" for g ea enumDir w b iosb s b' iosb' overlay s'
    by (rule InsertOverlayEntries_frame [OF splice])
      (use assms(2) ov1(2-) splice in \<open>auto simp: handle_ok_def dest: InsertOverlayEntries_AccessCheck\<close>)
  let ?X = "if ShouldFilterDirectoryEnumeration (g_fileAccessManifestExtraFlags (he_globals lenv))
     then apply_filter (he_visible lenv (ho_Policy ov)) st else Some (Some st)"
  obtain st0 where X: "?X = Some (Some st0)"
    using assms(1) by (cases ?X; cases "the ?X") (simp_all add: show_entries_def)
  show ?thesis
  proof (cases "ShouldWriteOverlay (g_fileAccessManifestExtraFlags (he_globals lenv))")
    case True
    obtain b' iosb' overlay s' where ins: "InsertOverlayEntries (he_globals lenv) (he_api lenv) Length infoClass single
        RestartScan (TranslatedPath (ho_Policy ov)) (he_world lenv)
        (qs_FileInformation st0, Some (snd (qs_world st0)), Some ov1, qs_result st0) = (b', iosb', overlay, s')"
      by (metis prod_cases4)
    have "\<exists>reported. ov' = (the overlay)\<lparr>EnumerationHasBeenReported := reported\<rparr>"
      using assms(1) X True ins by (auto simp: show_entries_def ov1(1) Let_def)
    with spliced [OF ins] show ?thesis by (auto simp: handle_ok_def)
  next
    case False
    then have "\<exists>reported. ov' = ov\<lparr>EnumerationHasBeenReported := reported\<rparr>"
      using assms(1) X by (auto simp: show_entries_def Let_def)
    with assms(2) show ?thesis by (auto simp: handle_ok_def)
  qed
qed

lemma listing_registry:
  assumes "Detoured_NtQueryDirectoryFile lenv realFn handle Length infoClass single FileName RestartScan (buf, q, overlays) =
      Some (Some (status, buf', q', overlays'))" "registry_ok env names overlays"
  shows "registry_ok env names overlays'"
proof (cases "overlays handle")
  case None
  with assms show ?thesis
    by (auto simp: Detoured_NtQueryDirectoryFile_def query_hook_def TryLookupHandleOverlay_def split: prod.splits)
next
  case (Some ov)
  then obtain p where p: "names handle = Some p" "handle_ok env p ov" using assms(2) by (fastforce simp: registry_ok_def)
  obtain result error b q1 where real: "realFn RestartScan buf q = (result, error, b, q1)" by (metis prod_cases4)
  show ?thesis
  proof (cases "leaves_alone (he_disabled lenv) (Some ov) \<or> ho_Type ov \<noteq> HT_Directory")
    case True
    with assms Some show ?thesis
      by (simp add: Detoured_NtQueryDirectoryFile_def query_hook_def TryLookupHandleOverlay_def real)
  next
    case False
    with assms(1) Some obtain apply_filter st ov' where
      "show_entries lenv apply_filter Length infoClass single FileName RestartScan ov st = Some (Some (status, buf', q', ov'))"
      "overlays' = overlays(handle \<mapsto> ov')"
      by (auto simp: Detoured_NtQueryDirectoryFile_def query_hook_def TryLookupHandleOverlay_def real)
    with registry_ok_update [OF assms(2) show_entries_handle [OF _ p(2)], where h = handle] p(1) show ?thesis
      by (simp add: map_upd_triv)
  qed
qed


section \<open>The example\<close>

text \<open>The real file of the example, in the cone of the overlay, is protected.\<close>

definition real_file_there :: "name_list \<Rightarrow> bool" where
  "real_file_there w \<longleftrightarrow> map_of w real_file = Some 0x20"

lemma map_of_without: "map_of (filter (\<lambda>e. fst e \<noteq> k) w) q = (if q = k then None else map_of w q)"
  by (induction w) auto

lemma name_list_simps [simp]:
  "map_of (add_name p a w) q = (if plain_name p = q then Some a else map_of w q)"
  "map_of (remove_name p w) q = (if plain_name p = q then None else map_of w q)"
  by (auto simp: add_name_def remove_name_def map_of_without)

lemma backing_elsewhere:
  assumes "below_backing example_globals p \<or> above_backing example_globals p"
  shows "plain_name p \<noteq> real_file"
proof -
  let ?b = "ext_prefix @ WriteOverlayRoot example_globals"
  have "plain_name p \<noteq> real_file" if p: "p = ext_prefix @ WriteOverlayRoot example_globals @ rest" for rest
  proof -
    have "hd (WriteOverlayRoot example_globals) \<noteq> hd real_file" "WriteOverlayRoot example_globals \<noteq> []" by code_simp+
    with p show ?thesis by (auto simp: plain_name_def) (metis hd_append2)
  qed
  moreover have "plain_name p \<noteq> real_file" if "strict_prefix p ?b"
  proof -
    have "p = take (length p) ?b" "length p < length ?b"
      using that by (metis append_eq_conv_conj prefix_def strict_prefix_def) (rule prefix_length_less [OF that])
    then have "p \<in> set (map (\<lambda>n. take n ?b) [0..<length ?b])" by force
    moreover have "list_all (\<lambda>p. plain_name p \<noteq> real_file) (map (\<lambda>n. take n ?b) [0..<length ?b])" by code_simp
    ultimately show ?thesis by (auto simp: list_all_iff)
  qed
  ultimately show ?thesis using assms by (auto simp: below_backing_def above_backing_def)
qed

lemma real_file_names:
  assumes "plain_name p = real_file"
  shows "p \<in> {real_file, ext_prefix @ real_file, nt_prefix @ real_file}"
  using assms unfolding plain_name_def by (metis append_take_drop_id insertCI)

lemma real_file_name:
  assumes "plain_name p = real_file"
  shows "\<not> may_write sandbox_env p" and "real_file_there w \<Longrightarrow> \<not> cone_missing sandbox_env w p"
    and "real_file_there w \<Longrightarrow> \<not> real_at sandbox_env OverlayIsDirectory w p"
proof -
  have p: "p \<noteq> [] \<and> \<not> IsSpecialDeviceName p"
    using real_file_names [OF assms] by (elim insertE; clarify; code_simp)
  obtain pr where pr: "policy_at sandbox_env p = Some pr" "TranslatedPath pr = real_file" "redirected example_globals pr"
    using overlay_policy [of p] assms by metis
  show "\<not> may_write sandbox_env p"
    using p pr backing_elsewhere [of p] assms by (auto simp: may_write_def)
  have at: "fa_attributes list_files w (ext_prefix @ real_file) = Inr 0x20" if "real_file_there w"
    using that by (simp add: real_file_there_def list_files_def found_at_def plain_name_def)
  show "\<not> cone_missing sandbox_env w p" if "real_file_there w"
    using at [OF that] pr by (simp add: cone_missing_def OverlayPathExists_def list_os_def)
  show "\<not> real_at sandbox_env OverlayIsDirectory w p" if "real_file_there w"
    using at [OF that] pr by (simp add: real_at_def OverlayIsDirectory_def list_os_def)
qed

lemma real_file_changes:
  assumes "real_file_there w"
  shows "plain_name p \<noteq> real_file \<Longrightarrow> real_file_there (add_name p a w)"
    and "plain_name p \<noteq> real_file \<Longrightarrow> real_file_there (remove_name p w)"
    and "found_at w p = None \<Longrightarrow> plain_name p \<noteq> real_file"
  using assms by (auto simp: real_file_there_def found_at_def)

lemma found_at_real_file: "real_file_there w \<Longrightarrow> plain_name p = real_file \<Longrightarrow> found_at w p = Some 0x20"
  by (simp add: real_file_there_def found_at_def)

lemma real_file_protected: "states_protected sandbox_env real_file_there"
  unfolding states_protected_def sandbox_simps
proof (intro allI impI conjI, goal_cases)
  case (4 w p access share disposition flags)
  show ?case
  proof (cases "plain_name p = real_file")
    case True
    note name = real_file_name [OF True] found_at_real_file [OF 4(1) True]
    have "disposition = OPEN_EXISTING \<or> disposition = CREATE_NEW"
      using 4(2) name(1) name(3) [OF 4(1)] by (auto simp: harmless_open_def)
    then show ?thesis using 4(1) name(4) by (auto simp: list_os_def after_def)
  next
    case False
    then show ?thesis using 4(1) by (simp add: list_os_def after_def real_file_changes)
  qed
qed (auto simp: list_os_def list_files_def after_def dest: backing_elsewhere real_file_name(1,2) real_file_changes(3)
    intro!: real_file_changes(1,2) split: option.split)

text \<open>The example's process replaces the real file, and gets a file of the backing store.\<close>

abbreviation replace_file :: "nat file_call" where
  "replace_file \<equiv> CreateFileW real_file GENERIC_WRITE 0 CREATE_ALWAYS 0"

lemma file_replaced:
  "\<exists>e w' ov. Detoured_CreateFileW sandbox_env real_file GENERIC_WRITE 0 CREATE_ALWAYS 0 ([(real_file, 0x20)], Map.empty) =
     Some (Some 7, e, w', [7 \<mapsto> ov])"
proof -
  let ?w = "[(real_file, 0x20)] :: name_list" and ?backing = "OverlayBackingPath example_globals real_file"
  have name: "plain_name real_file = real_file" by code_simp
  obtain pr where pr: "policy_at sandbox_env real_file = Some pr"
    "m_policy pr = Policy_AllowAll OR Policy_OverrideAllowWriteForExistingFiles" "TranslatedPath pr = real_file"
    "redirected example_globals pr"
    using overlay_policy [of real_file] name by metis
  then have backing: "?backing \<noteq> []" "ShouldRedirectToOverlay example_globals pr"
    by (simp_all add: redirected_def)
  have absent: "found_at ?w ?backing = None" "found_at ?w (ext_prefix @ real_file) = Some 0x20"
    using backing_elsewhere [OF disjI1, OF backing_below [OF backing(1)]] by (auto simp: found_at_def plain_name_def)
  have access: "WantsWriteAccess GENERIC_WRITE" "\<not> WantsReadAccess GENERIC_WRITE" "\<not> WantsProbeOnlyAccess GENERIC_WRITE"
    by code_simp+
  have check: "\<not> ShouldDenyAccess (write_check sandbox_env pr GENERIC_WRITE ?w)"
    using access(1) example_checks(1) [OF pr(2)] by (simp add: write_check_def)
  have "ResolveOverlayOpenPath example_globals list_files pr GENERIC_WRITE CREATE_ALWAYS ?w = (?backing, EnsureBackingParentDirs list_files ?backing ?w)"
    using backing pr(3) absent access(1)
    by (simp add: ResolveOverlayOpenPath_def OverlayIsDirectory_def OverlayPathExists_def list_files_def Let_def)
  then have opened: "open_resolved sandbox_env pr c real_file GENERIC_WRITE 0 CREATE_ALWAYS 0 ?w =
      (Some 7, 0, add_name ?backing 0x20 ?w)" for c
    using absent backing(1) by (simp add: open_resolved_def list_os_def list_files_directories split: prod.split)
  show ?thesis
    using check
    by (simp add: Detoured_CreateFileW_def with_policy_at [OF pr(1)] open_granted_def opened open_check_def access
        finish_open_def RegisterHandleOverlay_def Let_def) blast
qed


section \<open>Properties\<close>

text \<open>
  C4: no sequence of calls changes what the policies protect. Whatever a statement says of files that
  the policies do not open for writing and that are not in the backing store, it holds after any
  number of opens, closes, probes, deletions, creations and removals of directories, copies and moves, in any
  order and on any paths, if it held before; so the real tree below the overlay stays as it was. The
  calls are those of \<open>ordinary_call\<close>. It leaves out what does get past the policies: opens that do not ask to
  write and yet create, truncate or delete on close, and those that delete a real directory on close;
  copies and moves between a protected path and an empty name or special device; and moves of directories.
\<close>
theorem real_files_kept:
  assumes "states_protected env I" "\<not> fe_disabled env" "I w"
    and "call_runs (perform env) (ordinary_call env) (w, overlays) cs (w', overlays')"
  shows "I w'"
proof -
  have "call_runs (perform env) (\<lambda>s c. \<not> fe_disabled env \<and> ordinary_call env s c) (w, overlays) cs (w', overlays')"
    using assms(4) by (induction rule: call_runs.induct) (use assms(2) in simp_all)
  from real_tree.run_keeps [OF this, of I] assms(1,3) show ?thesis by simp
qed

theorem real_files_kept_witness:
  "\<exists>w' overlays. call_runs (perform sandbox_env) (ordinary_call sandbox_env) ([(real_file, 0x20)], Map.empty)
      [replace_file, CloseHandle False 7] (w', overlays) \<and> map_of w' real_file = Some 0x20"
proof -
  obtain w1 ov where first: "perform sandbox_env replace_file ([(real_file, 0x20)], Map.empty) = Some (w1, [7 \<mapsto> ov])"
    using file_replaced by force
  obtain s where second: "perform sandbox_env (CloseHandle False 7) (w1, [7 \<mapsto> ov]) = Some s"
    by (cases "Detoured_CloseHandle sandbox_env False 7 (w1, [7 \<mapsto> ov])") (simp add: case_prod_beta)
  obtain w2 overlays where s: "s = (w2, overlays)" by fastforce
  have "ordinary_call sandbox_env s replace_file" for s
    by (simp add: ordinary_call_def) code_simp
  with first second have run: "call_runs (perform sandbox_env) (ordinary_call sandbox_env)
      ([(real_file, 0x20)], Map.empty) [replace_file, CloseHandle False 7] (w2, overlays)"
    by (simp add: ordinary_call_def s del: perform.simps)
  then have "real_file_there w2"
    using real_files_kept [OF real_file_protected _ _ run] by (simp add: real_file_there_def)
  with run show ?thesis unfolding real_file_there_def by blast
qed

text \<open>
  C33: the registry is that of the open handles. After any sequence of calls the handles that are registered
  are those that \<open>CreateFileW\<close> has handed out and \<open>CloseHandle\<close> has not closed since, opens of empty names and special
  devices apart; each has the policy of the name that it was last opened by, a check that did not deny, and
  a type, file or directory. A listing by \<open>NtQueryDirectoryFile\<close> keeps it so. The handles of searches, which
  the registry also holds, are not part of these calls.
\<close>
theorem registered_handles_allowed:
  assumes "\<not> fe_disabled env" "call_runs (tracked env) (\<lambda>t c. True) ((w, overlays), names) cs ((w', overlays'), names')"
    and "registry_ok env names overlays"
  shows "registry_ok env names' overlays' \<and>
    (case Detoured_NtQueryDirectoryFile lenv realFn handle Length infoClass single FileName RestartScan (buf, q, overlays') of
       Some (Some (status, buf', q', overlays'')) \<Rightarrow> registry_ok env names' overlays''
     | _ \<Rightarrow> True)"
proof -
  have "call_runs (tracked env) (\<lambda>t c. \<not> fe_disabled env) ((w, overlays), names) cs ((w', overlays'), names')"
    using assms(2) by (induction rule: call_runs.induct) (use assms(1) in simp_all)
  from registry.run_keeps [OF this] assms(3) have "registry_ok env names' overlays'" by simp
  then show ?thesis by (auto dest: listing_registry split: option.split prod.split)
qed

theorem registered_handles_allowed_witness:
  "\<exists>w' ov. call_runs (tracked sandbox_env) (\<lambda>t c. True) (([(real_file, 0x20)], Map.empty), Map.empty) [replace_file]
       ((w', [7 \<mapsto> ov]), [7 \<mapsto> real_file]) \<and> policy_at sandbox_env real_file = Some (ho_Policy ov)"
proof -
  obtain e w' ov where call: "Detoured_CreateFileW sandbox_env real_file GENERIC_WRITE 0 CREATE_ALWAYS 0
      ([(real_file, 0x20)], Map.empty) = Some (Some 7, e, w', [7 \<mapsto> ov])"
    using file_replaced by blast
  have "note_call sandbox_env replace_file ([(real_file, 0x20)], Map.empty) Map.empty = [7 \<mapsto> real_file]"
    using call by (simp add: note_call_def)
  with call have run: "call_runs (tracked sandbox_env) (\<lambda>t c. True) (([(real_file, 0x20)], Map.empty), Map.empty) [replace_file]
      ((w', [7 \<mapsto> ov]), [7 \<mapsto> real_file])"
    by (simp add: tracked_def)
  have enabled: "\<not> fe_disabled sandbox_env" by (simp add: sandbox_env_def)
  from registered_handles_allowed [OF enabled run registry_ok_empty]
  have "registry_ok sandbox_env [7 \<mapsto> real_file] [7 \<mapsto> ov]" by blast
  then have "policy_at sandbox_env real_file = Some (ho_Policy ov)" by (simp add: registry_ok_def handle_ok_def)
  with run show ?thesis by blast
qed

end
