(* ===== verification/Hook_Verdicts.thy ===== *)
theory Hook_Verdicts
  imports Hook_Runs
begin

text \<open>
  What one call of \<open>File_Hooks\<close> answers: that it returns, which opens get a handle, that the two
  probes agree, and the calls that go past the policies or the overlay.
\<close>

section \<open>Every call returns\<close>

declare split_paired_Ex [simp del]

text \<open>
  The tree below every directory is finite: \<open>rank\<close> goes down from a directory to those in it, links apart.
  The strings that Windows returns are C strings.
\<close>

definition finite_trees :: "(wstr \<Rightarrow> ((wstr \<times> u32) list \<times> u32) option) \<Rightarrow> (wstr \<Rightarrow> nat) \<Rightarrow> bool" where
  "finite_trees search rank \<longleftrightarrow>
     (\<forall>d entries error name attributes. search (PathCombine d [STAR]) = Some (entries, error) \<longrightarrow>
        (name, attributes) \<in> set entries \<longrightarrow> cstr name \<noteq> [DOT] \<longrightarrow> cstr name \<noteq> [DOT, DOT] \<longrightarrow>
        attributes AND FILE_ATTRIBUTE_DIRECTORY \<noteq> 0 \<longrightarrow> attributes AND ATTRIBUTE_REPARSE_POINT = 0 \<longrightarrow>
        rank (PathCombine d name) < rank d)"

definition c_strings :: "('w, 'h) file_env \<Rightarrow> bool" where
  "c_strings env \<longleftrightarrow>
     (\<forall>w h n. 0 \<notin> set (snd (fs_finalPath (fe_os env) w h n))) \<and> (\<forall>p. 0 \<notin> set (fs_normalize (fe_os env) p))"

lemma EnumerateDirectory_returns:
  assumes "finite_trees search rank"
  shows "\<exists>r. EnumerateDirectory_loop search [STAR] True True stack found = Some r"
proof (induction "image_mset rank (mset stack)" arbitrary: stack found rule: wf_induct_rule [OF wf_mult [OF wf_less_than]])
  case 1
  show ?case
  proof (cases stack)
    case Nil
    then show ?thesis by (subst EnumerateDirectory_loop.simps) auto
  next
    case (Cons d rest)
    show ?thesis
    proof (cases "search (PathCombine d [STAR])")
      case None
      with Cons show ?thesis by (subst EnumerateDirectory_loop.simps) auto
    next
      case (Some result)
      obtain entries error where result: "result = (entries, error)" by (cases result)
      define paths where "paths = map (\<lambda>(name, attributes). (PathCombine d name, attributes))
        (filter (\<lambda>(name, _). cstr name \<noteq> [DOT] \<and> cstr name \<noteq> [DOT, DOT]) entries)"
      define subdirs where "subdirs = map fst (filter (\<lambda>(_, attributes). True \<and>
        attributes AND FILE_ATTRIBUTE_DIRECTORY \<noteq> 0 \<and> (\<not> True \<or> attributes AND ATTRIBUTE_REPARSE_POINT = 0)) paths)"
      have "rank p < rank d" if "p \<in> set subdirs" for p
        using that assms [unfolded finite_trees_def] Some result
        by (auto simp: subdirs_def paths_def)
      then have smaller: "(image_mset rank (mset (rev subdirs @ rest)), image_mset rank (mset stack)) \<in> mult less_than"
        using one_step_implies_mult [of "{#rank d#}" "image_mset rank (mset subdirs)" less_than "image_mset rank (mset rest)"]
        by (auto simp: Cons union_commute)
      have "EnumerateDirectory_loop search [STAR] True True stack found =
          (if error \<noteq> ERROR_NO_MORE_FILES then Some (False, found @ paths)
           else EnumerateDirectory_loop search [STAR] True True (rev subdirs @ rest) (found @ paths))"
        by (subst EnumerateDirectory_loop.simps) (simp add: Cons Some result paths_def subdirs_def Let_def)
      with 1 [OF smaller] show ?thesis by auto
    qed
  qed
qed

lemma validate_entries_returns:
  assumes "good_env env" "c_strings env"
  shows "\<exists>r. validate_entries env w source target entries = Some r"
proof (induction entries)
  case (Cons entry entries)
  obtain file_name attributes where entry: "entry = (file_name, attributes)" by (cases entry)
  have norm: "0 \<notin> set (fs_normalize (fe_os env) q)" for q using assms(2) by (simp add: c_strings_def)
  have dest: "\<exists>r. with_policy env (fs_normalize (fe_os env) (t @ drop (length source) file_name)) (Some (fe_lastError env))
      (\<lambda>pr. let check = (if attributes AND FILE_ATTRIBUTE_DIRECTORY \<noteq> 0 then CheckCreateDirectoryAccess (checks_in env w) pr
                          else CheckWriteAccess (checks_in env w) False pr)
            in if ShouldDenyAccess check then Some (Some (DenialError check))
               else validate_entries env w source target entries) = Some r" for t
    by (rule with_policy_returns [OF assms(1) norm]) (simp only: Let_def split: if_split, use Cons.IH in blast)
  show ?case
    unfolding entry validate_entries.simps
    by (rule with_policy_returns [OF assms(1) norm])
      (simp only: Let_def split: if_split option.split, use Cons.IH dest [unfolded Let_def] in blast)
qed simp

lemma ValidateMoveDirectory_returns:
  assumes "good_env env" "c_strings env"
    and "finite_trees (\<lambda>spec. fs_find (fe_os env) w (fs_normalize (fe_os env) spec)) rank"
  shows "\<exists>r. ValidateMoveDirectory env source target w = Some r"
proof -
  obtain ok entries where "EnumerateDirectory (fs_find (fe_os env) w) (fs_normalize (fe_os env)) source [STAR] True True =
      Some (ok, entries)"
    using EnumerateDirectory_returns [OF assms(3), of "[source]" "[]"] by (auto simp: EnumerateDirectory_def)
  then show ?thesis
    using validate_entries_returns [OF assms(1,2)]
    by (cases ok) (auto simp: ValidateMoveDirectory_def Let_def)
qed

lemma open_granted_returns:
  assumes "good_env env" "c_strings env"
  shows "\<exists>r. open_granted env pr check p access share disposition flags s = Some r"
proof -
  have path: "0 \<notin> set (snd (DetourGetFinalPathByHandle (fs_finalPath (fe_os env) w h) e))" for w h e
    using assms(2)
    by (auto simp: DetourGetFinalPathByHandle_def c_strings_def Let_def split: prod.split dest!: in_set_takeD)
      (metis snd_conv)+
  have resolved: "resolved_check env check h access ctx w \<noteq> None" for check h ctx w
    using path [of w h "fs_finalPathError (fe_os env)"]
    unfolding resolved_check_def Let_def case_prod_beta not_None_eq
    by (simp split: if_split, intro conjI impI; rule with_policy_returns [OF assms(1)]; simp)
  have "open_granted env pr check p access share disposition flags s \<noteq> None"
    unfolding open_granted_def Let_def case_prod_beta
    by (simp add: resolved del: not_None_eq split: option.split)
  then show ?thesis by blast
qed

text \<open>The paths of a call.\<close>

fun call_paths :: "'h file_call \<Rightarrow> wstr list" where
  "call_paths (CreateFileW p access share disposition flags) = [p]"
| "call_paths (CloseHandle invalid handle) = []"
| "call_paths (GetFileAttributesW p) = [p]"
| "call_paths (GetFileAttributesExW p level) = [p]"
| "call_paths (DeleteFileW p) = [p]"
| "call_paths (CreateDirectoryW p) = [p]"
| "call_paths (RemoveDirectoryW p) = [p]"
| "call_paths (CopyFileExW src dst flags) = [src, dst]"
| "call_paths (MoveFileWithProgressW src dst flags) = [src, dst]"

text \<open>Those that read the tree below a directory.\<close>

fun reads_tree :: "'h file_call \<Rightarrow> bool" where
  "reads_tree (RemoveDirectoryW p) \<longleftrightarrow> True"
| "reads_tree (MoveFileWithProgressW src dst flags) \<longleftrightarrow> True"
| "reads_tree c \<longleftrightarrow> False"

lemma GetFileAttributesW_returns:
  assumes "good_env env" "0 \<notin> set p"
  shows "\<exists>r. Detoured_GetFileAttributesW env p w = Some r"
  unfolding Detoured_GetFileAttributesW_def Let_def
  by (simp split: if_split, intro conjI impI; rule with_policy_returns [OF assms(1) mapped_name_noNUL [OF assms]]; simp)

lemma GetFileAttributesExW_returns:
  assumes "good_env env" "0 \<notin> set p"
  shows "\<exists>r. Detoured_GetFileAttributesExW env p level info w = Some r"
proof (cases "leave_path env p")
  case False
  then show ?thesis
    unfolding Detoured_GetFileAttributesExW_def Let_def if_not_P [OF False]
    by (intro with_policy_returns [OF assms(1) mapped_name_noNUL [OF assms]]) (simp add: case_prod_beta)
qed (simp add: Detoured_GetFileAttributesExW_def)

lemma DeleteFileW_returns:
  assumes "good_env env" "0 \<notin> set p"
  shows "\<exists>r. Detoured_DeleteFileW env p w = Some r"
proof (cases "leave_path env p")
  case False
  then show ?thesis
    unfolding Detoured_DeleteFileW_def Let_def if_not_P [OF False]
    by (intro with_policy_returns [OF assms(1) mapped_name_noNUL [OF assms]])
      (auto split: prod.split OverlayDeleteAction.split)
qed (simp add: Detoured_DeleteFileW_def)

lemma CreateDirectoryW_returns:
  assumes "good_env env" "0 \<notin> set p"
  shows "\<exists>r. Detoured_CreateDirectoryW env p w = Some r"
proof (cases "leave_path env p")
  case False
  then show ?thesis
    unfolding Detoured_CreateDirectoryW_def Let_def if_not_P [OF False]
    by (intro with_policy_returns [OF assms]) (simp)
qed (simp add: Detoured_CreateDirectoryW_def)

lemma RemoveDirectoryW_returns:
  assumes "good_env env" "0 \<notin> set p" "c_strings env"
    and "finite_trees (\<lambda>spec. fs_find (fe_os env) w (fs_normalize (fe_os env) spec)) rank"
  shows "\<exists>r. Detoured_RemoveDirectoryW env p w = Some r"
proof (cases "leave_path env p")
  case False
  then show ?thesis
    unfolding Detoured_RemoveDirectoryW_def Let_def if_not_P [OF False]
  proof (intro with_policy_returns [OF assms(1,2)])
    fix pr :: PolicyResult
    obtain v where "ValidateMoveDirectory env (GetPathString (m_canonicalizedPath pr)) None w = Some v"
      using ValidateMoveDirectory_returns [OF assms(1,3,4)] by blast
    then show "\<exists>r. (if ShouldDenyAccess (CheckWriteAccess (checks_in env w) False pr)
        then Some (False, DenialError (CheckWriteAccess (checks_in env w) False pr), w)
        else case ValidateMoveDirectory env (GetPathString (m_canonicalizedPath pr)) None w of
               None \<Rightarrow> None
             | Some None \<Rightarrow>
                 if ShouldRedirectToOverlay (fe_globals env) pr
                 then (case ResolveOverlayDelete (fe_globals env) (fa_attributes (fs_files (fe_os env)) w) pr of
                         (PassThrough, _) \<Rightarrow> (case fs_RemoveDirectoryW (fe_os env) p w of
                           (result, error, w) \<Rightarrow> Some (result, fe_lastError env, w))
                       | (RedirectToBacking, overlayBacking) \<Rightarrow> (case fs_RemoveDirectoryW (fe_os env) overlayBacking w of
                           (result, error, w) \<Rightarrow> Some (result, fe_lastError env, w))
                       | (DenyAccess, _) \<Rightarrow> Some (False, ERROR_ACCESS_DENIED, w)
                       | (NotFound, _) \<Rightarrow> Some (False, ERROR_FILE_NOT_FOUND, w))
                 else (case fs_RemoveDirectoryW (fe_os env) p w of
                         (result, error, w) \<Rightarrow> Some (result, fe_lastError env, w))
             | Some (Some error) \<Rightarrow> Some (False, error, w)) = Some r"
      by (auto split: prod.split option.split OverlayDeleteAction.split)
  qed
qed (simp add: Detoured_RemoveDirectoryW_def)

text \<open>Two operands.\<close>

lemma two_policies_return:
  assumes "good_env env" "0 \<notin> set p" "0 \<notin> set q" "\<And>pr qr. \<exists>r. k pr qr = Some r"
  shows "\<exists>r. with_policy env p fail (\<lambda>pr. with_policy env q fail (k pr)) = Some r"
  by (intro with_policy_returns [OF assms(1)] assms(2-4))

lemma CopyFileExW_returns:
  assumes "good_env env" "0 \<notin> set src" "0 \<notin> set dst"
  shows "\<exists>r. Detoured_CopyFileExW env src dst flags w = Some r"
proof (cases "leave_path env src \<or> leave_path env dst")
  case False
  show ?thesis
    unfolding Detoured_CopyFileExW_def DetoursCopyFileEx_def Let_def if_not_P [OF False]
    by (intro two_policies_return assms mapped_name_noNUL) (auto split: prod.split)
qed (simp add: Detoured_CopyFileExW_def DetoursCopyFileEx_def)

lemma MoveFile_returns:
  assumes "good_env env" "0 \<notin> set src" "0 \<notin> set dst" "c_strings env"
    and "finite_trees (\<lambda>spec. fs_find (fe_os env) w (fs_normalize (fe_os env) spec)) rank"
  shows "\<exists>r. Detoured_MoveFileWithProgressW env src dst flags w = Some r"
proof (cases "leave_path env src \<or> leave_path env dst")
  case False
  have "\<exists>r. move_checks env dir flags pr qr w = Some r" for dir pr qr
    using ValidateMoveDirectory_returns [OF assms(1,4,5)] by (auto simp: move_checks_def Let_def)
  then have "\<exists>r. (case move_checks env dir flags pr qr w of
       None \<Rightarrow> None
     | Some None \<Rightarrow>
         (case move_target env dir pr qr p q w of
            Inl error \<Rightarrow> Some (False, error, w)
          | Inr (moveSource, moveDest, w) \<Rightarrow> Some (fs_MoveFileWithProgressW (fe_os env) flags moveSource moveDest w))
     | Some (Some error) \<Rightarrow> Some (False, error, w)) = Some r" for dir p q and pr qr :: PolicyResult
    by (cases "the (move_checks env dir flags pr qr w)"; cases "move_target env dir pr qr p q w")
      (force split: option.split prod.split)+
  then show ?thesis
    unfolding Detoured_MoveFileWithProgressW_def DetoursMoveFileWithProgress_def Let_def if_not_P [OF False]
    by (intro two_policies_return assms mapped_name_noNUL)
qed (simp add: Detoured_MoveFileWithProgressW_def DetoursMoveFileWithProgress_def)

lemma CreateFileW_returns:
  assumes "good_env env" "0 \<notin> set p" "c_strings env"
  shows "\<exists>r. Detoured_CreateFileW env p access share disposition flags s = Some r"
proof (cases "leave_path env p")
  case False
  then show ?thesis
    unfolding Detoured_CreateFileW_def Let_def case_prod_beta if_not_P [OF False]
    by (intro with_policy_returns [OF assms(1) mapped_name_noNUL [OF assms(1,2)]])
      (simp add: open_granted_returns [OF assms(1,3)])
qed (simp add: Detoured_CreateFileW_def split: prod.split)

declare split_paired_Ex [simp]


text \<open>The example.\<close>

lemma sandbox_c_strings: "c_strings sandbox_env"
  by (simp add: c_strings_def list_os_def)

lemma sandbox_files [simp]: "fs_files list_os = list_files"
  by (simp add: list_os_def)

lemma sandbox_attributes: "fa_attributes list_files w p = (case found_at w p of None \<Rightarrow> Inl 2 | Some a \<Rightarrow> Inr a)"
  by (simp add: list_files_def)


section \<open>What an open is given\<close>

text \<open>The verdict on a read, with \<open>ctx\<close> what was found at the path.\<close>

lemma CheckReadAccess_verdict:
  assumes "OpenedDirectory ctx \<or> Existence ctx = Existent"
  shows "ShouldDenyAccess (CheckReadAccess cenv RRA_Read ctx pr) \<longleftrightarrow>
      Existence ctx \<noteq> InvalidPath \<and> \<not> (OpenedDirectory ctx \<or> AllowRead pr \<or>
        OverrideAllowWriteForExistingFiles pr \<and> HasOverlayBackingShadow cenv pr)"
    and "ShouldDenyAccess (CheckReadAccess cenv RRA_Probe ctx pr) \<longleftrightarrow>
      Existence ctx \<noteq> InvalidPath \<and> \<not> (OpenedDirectory ctx \<or> AllowRead pr \<or>
        OverrideAllowWriteForExistingFiles pr \<and> HasOverlayBackingShadow cenv pr)"
  using assms by (auto simp: CheckReadAccess_def ShouldDenyAccess_def access_check_def Let_def)

lemma open_context_existing [simp]:
  "Existence (open_context env p (Some h) error w) = Existent"
  "OpenedDirectory (open_context env p handle error w) = IsHandleOrPathToDirectory env handle p False w"
  by (simp_all add: open_context_def InferExistenceFromError_def GetReportedError_def IsPathNonexistent_def)

lemma Combine_none:
  "ShouldDenyAccess (Combine (access_check Access_None Allow Ignore Valid) c) = ShouldDenyAccess c"
  "DenialError_masked m (Combine (access_check Access_None Allow Ignore Valid) c) = DenialError_masked m c"
  by (auto simp: Combine_def ShouldDenyAccess_def access_check_def DenialError_masked_def DenialError_def IsReadOnlyAccess_def
      Access_None_def split: PathValidity.split)

text \<open>What lets a read of an existing file through on its own path.\<close>

definition readable :: "('w, 'h) file_env \<Rightarrow> PolicyResult \<Rightarrow> wstr \<Rightarrow> 'h \<Rightarrow> 'w \<Rightarrow> bool" where
  "readable env pr p h w \<longleftrightarrow>
     IsHandleOrPathToDirectory env (Some h) p False w \<or> AllowRead pr \<or>
     OverrideAllowWriteForExistingFiles pr \<and> HasOverlayBackingShadow (checks_in env w) pr"

text \<open>
  The handle resolves to a declared input that may be read; \<open>p\<close> is still the name that was opened.
\<close>

definition linked_input :: "('w, 'h) file_env \<Rightarrow> wstr \<Rightarrow> 'h \<Rightarrow> 'w \<Rightarrow> bool" where
  "linked_input env p h w \<longleftrightarrow>
     (let (error, q) = DetourGetFinalPathByHandle (fs_finalPath (fe_os env) w h) (fs_finalPathError (fe_os env))
      in error = ERROR_SUCCESS \<and> q \<noteq> [] \<and>
         (case policy_at env q of None \<Rightarrow> False | Some pr \<Rightarrow> IsDeclaredInput pr \<and> readable env pr p h w))"

text \<open>The verdict on an open of an existing file.\<close>

definition open_allowed :: "('w, 'h) file_env \<Rightarrow> PolicyResult \<Rightarrow> wstr \<Rightarrow> u32 \<Rightarrow> 'h \<Rightarrow> 'w \<Rightarrow> bool" where
  "open_allowed env pr p flags h w \<longleftrightarrow>
     readable env pr p h w \<or> flags AND FILE_FLAG_OPEN_REPARSE_POINT = 0 \<and> linked_input env p h w"

definition denial :: "('w, 'h) file_env \<Rightarrow> u32" where
  "denial env = (if mask_reads env then ERROR_FILE_NOT_FOUND else ERROR_ACCESS_DENIED)"

lemma open_check_read:
  assumes "\<not> WantsWriteAccess access" "WantsReadAccess access \<or> WantsProbeOnlyAccess access"
  shows "ShouldDenyAccess (open_check env pr (access_check Access_None Allow Ignore Valid) access
      (open_context env p (Some h) error w) w) \<longleftrightarrow> \<not> readable env pr p h w"
    and "ShouldDenyAccess (open_check env pr (access_check Access_None Allow Ignore Valid) access ctx w) \<Longrightarrow>
      DenialError_masked (mask_reads env) (open_check env pr (access_check Access_None Allow Ignore Valid) access ctx w) =
      denial env"
proof -
  show "ShouldDenyAccess (open_check env pr (access_check Access_None Allow Ignore Valid) access
      (open_context env p (Some h) error w) w) \<longleftrightarrow> \<not> readable env pr p h w"
    using assms by (auto simp: open_check_def Combine_none CheckReadAccess_verdict readable_def)
  have "ShouldDenyAccess (CheckReadAccess cenv a ctx pr) \<Longrightarrow> a = RRA_Read \<or> a = RRA_Probe \<Longrightarrow>
      DenialError_masked (mask_reads env) (CheckReadAccess cenv a ctx pr) = denial env" for cenv a
    by (auto simp: CheckReadAccess_def ShouldDenyAccess_def access_check_def Let_def DenialError_masked_def
        DenialError_def IsReadOnlyAccess_def Access_None_def Access_Write_def denial_def split: if_splits)
  then show "ShouldDenyAccess (open_check env pr (access_check Access_None Allow Ignore Valid) access ctx w) \<Longrightarrow>
      DenialError_masked (mask_reads env) (open_check env pr (access_check Access_None Allow Ignore Valid) access ctx w) =
      denial env"
    using assms by (auto simp: open_check_def Combine_none)
qed

lemma resolved_check_denies:
  assumes "resolved_check env c h access (open_context env p (Some h) error w) w = Some c'" "ShouldDenyAccess c"
  shows "ShouldDenyAccess c' \<longleftrightarrow> \<not> linked_input env p h w" and "ShouldDenyAccess c' \<Longrightarrow> c' = c"
proof -
  obtain e q where q: "DetourGetFinalPathByHandle (fs_finalPath (fe_os env) w h) (fs_finalPathError (fe_os env)) = (e, q)"
    by fastforce
  have verdict: "ShouldDenyAccess (CheckReadAccess (checks_in env w) (if WantsReadAccess access then RRA_Read else RRA_Probe)
      (open_context env p (Some h) error w) pr) \<longleftrightarrow> \<not> readable env pr p h w" for pr
    by (simp add: CheckReadAccess_verdict readable_def)
  have "(ShouldDenyAccess c' \<longleftrightarrow> \<not> linked_input env p h w) \<and> (ShouldDenyAccess c' \<longrightarrow> c' = c)"
  proof (cases "e = ERROR_SUCCESS \<and> q \<noteq> []")
    case True
    then have k: "with_policy env q c (\<lambda>pr. let check = CheckReadAccess (checks_in env w)
          (if WantsReadAccess access then RRA_Read else RRA_Probe) (open_context env p (Some h) error w) pr
        in Some (if \<not> ShouldDenyAccess check \<and> IsDeclaredInput pr then check else c)) = Some c'"
      using assms(1) q by (simp add: resolved_check_def Let_def)
    show ?thesis
    proof (cases "policy_at env q")
      case None
      then have "c' = c" using k by (elim with_policyE) simp_all
      with None True q assms(2) show ?thesis by (simp add: linked_input_def)
    next
      case (Some pr)
      with k have "c' = (if readable env pr p h w \<and> IsDeclaredInput pr
          then CheckReadAccess (checks_in env w) (if WantsReadAccess access then RRA_Read else RRA_Probe)
            (open_context env p (Some h) error w) pr else c)"
        by (simp only: with_policy_at [OF Some] Let_def verdict not_not option.inject)
      with Some True q verdict [of pr] assms(2) show ?thesis by (auto simp: linked_input_def split: if_split_asm)
    qed
  next
    case False
    with assms q show ?thesis by (auto simp: resolved_check_def linked_input_def)
  qed
  then show "ShouldDenyAccess c' \<longleftrightarrow> \<not> linked_input env p h w" and "ShouldDenyAccess c' \<Longrightarrow> c' = c" by simp_all
qed

text \<open>
  C8: what an open for reading is given. Every such open returns. When the operating system opens
  the file, the process gets the handle, registered with the policy of the path, exactly if the path may be
  read, is a directory or has a copy in the overlay, or if the open follows links and the handle resolves to a
  declared input that may be read; otherwise the handle is closed again and the answer is "not found", or "access
  denied" where reads are not masked. When the operating system opens nothing, the process gets no handle,
  and its error or the denial.
\<close>
theorem read_open_verdict:
  assumes "good_env env" "c_strings env" "0 \<notin> set p" "\<not> leave_path env p"
    and "\<not> WantsWriteAccess access" "WantsReadAccess access \<or> WantsProbeOnlyAccess access"
    and "policy_at env (mapped_name env w p) = Some pr"
    and "open_resolved env pr (access_check Access_None Allow Ignore Valid) (mapped_name env w p) access share disposition
      flags w = (opened, error, w')"
  shows "case opened of
      None \<Rightarrow> \<exists>e. Detoured_CreateFileW env p access share disposition flags (w, overlays) = Some (None, e, w', overlays) \<and>
        (e = error \<or> e = denial env)
    | Some h \<Rightarrow>
        if open_allowed env pr (mapped_name env w p) flags h w'
        then \<exists>ov. ho_Policy ov = pr \<and> Detoured_CreateFileW env p access share disposition flags (w, overlays) =
               Some (Some h, error, w', overlays(h \<mapsto> ov))
        else Detoured_CreateFileW env p access share disposition flags (w, overlays) =
               Some (None, denial env, after (fs_CloseHandle (fe_os env) h w'), overlays)"
proof -
  let ?p = "mapped_name env w p" and ?c = "access_check Access_None Allow Ignore Valid"
  let ?ctx = "open_context env ?p opened error w'"
  let ?check = "open_check env pr ?c access ?ctx w'"
  have call: "Detoured_CreateFileW env p access share disposition flags (w, overlays) =
      open_granted env pr ?c ?p access share disposition flags (w, overlays)"
    using assms(4,5)
    by (simp add: Detoured_CreateFileW_def Let_def with_policy_at [OF assms(7)] write_check_def ShouldDenyAccess_def
        access_check_def)
  obtain r where r: "open_granted env pr ?c ?p access share disposition flags (w, overlays) = Some r"
    using open_granted_returns [OF assms(1,2)] by blast
  note denied = open_check_read [OF assms(5,6)]
  show ?thesis
  proof (cases opened)
    case None
    then have "r = finish_open env pr ?check None error ?ctx (w', overlays)"
      using r assms(8) by (simp add: open_granted_def Let_def)
    then have "r = (None, if ShouldDenyAccess ?check then denial env else error, w', overlays)"
      using denied(2) [of env pr ?ctx w'] by (simp add: finish_open_def)
    then show ?thesis unfolding None option.case call r by simp
  next
    case (Some h)
    obtain c where c: "(if ShouldDenyAccess ?check \<and> flags AND FILE_FLAG_OPEN_REPARSE_POINT = 0
        then resolved_check env ?check h access ?ctx w' else Some ?check) = Some c"
      "r = finish_open env pr c (Some h) error ?ctx (w', overlays)"
      using r assms(5,6,8) Some by (auto simp: open_granted_def Let_def split: if_splits)
    have verdict: "ShouldDenyAccess c \<longleftrightarrow> \<not> open_allowed env pr ?p flags h w'" "ShouldDenyAccess c \<Longrightarrow> c = ?check"
      using c(1) resolved_check_denies [of env ?check h access ?p error w' c] denied(1) [of env pr ?p h error w'] Some
      by (auto simp: open_allowed_def split: if_split_asm)
    show ?thesis
    proof (cases "ShouldDenyAccess c")
      case True
      then have "r = (None, denial env, after (fs_CloseHandle (fe_os env) h w'), overlays)"
        using denied(2) [of env pr ?ctx w'] verdict(2) unfolding c(2) by (simp add: finish_open_def after_def)
      with True verdict(1) show ?thesis by (simp add: call r Some)
    next
      case False
      have "\<exists>ov. ho_Policy ov = pr \<and> r = (Some h, error, w', overlays(h \<mapsto> ov))"
        using False unfolding c(2) Some
        by (intro exI [of _ "new_HandleOverlay c pr (if OpenedDirectory (open_context env ?p (Some h) error w')
            then HT_Directory else HT_File)"])
          (simp add: finish_open_def RegisterHandleOverlay_def new_HandleOverlay_def)
      with False verdict(1) show ?thesis by (auto simp: call r Some)
    qed
  qed
qed

theorem read_open_verdict_witness:
  "Detoured_CreateFileW sandbox_env denied_file GENERIC_READ 0 OPEN_EXISTING 0 ([(denied_file, 0x20)], Map.empty) =
     Some (None, denial sandbox_env, [(denied_file, 0x20)], Map.empty)"
proof -
  let ?w = "[(denied_file, 0x20)] :: name_list"
  obtain pr where pr: "policy_at sandbox_env denied_file = Some pr" "m_policy pr = 0"
    "\<not> ShouldRedirectToOverlay example_globals pr" by (rule denied_policy)
  have access: "\<not> WantsWriteAccess GENERIC_READ" "WantsReadAccess GENERIC_READ \<or> WantsProbeOnlyAccess GENERIC_READ"
    by code_simp+
  have opened: "open_resolved sandbox_env pr (access_check Access_None Allow Ignore Valid) denied_file GENERIC_READ 0
      OPEN_EXISTING 0 ?w = (Some 7, 0, ?w)"
    using pr(3) by (simp add: open_resolved_def ResolveOverlayOpenPath_def Let_def list_os_def found_at_def example_names)
  have "\<not> readable sandbox_env pr denied_file 7 ?w"
    using pr(2) by (simp add: readable_def AllowRead_def OverrideAllowWriteForExistingFiles_def IsHandleOrPathToDirectory_def
        IsDirectoryFromAttributes_def) (simp add: list_os_def)
  moreover have "\<not> linked_input sandbox_env denied_file 7 ?w"
    by (auto simp: linked_input_def DetourGetFinalPathByHandle_def list_os_def)
  ultimately have "\<not> open_allowed sandbox_env pr denied_file 0 7 ?w" by (simp add: open_allowed_def)
  then show ?thesis
    using read_open_verdict [OF sandbox_good sandbox_c_strings example_names(2) example_kept(3) access, of ?w pr 0 OPEN_EXISTING 0
        "Some 7" 0 ?w Map.empty] pr(1) opened
    by (simp add: list_os_def after_def)
qed

text \<open>
  C34: the hooked calls on files return. With a well-formed manifest and C strings, each of the nine calls of
  \<open>perform\<close> (open, close, the two probes, deletion, creation and removal of a directory, copy and move) returns
  in every state and for all its arguments; the removal of a directory and the move, which read the tree below it,
  where that tree is finite. The hooks that list directories are not among them.
\<close>
theorem calls_return:
  assumes "good_env env" "c_strings env" "0 \<notin> set (concat (call_paths c))"
    and "reads_tree c \<longrightarrow> finite_trees (\<lambda>spec. fs_find (fe_os env) (fst s) (fs_normalize (fe_os env) spec)) rank"
  shows "\<exists>s'. perform env c s = Some s'"
proof -
  obtain w overlays where s: "s = (w, overlays)" by fastforce
  have tree: "finite_trees (\<lambda>spec. fs_find (fe_os env) w (fs_normalize (fe_os env) spec)) rank" if "reads_tree c"
    using assms(4) that by (simp add: s)
  show ?thesis
  proof (cases c)
    case (CreateFileW p access share disposition flags)
    then obtain r where "Detoured_CreateFileW env p access share disposition flags s = Some r"
      using CreateFileW_returns [OF assms(1) _ assms(2), of p access share disposition flags s] assms(3) by fastforce
    with CreateFileW show ?thesis by (cases r) simp
  next
    case (GetFileAttributesW p)
    then obtain r where "Detoured_GetFileAttributesW env p w = Some r"
      using GetFileAttributesW_returns [OF assms(1)] assms(3) by auto
    with GetFileAttributesW show ?thesis by (simp add: s)
  next
    case (GetFileAttributesExW p level)
    then obtain r where "Detoured_GetFileAttributesExW env p level None w = Some r"
      using GetFileAttributesExW_returns [OF assms(1), of p level None w] assms(3) by fastforce
    with GetFileAttributesExW show ?thesis by (simp add: s)
  next
    case (DeleteFileW p)
    then obtain r where "Detoured_DeleteFileW env p w = Some r"
      using DeleteFileW_returns [OF assms(1), of p w] assms(3) by fastforce
    with DeleteFileW show ?thesis by (cases r) (simp add: s world_call_def)
  next
    case (CreateDirectoryW p)
    then obtain r where "Detoured_CreateDirectoryW env p w = Some r"
      using CreateDirectoryW_returns [OF assms(1), of p w] assms(3) by fastforce
    with CreateDirectoryW show ?thesis by (cases r) (simp add: s world_call_def)
  next
    case (RemoveDirectoryW p)
    then have reads: "reads_tree c" by simp
    from RemoveDirectoryW obtain r where "Detoured_RemoveDirectoryW env p w = Some r"
      using RemoveDirectoryW_returns [OF assms(1) _ assms(2) tree [OF reads], of p] assms(3) by fastforce
    with RemoveDirectoryW show ?thesis by (cases r) (simp add: s world_call_def)
  next
    case (CopyFileExW src dst flags)
    then obtain r where "Detoured_CopyFileExW env src dst flags w = Some r"
      using CopyFileExW_returns [OF assms(1), of src dst flags w] assms(3) by fastforce
    with CopyFileExW show ?thesis by (cases r) (simp add: s world_call_def)
  next
    case (MoveFileWithProgressW src dst flags)
    then have reads: "reads_tree c" by simp
    from MoveFileWithProgressW obtain r where "Detoured_MoveFileWithProgressW env src dst flags w = Some r"
      using MoveFile_returns [OF assms(1) _ _ assms(2) tree [OF reads], of src dst flags] assms(3) by fastforce
    with MoveFileWithProgressW show ?thesis by (cases r) (simp add: s world_call_def)
  qed (simp split: prod.split)
qed

theorem calls_return_witness:
  "\<exists>s'. perform sandbox_env (MoveFileWithProgressW real_file (example_file ''b'') 0) ([(real_file, 0x10)], Map.empty) = Some s'"
proof -
  have "0 \<notin> set (concat (call_paths (MoveFileWithProgressW real_file (example_file ''b'') 0)))" by code_simp
  then show ?thesis
    by (rule calls_return [OF sandbox_good sandbox_c_strings, where rank = length])
      (simp add: finite_trees_def list_os_def)
qed


section \<open>The two probes\<close>

text \<open>\<open>GetFileAttributesExW\<close> is \<open>GetFileAttributesW\<close> with more data, and writes to the structure only on success.\<close>

definition probes_consistent :: "('w, 'h) file_env \<Rightarrow> 'w \<Rightarrow> bool" where
  "probes_consistent env w \<longleftrightarrow>
     (\<forall>q data. \<exists>data'. fs_GetFileAttributesExW (fe_os env) w q 0 (Some data) =
        (case fa_attributes (fs_files (fe_os env)) w q of
           Inl error \<Rightarrow> (False, error, Some data)
         | Inr attributes \<Rightarrow> (True, ERROR_SUCCESS, Some (data'\<lparr>fad_attributes := attributes\<rparr>))))"

text \<open>The file that a probe of a path with this policy looks at.\<close>

definition probed_file :: "('w, 'h) file_env \<Rightarrow> PolicyResult \<Rightarrow> wstr \<Rightarrow> 'w \<Rightarrow> wstr" where
  "probed_file env pr p w =
     (let probe = ResolveOverlayProbePath (fe_globals env) (fa_attributes (fs_files (fe_os env)) w) pr
      in if probe = [] then p else probe)"

lemma probe_target_exists:
  assumes "ResolveOverlayProbePath g attributes pr \<noteq> []"
  obtains a where "attributes (ResolveOverlayProbePath g attributes pr) = Inr a"
  using assms by (auto simp: ResolveOverlayProbePath_def OverlayPathExists_def Let_def split: if_splits sum.splits)

lemma Ex_real_calls:
  assumes "probes_consistent env w"
  shows "\<exists>data'. (let (ok, error, info) = fs_GetFileAttributesExW (fe_os env) w p 0 (Some data);
        probe = ResolveOverlayProbePath (fe_globals env) (fa_attributes (fs_files (fe_os env)) w) pr
      in if probe \<noteq> [] then fs_GetFileAttributesExW (fe_os env) w probe 0 info else (ok, error, info)) =
    (case fa_attributes (fs_files (fe_os env)) w (probed_file env pr p w) of
       Inl error \<Rightarrow> (False, error, Some data)
     | Inr attributes \<Rightarrow> (True, ERROR_SUCCESS, Some (data'\<lparr>fad_attributes := attributes\<rparr>)))"
proof -
  obtain d1 where first: "fs_GetFileAttributesExW (fe_os env) w p 0 (Some data) =
      (case fa_attributes (fs_files (fe_os env)) w p of
         Inl error \<Rightarrow> (False, error, Some data)
       | Inr attributes \<Rightarrow> (True, ERROR_SUCCESS, Some (d1\<lparr>fad_attributes := attributes\<rparr>)))"
    using assms [unfolded probes_consistent_def] by blast
  show ?thesis
  proof (cases "ResolveOverlayProbePath (fe_globals env) (fa_attributes (fs_files (fe_os env)) w) pr = []")
    case True
    then show ?thesis
      by (intro exI [of _ d1]) (simp add: first probed_file_def split: sum.split)
  next
    case False
    let ?probe = "ResolveOverlayProbePath (fe_globals env) (fa_attributes (fs_files (fe_os env)) w) pr"
    obtain a where a: "fa_attributes (fs_files (fe_os env)) w ?probe = Inr a"
      by (rule probe_target_exists [OF False])
    obtain d0 where info: "snd (snd (fs_GetFileAttributesExW (fe_os env) w p 0 (Some data))) = Some d0"
      unfolding first by (cases "fa_attributes (fs_files (fe_os env)) w p") simp_all
    obtain d2 where "fs_GetFileAttributesExW (fe_os env) w ?probe 0 (Some d0) =
        (True, ERROR_SUCCESS, Some (d2\<lparr>fad_attributes := a\<rparr>))"
      using assms [unfolded probes_consistent_def, rule_format, of ?probe d0] a by auto
    with False a info show ?thesis
      by (intro exI [of _ d2]) (simp add: probed_file_def case_prod_beta Let_def)
  qed
qed

lemma no_policy:
  assumes "good_env env" "0 \<notin> set p" "policy_at env p = None"
  shows "with_policy env p fail k = Some fail"
  using with_policy_returns [OF assms(1,2), of "\<lambda>_. Some ()" "()"] assms(3)
  by (auto simp: policy_at_def with_policy_def split: option.splits)

definition probe_verdict :: "('w, 'h) file_env \<Rightarrow> PolicyResult \<Rightarrow> 'w \<Rightarrow> u32 + u32 \<Rightarrow> AccessCheckResult" where
  "probe_verdict env pr w found =
     CheckReadAccess (checks_in env w) RRA_Probe
       (InferExistenceFromError (case found of Inl error \<Rightarrow> error | Inr _ \<Rightarrow> ERROR_SUCCESS)
          \<lparr>Existence = Nonexistent, OpenedDirectory = IsDirectoryFromAttributes (attribute_word found) False\<rparr>) pr"

lemma GetFileAttributesW_policy:
  assumes "\<not> leave_path env p" "policy_at env (mapped_name env w p) = Some pr"
  defines "found \<equiv> fa_attributes (fs_files (fe_os env)) w (probed_file env pr (mapped_name env w p) w)"
  shows "Detoured_GetFileAttributesW env p w = Some (if ShouldDenyAccess (probe_verdict env pr w found)
     then Inl (DenialError_masked (mask_reads env) (probe_verdict env pr w found)) else found)"
  using assms(1)
  by (simp add: Detoured_GetFileAttributesW_def Let_def with_policy_at [OF assms(2)] probe_verdict_def found_def
      probed_file_def)

lemma GetFileAttributesExW_policy:
  assumes "probes_consistent env w" "\<not> leave_path env p" "policy_at env (mapped_name env w p) = Some pr"
  defines "found \<equiv> fa_attributes (fs_files (fe_os env)) w (probed_file env pr (mapped_name env w p) w)"
  shows "\<exists>data'. Detoured_GetFileAttributesExW env p 0 (Some data) w =
    Some (case found of
            Inl error \<Rightarrow>
              (False, if ShouldDenyAccess (probe_verdict env pr w found)
                 then DenialError_masked (mask_reads env) (probe_verdict env pr w found) else error, Some data)
          | Inr attributes \<Rightarrow>
              if ShouldDenyAccess (probe_verdict env pr w found)
              then (False, DenialError_masked (mask_reads env) (probe_verdict env pr w found),
                    Some (data'\<lparr>fad_attributes := attributes\<rparr>))
              else (True, ERROR_SUCCESS, Some (data'\<lparr>fad_attributes := attributes\<rparr>)))"
proof -
  let ?p = "mapped_name env w p"
  obtain data' where calls: "(let (ok, error, info) = fs_GetFileAttributesExW (fe_os env) w ?p 0 (Some data);
        probe = ResolveOverlayProbePath (fe_globals env) (fa_attributes (fs_files (fe_os env)) w) pr
      in if probe \<noteq> [] then fs_GetFileAttributesExW (fe_os env) w probe 0 info else (ok, error, info)) =
    (case found of
       Inl error \<Rightarrow> (False, error, Some data)
     | Inr attributes \<Rightarrow> (True, ERROR_SUCCESS, Some (data'\<lparr>fad_attributes := attributes\<rparr>)))"
    using Ex_real_calls [OF assms(1)] unfolding found_def by blast
  show ?thesis
  proof (cases found)
    case (Inl error)
    with calls show ?thesis
      using assms(2)
      by (intro exI [of _ data']) (simp add: Detoured_GetFileAttributesExW_def with_policy_at [OF assms(3)] probe_verdict_def Let_def
          case_prod_beta GetReportedError_def attribute_word_def IsDirectoryFromAttributes_def)
  next
    case (Inr attributes)
    with calls show ?thesis
      using assms(2)
      by (intro exI [of _ data']) (simp add: Detoured_GetFileAttributesExW_def with_policy_at [OF assms(3)] probe_verdict_def Let_def
          case_prod_beta GetReportedError_def attribute_word_def)
  qed
qed

text \<open>
  C35: the two probes agree. For every path, \<open>GetFileAttributesExW\<close> fails exactly where \<open>GetFileAttributesW\<close>
  does, with the same error, and gives the same attributes where it succeeds. Where the policy hides an
  existing file, both answer alike, but the structure that the caller of the first has passed holds
  the attributes of the hidden file.
\<close>
theorem probes_agree:
  assumes "good_env env" "probes_consistent env w" "0 \<notin> set p" "\<not> leave_path env p"
  shows "\<exists>r ok error data'. Detoured_GetFileAttributesW env p w = Some r \<and>
    Detoured_GetFileAttributesExW env p 0 (Some data) w = Some (ok, error, Some data') \<and>
    (case r of
       Inl e \<Rightarrow> \<not> ok \<and> error = e
     | Inr attributes \<Rightarrow> ok \<and> fad_attributes data' = attributes) \<and>
    (\<forall>pr attributes. policy_at env (mapped_name env w p) = Some pr \<longrightarrow>
       fa_attributes (fs_files (fe_os env)) w (probed_file env pr (mapped_name env w p) w) = Inr attributes \<longrightarrow>
       fad_attributes data' = attributes)"
proof (cases "policy_at env (mapped_name env w p)")
  case None
  note unknown = no_policy [OF assms(1) mapped_name_noNUL [OF assms(1,3)] None]
  show ?thesis
    using None assms(4)
    by (simp add: unknown Detoured_GetFileAttributesW_def Detoured_GetFileAttributesExW_def Let_def) blast
next
  case (Some pr)
  let ?found = "fa_attributes (fs_files (fe_os env)) w (probed_file env pr (mapped_name env w p) w)"
  from GetFileAttributesExW_policy [OF assms(2,4) Some, of data] GetFileAttributesW_policy [OF assms(4) Some] Some
  show ?thesis
    by (cases ?found) (auto split: if_splits)
qed

theorem probes_agree_witness:
  "\<exists>r ok error data'. Detoured_GetFileAttributesW sandbox_env denied_file [(denied_file, 0x20)] = Some r \<and>
    Detoured_GetFileAttributesExW sandbox_env denied_file 0 (Some \<lparr>fad_attributes = 0, fad_creation = (0, 0),
      fad_access = (0, 0), fad_write = (0, 0), fad_sizeHigh = 0, fad_sizeLow = 0\<rparr>) [(denied_file, 0x20)] =
      Some (ok, error, Some data') \<and> fad_attributes data' = 0x20"
proof -
  let ?w = "[(denied_file, 0x20)] :: name_list"
  obtain pr where pr: "policy_at sandbox_env denied_file = Some pr" "m_policy pr = 0"
    "\<not> ShouldRedirectToOverlay example_globals pr" by (rule denied_policy)
  have "probes_consistent sandbox_env ?w"
    by (auto simp: probes_consistent_def sandbox_attributes) (auto simp: list_os_def split: option.split)
  from probes_agree [OF sandbox_good this example_names(2) example_kept(3), of "\<lparr>fad_attributes = 0, fad_creation = (0, 0),
      fad_access = (0, 0), fad_write = (0, 0), fad_sizeHigh = 0, fad_sizeLow = 0\<rparr>"] pr
  show ?thesis
    by (auto simp: probed_file_def ResolveOverlayProbePath_def sandbox_attributes found_at_def example_names)
qed


section \<open>Calls past the policies\<close>

text \<open>
  C36: a copy is made before the source is checked. Where the destination may be written and the real
  copy succeeds, a source that the action may not read is copied all the same: the answer is the
  denial, but the world is the one after the copy.
\<close>
theorem denied_source_copied:
  assumes "\<not> leave_path env src" "\<not> leave_path env dst"
    and "policy_at env (mapped_name env w src) = Some pr" "policy_at env (mapped_name env w dst) = Some qr"
    and "\<not> ShouldDenyAccess (CheckWriteAccess (checks_in env w) False qr)"
    and "copy_target env pr qr (mapped_name env w src) (mapped_name env w dst) w = (source, dest, w0)"
    and "fs_CopyFileExW (fe_os env) flags source dest w0 = (True, error, w')"
    and "ShouldDenyAccess (CheckExistingFileReadAccess (checks_in env w') pr)"
  shows "Detoured_CopyFileExW env src dst flags w = Some (False, denial env, w')"
proof -
  let ?check = "CheckExistingFileReadAccess (checks_in env w') pr"
  have "DenialError_masked (mask_reads env) ?check = denial env"
    using assms(8)
    by (auto simp: CheckExistingFileReadAccess_def CheckReadAccess_def ShouldDenyAccess_def access_check_def Let_def
        DenialError_masked_def DenialError_def IsReadOnlyAccess_def Access_None_def Access_Write_def denial_def split: if_splits)
  then have "copy_result env pr (True, error, w') = (False, denial env, w')"
    using assms(8)
    by (simp add: copy_result_def GetReportedError_def InferExistenceFromError_def IsPathNonexistent_def
        CheckExistingFileReadAccess_def)
  then show ?thesis
    using assms(1,2,5-7)
    by (simp add: Detoured_CopyFileExW_def DetoursCopyFileEx_def with_policy_at [OF assms(3)] with_policy_at [OF assms(4)]
        Let_def)
qed

theorem denied_source_copied_witness:
  "\<exists>w'. Detoured_CopyFileExW sandbox_env denied_file (example_file ''b'') 0 [(denied_file, 0x20)] =
     Some (False, denial sandbox_env, w') \<and>
     found_at w' (OverlayBackingPath example_globals (example_file ''b'')) = Some 0x20"
proof -
  let ?w = "[(denied_file, 0x20)] :: name_list"
  obtain pr where pr: "policy_at sandbox_env denied_file = Some pr" "m_policy pr = 0"
    "\<not> ShouldRedirectToOverlay example_globals pr" by (rule denied_policy)
  obtain qr where qr: "policy_at sandbox_env (example_file ''b'') = Some qr"
    "m_policy qr = Policy_AllowAll OR Policy_OverrideAllowWriteForExistingFiles" "TranslatedPath qr = example_file ''b''"
    "redirected example_globals qr"
    using overlay_policy [of "example_file ''b''"] example_names(5) by metis
  have "ShouldWriteOverlay (g_fileAccessManifestExtraFlags example_globals)" by code_simp
  then have target: "copy_target sandbox_env pr qr denied_file (example_file ''b'') ?w =
      (denied_file, OverlayBackingPath example_globals (example_file ''b''), ?w)"
    using pr(3) qr(3,4)
    by (simp add: copy_target_def ResolveOverlayProbePath_def ResolveOverlayRenameDest_def redirected_def list_files_directories)
  have real: "fs_CopyFileExW (fe_os sandbox_env) 0 denied_file (OverlayBackingPath example_globals (example_file ''b'')) ?w =
      (True, 0, add_name (OverlayBackingPath example_globals (example_file ''b'')) 0x20 ?w)"
    by (simp add: list_os_def found_at_def example_names)
  show ?thesis
    using denied_source_copied [OF example_kept(3,2) _ _ _ _ real, where pr = pr and qr = qr and w = ?w] target pr(1) qr(1)
      example_checks(1) [OF qr(2)] example_checks(3) [OF pr(2)]
    by (auto simp: found_at_def add_name_def)
qed

text \<open>
  C37: the disposition of an open is not checked. An open whose access does not ask to write is passed on with
  whatever disposition it has, \<open>CREATE_ALWAYS\<close> included, even where the policy denies to write the file: the
  world after it is that after the real call, or after the handle is closed if the read is refused.
\<close>
theorem disposition_unchecked:
  assumes "good_env env" "c_strings env" "\<not> leave_path env p" "policy_at env (mapped_name env w p) = Some pr"
    and "\<not> ShouldRedirectToOverlay (fe_globals env) pr"
    and "ShouldDenyAccess (CheckWriteAccess (checks_in env w) False pr)" "\<not> WantsWriteAccess access"
  shows "\<exists>handle error w' overlays' share' opened e w1.
    Detoured_CreateFileW env p access share disposition flags (w, overlays) = Some (handle, error, w', overlays') \<and>
    fs_CreateFileW (fe_os env) (mapped_name env w p) access share' disposition flags w = (opened, e, w1) \<and>
    (w' = w1 \<or> (\<exists>h. opened = Some h \<and> w' = after (fs_CloseHandle (fe_os env) h w1)))"
proof -
  let ?p = "mapped_name env w p" and ?c = "access_check Access_None Allow Ignore Valid"
  have call: "Detoured_CreateFileW env p access share disposition flags (w, overlays) =
      open_granted env pr ?c ?p access share disposition flags (w, overlays)"
    using assms(3,7)
    by (simp add: Detoured_CreateFileW_def Let_def with_policy_at [OF assms(4)] write_check_def ShouldDenyAccess_def
        access_check_def)
  obtain r where r: "open_granted env pr ?c ?p access share disposition flags (w, overlays) = Some r"
    using open_granted_returns [OF assms(1,2)] by blast
  obtain opened e w1 c where opened:
    "open_resolved env pr ?c ?p access share disposition flags w = (opened, e, w1)"
    "r = finish_open env pr c opened e (open_context env ?p opened e w1) (w1, overlays)"
    by (rule open_granted_cases [OF r]) blast
  obtain share' where real: "fs_CreateFileW (fe_os env) ?p access share' disposition flags w = (opened, e, w1)"
    using opened(1) assms(5) by (auto simp: open_resolved_def ResolveOverlayOpenPath_def Let_def)
  have world: "fst (snd (snd r)) = w1 \<or> (\<exists>h. opened = Some h \<and> fst (snd (snd r)) = after (fs_CloseHandle (fe_os env) h w1))"
    unfolding opened(2) by (cases opened) (simp_all add: finish_open_def after_def)
  obtain handle error w' overlays' where r': "r = (handle, error, w', overlays')" by (cases r)
  show ?thesis
    by (intro exI conjI, rule call [unfolded r r'], rule real) (use world r' in simp)
qed

theorem disposition_unchecked_witness:
  "\<exists>handle error w' overlays'. Detoured_CreateFileW sandbox_env denied_file GENERIC_READ 0 CREATE_ALWAYS 0 ([], Map.empty) =
     Some (handle, error, w', overlays') \<and> found_at w' denied_file = Some 0x20"
proof -
  obtain pr where pr: "policy_at sandbox_env denied_file = Some pr" "m_policy pr = 0"
    "\<not> ShouldRedirectToOverlay example_globals pr" by (rule denied_policy)
  have "\<not> WantsWriteAccess GENERIC_READ" by code_simp
  from disposition_unchecked [OF sandbox_good sandbox_c_strings _ _ _ _ this, of denied_file "[]" pr 0 CREATE_ALWAYS 0 Map.empty]
    pr example_checks(2) [OF pr(2)]
  show ?thesis
    by (auto simp: list_os_def after_def found_at_def add_name_def)
qed

text \<open>
  Directories are moved in the real tree. The move of a directory that passes its checks is made on the
  paths of the caller, in the cone of the overlay as well, so it changes the real tree.
\<close>
theorem directory_moved_in_real_tree:
  assumes "\<not> leave_path env src" "\<not> leave_path env dst"
    and "policy_at env (mapped_name env w src) = Some pr" "policy_at env (mapped_name env w dst) = Some qr"
    and "redirected (fe_globals env) pr" "IsHandleOrPathToDirectory env None (mapped_name env w src) True w"
    and "move_checks env True flags pr qr w = Some None"
  shows "Detoured_MoveFileWithProgressW env src dst flags w =
    Some (fs_MoveFileWithProgressW (fe_os env) flags (mapped_name env w src) (mapped_name env w dst) w)"
  using assms(1,2,6,7)
  by (simp add: Detoured_MoveFileWithProgressW_def DetoursMoveFileWithProgress_def with_policy_at [OF assms(3)]
      with_policy_at [OF assms(4)] move_target_def Let_def)

theorem directory_moved_in_real_tree_witness:
  "Detoured_MoveFileWithProgressW sandbox_env real_file (example_file ''b'') 0 [(real_file, 0x10)] =
     Some (True, 0, [(example_file ''b'', 0x10)])"
proof -
  let ?w = "[(real_file, 0x10)] :: name_list"
  obtain pr where pr: "policy_at sandbox_env real_file = Some pr"
    "m_policy pr = Policy_AllowAll OR Policy_OverrideAllowWriteForExistingFiles" "redirected example_globals pr"
    using overlay_policy [of real_file] example_names(3) by metis
  obtain qr where qr: "policy_at sandbox_env (example_file ''b'') = Some qr"
    "m_policy qr = Policy_AllowAll OR Policy_OverrideAllowWriteForExistingFiles"
    using overlay_policy [of "example_file ''b''"] by metis
  have dir: "IsHandleOrPathToDirectory sandbox_env None real_file True ?w"
    by (simp add: IsHandleOrPathToDirectory_def sandbox_attributes found_at_def example_names attribute_word_def
        IsDirectoryFromAttributes_def)
  have "ValidateMoveDirectory sandbox_env p q ?w = Some None" for p q
    by (simp add: ValidateMoveDirectory_def EnumerateDirectory_def Let_def, simp add: list_os_def)
     (subst EnumerateDirectory_loop.simps, simp, subst EnumerateDirectory_loop.simps, simp)
  then have "move_checks sandbox_env True 0 pr qr ?w = Some None"
    by (simp add: move_checks_def example_checks(1) pr(2) qr(2))
  from directory_moved_in_real_tree [OF example_kept(1,2) _ _ _ _ this] pr(1,3) qr(1) dir
  have "Detoured_MoveFileWithProgressW sandbox_env real_file (example_file ''b'') 0 ?w =
      Some (fs_MoveFileWithProgressW list_os 0 real_file (example_file ''b'') ?w)" by simp
  then show ?thesis by (simp add: list_os_def found_at_def example_names add_name_def remove_name_def)
qed

end
