(* ===== verification/Find_Hooks.thy ===== *)
theory Find_Hooks
  imports File_Hooks
begin

text \<open>
  The hooks of a search by name (\<open>vendor/detours-services/DetouredFunctions.cpp\<close>, \<open>FindFirstFileExW\<close>,
  \<open>FindNextFileW\<close> and \<open>FindClose\<close>), and the handle that \<open>src/overlay_engine.cpp\<close> makes up when only the
  overlay has a match. \<open>FindFirstFileExW\<close> probes a single name or opens a listing; \<open>FindNextFileW\<close>
  filters the real entries and goes on with the overlay's.
\<close>

section \<open>Searches\<close>

text \<open>
  The searches of Windows are a state \<open>'q\<close>; handles, of type \<open>'h\<close>, are the valid ones. Each call gives
  its result and the last error, which Windows does not reset where a call succeeds. \<open>None\<close> in the
  result of a hook is a call that does not return, or a read outside the manifest.
\<close>

record ('w, 'h, 'q) find_env =
  fn_globals :: parsed_manifest
  fn_manifest :: bytes
  fn_fullPathName :: buffer_api
  fn_pathError :: u32
  fn_disabled :: bool
  fn_api :: "'w enum_api"
  fn_world :: 'w
  fn_FindFirstFileExW :: "wstr \<Rightarrow> u32 \<Rightarrow> u32 \<Rightarrow> u32 \<Rightarrow> 'q \<Rightarrow> ('h \<times> find_data) option \<times> u32 \<times> 'q"
  fn_FindNextFileW :: "'h \<Rightarrow> 'q \<Rightarrow> find_data option \<times> u32 \<times> 'q"
  fn_FindClose :: "'h \<Rightarrow> 'q \<Rightarrow> bool \<times> u32 \<times> 'q"

definition find_attributes :: "('w, 'h, 'q) find_env \<Rightarrow> attributes_api" where
  "find_attributes env = fa_attributes (ea_files (fn_api env)) (fn_world env)"

definition find_checks :: "('w, 'h, 'q) find_env \<Rightarrow> check_env" where
  "find_checks env = process_env (fn_globals env) (find_attributes env)"

definition child_visible :: "('w, 'h, 'q) find_env \<Rightarrow> PolicyResult \<Rightarrow> wstr \<Rightarrow> bool option" where
  "child_visible env directoryPolicy name =
     IsEnumChildVisible (find_checks env) (fn_manifest env) (g_manifestTreeRoot (fn_globals env)) directoryPolicy name"

definition child_policy :: "('w, 'h, 'q) find_env \<Rightarrow> PolicyResult \<Rightarrow> wstr \<Rightarrow> PolicyResult option" where
  "child_policy env directoryPolicy name =
     GetPolicyForSubpath (fn_manifest env) (g_manifestTreeRoot (fn_globals env)) directoryPolicy name"

definition find_filters :: "('w, 'h, 'q) find_env \<Rightarrow> bool" where
  "find_filters env = ShouldFilterDirectoryEnumeration (g_fileAccessManifestExtraFlags (fn_globals env))"

definition find_overlays :: "('w, 'h, 'q) find_env \<Rightarrow> bool" where
  "find_overlays env = ShouldWriteOverlay (g_fileAccessManifestExtraFlags (fn_globals env))"

text \<open>
  \<open>while (!IsEnumChildVisible(policy, data->cFileName)) ...\<close>: the first visible entry from \<open>data\<close> on, or the
  last error at the end of the search.
\<close>

partial_function (option) skip_hidden :: "(wstr \<Rightarrow> bool option) \<Rightarrow> ('q \<Rightarrow> find_data option \<times> u32 \<times> 'q) \<Rightarrow>
    find_data \<Rightarrow> 'q \<Rightarrow> ((u32 + find_data) \<times> 'q) option" where
  "skip_hidden visible findNext data q =
     (case visible (fd_cFileName data) of
        None \<Rightarrow> None
      | Some isVisible \<Rightarrow>
          if isVisible then Some (Inr data, q)
          else (case findNext q of
                  (found, error, q) \<Rightarrow>
                    (case found of
                       None \<Rightarrow> Some (Inl error, q)
                     | Some data \<Rightarrow> skip_hidden visible findNext data q)))"

declare skip_hidden.simps [code]


section \<open>FindClose and FindNextFileW\<close>

definition Detoured_FindClose :: "('w, 'h, 'q) find_env \<Rightarrow> 'h \<Rightarrow> 'q \<times> 'h handle_overlays \<Rightarrow>
    bool \<times> u32 \<times> 'q \<times> 'h handle_overlays" where
  "Detoured_FindClose env handle s =
     (let (q, overlays) = s;
          overlays = CloseHandleOverlay handle overlays;
          (result, error, q) = fn_FindClose env handle q
      in (result, error, q, overlays))"

definition append_overlay :: "('w, 'h, 'q) find_env \<Rightarrow> 'h \<Rightarrow> u32 \<Rightarrow> 'q \<times> 'h handle_overlays \<Rightarrow>
    find_data option \<times> u32 \<times> 'q \<times> 'h handle_overlays" where
  "append_overlay env hFindFile error s =
     (let (q, overlays) = s;
          (data, overlay, error) =
            TryAppendOverlayFindDataW (fn_globals env) (fn_api env) (fn_world env)
              (TryLookupHandleOverlay hFindFile overlays) error
      in (data, error, q, overlays(hFindFile := overlay)))"

text \<open>Returns the entry, \<open>None\<close> for a failure, and the last error.\<close>

definition Detoured_FindNextFileW :: "('w, 'h, 'q) find_env \<Rightarrow> 'h \<Rightarrow> 'q \<times> 'h handle_overlays \<Rightarrow>
    (find_data option \<times> u32 \<times> 'q \<times> 'h handle_overlays) option" where
  "Detoured_FindNextFileW env hFindFile s =
     (let (q, overlays) = s;
          (result, error, q) = fn_FindNextFileW env hFindFile q
      in if fn_disabled env then Some (result, error, q, overlays)
         else (case result of
                 None \<Rightarrow>
                   Some (if find_overlays env \<and> error = ERROR_NO_MORE_FILES
                         then append_overlay env hFindFile error (q, overlays)
                         else (None, error, q, overlays))
               | Some data \<Rightarrow>
                   (case TryLookupHandleOverlay hFindFile overlays of
                      None \<Rightarrow> Some (Some data, error, q, overlays)
                    | Some overlay \<Rightarrow>
                        (case (if find_filters env
                               then map_option (\<lambda>(r, q). (r, ERROR_SUCCESS, q))
                                      (skip_hidden (child_visible env (ho_Policy overlay)) (fn_FindNextFileW env hFindFile) data q)
                               else Some (Inr data, error, q)) of
                           None \<Rightarrow> None
                         | Some (Inl lastError, _, q) \<Rightarrow>
                             Some (if lastError = ERROR_NO_MORE_FILES
                                   then append_overlay env hFindFile lastError (q, overlays)
                                   else (None, lastError, q, overlays))
                         | Some (Inr data, error, q) \<Rightarrow>
                             map_option (\<lambda>filePolicyResult. (Some data, error, q, overlays))
                               (child_policy env (ho_Policy overlay) (fd_cFileName data))))))"


section \<open>A search for what only the overlay has\<close>

text \<open>\<open>while (haveReal && !OverlayNameMatchesFilter(scratch.cFileName, filterExpr)) ...\<close>\<close>

partial_function (option) skip_reals :: "(wstr \<Rightarrow> bool) \<Rightarrow> ('q \<Rightarrow> find_data option \<times> u32 \<times> 'q) \<Rightarrow> find_data \<Rightarrow> 'q \<Rightarrow>
    (find_data option \<times> 'q) option" where
  "skip_reals matches findNext scratch q =
     (if matches (fd_cFileName scratch) then Some (Some scratch, q)
      else (case findNext q of
              (found, error, q) \<Rightarrow>
                (case found of
                   None \<Rightarrow> Some (None, q)
                 | Some scratch \<Rightarrow> skip_reals matches findNext scratch q)))"

declare skip_reals.simps [code]

definition overlay_only_match :: "('w, 'h, 'q) find_env \<Rightarrow> wstr \<Rightarrow> wstr \<Rightarrow> bool" where
  "overlay_only_match env base filterExpr \<longleftrightarrow>
     list_ex (\<lambda>nm. \<not> OverlayPathExists (find_attributes env) (base @ [BACKSLASH] @ nm) \<and>
                   OverlayNameMatchesFilter (fn_api env) nm filterExpr)
       (ListBackingChildren (fn_globals env) (ea_files (fn_api env)) base (fn_world env))"

definition TrySynthesizeOverlayFindFirstW :: "('w, 'h, 'q) find_env \<Rightarrow> wstr \<Rightarrow> wstr \<Rightarrow> AccessCheckResult \<Rightarrow>
    PolicyResult \<Rightarrow> u32 \<Rightarrow> u32 \<Rightarrow> u32 \<Rightarrow> 'q \<times> 'h handle_overlays \<Rightarrow>
    (('h \<times> find_data) option \<times> 'q \<times> 'h handle_overlays) option" where
  "TrySynthesizeOverlayFindFirstW env dirPath filterExpr dirAccessCheck dirPolicy fInfoLevelId fSearchOp dwAdditionalFlags s =
     (let (q, overlays) = s;
          base = pop_back_while IsDirectorySeparator dirPath
      in if base = [] \<or> \<not> overlay_only_match env base filterExpr then Some (None, q, overlays)
         else (case fn_FindFirstFileExW env (base @ [BACKSLASH, STAR]) fInfoLevelId fSearchOp dwAdditionalFlags q of
                 (None, error, q) \<Rightarrow> Some (None, q, overlays)
               | (Some (h, scratch), error, q) \<Rightarrow>
                   (let ov = (new_HandleOverlay dirAccessCheck dirPolicy HT_Find)
                          \<lparr>OverlayEnumFilter := filterExpr, OverlayEnumFilterSet := True\<rparr>
                    in case skip_reals (\<lambda>nm. OverlayNameMatchesFilter (fn_api env) nm filterExpr)
                              (fn_FindNextFileW env h) scratch q of
                         None \<Rightarrow> None
                       | Some (Some scratch, q) \<Rightarrow> Some (Some (h, scratch), q, overlays(h \<mapsto> ov))
                       | Some (None, q) \<Rightarrow>
                           (case NextOverlayFindDataW (fn_globals env) (fn_api env) base (fn_world env) ov of
                              (Some data, ov) \<Rightarrow> Some (Some (h, data), q, overlays(h \<mapsto> ov))
                            | (None, ov) \<Rightarrow>
                                (case Detoured_FindClose env h (q, overlays(h \<mapsto> ov)) of
                                   (result, error, q, overlays) \<Rightarrow> Some (None, q, overlays))))))"


section \<open>FindFirstFileExW\<close>

text \<open>The path to search: the one that was given, the copy of a single file in the backing store, or a backing directory.\<close>

definition find_target :: "('w, 'h, 'q) find_env \<Rightarrow> PolicyResult \<Rightarrow> wstr \<Rightarrow> wstr \<Rightarrow> (wstr \<times> bool) option" where
  "find_target env directoryPolicyResult lastComp lpFileName =
     (let g = fn_globals env;
          probe = (if \<not> PathContainsWildcard lastComp
                   then map_option (ResolveOverlayProbePath g (find_attributes env))
                          (child_policy env directoryPolicyResult lastComp)
                   else Some [])
      in map_option (\<lambda>overlayFindProbe.
           if overlayFindProbe \<noteq> [] then (overlayFindProbe, True)
           else if find_overlays env
           then (let dirVirtual = TranslatedPath directoryPolicyResult;
                     backingDir = OverlayBackingPath g dirVirtual
                 in if dirVirtual \<noteq> [] \<and> backingDir \<noteq> [] \<and>
                       \<not> OverlayIsDirectory (find_attributes env) (ext_prefix @ dirVirtual) \<and>
                       OverlayIsDirectory (find_attributes env) backingDir
                    then (JoinDirAndName backingDir (if lastComp \<noteq> [] then lastComp else [STAR]), False)
                    else (lpFileName, False))
           else (lpFileName, False)) probe)"

definition directory_check :: "('w, 'h, 'q) find_env \<Rightarrow> PolicyResult \<Rightarrow> bool \<Rightarrow> bool \<Rightarrow> AccessCheckResult" where
  "directory_check env directoryPolicyResult searchPathIsFile isEnumeration =
     (if searchPathIsFile
      then CheckReadAccess (find_checks env) RRA_Probe \<lparr>Existence = Existent, OpenedDirectory = False\<rparr> directoryPolicyResult
      else access_check (access_of_read (if isEnumeration then RRA_Enumerate else RRA_Probe)) Allow
             (if CheckReportAnyAccess (g_fileAccessManifestFlags (fn_globals env)) False then Report else Ignore) Valid)"

text \<open>
  The check of the file that was found or probed. \<open>found\<close> is the handle with the entry; a listing
  is registered with the caller's wildcard.
\<close>

definition check_found :: "('w, 'h, 'q) find_env \<Rightarrow> PolicyResult \<Rightarrow> AccessCheckResult \<Rightarrow> bool \<Rightarrow> wstr \<Rightarrow>
    ('h \<times> find_data) option \<Rightarrow> u32 \<Rightarrow> PolicyResult \<Rightarrow> 'q \<times> 'h handle_overlays \<Rightarrow>
    ('h \<times> find_data) option \<times> u32 \<times> 'q \<times> 'h handle_overlays" where
  "check_found env directoryPolicyResult directoryAccessCheck isEnumeration lastComp found error filePolicyResult s =
     (let (q, overlays) = s;
          readContext = InferExistenceFromError (GetReportedError (found \<noteq> None) error)
            \<lparr>Existence = Nonexistent,
             OpenedDirectory = (case found of
                 None \<Rightarrow> False
               | Some (h, data) \<Rightarrow> IsDirectoryFromAttributes (fd_attributes data) False)\<rparr>;
          fileAccessCheck = CheckReadAccess (find_checks env) (if isEnumeration then RRA_EnumerationProbe else RRA_Probe)
            readContext filePolicyResult
      in if ShouldDenyAccess fileAccessCheck
         then (let error = DenialError_masked
                     (ShouldDeniedReadsAsNotFound (g_fileAccessManifestExtraFlags (fn_globals env))) fileAccessCheck
               in case found of
                    None \<Rightarrow> (None, error, q, overlays)
                  | Some (h, data) \<Rightarrow>
                      (case Detoured_FindClose env h (q, overlays) of
                         (result, _, q, overlays) \<Rightarrow> (None, error, q, overlays)))
         else (found, error, q,
               (case found of
                  Some (h, data) \<Rightarrow>
                    if isEnumeration
                    then (let ov = new_HandleOverlay directoryAccessCheck directoryPolicyResult HT_Find
                          in overlays(h \<mapsto> (if find_overlays env
                               then ov\<lparr>OverlayEnumFilter := lastComp, OverlayEnumFilterSet := True\<rparr> else ov)))
                    else overlays
                | None \<Rightarrow> overlays)))"

text \<open>What follows the real call.\<close>

definition after_find_first :: "('w, 'h, 'q) find_env \<Rightarrow> CanonicalizedPath \<Rightarrow> wstr \<Rightarrow> PolicyResult \<Rightarrow>
    u32 \<Rightarrow> u32 \<Rightarrow> u32 \<Rightarrow> ('h \<times> find_data) option \<Rightarrow> u32 \<Rightarrow> 'q \<times> 'h handle_overlays \<Rightarrow>
    (('h \<times> find_data) option \<times> u32 \<times> 'q \<times> 'h handle_overlays) option" where
  "after_find_first env dirPath lastComp directoryPolicyResult fInfoLevelId fSearchOp dwAdditionalFlags found error s =
     (let (q, overlays) = s;
          searchPathIsFile = (error = ERROR_DIRECTORY);
          isEnumeration = (\<not> searchPathIsFile \<and> PathContainsWildcard lastComp);
          filtered = (case found of
              Some (h, data) \<Rightarrow>
                if find_filters env \<and> isEnumeration
                then (case skip_hidden (child_visible env directoryPolicyResult) (fn_FindNextFileW env h) data q of
                        None \<Rightarrow> None
                      | Some (Inr data, q) \<Rightarrow> Some (Some (h, data), error, q, overlays)
                      | Some (Inl _, q) \<Rightarrow>
                          (case Detoured_FindClose env h (q, overlays) of
                             (result, _, q, overlays) \<Rightarrow> Some (None, ERROR_FILE_NOT_FOUND, q, overlays)))
                else Some (found, error, q, overlays)
            | None \<Rightarrow> Some (None, error, q, overlays))
      in case filtered of
           None \<Rightarrow> None
         | Some (found, error, q, overlays) \<Rightarrow>
             (let directoryAccessCheck = directory_check env directoryPolicyResult searchPathIsFile isEnumeration;
                  component = (case found of
                      Some (h, data) \<Rightarrow>
                        if isEnumeration then Some (fd_cFileName data)
                        else if \<not> searchPathIsFile then Some lastComp else None
                    | None \<Rightarrow> if \<not> isEnumeration \<and> \<not> searchPathIsFile then Some lastComp else None);
                  checked = (case component of
                      None \<Rightarrow> Some (found, error, q, overlays)
                    | Some name \<Rightarrow>
                        map_option (\<lambda>filePolicyResult.
                          check_found env directoryPolicyResult directoryAccessCheck isEnumeration lastComp found error
                            filePolicyResult (q, overlays)) (child_policy env directoryPolicyResult name))
              in case checked of
                   None \<Rightarrow> None
                 | Some (found, error, q, overlays) \<Rightarrow>
                     if found = None \<and> isEnumeration \<and> \<not> searchPathIsFile \<and> error = ERROR_FILE_NOT_FOUND \<and>
                        find_overlays env
                     then map_option (\<lambda>(synth, q, overlays).
                            (synth, if synth \<noteq> None then ERROR_SUCCESS else error, q, overlays))
                            (TrySynthesizeOverlayFindFirstW env (GetPathString dirPath) lastComp directoryAccessCheck
                               directoryPolicyResult fInfoLevelId fSearchOp dwAdditionalFlags (q, overlays))
                     else Some (found, error, q, overlays)))"

definition ReportFindFirstFileExWAccesses :: "('w, 'h, 'q) find_env \<Rightarrow> wstr \<Rightarrow> u32 \<Rightarrow> u32 \<Rightarrow> u32 \<Rightarrow>
    'q \<times> 'h handle_overlays \<Rightarrow> (('h \<times> find_data) option \<times> u32 \<times> 'q \<times> 'h handle_overlays) option" where
  "ReportFindFirstFileExWAccesses env lpFileName fInfoLevelId fSearchOp dwAdditionalFlags s =
     (let (q, overlays) = s;
          includingFilter = Canonicalize (fn_fullPathName env) (fn_pathError env) lpFileName
      in if cp_IsNull includingFilter
         then (let (found, error, q) = fn_FindFirstFileExW env lpFileName fInfoLevelId fSearchOp dwAdditionalFlags q
               in Some (found, error, q, overlays))
         else (let excludingFilter = RemoveLastComponent includingFilter;
                   lastComp = GetLastComponent includingFilter
               in case Initialize_canonical (fn_manifest env) (g_manifestTreeRoot (fn_globals env)) excludingFilter of
                    None \<Rightarrow> None
                  | Some directoryPolicyResult \<Rightarrow>
                      (case find_target env directoryPolicyResult lastComp lpFileName of
                         None \<Rightarrow> None
                       | Some (findTarget, probed) \<Rightarrow>
                           (let (found, error, q) =
                                  fn_FindFirstFileExW env findTarget fInfoLevelId fSearchOp dwAdditionalFlags q;
                                found = (if probed \<and> lastComp \<noteq> []
                                         then map_option (apsnd (fd_cFileName_update (\<lambda>_. take (MAX_PATH - 1) lastComp))) found
                                         else found)
                            in after_find_first env excludingFilter lastComp directoryPolicyResult fInfoLevelId fSearchOp
                                 dwAdditionalFlags found error (q, overlays)))))"

text \<open>The name with which the hook goes on, after the reverse mapping.\<close>

definition find_name :: "('w, 'h, 'q) find_env \<Rightarrow> wstr \<Rightarrow> wstr" where
  "find_name env lpFileName =
     (case ReverseMapWin32Path (fn_globals env) (fn_fullPathName env) (find_attributes env) lpFileName of
        Some virt \<Rightarrow> virt
      | None \<Rightarrow> lpFileName)"

text \<open>
  \<open>searchFilter\<close>: the caller passes a search filter. The levels are \<open>FindExInfoStandard\<close>, 0, and
  \<open>FindExInfoBasic\<close>, 1.
\<close>

definition Detoured_FindFirstFileExW :: "('w, 'h, 'q) find_env \<Rightarrow> wstr \<Rightarrow> u32 \<Rightarrow> u32 \<Rightarrow> bool \<Rightarrow> u32 \<Rightarrow>
    'q \<times> 'h handle_overlays \<Rightarrow> (('h \<times> find_data) option \<times> u32 \<times> 'q \<times> 'h handle_overlays) option" where
  "Detoured_FindFirstFileExW env lpFileName fInfoLevelId fSearchOp searchFilter dwAdditionalFlags s =
     (if fn_disabled env \<or> lpFileName = [] \<or> searchFilter \<or> (fInfoLevelId \<noteq> 0 \<and> fInfoLevelId \<noteq> 1) \<or>
         IsSpecialDeviceName lpFileName
      then (let (q, overlays) = s;
                (found, error, q) = fn_FindFirstFileExW env lpFileName fInfoLevelId fSearchOp dwAdditionalFlags q
            in Some (found, error, q, overlays))
      else ReportFindFirstFileExWAccesses env (find_name env lpFileName) fInfoLevelId fSearchOp dwAdditionalFlags s)"

definition Detoured_FindFirstFileW :: "('w, 'h, 'q) find_env \<Rightarrow> wstr \<Rightarrow> 'q \<times> 'h handle_overlays \<Rightarrow>
    (('h \<times> find_data) option \<times> u32 \<times> 'q \<times> 'h handle_overlays) option" where
  "Detoured_FindFirstFileW env lpFileName s = Detoured_FindFirstFileExW env lpFileName 0 0 False 0 s"


section \<open>The contract of a search\<close>

text \<open>A handle of Windows lists the entries \<open>left q\<close>, one by one, and then ends.\<close>

definition search_gives :: "('h \<Rightarrow> 'q \<Rightarrow> find_data option \<times> u32 \<times> 'q) \<Rightarrow> 'h \<Rightarrow> ('q \<Rightarrow> find_data list) \<Rightarrow> bool" where
  "search_gives findNext h left \<longleftrightarrow>
     (\<forall>q. case left q of
        [] \<Rightarrow> \<exists>q'. findNext h q = (None, ERROR_NO_MORE_FILES, q') \<and> left q' = []
      | d # ds \<Rightarrow> \<exists>e q'. findNext h q = (Some d, e, q') \<and> left q' = ds)"

lemma search_gives_Nil:
  assumes "search_gives findNext h left" "left q = []"
  obtains q' where "findNext h q = (None, ERROR_NO_MORE_FILES, q')" "left q' = []"
  using assms(1) [unfolded search_gives_def, THEN spec, of q] assms(2) by auto

lemma search_gives_Cons:
  assumes "search_gives findNext h left" "left q = d # ds"
  obtains e q' where "findNext h q = (Some d, e, q')" "left q' = ds"
  using assms(1) [unfolded search_gives_def, THEN spec, of q] assms(2) by auto

lemma skip_hidden_gives:
  assumes "search_gives findNext h left" "\<forall>d \<in> set (data # left q). visible (fd_cFileName d) \<noteq> None"
  shows "case dropWhile (\<lambda>d. visible (fd_cFileName d) = Some False) (data # left q) of
      [] \<Rightarrow> \<exists>q'. skip_hidden visible (findNext h) data q = Some (Inl ERROR_NO_MORE_FILES, q') \<and> left q' = []
    | d # ds \<Rightarrow> \<exists>q'. skip_hidden visible (findNext h) data q = Some (Inr d, q') \<and> left q' = ds"
  using assms(2)
proof (induction "left q" arbitrary: data q)
  case Nil
  then have "left q = []" by simp
  then obtain q' where next_call: "findNext h q = (None, ERROR_NO_MORE_FILES, q')" "left q' = []"
    using search_gives_Nil [OF assms(1)] by metis
  obtain v where "visible (fd_cFileName data) = Some v" using Nil.prems by auto
  with next_call \<open>left q = []\<close> show ?case
    by (cases v; subst (1 2) skip_hidden.simps) simp_all
next
  case (Cons d ds)
  obtain e q' where next_call: "findNext h q = (Some d, e, q')" "left q' = ds"
    using search_gives_Cons [OF assms(1)] Cons.hyps(2) by metis
  obtain v where v: "visible (fd_cFileName data) = Some v" using Cons.prems by auto
  show ?case
  proof (cases v)
    case True
    then show ?thesis
      using v Cons.hyps(2) by (subst (1 2) skip_hidden.simps) simp
  next
    case False
    have step: "skip_hidden visible (findNext h) data q = skip_hidden visible (findNext h) d q'"
      using v False by (subst skip_hidden.simps) (simp add: next_call(1))
    have drop: "dropWhile (\<lambda>d. visible (fd_cFileName d) = Some False) (data # left q) =
        dropWhile (\<lambda>d. visible (fd_cFileName d) = Some False) (d # left q')"
      using v False Cons.hyps(2) next_call(2) by simp
    have "set (d # left q') \<subseteq> set (data # left q)" using Cons.hyps(2) next_call(2) by (metis set_subset_Cons)
    then have "\<forall>d \<in> set (d # left q'). visible (fd_cFileName d) \<noteq> None" using Cons.prems by blast
    from Cons.hyps(1) [OF next_call(2) [symmetric] this] show ?thesis unfolding step drop .
  qed
qed

lemma skip_reals_gives:
  assumes "search_gives findNext h left"
  shows "case dropWhile (\<lambda>d. \<not> matches (fd_cFileName d)) (data # left q) of
      [] \<Rightarrow> \<exists>q'. skip_reals matches (findNext h) data q = Some (None, q') \<and> left q' = []
    | d # ds \<Rightarrow> \<exists>q'. skip_reals matches (findNext h) data q = Some (Some d, q') \<and> left q' = ds"
proof (induction "left q" arbitrary: data q)
  case Nil
  then have "left q = []" by simp
  then obtain q' where "findNext h q = (None, ERROR_NO_MORE_FILES, q')" "left q' = []"
    using search_gives_Nil [OF assms] by metis
  with \<open>left q = []\<close> show ?case
    by (cases "matches (fd_cFileName data)"; subst (1 2) skip_reals.simps) simp_all
next
  case (Cons d ds)
  obtain e q' where next_call: "findNext h q = (Some d, e, q')" "left q' = ds"
    using search_gives_Cons [OF assms] Cons.hyps(2) by metis
  show ?case
  proof (cases "matches (fd_cFileName data)")
    case True
    then show ?thesis using Cons.hyps(2) by (subst (1 2) skip_reals.simps) simp
  next
    case False
    then have step: "skip_reals matches (findNext h) data q = skip_reals matches (findNext h) d q'"
      by (subst skip_reals.simps) (simp add: next_call(1))
    have drop: "dropWhile (\<lambda>d. \<not> matches (fd_cFileName d)) (data # left q) =
        dropWhile (\<lambda>d. \<not> matches (fd_cFileName d)) (d # left q')"
      using False Cons.hyps(2) next_call(2) by simp
    from Cons.hyps(1) [OF next_call(2) [symmetric], of d] show ?thesis unfolding step drop .
  qed
qed


section \<open>Repeated calls\<close>

text \<open>A directory whose children all have policies: the manifest holds a tree.\<close>

definition listed_dir :: "('w, 'h, 'q) find_env \<Rightarrow> PolicyResult \<Rightarrow> bool" where
  "listed_dir env pr \<longleftrightarrow>
     (\<exists>dir n. record_at (fn_manifest env) (g_manifestTreeRoot (fn_globals env)) n \<and> tree_wf n \<and>
        Initialize_canonical (fn_manifest env) (g_manifestTreeRoot (fn_globals env)) dir = Some pr \<and>
        extensible (GetPathStringWithoutTypePrefix dir) \<and> 0 \<notin> set (GetPathStringWithoutTypePrefix dir))"

lemma listed_dir_children:
  assumes "listed_dir env pr" "0 \<notin> set name"
  shows "\<exists>child. child_policy env pr name = Some child" "child_visible env pr name \<noteq> None"
proof -
  from assms(1) show child: "\<exists>child. child_policy env pr name = Some child"
    using GetPolicyForSubpath_returns [OF _ _ _ _ _ assms(2)] by (auto simp: listed_dir_def child_policy_def) blast
  then show "child_visible env pr name \<noteq> None"
    using assms(2) by (auto simp: child_visible_def IsEnumChildVisible_def child_policy_def cstr_id)
qed

definition shown_entry :: "('w, 'h, 'q) find_env \<Rightarrow> PolicyResult \<Rightarrow> find_data \<Rightarrow> bool" where
  "shown_entry env pr d \<longleftrightarrow> (find_filters env \<longrightarrow> child_visible env pr (fd_cFileName d) = Some True)"

definition overlay_tail :: "('w, 'h, 'q) find_env \<Rightarrow> HandleOverlay \<Rightarrow> wstr list" where
  "overlay_tail env ov =
     (if find_overlays env
      then map (take (MAX_PATH - 1))
             (pending_scan (fn_globals env) (fn_api env) (TranslatedPath (ho_Policy ov)) (fn_world env) ov)
      else [])"

text \<open>One call of \<open>FindNextFileW\<close> and the name that the caller reads.\<close>

definition find_next_ask :: "('w, 'h, 'q) find_env \<Rightarrow> 'h \<Rightarrow> 'q \<times> 'h handle_overlays \<Rightarrow>
    wstr list \<times> ('q \<times> 'h handle_overlays)" where
  "find_next_ask env h s =
     (case Detoured_FindNextFileW env h s of
        Some (Some data, error, s') \<Rightarrow> ([fd_cFileName data], s')
      | Some (None, error, s') \<Rightarrow> ([], s')
      | None \<Rightarrow> ([], s))"

definition find_ok :: "('w, 'h, 'q) find_env \<Rightarrow> 'h \<Rightarrow> PolicyResult \<Rightarrow> ('q \<Rightarrow> find_data list) \<Rightarrow>
    'q \<times> 'h handle_overlays \<Rightarrow> bool" where
  "find_ok env h pr left s \<longleftrightarrow>
     \<not> fn_disabled env \<and> listed_dir env pr \<and> search_gives (fn_FindNextFileW env) h left \<and>
     (\<forall>d \<in> set (left (fst s)). 0 \<notin> set (fd_cFileName d)) \<and>
     (\<exists>ov. snd s h = Some ov \<and> ho_Type ov = HT_Find \<and> ho_Policy ov = pr)"

definition find_pending :: "('w, 'h, 'q) find_env \<Rightarrow> 'h \<Rightarrow> PolicyResult \<Rightarrow> ('q \<Rightarrow> find_data list) \<Rightarrow>
    'q \<times> 'h handle_overlays \<Rightarrow> wstr list" where
  "find_pending env h pr left s =
     map fd_cFileName (filter (shown_entry env pr) (left (fst s))) @ overlay_tail env (the (snd s h))"

lemma NextOverlayFindDataW_frame:
  assumes "NextOverlayFindDataW g ea enumDir w ov = (data, ov')"
  shows "ho_Policy ov' = ho_Policy ov" "ho_Type ov' = ho_Type ov"
  using assms by (auto simp: NextOverlayFindDataW_def EnsureOverlayEnumSnapshot_def Let_def split: if_splits option.splits)

text \<open>The end of the real entries.\<close>

lemma append_overlay_step:
  assumes "overlays h = Some ov" "ho_Type ov = HT_Find" "find_overlays env"
    and "append_overlay env h ERROR_NO_MORE_FILES (q, overlays) = (data, error, s')"
  obtains ov' where "s' = (q, overlays(h \<mapsto> ov'))" "ho_Type ov' = HT_Find" "ho_Policy ov' = ho_Policy ov"
    "overlay_tail env ov = (case data of None \<Rightarrow> [] | Some d \<Rightarrow> fd_cFileName d # overlay_tail env ov')"
    "data = None \<Longrightarrow> error = ERROR_NO_MORE_FILES \<and> overlay_tail env ov' = []"
proof -
  let ?dir = "TranslatedPath (ho_Policy ov)"
  obtain found ov' where n: "NextOverlayFindDataW (fn_globals env) (fn_api env) ?dir (fn_world env) ov = (found, ov')"
    by fastforce
  note frame = NextOverlayFindDataW_frame [OF n]
  have ask: "find_ask (fn_globals env) (fn_api env) ?dir (fn_world env) ov =
      ((case found of None \<Rightarrow> [] | Some d \<Rightarrow> [fd_cFileName d]), ov')"
    by (simp add: find_ask_def n split: option.split)
  note step = find_ask_step [OF ask]
  have r: "data = found" "s' = (q, overlays(h \<mapsto> ov'))"
    "error = (if found = None then ERROR_NO_MORE_FILES else ERROR_SUCCESS)"
    using assms n
    by (auto simp: append_overlay_def TryAppendOverlayFindDataW_def TryLookupHandleOverlay_def find_overlays_def Let_def
        split: option.splits)
  show thesis
    by (rule that [OF r(2)])
      (use assms(2,3) frame step r(1,3) in \<open>auto simp: overlay_tail_def split: option.splits\<close>)
qed

lemma append_overlay_off:
  assumes "overlays h = Some ov" "\<not> find_overlays env"
  shows "append_overlay env h error (q, overlays) = (None, error, q, overlays)"
  using assms
  by (auto simp: append_overlay_def TryAppendOverlayFindDataW_def TryLookupHandleOverlay_def find_overlays_def)

text \<open>When the real entries are used up, at once or behind hidden ones.\<close>

lemma ended_step:
  assumes "find_ok env h pr left (q, overlays)" "left q' = []"
    and "append_overlay env h ERROR_NO_MORE_FILES (q', overlays) = (data, error, s')"
  shows "find_ok env h pr left s'"
    and "overlay_tail env (the (overlays h)) = (case data of None \<Rightarrow> [] | Some d \<Rightarrow> [fd_cFileName d]) @ find_pending env h pr left s'"
    and "data = None \<Longrightarrow> overlay_tail env (the (overlays h)) = []"
proof -
  obtain ov where ov: "overlays h = Some ov" "ho_Type ov = HT_Find" "ho_Policy ov = pr"
    using assms(1) by (auto simp: find_ok_def)
  have "find_ok env h pr left s' \<and>
      overlay_tail env ov = (case data of None \<Rightarrow> [] | Some d \<Rightarrow> [fd_cFileName d]) @ find_pending env h pr left s' \<and>
      (data = None \<longrightarrow> overlay_tail env ov = [])"
  proof (cases "find_overlays env")
    case True
    show ?thesis
      by (rule append_overlay_step [OF ov(1,2) True assms(3)])
        (use assms(1,2) ov in \<open>auto simp: find_ok_def find_pending_def split: option.splits\<close>)
  next
    case False
    with append_overlay_off [where h = h and overlays = overlays, OF ov(1) False, of ERROR_NO_MORE_FILES q'] assms ov show ?thesis
      by (auto simp: find_ok_def find_pending_def overlay_tail_def)
  qed
  then show "find_ok env h pr left s'"
    "overlay_tail env (the (overlays h)) = (case data of None \<Rightarrow> [] | Some d \<Rightarrow> [fd_cFileName d]) @ find_pending env h pr left s'"
    "data = None \<Longrightarrow> overlay_tail env (the (overlays h)) = []"
    using ov(1) by auto
qed

lemma shown_dropWhile:
  assumes "listed_dir env pr" "\<forall>d \<in> set ds. 0 \<notin> set (fd_cFileName d)" "find_filters env"
  shows "filter (shown_entry env pr) ds =
    (case dropWhile (\<lambda>d. child_visible env pr (fd_cFileName d) = Some False) ds of
       [] \<Rightarrow> []
     | d # ds' \<Rightarrow> d # filter (shown_entry env pr) ds')"
  using assms(2)
proof (induction ds)
  case (Cons d ds)
  from listed_dir_children(2) [OF assms(1), of "fd_cFileName d"] Cons.prems obtain v where
    "child_visible env pr (fd_cFileName d) = Some v" by auto
  moreover have "shown_entry env pr d \<longleftrightarrow> child_visible env pr (fd_cFileName d) = Some True"
    using assms(3) by (simp add: shown_entry_def)
  ultimately show ?case using Cons.IH Cons.prems by (cases v) simp_all
qed simp

lemma find_next_cases:
  assumes ok: "find_ok env h pr left (q, overlays)"
  obtains
    q' data error s' where "left q' = []" "filter (shown_entry env pr) (left q) = []"
      "append_overlay env h ERROR_NO_MORE_FILES (q', overlays) = (data, error, s')"
      "Detoured_FindNextFileW env h (q, overlays) = Some (data, error, s')"
  | q' d error where
      "filter (shown_entry env pr) (left q) = d # filter (shown_entry env pr) (left q')"
      "set (left q') \<subseteq> set (left q)"
      "Detoured_FindNextFileW env h (q, overlays) = Some (Some d, error, q', overlays)"
proof -
  obtain ov where ov: "overlays h = Some ov" "ho_Policy ov = pr" using ok by (auto simp: find_ok_def)
  have gives: "search_gives (fn_FindNextFileW env) h left" and enabled: "\<not> fn_disabled env"
    and dir: "listed_dir env pr" and names: "\<forall>d \<in> set (left q). 0 \<notin> set (fd_cFileName d)"
    using ok by (auto simp: find_ok_def)
  show thesis
  proof (cases "left q")
    case Nil
    obtain q' where real: "fn_FindNextFileW env h q = (None, ERROR_NO_MORE_FILES, q')" "left q' = []"
      by (rule search_gives_Nil [OF gives Nil])
    obtain data error s' where a: "append_overlay env h ERROR_NO_MORE_FILES (q', overlays) = (data, error, s')"
      by (metis prod_cases3)
    have "Detoured_FindNextFileW env h (q, overlays) = Some (data, error, s')"
      using a append_overlay_off [where h = h and overlays = overlays, OF ov(1), of env ERROR_NO_MORE_FILES q'] enabled
      by (cases "find_overlays env") (simp_all add: Detoured_FindNextFileW_def real)
    with real(2) Nil a show thesis by (intro that(1)) simp_all
  next
    case (Cons d ds)
    obtain e q1 where real: "fn_FindNextFileW env h q = (Some d, e, q1)" "left q1 = ds"
      by (rule search_gives_Cons [OF gives Cons])
    show thesis
    proof (cases "find_filters env")
      case True
      let ?hidden = "\<lambda>d. child_visible env pr (fd_cFileName d) = Some False"
      have total: "\<forall>d \<in> set (d # left q1). child_visible env pr (fd_cFileName d) \<noteq> None"
        using names Cons real(2) listed_dir_children(2) [OF dir] by simp
      note skip = skip_hidden_gives [OF gives total]
      have shown: "filter (shown_entry env pr) (left q) =
          (case dropWhile ?hidden (d # left q1) of [] \<Rightarrow> [] | d # ds' \<Rightarrow> d # filter (shown_entry env pr) ds')"
        using shown_dropWhile [OF dir names True] Cons real(2) by simp
      show thesis
      proof (cases "dropWhile ?hidden (d # left q1)")
        case Nil
        obtain q' where q': "skip_hidden (child_visible env pr) (fn_FindNextFileW env h) d q1 = Some (Inl ERROR_NO_MORE_FILES, q')"
          "left q' = []" using skip unfolding Nil by auto
        obtain data error s' where a: "append_overlay env h ERROR_NO_MORE_FILES (q', overlays) = (data, error, s')"
          by (metis prod_cases3)
        have "Detoured_FindNextFileW env h (q, overlays) = Some (data, error, s')"
          using a enabled ov True
          by (simp add: Detoured_FindNextFileW_def real(1) TryLookupHandleOverlay_def q'(1))
        with q'(2) a shown Nil show thesis by (intro that(1)) simp_all
      next
        case (Cons d' ds')
        obtain q' where q': "skip_hidden (child_visible env pr) (fn_FindNextFileW env h) d q1 = Some (Inr d', q')"
          "left q' = ds'" using skip unfolding Cons by auto
        have "set (d' # ds') \<subseteq> set (d # left q1)"
          using set_dropWhileD [of _ ?hidden "d # left q1"] unfolding Cons by blast
        then have sub: "set (d' # ds') \<subseteq> set (left q)" using \<open>left q = d # ds\<close> real(2) by simp
        then obtain child where "child_policy env pr (fd_cFileName d') = Some child"
          using listed_dir_children(1) [OF dir, of "fd_cFileName d'"] names by auto
        then have "Detoured_FindNextFileW env h (q, overlays) = Some (Some d', ERROR_SUCCESS, q', overlays)"
          using enabled ov True by (simp add: Detoured_FindNextFileW_def real(1) TryLookupHandleOverlay_def q'(1))
        with shown Cons q'(2) sub show thesis by (intro that(2)) auto
      qed
    next
      case False
      obtain child where "child_policy env pr (fd_cFileName d) = Some child"
        using listed_dir_children(1) [OF dir, of "fd_cFileName d"] names Cons by auto
      then have "Detoured_FindNextFileW env h (q, overlays) = Some (Some d, e, q1, overlays)"
        using enabled ov False by (simp add: Detoured_FindNextFileW_def real(1) TryLookupHandleOverlay_def)
      with Cons real(2) False show thesis by (intro that(2)) (auto simp: shown_entry_def)
    qed
  qed
qed

lemma find_next_step:
  assumes "find_ok env h pr left s" "find_next_ask env h s = (out, s')"
  shows "find_ok env h pr left s'" and "find_pending env h pr left s = out @ find_pending env h pr left s'"
    and "out = [] \<Longrightarrow> find_pending env h pr left s = []"
proof -
  obtain q overlays where s: "s = (q, overlays)" by fastforce
  have "find_ok env h pr left s' \<and> find_pending env h pr left s = out @ find_pending env h pr left s' \<and>
      (out = [] \<longrightarrow> find_pending env h pr left s = [])"
  proof (rule find_next_cases [OF assms(1) [unfolded s]])
    fix q' data error t
    assume ended: "left q' = []" "filter (shown_entry env pr) (left q) = []"
      "append_overlay env h ERROR_NO_MORE_FILES (q', overlays) = (data, error, t)"
      "Detoured_FindNextFileW env h (q, overlays) = Some (data, error, t)"
    with assms(2) have "s' = t" "out = (case data of None \<Rightarrow> [] | Some d \<Rightarrow> [fd_cFileName d])"
      by (auto simp: find_next_ask_def s split: option.splits)
    with ended(2) ended_step [OF assms(1) [unfolded s] ended(1,3)] show ?thesis
      by (auto simp: find_pending_def s split: option.splits)
  next
    fix q' d error
    assume entry: "filter (shown_entry env pr) (left q) = d # filter (shown_entry env pr) (left q')"
      "set (left q') \<subseteq> set (left q)"
      "Detoured_FindNextFileW env h (q, overlays) = Some (Some d, error, q', overlays)"
    with assms(2) have "s' = (q', overlays)" "out = [fd_cFileName d]" by (auto simp: find_next_ask_def s)
    with entry(1,2) assms(1) show ?thesis by (auto simp: find_pending_def find_ok_def s)
  qed
  then show "find_ok env h pr left s'" "find_pending env h pr left s = out @ find_pending env h pr left s'"
    "out = [] \<Longrightarrow> find_pending env h pr left s = []" by auto
qed

interpretation find_hook: cursor_listing "find_ok env h pr left" "find_pending env h pr left" "find_next_ask env h"
  for env h pr left
proof
  fix s
  assume ok: "find_ok env h pr left s"
  note step = find_next_step [OF ok surjective_pairing]
  show "find_ok env h pr left (snd (find_next_ask env h s))" by (rule step(1))
  show "find_pending env h pr left s = fst (find_next_ask env h s) @ find_pending env h pr left (snd (find_next_ask env h s))"
    by (rule step(2))
  show "fst (find_next_ask env h s) = [] \<Longrightarrow> find_pending env h pr left s = []" by (rule step(3))
qed


section \<open>The first call\<close>

text \<open>
  A search that Windows opens for a directory \<open>dir\<close> with a wildcard: the handle, the first entry, the
  last error and the state after the real call.
\<close>

definition opens_listing :: "('w, 'h, 'q) find_env \<Rightarrow> wstr \<Rightarrow> CanonicalizedPath \<Rightarrow> PolicyResult \<Rightarrow> wstr \<Rightarrow>
    ('h \<times> find_data) option \<times> u32 \<times> 'q \<Rightarrow> 'q \<Rightarrow> bool" where
  "opens_listing env p dir pr lastComp result q \<longleftrightarrow>
     \<not> fn_disabled env \<and> p \<noteq> [] \<and> \<not> IsSpecialDeviceName p \<and>
     (\<exists>cp n target. Canonicalize (fn_fullPathName env) (fn_pathError env) (find_name env p) = cp \<and> \<not> cp_IsNull cp \<and>
        RemoveLastComponent cp = dir \<and> GetLastComponent cp = lastComp \<and>
        record_at (fn_manifest env) (g_manifestTreeRoot (fn_globals env)) n \<and> tree_wf n \<and>
        Initialize_canonical (fn_manifest env) (g_manifestTreeRoot (fn_globals env)) dir = Some pr \<and>
        find_target env pr lastComp (find_name env p) = Some (target, False) \<and>
        fn_FindFirstFileExW env target 0 0 0 q = result) \<and>
     extensible (GetPathStringWithoutTypePrefix dir) \<and> 0 \<notin> set (GetPathStringWithoutTypePrefix dir) \<and>
     PathContainsWildcard lastComp"

lemma opens_listingD:
  assumes "opens_listing env p dir pr lastComp (found, error, q1) q"
  shows "listed_dir env pr" "\<not> fn_disabled env" "PathContainsWildcard lastComp"
    and "Detoured_FindFirstFileW env p (q, overlays) =
      after_find_first env dir lastComp pr 0 0 0 found error (q1, overlays)"
  using assms
  by (auto simp: opens_listing_def listed_dir_def Detoured_FindFirstFileW_def Detoured_FindFirstFileExW_def
      ReportFindFirstFileExWAccesses_def)

definition listing_overlay :: "('w, 'h, 'q) find_env \<Rightarrow> PolicyResult \<Rightarrow> wstr \<Rightarrow> HandleOverlay" where
  "listing_overlay env pr lastComp =
     (let ov = new_HandleOverlay (directory_check env pr False True) pr HT_Find
      in if find_overlays env then ov\<lparr>OverlayEnumFilter := lastComp, OverlayEnumFilterSet := True\<rparr> else ov)"

lemma listing_overlay_simps [simp]:
  "ho_Policy (listing_overlay env pr lastComp) = pr" "ho_Type (listing_overlay env pr lastComp) = HT_Find"
  by (simp_all add: listing_overlay_def new_HandleOverlay_def Let_def)

lemma check_found_listing:
  "check_found env pr (directory_check env pr False True) True lastComp (Some (h, d)) error child (q, overlays) =
     (Some (h, d), error, q, overlays(h \<mapsto> listing_overlay env pr lastComp))"
  by (simp add: check_found_def CheckReadAccess_def ShouldDenyAccess_def access_check_def listing_overlay_def Let_def)

lemma first_entry:
  assumes dir: "listed_dir env pr" and gives: "search_gives (fn_FindNextFileW env) h left"
    and wild: "PathContainsWildcard lastComp" and error: "error \<noteq> ERROR_DIRECTORY"
    and names: "\<forall>d \<in> set (data # left q). 0 \<notin> set (fd_cFileName d)"
    and shown: "filter (shown_entry env pr) (data # left q) = d # ds"
  obtains q' where "filter (shown_entry env pr) (left q') = ds" "set (left q') \<subseteq> set (data # left q)"
    "after_find_first env dirPath lastComp pr level op flags (Some (h, data)) error (q, overlays) =
       Some (Some (h, d), error, q', overlays(h \<mapsto> listing_overlay env pr lastComp))"
proof -
  have "d \<in> set (filter (shown_entry env pr) (data # left q))" unfolding shown by simp
  then have "d \<in> set (data # left q)" by (meson filter_is_subset subsetD)
  with names have "0 \<notin> set (fd_cFileName d)" by blast
  then obtain child where child: "child_policy env pr (fd_cFileName d) = Some child"
    using listed_dir_children(1) [OF dir] by blast
  show thesis
  proof (cases "find_filters env")
    case True
    let ?hidden = "\<lambda>d. child_visible env pr (fd_cFileName d) = Some False"
    have "\<forall>d \<in> set (data # left q). child_visible env pr (fd_cFileName d) \<noteq> None"
      using names listed_dir_children(2) [OF dir] by blast
    note skip = skip_hidden_gives [OF gives this]
    obtain ds' where drop: "dropWhile ?hidden (data # left q) = d # ds'" "filter (shown_entry env pr) ds' = ds"
      using shown_dropWhile [OF dir names True] shown by (cases "dropWhile ?hidden (data # left q)") auto
    have sub: "set (d # ds') \<subseteq> set (data # left q)"
      using set_dropWhileD [of _ ?hidden "data # left q"] unfolding drop(1) by blast
    obtain q' where "skip_hidden (child_visible env pr) (fn_FindNextFileW env h) data q = Some (Inr d, q')" "left q' = ds'"
      using skip unfolding drop(1) by auto
    with True error wild child drop(2) sub show thesis
      by (intro that [of q']) (simp_all add: after_find_first_def check_found_listing Let_def)
  next
    case False
    then have "data = d" "filter (shown_entry env pr) (left q) = ds" using shown by (simp_all add: shown_entry_def)
    with False error wild child show thesis
      by (intro that [of q]) (auto simp: after_find_first_def check_found_listing Let_def)
  qed
qed


section \<open>Properties\<close>

text \<open>
  C12: a search lists the merged directory, with two exceptions. A caller that opens a search by a wildcard, of
  which Windows finds at least one visible entry and after which the last error is not \<open>ERROR_DIRECTORY\<close>, and
  repeats \<open>FindNextFileW\<close> until it fails, is given the visible entries that Windows finds, in its order, and
  then the overlay's. In a new scan of a directory that is real, without the synthetic names of a test, the latter are
  the children that only the backing store has and that match the wildcard, as often as the store lists them. What
  happens where all that Windows finds is hidden, and where the last error is that one, is C38 and C39.
\<close>
theorem find_lists_merged_directory:
  assumes "opens_listing env p dir pr lastComp (Some (h, data), error, q1) q" "error \<noteq> ERROR_DIRECTORY"
    and "search_gives (fn_FindNextFileW env) h left"
    and "\<forall>d \<in> set (data # left q1). 0 \<notin> set (fd_cFileName d)" "\<exists>d \<in> set (data # left q1). shown_entry env pr d"
    and "length (left q1) + length (overlay_tail env (listing_overlay env pr lastComp)) \<le> n"
  shows "(\<exists>d e s'. Detoured_FindFirstFileW env p (q, overlays) = Some (Some (h, d), e, s') \<and>
      fd_cFileName d # drain (find_next_ask env h) n s' =
        map fd_cFileName (filter (shown_entry env pr) (data # left q1)) @
        overlay_tail env (listing_overlay env pr lastComp)) \<and>
    (find_overlays env \<and> fresh_scan (fn_api env) (TranslatedPath pr) (fn_world env) (listing_overlay env pr lastComp) \<longrightarrow>
      mset (overlay_tail env (listing_overlay env pr lastComp)) =
        image_mset (take (MAX_PATH - 1)) (mset (filter (\<lambda>nm. OverlayNameMatchesFilter (fn_api env) nm lastComp)
          (overlay_only (fn_globals env) (fn_api env) (TranslatedPath pr) (fn_world env)))))"
proof (intro conjI impI)
  note opened = opens_listingD [OF assms(1)]
  let ?ov = "listing_overlay env pr lastComp"
  have "filter (shown_entry env pr) (data # left q1) \<noteq> []" unfolding filter_empty_conv using assms(5) by blast
  then obtain d ds where shown: "filter (shown_entry env pr) (data # left q1) = d # ds" unfolding neq_Nil_conv by blast
  obtain q' where q': "filter (shown_entry env pr) (left q') = ds" "set (left q') \<subseteq> set (data # left q1)"
    "Detoured_FindFirstFileW env p (q, overlays) = Some (Some (h, d), error, q', overlays(h \<mapsto> ?ov))"
    unfolding opened(4) by (rule first_entry [OF opened(1) assms(3) opened(3) assms(2,4) shown])
  have ok: "find_ok env h pr left (q', overlays(h \<mapsto> ?ov))"
    using opened(1,2) assms(3,4) q'(2) by (auto simp: find_ok_def)
  have pending: "find_pending env h pr left (q', overlays(h \<mapsto> ?ov)) = map fd_cFileName ds @ overlay_tail env ?ov"
    by (simp add: find_pending_def q'(1))
  have "length (d # ds) \<le> length (data # left q1)" unfolding shown [symmetric] by (rule length_filter_le)
  then have "length (find_pending env h pr left (q', overlays(h \<mapsto> ?ov))) \<le> n"
    unfolding pending using assms(6) by simp
  note drained = find_hook.drain_complete [OF ok this, unfolded pending]
  show "\<exists>d e s'. Detoured_FindFirstFileW env p (q, overlays) = Some (Some (h, d), e, s') \<and>
      fd_cFileName d # drain (find_next_ask env h) n s' =
        map fd_cFileName (filter (shown_entry env pr) (data # left q1)) @ overlay_tail env ?ov"
    by (rule exI, rule exI, rule exI, rule conjI [OF q'(3)]) (simp only: drained shown list.map append_Cons)
next
  assume real: "find_overlays env \<and> fresh_scan (fn_api env) (TranslatedPath pr) (fn_world env) (listing_overlay env pr lastComp)"
  then have "OverlayEnumFilter (listing_overlay env pr lastComp) = lastComp" by (simp add: listing_overlay_def Let_def)
  with real pending_scan_fresh [of "fn_api env" "TranslatedPath pr" "fn_world env" "listing_overlay env pr lastComp" "fn_globals env"]
  show "mset (overlay_tail env (listing_overlay env pr lastComp)) =
        image_mset (take (MAX_PATH - 1)) (mset (filter (\<lambda>nm. OverlayNameMatchesFilter (fn_api env) nm lastComp)
          (overlay_only (fn_globals env) (fn_api env) (TranslatedPath pr) (fn_world env))))"
    by (simp add: overlay_tail_def)
qed

text \<open>
  C38: a search for what the filter hides shows it. Where all that Windows finds for a wildcard is hidden,
  and the overlay alone has a match, the hook opens a second search, for everything, and hands
  out its first entry that matches the wildcard without asking whether it is visible.
\<close>
theorem narrow_search_unfiltered:
  assumes "opens_listing env p dir pr lastComp (Some (h, data), error, q1) q" "error \<noteq> ERROR_DIRECTORY"
    and "search_gives (fn_FindNextFileW env) h left"
    and "\<forall>d \<in> set (data # left q1). 0 \<notin> set (fd_cFileName d)" "\<forall>d \<in> set (data # left q1). \<not> shown_entry env pr d"
    and "find_overlays env" "pop_back_while IsDirectorySeparator (GetPathString dir) = base" "base \<noteq> []"
    and "overlay_only_match env base lastComp"
    and "\<And>q'. left q' = [] \<Longrightarrow> \<exists>result e q2. fn_FindClose env h q' = (result, e, q2) \<and>
      (\<exists>e q3. fn_FindFirstFileExW env (base @ [BACKSLASH, STAR]) 0 0 0 q2 = (Some (h2, first), e, q3) \<and> left2 q3 = rest)"
    and "search_gives (fn_FindNextFileW env) h2 left2"
    and "dropWhile (\<lambda>d. \<not> OverlayNameMatchesFilter (fn_api env) (fd_cFileName d) lastComp) (first # rest) = d # ds"
  shows "\<exists>s'. Detoured_FindFirstFileW env p (q, overlays) = Some (Some (h2, d), ERROR_SUCCESS, s')"
proof -
  note opened = opens_listingD [OF assms(1)]
  have filters: "find_filters env" using assms(5) by (auto simp: shown_entry_def)
  have hidden: "\<forall>d \<in> set (data # left q1). child_visible env pr (fd_cFileName d) = Some False"
  proof
    fix d assume "d \<in> set (data # left q1)"
    with assms(4,5) filters listed_dir_children(2) [OF opened(1), of "fd_cFileName d"]
    show "child_visible env pr (fd_cFileName d) = Some False" by (auto simp: shown_entry_def)
  qed
  then have total: "\<forall>d \<in> set (data # left q1). child_visible env pr (fd_cFileName d) \<noteq> None"
    by (metis option.distinct(1))
  have "dropWhile (\<lambda>d. child_visible env pr (fd_cFileName d) = Some False) (data # left q1) = []"
    using hidden by (simp only: dropWhile_eq_Nil_conv)
  with skip_hidden_gives [OF assms(3) total] obtain q' where
    q': "skip_hidden (child_visible env pr) (fn_FindNextFileW env h) data q1 = Some (Inl ERROR_NO_MORE_FILES, q')" "left q' = []"
    by auto
  obtain result e q2 e3 q3 where closed: "fn_FindClose env h q' = (result, e, q2)"
    "fn_FindFirstFileExW env (base @ [BACKSLASH, STAR]) 0 0 0 q2 = (Some (h2, first), e3, q3)" "left2 q3 = rest"
    using assms(10) [OF q'(2)] by blast
  obtain q4 where reals: "skip_reals (\<lambda>nm. OverlayNameMatchesFilter (fn_api env) nm lastComp) (fn_FindNextFileW env h2) first q3 =
      Some (Some d, q4)"
    using skip_reals_gives [OF assms(11), of "\<lambda>nm. OverlayNameMatchesFilter (fn_api env) nm lastComp" first q3] assms(12)
    unfolding closed(3) by auto
  show ?thesis
    unfolding opened(4)
    using filters opened(3) assms(2,6-9) q'(1) closed reals
    by (simp add: after_find_first_def Detoured_FindClose_def TrySynthesizeOverlayFindFirstW_def Let_def)
qed

text \<open>
  C39: the error of an earlier call can switch the filter off. Windows does not reset the last error where a
  search is opened; if it happens to be \<open>ERROR_DIRECTORY\<close>, the hook takes the search for the probe of a
  file, and the caller is given every entry of the directory, and none of the overlay's.
\<close>
theorem stale_error_disarms_search:
  assumes "opens_listing env p dir pr lastComp (Some (h, data), ERROR_DIRECTORY, q1) q" "overlays h = None"
    and "search_gives (fn_FindNextFileW env) h left" "length (left q1) \<le> n"
  shows "\<exists>s'. Detoured_FindFirstFileW env p (q, overlays) = Some (Some (h, data), ERROR_DIRECTORY, s') \<and>
    fd_cFileName data # drain (find_next_ask env h) n s' = map fd_cFileName (data # left q1)"
proof -
  note opened = opens_listingD [OF assms(1)]
  have "drain (find_next_ask env h) n (q1, overlays) = map fd_cFileName (left q1)"
    using assms(4)
  proof (induction n arbitrary: q1)
    case (Suc n)
    show ?case
    proof (cases "left q1")
      case Nil
      obtain q' where "fn_FindNextFileW env h q1 = (None, ERROR_NO_MORE_FILES, q')"
        by (rule search_gives_Nil [OF assms(3) Nil])
      with Nil assms(2) opened(2) show ?thesis
        by (auto simp: find_next_ask_def Detoured_FindNextFileW_def append_overlay_def TryAppendOverlayFindDataW_def
            TryLookupHandleOverlay_def find_overlays_def)
    next
      case (Cons d ds)
      obtain e q' where "fn_FindNextFileW env h q1 = (Some d, e, q')" "left q' = ds"
        by (rule search_gives_Cons [OF assms(3) Cons])
      with Cons assms(2) opened(2) Suc show ?thesis
        by (simp add: find_next_ask_def Detoured_FindNextFileW_def TryLookupHandleOverlay_def)
    qed
  qed simp
  moreover have "after_find_first env dir lastComp pr 0 0 0 (Some (h, data)) ERROR_DIRECTORY (q1, overlays) =
      Some (Some (h, data), ERROR_DIRECTORY, q1, overlays)"
    by (simp add: after_find_first_def)
  ultimately show ?thesis unfolding opened(4) by simp
qed


section \<open>An example\<close>

text \<open>
  The directory \<open>C:\ws\<close> of an action that may write there but not read: it holds \<open>a.x\<close>, which is hidden, and
  the backing store \<open>b.x\<close>. All searches share their position; \<open>error\<close> is what the calls leave.
\<close>

definition find_tree :: mnode where
  "find_tree = MNode [] 0 default_acc 0 0
     [(wide ''C:'', MNode (wide ''C:'') (HashPath (wide ''C:'')) default_acc
        (Policy_AllowWrite OR Policy_OverrideAllowWriteForExistingFiles)
        (Policy_AllowWrite OR Policy_OverrideAllowWriteForExistingFiles) [])]"

definition dir_path :: wstr where "dir_path = wide ''C:'' @ BACKSLASH # wide ''ws''"

definition named_entry :: "wstr \<Rightarrow> find_data" where
  "named_entry nm = \<lparr>fd_attributes = 0x20, fd_creation = (0, 0), fd_access = (0, 0), fd_write = (0, 0),
     fd_sizeHigh = 0, fd_sizeLow = 0, fd_cFileName = nm\<rparr>"

definition find_example_api :: "unit enum_api" where
  "find_example_api =
     \<lparr>ea_files = \<lparr>fa_attributes = (\<lambda>w p. if p = ext_prefix @ dir_path \<or> p = ext_prefix @ wide ''D:'' @ BACKSLASH # wide ''o'' then Inr 0x10
                      else if p = dir_path @ BACKSLASH # wide ''a.x'' then Inr 0x20 else Inl 2),
                    fa_createDirectory = (\<lambda>p w. w), fa_copyFile = (\<lambda>src dst failIfExists w. w),
                    fa_findFiles = (\<lambda>w p. Some (map wide [''.'', ''b.x'']))\<rparr>,
      ea_attributesEx = (\<lambda>w p. None),
      ea_isNameInExpression = Some (\<lambda>expr nm. expr = [STAR] \<or> last expr = last nm), ea_upcase = Some (\<lambda>c. c),
      ea_testNames = (0, [])\<rparr>"

definition find_example :: "u32 \<Rightarrow> (unit, nat, find_data list) find_env" where
  "find_example error = \<lparr>fn_globals = example_globals\<lparr>g_fileAccessManifestExtraFlags := 0x1C00\<rparr>,
     fn_manifest = the (SerializeNode find_tree []), fn_fullPathName = string_api identity_full, fn_pathError = 3,
     fn_disabled = False, fn_api = find_example_api, fn_world = (),
     fn_FindFirstFileExW = (\<lambda>p level op flags q.
       if last (butlast p) = BACKSLASH
       then (Some (7, named_entry [DOT]), error, [named_entry (wide ''a.x'')])
       else (Some (7, named_entry (wide ''a.x'')), error, [])),
     fn_FindNextFileW = (\<lambda>h q. case q of [] \<Rightarrow> (None, ERROR_NO_MORE_FILES, []) | d # ds \<Rightarrow> (Some d, 0, ds)),
     fn_FindClose = (\<lambda>h q. (True, 0, q))\<rparr>"

lemma find_example_simps [simp]:
  "fn_globals (find_example error) = example_globals\<lparr>g_fileAccessManifestExtraFlags := 0x1C00\<rparr>"
  "fn_api (find_example error) = find_example_api" "fn_world (find_example error) = ()"
  "fn_fullPathName (find_example error) = string_api identity_full" "fn_pathError (find_example error) = 3"
  "\<not> fn_disabled (find_example error)" "find_overlays (find_example error)" "find_filters (find_example error)"
  "fn_FindNextFileW (find_example error) h q = (case q of [] \<Rightarrow> (None, ERROR_NO_MORE_FILES, []) | d # ds \<Rightarrow> (Some d, 0, ds))"
  "fn_FindClose (find_example error) h q = (True, 0, q)"
  by (simp_all add: find_example_def find_overlays_def find_filters_def ShouldWriteOverlay_def
      ShouldFilterDirectoryEnumeration_def)

lemma find_example_gives: "search_gives (fn_FindNextFileW (find_example error)) h (\<lambda>q. q)"
  by (auto simp: search_gives_def split: list.split)

lemma find_tree_wf: "tree_wf find_tree"
  unfolding find_tree_def by code_simp

lemma find_record: "record_at (fn_manifest (find_example error)) (g_manifestTreeRoot (fn_globals (find_example error))) find_tree"
proof -
  have "node_size find_tree \<le> 100" by (simp add: find_tree_def bucketCount_of_def fragment_bytes_def length_u16_string pad_length_def)
  then show ?thesis
    using SerializeNode_writes [of "[]" find_tree] by (auto simp: find_example_def example_globals_def writes_node_def bytes_at_def)
qed

definition dir_cp :: CanonicalizedPath where "dir_cp = \<lparr>cp_Type = Win32, cp_value = dir_path\<rparr>"

lemma find_example_dir:
  obtains pr where
    "Initialize_canonical (fn_manifest (find_example error)) (g_manifestTreeRoot (fn_globals (find_example error))) dir_cp = Some pr"
    "TranslatedPath pr = dir_path"
    "child_visible (find_example error) pr [DOT] = Some True"
    "child_visible (find_example error) pr (wide ''a.x'') = Some False"
proof -
  let ?env = "find_example error"
  let ?mem = "fn_manifest ?env" and ?root = "g_manifestTreeRoot (fn_globals ?env)"
  have c: "\<not> cp_IsNull dir_cp" "0 \<notin> set (GetPathStringWithoutTypePrefix dir_cp)"
    "GetSpecialCaseRulesForWindows (GetPathStringWithoutTypePrefix dir_cp) = None"
    "GetSpecialCaseRulesForCoverageAndSpecialDevices (GetPathStringWithoutTypePrefix dir_cp) (cp_Type dir_cp) = None"
    "extensible (GetPathStringWithoutTypePrefix dir_cp)"
    by code_simp+
  let ?child = "fst (Extend dir_cp (wide ''a.x''))"
  have d: "\<not> cp_IsNull ?child" "0 \<notin> set (GetPathStringWithoutTypePrefix ?child)"
    "GetSpecialCaseRulesForWindows (GetPathStringWithoutTypePrefix ?child) = None"
    "GetSpecialCaseRulesForCoverageAndSpecialDevices (GetPathStringWithoutTypePrefix ?child) (cp_Type ?child) = None"
    by code_simp+
  obtain pr where pr: "Initialize_canonical ?mem ?root dir_cp = Some pr" "m_canonicalizedPath pr = dir_cp"
    by (rule Initialize_searched [OF find_record find_tree_wf c(1-4)])
  obtain child where child: "Initialize_canonical ?mem ?root ?child = Some child" "m_canonicalizedPath child = ?child"
    "m_policy child = policy_of (tree_search (search_keys (GetPathStringWithoutTypePrefix ?child)) find_tree)"
    "IsExactManifestNode child \<longleftrightarrow> \<not> snd (tree_search (search_keys (GetPathStringWithoutTypePrefix ?child)) find_tree)"
    "\<not> m_isIndeterminate child"
    by (rule Initialize_searched [OF find_record find_tree_wf d])
  have e: "policy_of (tree_search (search_keys (GetPathStringWithoutTypePrefix ?child)) find_tree) AND Policy_AllowRead = 0"
    "snd (tree_search (search_keys (GetPathStringWithoutTypePrefix ?child)) find_tree)"
    "\<not> OverlayBackingExists (example_globals\<lparr>g_fileAccessManifestExtraFlags := 0x1C00\<rparr>)
       (fa_attributes (ea_files find_example_api) ()) (GetPathStringWithoutTypePrefix ?child)"
    "cstr (wide ''a.x'') = wide ''a.x''" "wide ''a.x'' \<noteq> [DOT]" "wide ''a.x'' \<noteq> [DOT, DOT]"
    by code_simp+
  have "GetPolicyForSubpath ?mem ?root pr (wide ''a.x'') = Some child"
    using GetPolicyForSubpath_full [OF pr(1) c(5)] child(1) by simp
  then have "child_visible ?env pr (wide ''a.x'') = Some False"
    using child(2-5) e
    by (simp add: child_visible_def IsEnumChildVisible_def AllowRead_def HasOverlayBackingShadow_def find_checks_def
        process_env_def find_attributes_def)
  moreover have "child_visible ?env pr [DOT] = Some True" by (simp add: child_visible_def IsEnumChildVisible_def)
  moreover have "TranslatedPath pr = dir_path" using pr(2) by (simp add: TranslatedPath_def dir_cp_def GetPathStringWithoutTypePrefix_def GetPathString_def)
  ultimately show ?thesis using that pr(1) by blast
qed

abbreviation dir_search :: "wstr \<Rightarrow> wstr" where "dir_search pattern \<equiv> dir_path @ BACKSLASH # pattern"

lemma find_example_opens:
  assumes pr: "Initialize_canonical (fn_manifest (find_example error)) (g_manifestTreeRoot (fn_globals (find_example error))) dir_cp = Some pr"
      "TranslatedPath pr = dir_path"
    and pattern: "pattern = [STAR] \<or> pattern = STAR # wide ''.x''"
  shows "opens_listing (find_example error) (dir_search pattern) dir_cp pr pattern
    (fn_FindFirstFileExW (find_example error) (dir_search pattern) 0 0 0 []) []"
proof -
  let ?env = "find_example error"
  have p: "dir_search pattern \<noteq> []" "\<not> IsSpecialDeviceName (dir_search pattern)"
    "ReverseOverlayFinalPath (example_globals\<lparr>g_fileAccessManifestExtraFlags := 0x1C00\<rparr>) (dir_search pattern) = None"
    "Canonicalize (string_api identity_full) 3 (dir_search pattern) = \<lparr>cp_Type = Win32, cp_value = dir_search pattern\<rparr>"
    "RemoveLastComponent \<lparr>cp_Type = Win32, cp_value = dir_search pattern\<rparr> = dir_cp"
    "GetLastComponent \<lparr>cp_Type = Win32, cp_value = dir_search pattern\<rparr> = pattern"
    "PathContainsWildcard pattern"
    using pattern by (elim disjE; clarify; code_simp)+
  have name: "find_name ?env (dir_search pattern) = dir_search pattern"
    using p(3)
    by (simp add: find_name_def ReverseMapWin32Path_def string_api_def identity_full_def Let_def split: prod.splits)
  have "OverlayIsDirectory (fa_attributes (ea_files find_example_api) ()) (ext_prefix @ dir_path)" "dir_path \<noteq> []" by code_simp+
  then have target: "find_target ?env pr pattern (dir_search pattern) = Some (dir_search pattern, False)"
    using p(7) pr(2) by (simp add: find_target_def find_attributes_def)
  have "extensible (GetPathStringWithoutTypePrefix dir_cp)" "0 \<notin> set (GetPathStringWithoutTypePrefix dir_cp)" by code_simp+
  then show ?thesis
    unfolding opens_listing_def
    using p(1,2,4-7) name target pr(1) find_record [of error] find_tree_wf
    by (auto simp: cp_IsNull_def)
qed

lemma find_example_tail:
  assumes "TranslatedPath pr = dir_path"
  shows "overlay_tail (find_example error) (listing_overlay (find_example error) pr [STAR]) = [wide ''b.x'']"
proof -
  let ?g = "example_globals\<lparr>g_fileAccessManifestExtraFlags := 0x1C00\<rparr>" and ?files = "fa_attributes (ea_files find_example_api) ()"
  have "ListBackingChildren ?g (ea_files find_example_api) dir_path () = [wide ''b.x'']"
    "GetOverlayTestSyntheticNames (ea_testNames find_example_api) = []" "dir_path \<noteq> []"
    "OverlayIsDirectory ?files (ext_prefix @ dir_path)" "take (MAX_PATH - 1) (wide ''b.x'') = wide ''b.x''"
    "\<not> OverlayPathExists ?files (pop_back_while IsDirectorySeparator dir_path @ [BACKSLASH] @ wide ''b.x'')"
    by code_simp+
  then show ?thesis
    using assms
    by (simp add: overlay_tail_def pending_scan_def pending_names_def EnsureOverlayEnumSnapshot_def listing_overlay_def
        new_HandleOverlay_def OverlayNameMatchesFilter_def Let_def)
qed

lemma named_entry_name [simp]: "fd_cFileName (named_entry nm) = nm"
  by (simp add: named_entry_def)

lemma find_example_first:
  "fn_FindFirstFileExW (find_example error) (dir_search [STAR]) 0 0 0 q =
     (Some (7, named_entry [DOT]), error, [named_entry (wide ''a.x'')])"
  "fn_FindFirstFileExW (find_example error) (dir_search (STAR # wide ''.x'')) 0 0 0 q =
     (Some (7, named_entry (wide ''a.x'')), error, [])"
  by (simp_all add: find_example_def wide_def dir_path_def)

theorem find_lists_merged_directory_witness:
  "\<exists>d e s'. Detoured_FindFirstFileW (find_example 0) (dir_search [STAR]) ([], Map.empty) = Some (Some (7, d), e, s') \<and>
     fd_cFileName d # drain (find_next_ask (find_example 0) 7) 2 s' = [[DOT], wide ''b.x'']"
proof -
  obtain pr where pr:
    "Initialize_canonical (fn_manifest (find_example 0)) (g_manifestTreeRoot (fn_globals (find_example 0))) dir_cp = Some pr"
    "TranslatedPath pr = dir_path" "child_visible (find_example 0) pr [DOT] = Some True"
    "child_visible (find_example 0) pr (wide ''a.x'') = Some False"
    by (rule find_example_dir)
  have names: "0 \<notin> set [DOT]" "0 \<notin> set (wide ''a.x'')" by code_simp+
  have shown: "filter (shown_entry (find_example 0) pr) [named_entry [DOT], named_entry (wide ''a.x'')] = [named_entry [DOT]]"
    using pr(3,4) by (simp add: shown_entry_def)
  from find_lists_merged_directory [OF find_example_opens [OF pr(1,2) disjI1 [OF refl], unfolded find_example_first] _
      find_example_gives, of 2 Map.empty]
  show ?thesis
    using names pr(3) shown find_example_tail [OF pr(2)] by (simp add: shown_entry_def)
qed

theorem narrow_search_unfiltered_witness:
  "\<exists>s' d. Detoured_FindFirstFileW (find_example 0) (dir_search (STAR # wide ''.x'')) ([], Map.empty) =
     Some (Some (7, d), ERROR_SUCCESS, s') \<and> fd_cFileName d = wide ''a.x''"
proof -
  obtain pr where pr:
    "Initialize_canonical (fn_manifest (find_example 0)) (g_manifestTreeRoot (fn_globals (find_example 0))) dir_cp = Some pr"
    "TranslatedPath pr = dir_path" "child_visible (find_example 0) pr (wide ''a.x'') = Some False"
    by (rule find_example_dir)
  have c: "0 \<notin> set (wide ''a.x'')" "pop_back_while IsDirectorySeparator (GetPathString dir_cp) = dir_path" "dir_path \<noteq> []"
    "OverlayNameMatchesFilter find_example_api (wide ''a.x'') (STAR # wide ''.x'')"
    "\<not> OverlayNameMatchesFilter find_example_api [DOT] (STAR # wide ''.x'')"
    by code_simp+
  have "overlay_only_match (find_example 0) dir_path (STAR # wide ''.x'')"
    unfolding overlay_only_match_def find_attributes_def find_example_simps by code_simp
  note match = this
  have "\<exists>s'. Detoured_FindFirstFileW (find_example 0) (dir_search (STAR # wide ''.x'')) ([], Map.empty) =
      Some (Some (7, named_entry (wide ''a.x'')), ERROR_SUCCESS, s')"
    by (rule narrow_search_unfiltered [OF find_example_opens [OF pr(1,2) disjI2 [OF refl], unfolded find_example_first] _
          find_example_gives _ _ _ c(2,3) match _ find_example_gives, where first = "named_entry [DOT]" and
          rest = "[named_entry (wide ''a.x'')]"])
      (use c(1,4,5) pr(3) find_example_first in \<open>auto simp: shown_entry_def\<close>)
  then show ?thesis by auto
qed

theorem stale_error_disarms_search_witness:
  "\<exists>s'. Detoured_FindFirstFileW (find_example ERROR_DIRECTORY) (dir_search [STAR]) ([], Map.empty) =
       Some (Some (7, named_entry [DOT]), ERROR_DIRECTORY, s') \<and>
     [DOT] # drain (find_next_ask (find_example ERROR_DIRECTORY) 7) 1 s' = [[DOT], wide ''a.x'']"
proof -
  obtain pr where pr:
    "Initialize_canonical (fn_manifest (find_example ERROR_DIRECTORY))
       (g_manifestTreeRoot (fn_globals (find_example ERROR_DIRECTORY))) dir_cp = Some pr"
    "TranslatedPath pr = dir_path"
    by (rule find_example_dir)
  from stale_error_disarms_search [OF find_example_opens [OF pr disjI1 [OF refl], unfolded find_example_first] _
      find_example_gives, of Map.empty 1]
  show ?thesis by simp
qed

end
