(* ===== verification/Path_Hooks.thy ===== *)
theory Path_Hooks
  imports Overlay_Paths
begin

text \<open>
  The hooks that tell the process where it is (\<open>vendor/detours-services/DetouredFunctions.cpp\<close>):
  \<open>GetCurrentDirectoryW\<close> and \<open>GetFinalPathNameByHandleW\<close>. Both map a path of the backing store back to the
  path that the action knows.
\<close>

section \<open>The hooks\<close>

text \<open>
  The real call, for one handle, takes the size of the buffer and gives its result and what it
  leaves in the buffer. \<open>lpBuffer\<close>: the caller passes a buffer.
\<close>

definition reported_directory :: "parsed_manifest \<Rightarrow> wstr \<Rightarrow> wstr" where
  "reported_directory g cwd =
     (case ReverseOverlayFinalPath g cwd of
        Some report \<Rightarrow> if take 4 report = ext_prefix then drop 4 report else report
      | None \<Rightarrow> cwd)"

definition Detoured_GetCurrentDirectoryW :: "parsed_manifest \<Rightarrow> bool \<Rightarrow> current_directory_api \<Rightarrow> bool \<Rightarrow> nat \<Rightarrow>
    nat \<times> wstr" where
  "Detoured_GetCurrentDirectoryW g disabled real lpBuffer nBufferLength =
     (if disabled then real nBufferLength
      else (let realNeeded = fst (real 0)
            in if realNeeded = 0 then (0, [])
               else (let (got, buf) = real realNeeded
                     in if got = 0 \<or> realNeeded \<le> got then real nBufferLength
                        else (let report = reported_directory g (take got buf);
                                  needed = length report
                              in if \<not> lpBuffer \<or> nBufferLength \<le> needed then (needed + 1, [])
                                 else (needed, report)))))"

definition Detoured_GetFinalPathNameByHandleW :: "parsed_manifest \<Rightarrow> bool \<Rightarrow> (nat \<Rightarrow> nat \<times> wstr) \<Rightarrow> nat \<Rightarrow> nat \<times> wstr" where
  "Detoured_GetFinalPathNameByHandleW g disabled real cchFilePath =
     (let (len, lpszFilePath) = real cchFilePath
      in if disabled \<or> len = 0 then (len, lpszFilePath)
         else (let (newLength, nonNormalizedPath) =
                     (if len < cchFilePath then (len, cstr lpszFilePath)
                      else (case real len of (newLength, buffer) \<Rightarrow> (newLength, cstr buffer)));
                   virt = ReverseOverlayFinalPath g nonNormalizedPath
               in if newLength = 0 then (0, lpszFilePath)
                  else if virt = None \<and> len < cchFilePath then (len, lpszFilePath)
                  else (let normalizedPath = (case virt of Some v \<Rightarrow> v | None \<Rightarrow> nonNormalizedPath);
                            copyPathLength = length normalizedPath + 1
                        in if copyPathLength \<le> cchFilePath then (length normalizedPath, normalizedPath)
                           else (copyPathLength, lpszFilePath))))"


section \<open>What the process is told\<close>

text \<open>The contract of both calls: the length where the path fits, otherwise the size that it needs.\<close>

definition gives_path :: "(nat \<Rightarrow> nat \<times> wstr) \<Rightarrow> wstr \<Rightarrow> bool" where
  "gives_path api path \<longleftrightarrow>
     path \<noteq> [] \<and> 0 \<notin> set path \<and>
     (\<forall>n. if length path < n then api n = (length path, path) else fst (api n) = length path + 1)"

definition virtual_path :: "parsed_manifest \<Rightarrow> wstr \<Rightarrow> wstr" where
  "virtual_path g path = (case ReverseOverlayFinalPath g path of Some virt \<Rightarrow> virt | None \<Rightarrow> path)"

text \<open>A source root on a drive.\<close>

definition drive_root :: "parsed_manifest \<Rightarrow> bool" where
  "drive_root g \<longleftrightarrow> overlay_ready g \<and> 3 \<le> length (OverlaySourceRoot g) \<and> OverlaySourceRoot g ! 1 = COLON"

lemma gives_pathD:
  assumes "gives_path api path"
  shows "length path < n \<Longrightarrow> api n = (length path, path)" "n \<le> length path \<Longrightarrow> fst (api n) = length path + 1"
  using assms [unfolded gives_path_def, THEN conjunct2, THEN conjunct2, THEN spec, of n] by simp_all

lemma virtual_path_backing:
  assumes "drive_root g" "ReverseOverlayFinalPath g path = Some v" "0 \<notin> set path" "split_prefix path = (pre, body)"
  obtains u where "v = pre @ u" "u \<noteq> []" "0 \<notin> set v" "u ! 1 = COLON" "under_root (OverlaySourceRoot g) u"
    "wcsicmp_eq (OverlayBackingPath g u) (ext_prefix @ body)"
proof -
  have ready: "overlay_ready g" and drive: "3 \<le> length (OverlaySourceRoot g)" "OverlaySourceRoot g ! 1 = COLON"
    using assms(1) by (simp_all add: drive_root_def)
  obtain u rest where u: "v = pre @ u" "u = OverlaySourceRoot g @ rest" "under_root (OverlaySourceRoot g) u" "0 \<notin> set u"
    "3 \<le> length u \<and> u ! 1 = COLON \<longrightarrow> wcsicmp_eq (OverlayBackingPath g u) (ext_prefix @ body)"
    by (rule reverse_backing [OF ready assms(2-4)])
  have "1 < length (OverlaySourceRoot g)" using drive(1) by simp
  then have "3 \<le> length u" "u ! 1 = COLON" using drive u(2) by (simp_all add: nth_append)
  moreover have "0 \<notin> set pre"
    using assms(3,4) in_set_takeD [of 0 4 path] by (auto simp: split_prefix_def split: if_splits)
  ultimately show thesis using u by (intro that [of u]) auto
qed

lemma final_path_call:
  assumes "gives_path real path"
  shows "if length (virtual_path g path) < n
    then Detoured_GetFinalPathNameByHandleW g False real n = (length (virtual_path g path), virtual_path g path)
    else fst (Detoured_GetFinalPathNameByHandleW g False real n) = length (virtual_path g path) + 1"
proof -
  have path: "path \<noteq> []" "cstr path = path" using assms by (simp_all add: gives_path_def cstr_id)
  note real = gives_pathD [OF assms]
  show ?thesis
  proof (cases "length path < n")
    case True
    with path real(1) [OF True] show ?thesis
      by (simp add: Detoured_GetFinalPathNameByHandleW_def virtual_path_def Let_def split: option.split)
  next
    case False
    obtain buf where call: "real n = (length path + 1, buf)" using real(2) [of n] False by (cases "real n") simp
    have "real (length path + 1) = (length path, path)" by (rule real(1)) simp
    with call path False show ?thesis
      by (simp add: Detoured_GetFinalPathNameByHandleW_def virtual_path_def Let_def split: option.split)
  qed
qed

lemma current_directory_call:
  assumes "gives_path real path"
  shows "if length (reported_directory g path) < n
    then Detoured_GetCurrentDirectoryW g False real True n = (length (reported_directory g path), reported_directory g path)
    else fst (Detoured_GetCurrentDirectoryW g False real True n) = length (reported_directory g path) + 1"
proof -
  have "path \<noteq> []" using assms by (simp add: gives_path_def)
  moreover have "fst (real 0) = length path + 1" "real (length path + 1) = (length path, path)"
    using gives_pathD [OF assms] by simp_all
  ultimately show ?thesis by (simp add: Detoured_GetCurrentDirectoryW_def Let_def)
qed

text \<open>
  C40: the action does not see the backing store. Where Windows gives a path, the hook of
  \<open>GetFinalPathNameByHandleW\<close> gives the virtual path by the same contract, whatever the size of the buffer, and
  so does that of \<open>GetCurrentDirectoryW\<close>, without a prefix. A path outside the backing store is given
  as it is; one inside becomes a path of the cone, and its backing path is the path that Windows gave.
\<close>
theorem paths_reported_virtual:
  assumes "drive_root g" "gives_path real path" "split_prefix path = (pre, body)"
  shows "gives_path (Detoured_GetFinalPathNameByHandleW g False real) (virtual_path g path) \<and>
    gives_path (Detoured_GetCurrentDirectoryW g False real True) (reported_directory g path) \<and>
    (if under_root (WriteOverlayRoot g) body
     then \<exists>u. virtual_path g path = pre @ u \<and> under_root (OverlaySourceRoot g) u \<and>
       wcsicmp_eq (OverlayBackingPath g u) (ext_prefix @ body) \<and>
       (pre \<noteq> nt_prefix \<longrightarrow> reported_directory g path = u)
     else virtual_path g path = path \<and> reported_directory g path = path)"
proof -
  note ready = overlay_readyD [OF assms(1) [unfolded drive_root_def, THEN conjunct1]]
  have path: "path \<noteq> []" "0 \<notin> set path" using assms(2) by (simp_all add: gives_path_def)
  note real = gives_pathD [OF assms(2)]
  have outside: "ReverseOverlayFinalPath g path = None" if "\<not> under_root (WriteOverlayRoot g) body"
    using that assms(3) ready by (simp add: ReverseOverlayFinalPath_def)
  have inside: "\<exists>u. ReverseOverlayFinalPath g path = Some (pre @ u) \<and> u \<noteq> [] \<and> 0 \<notin> set (pre @ u) \<and> u ! 1 = COLON \<and>
      under_root (OverlaySourceRoot g) u \<and> wcsicmp_eq (OverlayBackingPath g u) (ext_prefix @ body)"
    if below: "under_root (WriteOverlayRoot g) body"
  proof -
    obtain v where v: "ReverseOverlayFinalPath g path = Some v"
      using below assms(3) ready by (simp add: ReverseOverlayFinalPath_def Let_def)
    show ?thesis by (rule virtual_path_backing [OF assms(1) v path(2) assms(3)]) (use v in auto)
  qed
  show ?thesis
  proof (cases "under_root (WriteOverlayRoot g) body")
    case True
    obtain u where u: "ReverseOverlayFinalPath g path = Some (pre @ u)" "u \<noteq> []" "0 \<notin> set (pre @ u)" "u ! 1 = COLON"
      "under_root (OverlaySourceRoot g) u" "wcsicmp_eq (OverlayBackingPath g u) (ext_prefix @ body)"
      using inside [OF True] by blast
    have plain: "take 4 u \<noteq> ext_prefix"
    proof
      assume "take 4 u = ext_prefix"
      then have "u ! 1 = ext_prefix ! 1" by (metis nth_take one_less_numeral_iff semiring_norm(76))
      with u(4) show False by (simp add: ext_prefix_def)
    qed
    have "pre = [] \<or> pre = ext_prefix \<or> pre = nt_prefix" using assms(3) by (auto simp: split_prefix_def split: if_splits)
    then have dir: "reported_directory g path = (if pre = nt_prefix then pre @ u else u)"
      using u(1) plain by (auto simp: reported_directory_def ext_prefix_def nt_prefix_def)
    have virt: "virtual_path g path = pre @ u" using u(1) by (simp add: virtual_path_def)
    show ?thesis
      using True u(2,3,5,6) virt dir final_path_call [OF assms(2), of g] current_directory_call [OF assms(2), of g]
      by (auto simp: gives_path_def)
  next
    case False
    have virt: "virtual_path g path = path" "reported_directory g path = path"
      using outside [OF False] by (simp_all add: virtual_path_def reported_directory_def)
    show ?thesis
      using False path virt final_path_call [OF assms(2), of g] current_directory_call [OF assms(2), of g]
      by (auto simp: gives_path_def)
  qed
qed

theorem paths_reported_virtual_witness:
  "let real = (\<lambda>n. if 10 < n then (10, ext_prefix @ wide ''D:'' @ BACKSLASH # wide ''o'' @ BACKSLASH # wide ''x'') else (11, []));
       virt = wide ''C:'' @ BACKSLASH # wide ''ws'' @ BACKSLASH # wide ''x''
   in gives_path (Detoured_GetFinalPathNameByHandleW example_globals False real) (ext_prefix @ virt) \<and>
      gives_path (Detoured_GetCurrentDirectoryW example_globals False real True) virt"
proof -
  let ?path = "ext_prefix @ wide ''D:'' @ BACKSLASH # wide ''o'' @ BACKSLASH # wide ''x''"
  let ?virt = "wide ''C:'' @ BACKSLASH # wide ''ws'' @ BACKSLASH # wide ''x''"
  have c: "drive_root example_globals" "length ?path = 10" "0 \<notin> set ?path" "?path \<noteq> []"
    "split_prefix ?path = (ext_prefix, wide ''D:'' @ BACKSLASH # wide ''o'' @ BACKSLASH # wide ''x'')"
    "virtual_path example_globals ?path = ext_prefix @ ?virt" "reported_directory example_globals ?path = ?virt"
    by code_simp+
  have "gives_path (\<lambda>n. if 10 < n then (10, ?path) else (11, [])) ?path"
    unfolding gives_path_def c(2) using c(3,4) by simp
  from paths_reported_virtual [OF c(1) this c(5)] show ?thesis unfolding c(6,7) Let_def by blast
qed

end
