(* ===== verification/Network_Policy.thy ===== *)
theory Network_Policy
  imports Win32_Paths
begin

text \<open>
  The network policy (\<open>src/network_detours.{h,cpp}\<close>): which addresses and which names a process of the
  sandbox may use, the Winsock functions that ask, and how the policy of the launcher reaches every
  process. A \<open>sockaddr\<close> is the bytes it points to; a read outside them is \<open>None\<close>. Windows and Winsock
  are parameters: a real function is an action on a world type.
\<close>

section \<open>Policies and addresses\<close>

datatype NetworkPolicy = Allow_All | LoopbackOnly | BlockAll

abbreviation AF_INET :: u16 where "AF_INET \<equiv> 2"
abbreviation AF_INET6 :: u16 where "AF_INET6 \<equiv> 23"
abbreviation WSAEACCES :: u32 where "WSAEACCES \<equiv> 10013"
abbreviation WSAHOST_NOT_FOUND :: u32 where "WSAHOST_NOT_FOUND \<equiv> 11001"
abbreviation SOCKET_ERROR :: int where "SOCKET_ERROR \<equiv> - 1"

text \<open>\<open>ntohl\<close> of a little-endian machine.\<close>

definition ntohl :: "u32 \<Rightarrow> u32" where
  "ntohl v = push_bit 24 (v AND 0xFF) OR push_bit 8 (v AND 0xFF00) OR
     (drop_bit 8 v AND 0xFF00) OR drop_bit 24 v"

definition IsLoopbackAddr :: "bytes option \<Rightarrow> int \<Rightarrow> bool option" where
  "IsLoopbackAddr sa len =
     (case sa of
        None \<Rightarrow> Some True
      | Some mem \<Rightarrow>
          if len < 2 then Some True
          else (case rd_u16 mem 0 of
                  None \<Rightarrow> None
                | Some sa_family \<Rightarrow>
                    if sa_family = AF_INET
                    then if len < 16 then Some False
                         else map_option (\<lambda>s_addr. drop_bit 24 (ntohl s_addr) = 127) (rd_u32 mem 4)
                    else if sa_family = AF_INET6
                    then if len < 28 then Some False
                         else if 24 \<le> length mem
                         then Some (take 16 (drop 8 mem) = replicate 15 0 @ [1]) else None
                    else Some True))"

definition AddrAllowed :: "NetworkPolicy \<Rightarrow> bytes option \<Rightarrow> int \<Rightarrow> bool option" where
  "AddrAllowed g_policy sa len =
     (case g_policy of
        Allow_All \<Rightarrow> Some True
      | BlockAll \<Rightarrow> Some False
      | LoopbackOnly \<Rightarrow> IsLoopbackAddr sa len)"


section \<open>Names\<close>

text \<open>\<open>wcscmp(a, b) == 0\<close> and \<open>wcsncmp(a, b, n) == 0\<close>.\<close>

definition wcscmp_eq :: "wstr \<Rightarrow> wstr \<Rightarrow> bool" where
  "wcscmp_eq a b \<longleftrightarrow> cstr a = cstr b"

definition wcsncmp_eq :: "wstr \<Rightarrow> wstr \<Rightarrow> nat \<Rightarrow> bool" where
  "wcsncmp_eq a b n \<longleftrightarrow> take n (cstr a) = take n (cstr b)"

definition IsLocalNameW :: "wstr option \<Rightarrow> bool" where
  "IsLocalNameW name =
     (case name of
        None \<Rightarrow> True
      | Some name \<Rightarrow>
          if cstr name = [] then True
          else if wcsicmp_eq name (wide ''localhost'') then True
          else if wcsicmp_eq name (wide ''ip6-localhost'') then True
          else if wcscmp_eq name (wide ''127.0.0.1'') then True
          else if wcscmp_eq name (wide ''::1'') then True
          else if wcsncmp_eq name (wide ''127.'') 4 then True
          else False)"

text \<open>The narrow version is the same code on bytes; each byte is its character here.\<close>

definition IsLocalNameA :: "bytes option \<Rightarrow> bool" where
  "IsLocalNameA name =
     (case name of
        None \<Rightarrow> True
      | Some name \<Rightarrow>
          (let name = map ucast name
           in if cstr name = [] then True
              else if wcsicmp_eq name (wide ''localhost'') then True
              else if wcsicmp_eq name (wide ''ip6-localhost'') then True
              else if wcscmp_eq name (wide ''127.0.0.1'') then True
              else if wcscmp_eq name (wide ''::1'') then True
              else if wcsncmp_eq name (wide ''127.'') 4 then True
              else False))"

definition NameResolutionAllowed :: "NetworkPolicy \<Rightarrow> bool \<Rightarrow> bool" where
  "NameResolutionAllowed g_policy isLocalName =
     (case g_policy of
        Allow_All \<Rightarrow> True
      | BlockAll \<Rightarrow> False
      | LoopbackOnly \<Rightarrow> isLocalName)"


section \<open>Detours\<close>

text \<open>
  A real function, with its other arguments, is an action on the world; the last error is part of the
  state. The result of a lookup is its error code and the pointer it stores, if it is given a place.
\<close>

record 'w wsa_state =
  ws_world :: 'w
  ws_lastError :: u32

type_synonym ('r, 'w) wsa_call = "'w wsa_state \<Rightarrow> 'r \<times> 'w wsa_state"

definition refuse_address :: "NetworkPolicy \<Rightarrow> bytes option \<Rightarrow> int \<Rightarrow> (int, 'w) wsa_call \<Rightarrow>
    'w wsa_state \<Rightarrow> (int \<times> 'w wsa_state) option" where
  "refuse_address g_policy sa len Real s =
     map_option (\<lambda>allowed. if \<not> allowed then (SOCKET_ERROR, s\<lparr>ws_lastError := WSAEACCES\<rparr>) else Real s)
       (AddrAllowed g_policy sa len)"

definition Detoured_connect :: "NetworkPolicy \<Rightarrow> (bytes option \<Rightarrow> int \<Rightarrow> (int, 'w) wsa_call) \<Rightarrow>
    bytes option \<Rightarrow> int \<Rightarrow> 'w wsa_state \<Rightarrow> (int \<times> 'w wsa_state) option" where
  "Detoured_connect g_policy Real_connect name namelen =
     refuse_address g_policy name namelen (Real_connect name namelen)"

definition Detoured_WSAConnect :: "NetworkPolicy \<Rightarrow> (bytes option \<Rightarrow> int \<Rightarrow> 'a \<Rightarrow> (int, 'w) wsa_call) \<Rightarrow>
    bytes option \<Rightarrow> int \<Rightarrow> 'a \<Rightarrow> 'w wsa_state \<Rightarrow> (int \<times> 'w wsa_state) option" where
  "Detoured_WSAConnect g_policy Real_WSAConnect name namelen rest =
     refuse_address g_policy name namelen (Real_WSAConnect name namelen rest)"

definition Detoured_sendto :: "NetworkPolicy \<Rightarrow> (bytes \<Rightarrow> int \<Rightarrow> bytes option \<Rightarrow> int \<Rightarrow> (int, 'w) wsa_call) \<Rightarrow>
    bytes \<Rightarrow> int \<Rightarrow> bytes option \<Rightarrow> int \<Rightarrow> 'w wsa_state \<Rightarrow> (int \<times> 'w wsa_state) option" where
  "Detoured_sendto g_policy Real_sendto buf flags dest tolen =
     refuse_address g_policy dest tolen (Real_sendto buf flags dest tolen)"

definition Detoured_WSASendTo :: "NetworkPolicy \<Rightarrow> (bytes option \<Rightarrow> int \<Rightarrow> 'a \<Rightarrow> (int, 'w) wsa_call) \<Rightarrow>
    bytes option \<Rightarrow> int \<Rightarrow> 'a \<Rightarrow> 'w wsa_state \<Rightarrow> (int \<times> 'w wsa_state) option" where
  "Detoured_WSASendTo g_policy Real_WSASendTo lpTo iTolen rest =
     refuse_address g_policy lpTo iTolen (Real_WSASendTo lpTo iTolen rest)"

definition Detoured_bind :: "NetworkPolicy \<Rightarrow> (bytes option \<Rightarrow> int \<Rightarrow> (int, 'w) wsa_call) \<Rightarrow>
    bytes option \<Rightarrow> int \<Rightarrow> 'w wsa_state \<Rightarrow> (int \<times> 'w wsa_state) option" where
  "Detoured_bind g_policy Real_bind name namelen =
     refuse_address g_policy name namelen (Real_bind name namelen)"

text \<open>
  The lookups: the error code (or the host entry) and what \<open>*ppResult\<close> is afterwards, where
  \<open>result\<close> is \<open>None\<close> when \<open>ppResult\<close> is null, and \<open>Some None\<close> stands for a null pointer.
\<close>

definition Detoured_getaddrinfo :: "NetworkPolicy \<Rightarrow>
    (bytes option \<Rightarrow> 'a \<Rightarrow> 'p option option \<Rightarrow> (u32 \<times> 'p option option, 'w) wsa_call) \<Rightarrow>
    bytes option \<Rightarrow> 'a \<Rightarrow> 'p option option \<Rightarrow> (u32 \<times> 'p option option, 'w) wsa_call" where
  "Detoured_getaddrinfo g_policy Real_getaddrinfo pNodeName rest ppResult s =
     (if \<not> NameResolutionAllowed g_policy (IsLocalNameA pNodeName)
      then ((WSAHOST_NOT_FOUND, map_option (\<lambda>_. None) ppResult), s\<lparr>ws_lastError := WSAHOST_NOT_FOUND\<rparr>)
      else Real_getaddrinfo pNodeName rest ppResult s)"

definition Detoured_GetAddrInfoW :: "NetworkPolicy \<Rightarrow>
    (wstr option \<Rightarrow> 'a \<Rightarrow> 'p option option \<Rightarrow> (u32 \<times> 'p option option, 'w) wsa_call) \<Rightarrow>
    wstr option \<Rightarrow> 'a \<Rightarrow> 'p option option \<Rightarrow> (u32 \<times> 'p option option, 'w) wsa_call" where
  "Detoured_GetAddrInfoW g_policy Real_GetAddrInfoW pNodeName rest ppResult s =
     (if \<not> NameResolutionAllowed g_policy (IsLocalNameW pNodeName)
      then ((WSAHOST_NOT_FOUND, map_option (\<lambda>_. None) ppResult), s\<lparr>ws_lastError := WSAHOST_NOT_FOUND\<rparr>)
      else Real_GetAddrInfoW pNodeName rest ppResult s)"

definition Detoured_gethostbyname :: "NetworkPolicy \<Rightarrow> (bytes option \<Rightarrow> ('p option, 'w) wsa_call) \<Rightarrow>
    bytes option \<Rightarrow> ('p option, 'w) wsa_call" where
  "Detoured_gethostbyname g_policy Real_gethostbyname name s =
     (if \<not> NameResolutionAllowed g_policy (IsLocalNameA name)
      then (None, s\<lparr>ws_lastError := WSAHOST_NOT_FOUND\<rparr>)
      else Real_gethostbyname name s)"


section \<open>The socket device\<close>

definition IsAfdDeviceName :: "wstr option \<Rightarrow> bool" where
  "IsAfdDeviceName ntPath =
     (case ntPath of
        None \<Rightarrow> False
      | Some ntPath \<Rightarrow>
          (let device = BACKSLASH # wide ''Device'' @ [BACKSLASH];
               afd = (\<lambda>p. wcsnicmp_eq p (wide ''Afd'') 3 \<and>
                          (length (cstr p) = 3 \<or> cstr p ! 3 = BACKSLASH))
           in if wcsnicmp_eq ntPath device 8 then afd (drop 8 (cstr ntPath))
              else if wcsnicmp_eq ntPath nt_prefix 4 then afd (drop 4 (cstr ntPath))
              else False))"


section \<open>Attaching\<close>

text \<open>
  The globals of the DLL, with the detours that are attached. \<open>getenv\<close> is
  \<open>GetEnvironmentVariableW\<close>; the Detours transaction succeeds or fails as \<open>begins\<close> and \<open>commits\<close> say.
\<close>

record net_globals =
  g_policy :: NetworkPolicy
  g_attached :: bool
  attached_detours :: "string list"

definition initial_net_globals :: net_globals where
  "initial_net_globals = \<lparr>g_policy = Allow_All, g_attached = False, attached_detours = []\<rparr>"

definition kNetworkEnvVar :: wstr where "kNetworkEnvVar = wide ''BAZEL_SANDBOX_NETWORK''"

definition GetNetworkPolicy :: "net_globals \<Rightarrow> NetworkPolicy" where
  "GetNetworkPolicy g = g_policy g"

definition IsAllNetworkBlocked :: "net_globals \<Rightarrow> bool" where
  "IsAllNetworkBlocked g \<longleftrightarrow> GetNetworkPolicy g = BlockAll"

definition network_detours :: "string list" where
  "network_detours = [''connect'', ''WSAConnect'', ''sendto'', ''WSASendTo'', ''bind'', ''getaddrinfo'',
     ''GetAddrInfoW'', ''gethostbyname'']"

definition InitializeAndAttachNetworkDetours :: "buffer_api \<Rightarrow> bool \<Rightarrow> bool \<Rightarrow> net_globals \<Rightarrow> net_globals" where
  "InitializeAndAttachNetworkDetours getenv begins commits g =
     (let (n, value) = getenv kNetworkEnvVar 32;
          g = (if 0 < n \<and> n < 32
               then if wcsicmp_eq value (wide ''loopback'') then g\<lparr>g_policy := LoopbackOnly\<rparr>
                    else if wcsicmp_eq value (wide ''block'') then g\<lparr>g_policy := BlockAll\<rparr>
                    else g
               else g)
      in if g_policy g = Allow_All \<or> g_attached g then g
         else if \<not> begins then g
         else if commits then g\<lparr>g_attached := True, attached_detours := network_detours\<rparr>
         else g)"


section \<open>Properties\<close>

text \<open>The first octet of an IPv4 address in network order is its first byte in memory.\<close>

lemma ntohl_le32: "drop_bit 24 (ntohl (le32 b0 b1 b2 b3)) = ucast b0"
proof (rule bit_eqI)
  fix n
  assume "possible_bit TYPE(u32) n"
  then have n: "n < 32" by simp
  have m: "bit (0xFF :: u32) k \<longleftrightarrow> k < 8" "bit (0xFF00 :: u32) k \<longleftrightarrow> 8 \<le> k \<and> k < 16" for k
  proof -
    have "(0xFF :: u32) = mask 8" "(0xFF00 :: u32) = push_bit 8 (mask 8)" by (simp_all add: mask_eq_exp_minus_1)
    then show "bit (0xFF :: u32) k \<longleftrightarrow> k < 8" "bit (0xFF00 :: u32) k \<longleftrightarrow> 8 \<le> k \<and> k < 16"
      by (simp_all only: bit_mask_iff bit_push_bit_iff) auto
  qed
  let ?v = "le32 b0 b1 b2 b3"
  have "bit (ntohl ?v) (24 + n) \<longleftrightarrow> 24 + n < 32 \<and> bit ?v n \<and> n < 8"
    unfolding ntohl_def bit_or_iff bit_and_iff bit_drop_bit_eq bit_push_bit_iff o_apply m
    using bit_imp_le_length [of ?v "24 + (24 + n)"] by auto
  moreover have "bit ?v n \<longleftrightarrow> bit b0 n" if "n < 8"
    using that by (simp add: le32_def bit_or_iff bit_push_bit_iff bit_ucast_iff)
  moreover have "bit (ucast b0 :: u32) n \<longleftrightarrow> bit b0 n" using n by (simp add: bit_ucast_iff)
  moreover have "bit b0 n \<Longrightarrow> n < 8" using bit_imp_le_length [of b0 n] by simp
  ultimately show "bit (drop_bit 24 (ntohl ?v)) n \<longleftrightarrow> bit (ucast b0 :: u32) n"
    unfolding bit_drop_bit_eq o_apply by auto
qed

text \<open>
  An address of another machine, or of every interface: an Internet address that is not complete or is
  not a loopback address. \<open>local_name\<close> is what the sources take for a name of this machine.
\<close>

definition external :: "bytes \<Rightarrow> int \<Rightarrow> bool" where
  "external mem len \<longleftrightarrow>
     2 \<le> len \<and>
     (let family = le16 (mem ! 0) (mem ! 1)
      in family = AF_INET \<and> (len < 16 \<or> mem ! 4 \<noteq> 127) \<or>
         family = AF_INET6 \<and> (len < 28 \<or> take 16 (drop 8 mem) \<noteq> replicate 15 0 @ [1]))"

lemma IsLoopbackAddr_external:
  assumes "len \<le> int (length mem)"
  shows "IsLoopbackAddr (Some mem) len = Some (\<not> external mem len)"
proof -
  have first: "drop_bit 24 (ntohl (le32 (mem ! 4) b1 b2 b3)) = 127 \<longleftrightarrow> mem ! 4 = 127" for b1 b2 b3
  proof -
    have "(ucast (mem ! 4) :: u32) = 127 \<longleftrightarrow> mem ! 4 = 127"
    proof
      have "ucast (ucast (mem ! 4) :: u32) = mem ! 4" by (rule ucast_up_ucast_id) (simp add: is_up)
      moreover assume "(ucast (mem ! 4) :: u32) = 127"
      ultimately have "mem ! 4 = ucast (127 :: u32)" by simp
      then show "mem ! 4 = 127" by simp
    qed simp
    then show ?thesis by (simp only: ntohl_le32)
  qed
  show ?thesis
    using assms by (auto simp: IsLoopbackAddr_def external_def rd_u16_def rd_u32_def first Let_def)
qed

definition refused :: "NetworkPolicy \<Rightarrow> bytes \<Rightarrow> int \<Rightarrow> bool" where
  "refused policy mem len \<longleftrightarrow> policy = BlockAll \<or> policy = LoopbackOnly \<and> external mem len"

lemma refuse_address:
  assumes "len \<le> int (length mem)"
  shows "refuse_address policy (Some mem) len Real s =
    Some (if refused policy mem len then (SOCKET_ERROR, s\<lparr>ws_lastError := WSAEACCES\<rparr>) else Real s)"
  using IsLoopbackAddr_external [OF assms]
  by (cases policy) (simp_all add: refuse_address_def AddrAllowed_def refused_def)

text \<open>
  C14: nothing reaches the network that the policy forbids, and nothing else is touched. For every
  address of at least \<open>len\<close> bytes, each of the five functions that take a destination fails with
  \<open>WSAEACCES\<close> and leaves the world alone when the policy blocks everything, or when it allows
  loopback and the address is an Internet address outside 127.0.0.0/8 and \<open>::1\<close>; in all other cases
  it is the real function.
\<close>
theorem external_traffic_refused:
  assumes "len \<le> int (length mem)"
  shows "(let verdict = (\<lambda>Real. Some (if refused policy mem len
                                  then (SOCKET_ERROR, s\<lparr>ws_lastError := WSAEACCES\<rparr>) else Real s))
          in Detoured_connect policy connect (Some mem) len s = verdict (connect (Some mem) len) \<and>
             Detoured_WSAConnect policy WSAConnect (Some mem) len cargs s =
               verdict (WSAConnect (Some mem) len cargs) \<and>
             Detoured_sendto policy sendto buf flags (Some mem) len s =
               verdict (sendto buf flags (Some mem) len) \<and>
             Detoured_WSASendTo policy WSASendTo (Some mem) len sargs s =
               verdict (WSASendTo (Some mem) len sargs) \<and>
             Detoured_bind policy bind (Some mem) len s = verdict (bind (Some mem) len))"
  by (simp add: refuse_address [OF assms] Detoured_connect_def Detoured_WSAConnect_def Detoured_sendto_def
      Detoured_WSASendTo_def Detoured_bind_def)

theorem external_traffic_refused_witness:
  "Detoured_connect LoopbackOnly (\<lambda>sa len s. (0, s)) (Some ([2, 0, 0, 80, 8, 8, 8, 8] @ replicate 8 0)) 16
     \<lparr>ws_world = (), ws_lastError = 0\<rparr> = Some (- 1, \<lparr>ws_world = (), ws_lastError = 10013\<rparr>)"
proof -
  let ?mem = "[2, 0, 0, 80, 8, 8, 8, 8] @ replicate 8 0 :: bytes"
  have "(16 :: int) \<le> int (length ?mem)" by simp
  from external_traffic_refused [OF this, of LoopbackOnly "\<lparr>ws_world = (), ws_lastError = 0\<rparr>" "\<lambda>sa len s. (0, s)",
      unfolded Let_def, THEN conjunct1]
  have "Detoured_connect LoopbackOnly (\<lambda>sa len s. (0, s)) (Some ?mem) 16 \<lparr>ws_world = (), ws_lastError = 0\<rparr> =
      Some (if refused LoopbackOnly ?mem 16
        then (SOCKET_ERROR, \<lparr>ws_world = (), ws_lastError = 0\<rparr>\<lparr>ws_lastError := WSAEACCES\<rparr>)
        else (0, \<lparr>ws_world = (), ws_lastError = 0\<rparr>))"
    .
  moreover have "refused LoopbackOnly ?mem 16" by code_simp
  ultimately show ?thesis by simp
qed

text \<open>
  The two versions of the name test agree, and under the loopback policy a name is resolved
  exactly when it is missing or empty, one of the two aliases in any case, \<open>::1\<close>, or begins with
  \<open>127.\<close>. The last is not only the addresses of the loopback network: \<open>127.example.com\<close> is
  looked up as well.
\<close>
theorem resolved_names:
  "NameResolutionAllowed LoopbackOnly (IsLocalNameW name) =
     (case name of
        None \<Rightarrow> True
      | Some name \<Rightarrow> cstr name = [] \<or> map towlower (cstr name) = wide ''localhost'' \<or>
          map towlower (cstr name) = wide ''ip6-localhost'' \<or>
          cstr name = wide ''::1'' \<or> take 4 (cstr name) = wide ''127.'') \<and>
   IsLocalNameA narrow = IsLocalNameW (map_option (map ucast) narrow) \<and>
   NameResolutionAllowed LoopbackOnly (IsLocalNameW (Some (wide ''127.example.com'')))"
proof -
  have lower: "map towlower (cstr (wide ''localhost'')) = wide ''localhost''"
    "map towlower (cstr (wide ''ip6-localhost'')) = wide ''ip6-localhost''"
    "cstr (wide ''127.0.0.1'') = wide ''127.0.0.1''" "cstr (wide ''::1'') = wide ''::1''"
    "take 4 (cstr (wide ''127.'')) = wide ''127.''" by code_simp+
  have literal: "take 4 (wide ''127.0.0.1'') = wide ''127.''" by code_simp
  have "IsLocalNameW (Some n) \<longleftrightarrow> cstr n = [] \<or> map towlower (cstr n) = wide ''localhost'' \<or>
      map towlower (cstr n) = wide ''ip6-localhost'' \<or> cstr n = wide ''::1'' \<or>
      take 4 (cstr n) = wide ''127.''" for n
    unfolding IsLocalNameW_def option.case wcsicmp_eq_def wcscmp_eq_def wcsncmp_eq_def lower
    using literal by (auto simp del: wide_Cons)
  moreover have "IsLocalNameA narrow = IsLocalNameW (map_option (map ucast) narrow)"
    by (cases narrow) (simp_all add: IsLocalNameA_def IsLocalNameW_def Let_def)
  moreover have "IsLocalNameW (Some (wide ''127.example.com''))" by code_simp
  ultimately show ?thesis
    by (cases name) (simp_all add: NameResolutionAllowed_def del: wide_Cons, simp add: IsLocalNameW_def)
qed

end
