(* ===== verification/Command_Line.thy ===== *)
theory Command_Line
  imports Sandbox_Base
begin

text \<open>
  The command line of the child (\<open>EscapeArg\<close>, \<open>IsCmdExe\<close> and \<open>BuildChildCommandLine\<close> of
  \<open>src/main.cpp\<close>), and the rules by which a Windows program splits it again.
\<close>

section \<open>Quoting\<close>

abbreviation TAB :: wchar where "TAB \<equiv> 0x09"

lemma dropWhile_Cons_shorter: "dropWhile P s = c # rest \<Longrightarrow> length rest < length s"
  using length_dropWhile_le [of P s] by simp

text \<open>Appends the rest \<open>s\<close> of the argument, run of backslashes by run of backslashes.\<close>

function EscapeArg_loop :: "wstr \<Rightarrow> wstr \<Rightarrow> wstr" where
  "EscapeArg_loop s out =
     (if s = [] then out
      else (let backslashes = length (takeWhile (\<lambda>c. c = BACKSLASH) s)
            in case dropWhile (\<lambda>c. c = BACKSLASH) s of
                 [] \<Rightarrow> out @ replicate (backslashes * 2) BACKSLASH
               | c # rest \<Rightarrow>
                   if c = DQUOTE
                   then EscapeArg_loop rest (out @ replicate (backslashes * 2 + 1) BACKSLASH @ [DQUOTE])
                   else EscapeArg_loop rest (out @ replicate backslashes BACKSLASH @ [c])))"
  by pat_completeness auto

termination by (relation "measure (length \<circ> fst)") (auto dest: dropWhile_Cons_shorter)

declare EscapeArg_loop.simps [simp del]

definition need_escape :: "wstr \<Rightarrow> bool" where
  "need_escape s \<longleftrightarrow> (\<exists>c \<in> set s. c = SPACE \<or> c = TAB \<or> c = 0x0A \<or> c = 0x0B \<or> c = DQUOTE)"

definition EscapeArg :: "wstr \<Rightarrow> wstr \<Rightarrow> wstr" where
  "EscapeArg s out =
     (if s = [] then out @ [DQUOTE, DQUOTE]
      else if \<not> need_escape s then out @ s
      else EscapeArg_loop s (out @ [DQUOTE]) @ [DQUOTE])"

definition IsCmdExe :: "wstr \<Rightarrow> bool" where
  "IsCmdExe toolPath =
     (let base = (case find_last_of toolPath {BACKSLASH, SLASH} of
                    None \<Rightarrow> toolPath
                  | Some slash \<Rightarrow> drop (slash + 1) toolPath)
      in if length base \<noteq> 7 then False
         else list_all (\<lambda>k. towlower (base ! k) = wide ''cmd.exe'' ! k) [0..<7])"

text \<open>The loop over the arguments from the \<open>k\<close>-th on.\<close>

fun BuildChildCommandLine_loop :: "bool \<Rightarrow> nat \<Rightarrow> wstr list \<Rightarrow> wstr \<Rightarrow> wstr" where
  "BuildChildCommandLine_loop isCmd k [] out = out"
| "BuildChildCommandLine_loop isCmd k (a # args) out =
     (let out = (if k \<noteq> 0 then out @ [SPACE] else out)
      in BuildChildCommandLine_loop isCmd (Suc k) args
           (if k = 0 \<or> \<not> isCmd then EscapeArg a out else out @ a))"

definition BuildChildCommandLine :: "wstr list \<Rightarrow> wstr" where
  "BuildChildCommandLine args =
     (let isCmd = (args \<noteq> [] \<and> IsCmdExe (hd args))
      in BuildChildCommandLine_loop isCmd 0 args [])"


section \<open>Splitting\<close>

text \<open>
  The documented rules of \<open>CommandLineToArgvW\<close> and of the C runtime. An argument ends at a space or a
  tab outside quotes. \<open>2n\<close> backslashes before a quotation mark are \<open>n\<close> and the mark opens or closes a
  quoted part; \<open>2n + 1\<close> are \<open>n\<close> and a literal mark; other backslashes are literal. The first argument
  is read without any of this, to the next mark when it begins with one and to white space otherwise.
  \<open>cur\<close> is the argument read so far, if one has begun, and \<open>n\<close> the backslashes that are pending.
\<close>

definition so_far :: "wstr option \<Rightarrow> wstr" where
  "so_far cur = (case cur of None \<Rightarrow> [] | Some a \<Rightarrow> a)"

fun split_args :: "bool \<Rightarrow> wstr option \<Rightarrow> nat \<Rightarrow> wstr \<Rightarrow> wstr list" where
  "split_args quoted cur n [] = (case cur of None \<Rightarrow> [] | Some a \<Rightarrow> [a @ replicate n BACKSLASH])"
| "split_args quoted cur n (c # cs) =
     (if c = BACKSLASH then split_args quoted (Some (so_far cur)) (Suc n) cs
      else if c = DQUOTE
      then if even n then split_args (\<not> quoted) (Some (so_far cur @ replicate (n div 2) BACKSLASH)) 0 cs
           else split_args quoted (Some (so_far cur @ replicate (n div 2) BACKSLASH @ [DQUOTE])) 0 cs
      else if \<not> quoted \<and> (c = SPACE \<or> c = TAB)
      then (case cur of
              None \<Rightarrow> split_args False None 0 cs
            | Some a \<Rightarrow> (a @ replicate n BACKSLASH) # split_args False None 0 cs)
      else split_args quoted (Some (so_far cur @ replicate n BACKSLASH @ [c])) 0 cs)"

definition split_command_line :: "wstr \<Rightarrow> wstr list" where
  "split_command_line line =
     (case line of
        [] \<Rightarrow> []
      | c # cs \<Rightarrow>
          if c = DQUOTE
          then takeWhile (\<lambda>c. c \<noteq> DQUOTE) cs #
               split_args False None 0 (drop 1 (dropWhile (\<lambda>c. c \<noteq> DQUOTE) cs))
          else takeWhile (\<lambda>c. c \<noteq> SPACE \<and> c \<noteq> TAB) line #
               split_args False None 0 (dropWhile (\<lambda>c. c \<noteq> SPACE \<and> c \<noteq> TAB) line))"


section \<open>Lemmas\<close>

lemma EscapeArg_loop_end:
  assumes "dropWhile (\<lambda>c. c = BACKSLASH) s = []"
  shows "EscapeArg_loop s out = out @ replicate (length (takeWhile (\<lambda>c. c = BACKSLASH) s) * 2) BACKSLASH"
  by (cases "s = []"; subst EscapeArg_loop.simps) (simp_all add: Let_def assms del: dropWhile_eq_Nil_conv)

lemma EscapeArg_loop_step:
  assumes "dropWhile (\<lambda>c. c = BACKSLASH) s = c # rest"
  shows "EscapeArg_loop s out = EscapeArg_loop rest
    (out @ (if c = DQUOTE
       then replicate (length (takeWhile (\<lambda>c. c = BACKSLASH) s) * 2 + 1) BACKSLASH @ [DQUOTE]
       else replicate (length (takeWhile (\<lambda>c. c = BACKSLASH) s)) BACKSLASH @ [c]))"
proof -
  have "s \<noteq> []" using assms by auto
  then show ?thesis by (subst EscapeArg_loop.simps) (simp add: Let_def assms del: dropWhile_eq_Nil_conv)
qed

lemma EscapeArg_loop_append: "EscapeArg_loop s (out @ pre) = out @ EscapeArg_loop s pre"
proof (induction s pre rule: EscapeArg_loop.induct)
  case (1 s pre)
  show ?case
  proof (cases "dropWhile (\<lambda>c. c = BACKSLASH) s")
    case Nil
    show ?thesis unfolding EscapeArg_loop_end [OF Nil] by simp
  next
    case (Cons c rest)
    have "s \<noteq> []" using Cons by auto
    then show ?thesis
      unfolding EscapeArg_loop_step [OF Cons] using 1 [OF _ refl Cons] by (cases "c = DQUOTE") simp_all
  qed
qed

lemma EscapeArg_append: "EscapeArg s out = out @ EscapeArg s []"
  using EscapeArg_loop_append [of s out "[DQUOTE]"] by (simp add: EscapeArg_def)

lemma takeWhile_replicate: "takeWhile (\<lambda>c. c = x) s = replicate (length (takeWhile (\<lambda>c. c = x) s)) x"
  by (induction s) auto

lemma split_args_backslashes:
  "split_args quoted (Some a) n (replicate m BACKSLASH @ rest) = split_args quoted (Some a) (n + m) rest"
  by (induction m arbitrary: n) (simp_all add: so_far_def)

text \<open>Inside quotation marks the rules undo the escaping.\<close>

lemma split_args_EscapeArg_loop:
  "split_args True (Some a) 0 (EscapeArg_loop s [] @ DQUOTE # rest) = split_args False (Some (a @ s)) 0 rest"
proof (induction s arbitrary: a rule: length_induct)
  case (1 s)
  show ?case
  proof (cases "s = []")
    case True
    then show ?thesis by (simp add: EscapeArg_loop.simps so_far_def)
  next
    case False
    let ?n = "length (takeWhile (\<lambda>c. c = BACKSLASH) s)"
    have s: "s = replicate ?n BACKSLASH @ dropWhile (\<lambda>c. c = BACKSLASH) s"
      using takeWhile_dropWhile_id [of "\<lambda>c. c = BACKSLASH" s] takeWhile_replicate [of BACKSLASH s] by simp
    show ?thesis
    proof (cases "dropWhile (\<lambda>c. c = BACKSLASH) s")
      case Nil
      then have "s = replicate ?n BACKSLASH" using s unfolding Nil by (simp only: append_Nil2)
      with False Nil show ?thesis
        unfolding EscapeArg_loop_end [OF Nil] by (simp add: split_args_backslashes so_far_def)
    next
      case (Cons c t)
      have IH: "split_args True (Some b) 0 (EscapeArg_loop t [] @ DQUOTE # rest) =
          split_args False (Some (b @ t)) 0 rest" for b
        by (rule 1 [THEN spec, THEN mp, OF dropWhile_Cons_shorter [OF Cons], THEN spec])
      have c: "c \<noteq> BACKSLASH" using hd_dropWhile [of "\<lambda>c. c = BACKSLASH" s, unfolded Cons] by simp
      have loop: "EscapeArg_loop s [] =
          (if c = DQUOTE then replicate (?n * 2 + 1) BACKSLASH @ [DQUOTE] else replicate ?n BACKSLASH @ [c]) @
          EscapeArg_loop t []"
        unfolding EscapeArg_loop_step [OF Cons] append_Nil
        by (rule EscapeArg_loop_append [of t _ "[]", unfolded append_Nil2])
      have "s = replicate ?n BACKSLASH @ c # t" using s unfolding Cons .
      then have s': "a @ s = (a @ replicate ?n BACKSLASH @ [c]) @ t"
        unfolding append_assoc append_Cons append_Nil by (rule arg_cong)
      show ?thesis
      proof (cases "c = DQUOTE")
        case True
        then show ?thesis
          unfolding loop s' using IH [of "a @ replicate ?n BACKSLASH @ [c]"]
          by (simp add: split_args_backslashes so_far_def del: replicate_Suc)
      next
        case False
        then show ?thesis
          unfolding loop s' using IH [of "a @ replicate ?n BACKSLASH @ [c]"] c
          by (simp add: split_args_backslashes so_far_def)
      qed
    qed
  qed
qed

lemma split_args_plain:
  assumes "\<forall>c \<in> set s. c \<noteq> SPACE \<and> c \<noteq> TAB \<and> c \<noteq> DQUOTE"
    and "rest = [] \<or> hd rest = SPACE"
  shows "split_args False (Some a) n (s @ rest) = (a @ replicate n BACKSLASH @ s) # split_args False None 0 (drop 1 rest)"
  using assms(1)
proof (induction s arbitrary: a n)
  case Nil
  then show ?case using assms(2) by (cases rest) auto
next
  case (Cons c s)
  then show ?case by (auto simp: so_far_def replicate_append_same)
qed

text \<open>One escaped argument, at the beginning of the rest of the line.\<close>

lemma split_args_EscapeArg:
  assumes "rest = [] \<or> hd rest = SPACE"
  shows "split_args False None 0 (EscapeArg s [] @ rest) = s # split_args False None 0 (drop 1 rest)"
proof -
  have ended: "split_args False (Some s) 0 rest = s # split_args False None 0 (drop 1 rest)" for s
    using split_args_plain [of "[]" rest s 0] assms by simp
  show ?thesis
  proof (cases "s = [] \<or> need_escape s")
    case True
    have "split_args True (Some []) 0 (EscapeArg_loop s [] @ DQUOTE # rest) = split_args False (Some s) 0 rest"
      using split_args_EscapeArg_loop [of "[]" s rest] by simp
    with True ended show ?thesis
      using EscapeArg_loop_append [of s "[DQUOTE]" "[]"]
      by (cases "s = []") (auto simp: EscapeArg_def so_far_def EscapeArg_loop.simps)
  next
    case False
    then obtain c t where s: "s = c # t" by (cases s) auto
    have plain: "\<forall>c \<in> set s. c \<noteq> SPACE \<and> c \<noteq> TAB \<and> c \<noteq> DQUOTE" using False by (auto simp: need_escape_def)
    have "split_args False None 0 (s @ rest) = split_args False (Some []) 0 (s @ rest)"
      using plain by (simp add: s so_far_def)
    with False plain split_args_plain [OF plain assms, of "[]" 0] show ?thesis
      by (simp add: EscapeArg_def)
  qed
qed

lemma BuildChildCommandLine_loop_Suc:
  "BuildChildCommandLine_loop isCmd (Suc k) args out =
     out @ concat (map (\<lambda>a. SPACE # (if isCmd then a else EscapeArg a [])) args)"
  by (induction args arbitrary: k out) (simp_all add: Let_def EscapeArg_append [of _ "_ @ _"] EscapeArg_append [of _ "[_]"])

lemma split_args_tail:
  "split_args False None 0 (concat (map (\<lambda>a. SPACE # EscapeArg a []) args)) = args"
proof (induction args)
  case (Cons a args)
  then show ?case
    using split_args_EscapeArg [of "concat (map (\<lambda>a. SPACE # EscapeArg a []) args)" a]
    by (cases args) (simp_all add: split_args_plain)
qed simp

text \<open>An executable name: not empty, no quotation mark, and no backslash at its end.\<close>

definition program_name :: "wstr \<Rightarrow> bool" where
  "program_name a \<longleftrightarrow> a \<noteq> [] \<and> DQUOTE \<notin> set a \<and> last a \<noteq> BACKSLASH"

lemma EscapeArg_loop_program:
  "DQUOTE \<notin> set s \<Longrightarrow> s = [] \<or> last s \<noteq> BACKSLASH \<Longrightarrow> EscapeArg_loop s [] = s"
proof (induction s rule: length_induct)
  case (1 s)
  show ?case
  proof (cases "dropWhile (\<lambda>c. c = BACKSLASH) s")
    case Nil
    then have all: "\<forall>c \<in> set s. c = BACKSLASH" by simp
    have "s = []"
    proof (rule ccontr)
      assume "s \<noteq> []"
      then have "last s = BACKSLASH" using all by simp
      with 1 \<open>s \<noteq> []\<close> show False by simp
    qed
    then show ?thesis by (simp add: EscapeArg_loop.simps)
  next
    case (Cons c t)
    let ?n = "length (takeWhile (\<lambda>c. c = BACKSLASH) s)"
    have "s = takeWhile (\<lambda>c. c = BACKSLASH) s @ c # t" using Cons by (metis takeWhile_dropWhile_id)
    then have s: "s = replicate ?n BACKSLASH @ c # t" unfolding takeWhile_replicate [symmetric] .
    have "DQUOTE \<notin> set t" "c \<noteq> DQUOTE" "t = [] \<or> last t \<noteq> BACKSLASH"
      using 1(2,3) arg_cong [OF s, of set] arg_cong [OF s, of last] by (auto split: if_splits)
    moreover have "length t < length s" by (rule dropWhile_Cons_shorter [OF Cons])
    ultimately have "EscapeArg_loop t [] = t" using 1(1) by blast
    then have "EscapeArg_loop s [] = replicate ?n BACKSLASH @ [c] @ t"
      unfolding EscapeArg_loop_step [OF Cons] append_Nil
      using \<open>c \<noteq> DQUOTE\<close> EscapeArg_loop_append [of t "replicate ?n BACKSLASH @ [c]" "[]"] by simp
    then show ?thesis unfolding s [symmetric] append_Cons append_Nil .
  qed
qed


section \<open>Properties\<close>

text \<open>
  C13: the child receives the arguments that the caller gave after \<open>--\<close>. For every program but
  \<open>cmd.exe\<close>, splitting the command line by the documented rules gives back the argument list,
  whatever characters the arguments have; \<open>cmd.exe\<close>, which does not follow those rules, is given its
  arguments as they are, separated by single spaces.
\<close>
theorem child_sees_args:
  assumes "program_name tool"
  shows "if IsCmdExe tool
    then BuildChildCommandLine (tool # args) = EscapeArg tool [] @ concat (map (\<lambda>a. SPACE # a) args)
    else split_command_line (BuildChildCommandLine (tool # args)) = tool # args"
proof -
  let ?tail = "concat (map (\<lambda>a. SPACE # EscapeArg a []) args)"
  have line: "BuildChildCommandLine (tool # args) = EscapeArg tool [] @
      concat (map (\<lambda>a. SPACE # (if IsCmdExe tool then a else EscapeArg a [])) args)"
    by (simp add: BuildChildCommandLine_def BuildChildCommandLine_loop_Suc)
  have "split_command_line (EscapeArg tool [] @ ?tail) = tool # args"
  proof (cases "need_escape tool")
    case True
    have "EscapeArg tool [] = DQUOTE # tool @ [DQUOTE]"
      using assms True EscapeArg_loop_append [of tool "[DQUOTE]" "[]"] EscapeArg_loop_program [of tool]
      by (simp add: EscapeArg_def program_name_def)
    moreover have "takeWhile (\<lambda>c. c \<noteq> DQUOTE) (tool @ DQUOTE # ?tail) = tool"
      "dropWhile (\<lambda>c. c \<noteq> DQUOTE) (tool @ DQUOTE # ?tail) = DQUOTE # ?tail"
      using assms by (auto simp: program_name_def takeWhile_append dropWhile_append)
    ultimately show ?thesis by (simp add: split_command_line_def split_args_tail)
  next
    case False
    then have plain: "\<forall>c \<in> set tool. c \<noteq> SPACE \<and> c \<noteq> TAB" "EscapeArg tool [] = tool"
      using assms by (auto simp: need_escape_def EscapeArg_def program_name_def)
    have tail: "?tail = [] \<or> hd ?tail = SPACE" by (cases args) auto
    have "takeWhile (\<lambda>c. c \<noteq> SPACE \<and> c \<noteq> TAB) (tool @ ?tail) = tool"
      "dropWhile (\<lambda>c. c \<noteq> SPACE \<and> c \<noteq> TAB) (tool @ ?tail) = ?tail"
      using plain(1) tail by (cases args; force simp: takeWhile_append dropWhile_append)+
    with assms plain(2) show ?thesis
      by (cases tool) (auto simp: split_command_line_def program_name_def split_args_tail)
  qed
  then show ?thesis by (simp add: line)
qed

theorem child_sees_args_witness:
  "split_command_line (BuildChildCommandLine [wide ''C:'' @ BACKSLASH # wide ''a b.exe'', [BACKSLASH, DQUOTE], [],
      wide ''x y'' @ [BACKSLASH]]) =
    [wide ''C:'' @ BACKSLASH # wide ''a b.exe'', [BACKSLASH, DQUOTE], [], wide ''x y'' @ [BACKSLASH]]"
proof -
  let ?tool = "wide ''C:'' @ BACKSLASH # wide ''a b.exe''"
  have "program_name ?tool" "\<not> IsCmdExe ?tool" by code_simp+
  with child_sees_args [of ?tool "[[BACKSLASH, DQUOTE], [], wide ''x y'' @ [BACKSLASH]]"] show ?thesis by simp
qed

end
