(* ===== verification/Exec_Stats.thy ===== *)
theory Exec_Stats
  imports Sandbox_Base
begin

text \<open>
  The statistics file of \<open>-S\<close> (\<open>PutVarint\<close>, \<open>PutInt64Field\<close>, \<open>WriteStats\<close> of \<open>src/main.cpp\<close>): a protocol
  buffer message written byte by byte, and what a reader of the wire format finds in it.
\<close>

section \<open>Writing\<close>

lemma drop_bit_7_less:
  assumes "0x80 \<le> (v :: u64)"
  shows "unat (drop_bit 7 v) < unat v"
proof -
  have "unat (drop_bit 7 v) = unat v div 128" by (simp add: drop_bit_eq_div unat_div)
  moreover have "128 \<le> unat v" using assms by (simp add: word_le_nat_alt)
  ultimately show ?thesis by simp
qed

function PutVarint :: "bytes \<Rightarrow> u64 \<Rightarrow> bytes" where
  "PutVarint out v =
     (if 0x80 \<le> v then PutVarint (out @ [ucast ((v AND 0x7F) OR 0x80)]) (drop_bit 7 v)
      else out @ [ucast v])"
  by pat_completeness auto

termination by (relation "measure (\<lambda>(out, v). unat v)") (auto simp: drop_bit_7_less)

declare PutVarint.simps [simp del]

definition PutInt64Field :: "bytes \<Rightarrow> u32 \<Rightarrow> u64 \<Rightarrow> bytes" where
  "PutInt64Field out fieldNum v =
     (if v = 0 then out else PutVarint (out @ [ucast (push_bit 3 fieldNum OR 0)]) v)"

text \<open>What the job object answers: the accounting information and the peak memory, if it does.\<close>

record job_accounting =
  TotalUserTime :: u64
  TotalKernelTime :: u64
  ReadOperationCount :: u64
  WriteOperationCount :: u64

record job_object =
  job_acct :: "job_accounting option"
  job_peakMemory :: "u64 option"

record resource_usage =
  utimeSec :: u64
  utimeUsec :: u64
  stimeSec :: u64
  stimeUsec :: u64
  maxrssKb :: u64
  inBlock :: u64
  ouBlock :: u64

definition read_usage :: "job_object \<Rightarrow> resource_usage" where
  "read_usage job =
     (let ru = \<lparr>utimeSec = 0, utimeUsec = 0, stimeSec = 0, stimeUsec = 0, maxrssKb = 0, inBlock = 0, ouBlock = 0\<rparr>;
          ru = (case job_acct job of
                  None \<Rightarrow> ru
                | Some acct \<Rightarrow>
                    ru\<lparr>utimeSec := TotalUserTime acct div 10000000,
                       utimeUsec := (TotalUserTime acct mod 10000000) div 10,
                       stimeSec := TotalKernelTime acct div 10000000,
                       stimeUsec := (TotalKernelTime acct mod 10000000) div 10,
                       inBlock := ReadOperationCount acct,
                       ouBlock := WriteOperationCount acct\<rparr>)
      in case job_peakMemory job of None \<Rightarrow> ru | Some peak \<Rightarrow> ru\<lparr>maxrssKb := peak div 1024\<rparr>)"

definition usage_message :: "resource_usage \<Rightarrow> bytes" where
  "usage_message usage =
     (let ru = [];
          ru = PutInt64Field ru 1 (utimeSec usage);
          ru = PutInt64Field ru 2 (utimeUsec usage);
          ru = PutInt64Field ru 3 (stimeSec usage);
          ru = PutInt64Field ru 4 (stimeUsec usage);
          ru = PutInt64Field ru 5 (maxrssKb usage);
          ru = PutInt64Field ru 12 (inBlock usage);
          ru = PutInt64Field ru 13 (ouBlock usage)
      in ru)"

text \<open>The bytes written to \<open>statsPath\<close>; \<open>None\<close> where nothing is written. \<open>opens\<close> is \<open>CreateFileW\<close>.\<close>

definition WriteStats :: "(wstr \<Rightarrow> bool) \<Rightarrow> wstr \<Rightarrow> job_object option \<Rightarrow> bytes option" where
  "WriteStats opens statsPath hJob =
     (case hJob of
        None \<Rightarrow> None
      | Some job \<Rightarrow>
          if statsPath = [] then None
          else (let ru = usage_message (read_usage job);
                    msg = [ucast (push_bit 3 (1 :: u32) OR 2)];
                    msg = PutVarint msg (of_nat (length ru));
                    msg = msg @ ru
                in if opens statsPath then Some msg else None))"


section \<open>Reading\<close>

text \<open>
  The wire format. A varint has seven bits to a byte, low bits first, and the top bit set on all bytes
  but the last; a field is a tag with its number and wire type, 0 for a varint and 2 for a length and
  that many bytes. A field that is absent is 0.
\<close>

fun read_varint :: "bytes \<Rightarrow> (nat \<times> bytes) option" where
  "read_varint [] = None"
| "read_varint (b # bs) =
     (if b < 0x80 then Some (unat b, bs)
      else map_option (\<lambda>(n, rest). (unat (b AND 0x7F) + 128 * n, rest)) (read_varint bs))"

datatype wire_value = Varint nat | Delimited bytes

definition read_field :: "bytes \<Rightarrow> ((nat \<times> wire_value) \<times> bytes) option" where
  "read_field bs =
     Option.bind (read_varint bs) (\<lambda>(tag, rest).
       Option.bind (read_varint rest) (\<lambda>(n, rest).
         if tag mod 8 = 0 then Some ((tag div 8, Varint n), rest)
         else if tag mod 8 = 2 \<and> n \<le> length rest then Some ((tag div 8, Delimited (take n rest)), drop n rest)
         else None))"

lemma read_varint_shorter: "read_varint bs = Some (n, rest) \<Longrightarrow> length rest < length bs"
  by (induction bs arbitrary: n) (force split: if_splits)+

lemma read_field_shorter: "read_field bs = Some (f, rest) \<Longrightarrow> length rest < length bs"
  by (auto simp: read_field_def bind_eq_Some_conv split: if_splits dest!: read_varint_shorter)

function read_message :: "bytes \<Rightarrow> (nat \<times> wire_value) list option" where
  "read_message bs =
     (if bs = [] then Some []
      else case read_field bs of
             None \<Rightarrow> None
           | Some (f, rest) \<Rightarrow> map_option (\<lambda>fs. f # fs) (read_message rest))"
  by pat_completeness auto
termination by (relation "measure length") (auto dest: read_field_shorter)

declare read_message.simps [simp del]

definition field_int :: "(nat \<times> wire_value) list \<Rightarrow> nat \<Rightarrow> nat" where
  "field_int fs k = (case map_of fs k of Some (Varint n) \<Rightarrow> n | _ \<Rightarrow> 0)"


section \<open>Lemmas\<close>

lemma PutVarint_append: "PutVarint (out @ pre) v = out @ PutVarint pre v"
proof (induction pre v rule: PutVarint.induct)
  case (1 pre v)
  then show ?case by (subst (1 2) PutVarint.simps) simp
qed

lemma continuation_byte:
  "\<not> (ucast ((v AND 0x7F) OR 0x80 :: u64) :: u8) < 0x80"
  "unat ((ucast ((v AND 0x7F) OR 0x80 :: u64) :: u8) AND 0x7F) = unat v mod 128"
proof -
  let ?b = "ucast ((v AND 0x7F) OR 0x80) :: u8"
  have low: "w AND 0x7F = take_bit 7 w" for w :: "'a::len word"
    by (simp add: take_bit_eq_mask mask_eq_exp_minus_1)
  have m: "bit (0x80 :: u64) n \<longleftrightarrow> n = 7" if "n < 64" for n
  proof -
    have "(0x80 :: u64) = push_bit 7 1" by simp
    with that show ?thesis by (simp only: bit_push_bit_iff bit_1_iff) auto
  qed
  have bits: "bit ?b n \<longleftrightarrow> n < 7 \<and> bit v n \<or> n = 7" for n
  proof (cases "n < 8")
    case True
    then show ?thesis unfolding bit_ucast_iff bit_or_iff low bit_take_bit_iff using m [of n] by auto
  next
    case False
    then show ?thesis using bit_imp_le_length [of ?b n] by auto
  qed
  have "take_bit 7 ?b = ucast (take_bit 7 v)"
    by (rule bit_eqI) (simp only: bit_take_bit_iff bits bit_ucast_iff [of "take_bit 7 v"], auto)
  moreover have "unat (take_bit 7 v) = unat v mod 128"
    by (simp add: take_bit_eq_mod unat_mod)
  ultimately show "unat (?b AND 0x7F) = unat v mod 128" by (simp add: low unsigned_ucast_eq unsigned_take_bit_eq take_bit_eq_mod)
  show "\<not> ?b < 0x80"
  proof
    assume "?b < 0x80"
    then have "unat ?b < 2 ^ 7" by (simp add: word_less_nat_alt)
    then have "take_bit 7 (unat ?b) = unat ?b" by (simp add: take_bit_nat_eq_self)
    then have "\<not> bit (unat ?b) 7" by (metis bit_take_bit_iff less_irrefl)
    then show False using bits [of 7] by (simp add: bit_unsigned_iff)
  qed
qed

lemma read_varint_PutVarint: "read_varint (PutVarint [] v @ rest) = Some (unat v, rest)"
proof (induction "unat v" arbitrary: v rule: less_induct)
  case less
  show ?case
  proof (cases "0x80 \<le> v")
    case True
    let ?b = "ucast ((v AND 0x7F) OR 0x80) :: u8"
    have IH: "read_varint (PutVarint [] (drop_bit 7 v) @ rest) = Some (unat (drop_bit 7 v), rest)"
      by (rule less) (rule drop_bit_7_less [OF True])
    have "PutVarint [] v = ?b # PutVarint [] (drop_bit 7 v)"
      using True PutVarint_append [of "[?b]" "[]" "drop_bit 7 v"] by (subst PutVarint.simps) simp
    moreover have "\<not> ?b < 0x80" "unat (?b AND 0x7F) = unat v mod 128"
      by (rule continuation_byte)+
    moreover have "unat (drop_bit 7 v) = unat v div 128" by (simp add: drop_bit_eq_div unat_div)
    ultimately show ?thesis using IH by simp
  next
    case False
    then have small: "unat v < 128" by (simp add: word_le_nat_alt not_le)
    then have "unat (ucast v :: u8) = unat v" by (simp add: unsigned_ucast_eq take_bit_nat_eq_self)
    moreover have "(ucast v :: u8) < 0x80" using calculation small by (simp add: word_less_nat_alt)
    ultimately show ?thesis using False by (subst PutVarint.simps) simp
  qed
qed

lemma length_PutVarint: "length (PutVarint out v) \<le> length out + 10"
proof -
  have "length (PutVarint out v) \<le> length out + k + 1" if "unat v < 2 ^ (7 * (k + 1))" for k
    using that
  proof (induction k arbitrary: out v)
    case 0
    then have "\<not> 0x80 \<le> v" by (simp add: word_le_nat_alt)
    then show ?case by (subst PutVarint.simps) simp
  next
    case (Suc k)
    have "unat (drop_bit 7 v) = unat v div 128" by (simp add: drop_bit_eq_div unat_div)
    also have "\<dots> < 2 ^ (7 * (k + 1))"
      using Suc.prems by (simp add: less_mult_imp_div_less power_add mult.commute)
    finally show ?case
      using Suc.IH [of "drop_bit 7 v" "out @ [ucast ((v AND 0x7F) OR 0x80)]"] by (subst PutVarint.simps) simp
  qed
  moreover have "unat v < 2 ^ (7 * (9 + 1))"
    using unsigned_less [of v, where 'a = nat] by simp
  ultimately show ?thesis by fastforce
qed

text \<open>A field that was written is read first; the others follow.\<close>

lemma PutInt64Field_append: "PutInt64Field out k v = out @ PutInt64Field [] k v"
  using PutVarint_append [of out "[ucast (push_bit 3 k OR 0)]" v] by (simp add: PutInt64Field_def)

lemma read_field_tag:
  assumes "tag < 0x80"
  shows "read_field (tag # PutVarint [] v @ rest) =
    (if unat tag mod 8 = 0 then Some ((unat tag div 8, Varint (unat v)), rest)
     else if unat tag mod 8 = 2 \<and> unat v \<le> length rest
     then Some ((unat tag div 8, Delimited (take (unat v) rest)), drop (unat v) rest) else None)"
  using assms by (simp add: read_field_def read_varint_PutVarint)

lemma read_message_PutInt64Field:
  assumes "0 < k" "k \<le> 15"
  shows "read_message (PutInt64Field [] (of_nat k) v @ rest) =
    (if v = 0 then read_message rest
     else map_option (\<lambda>fs. (k, Varint (unat v)) # fs) (read_message rest))"
proof -
  have "list_all (\<lambda>k. (ucast (push_bit 3 (of_nat k :: u32) OR 0) :: u8) < 0x80 \<and>
      unat (ucast (push_bit 3 (of_nat k :: u32) OR 0) :: u8) = 8 * k) [1..<16]"
    by code_simp
  then have tag: "(ucast (push_bit 3 (of_nat k :: u32) OR 0) :: u8) < 0x80"
    "unat (ucast (push_bit 3 (of_nat k :: u32) OR 0) :: u8) = 8 * k"
    using assms by (auto simp: list_all_iff)
  show ?thesis
  proof (cases "v = 0")
    case False
    let ?tag = "ucast (push_bit 3 (of_nat k :: u32) OR 0) :: u8"
    have "PutInt64Field [] (of_nat k) v = ?tag # PutVarint [] v"
      using False PutVarint_append [of "[?tag]" "[]" v] by (simp add: PutInt64Field_def)
    moreover have "read_field (?tag # PutVarint [] v @ rest) = Some ((k, Varint (unat v)), rest)"
      using read_field_tag [OF tag(1), of v rest] tag(2) by simp
    ultimately show ?thesis using False by (subst read_message.simps) simp
  qed (simp add: PutInt64Field_def)
qed

lemma read_message_usage:
  "read_message (usage_message usage) = Some (map (\<lambda>(k, v). (k, Varint (unat v)))
     (filter (\<lambda>(k, v). v \<noteq> 0)
       [(1, utimeSec usage), (2, utimeUsec usage), (3, stimeSec usage), (4, stimeUsec usage),
        (5, maxrssKb usage), (12, inBlock usage), (13, ouBlock usage)]))"
proof -
  let ?f = "PutInt64Field []"
  have "usage_message usage = ?f (of_nat 1) (utimeSec usage) @ ?f (of_nat 2) (utimeUsec usage) @
      ?f (of_nat 3) (stimeSec usage) @ ?f (of_nat 4) (stimeUsec usage) @ ?f (of_nat 5) (maxrssKb usage) @
      ?f (of_nat 12) (inBlock usage) @ ?f (of_nat 13) (ouBlock usage) @ []"
    unfolding usage_message_def Let_def
    by (simp add: PutInt64Field_append [of "PutInt64Field _ _ _"] PutInt64Field_append [of "_ @ _"])
  moreover have "read_message [] = Some []" by (simp add: read_message.simps)
  ultimately show ?thesis
    by (simp only: read_message_PutInt64Field) (simp add: read_message_PutInt64Field)
qed

lemma field_int_written:
  "distinct (map fst l) \<Longrightarrow>
   field_int (map (\<lambda>(k, v). (k, Varint (unat v))) (filter (\<lambda>(k, v). v \<noteq> 0) l)) k =
   (case map_of l k of None \<Rightarrow> 0 | Some v \<Rightarrow> unat (v :: u64))"
proof (induction l)
  case (Cons x l)
  obtain k0 v where x: "x = (k0, v)" by fastforce
  have "map_of l k0 = None" using Cons.prems by (simp add: x map_of_eq_None_iff)
  with Cons show ?case by (cases "k = k0") (simp_all add: x field_int_def)
qed (simp add: field_int_def)

lemma usage_message_short: "length (usage_message usage) \<le> 77"
proof -
  have one: "length (PutInt64Field out k v) \<le> length out + 11" for out k v
    using length_PutVarint [of "out @ [ucast (push_bit 3 k OR 0)]" v] by (simp add: PutInt64Field_def)
  show ?thesis
    unfolding usage_message_def Let_def
    by (rule le_trans [OF one], rule le_trans [OF add_le_mono1 [OF one]],
        rule le_trans [OF add_le_mono1 [OF add_le_mono1 [OF one]]],
        rule le_trans [OF add_le_mono1 [OF add_le_mono1 [OF add_le_mono1 [OF one]]]],
        rule le_trans [OF add_le_mono1 [OF add_le_mono1 [OF add_le_mono1 [OF add_le_mono1 [OF one]]]]],
        rule le_trans [OF add_le_mono1 [OF add_le_mono1 [OF add_le_mono1 [OF add_le_mono1 [OF add_le_mono1 [OF one]]]]]],
        rule le_trans [OF add_le_mono1 [OF add_le_mono1 [OF add_le_mono1 [OF add_le_mono1 [OF add_le_mono1 [OF add_le_mono1 [OF one]]]]]]])
      simp
qed


section \<open>Properties\<close>

text \<open>
  C26: the statistics file says what the job object said. Where the file is written, it is a well-formed
  message with the usage in field 1, present even when everything is zero, and a reader finds there
  each of the seven numbers, the times split into seconds and microseconds.
\<close>
theorem stats_roundtrip:
  assumes "opens statsPath" "statsPath \<noteq> []"
  shows "\<exists>msg ru fs. WriteStats opens statsPath (Some job) = Some msg \<and>
    read_message msg = Some [(1, Delimited ru)] \<and> read_message ru = Some fs \<and>
    field_int fs 1 = (case job_acct job of None \<Rightarrow> 0 | Some a \<Rightarrow> unat (TotalUserTime a) div 10000000) \<and>
    field_int fs 2 = (case job_acct job of None \<Rightarrow> 0 | Some a \<Rightarrow> unat (TotalUserTime a) mod 10000000 div 10) \<and>
    field_int fs 3 = (case job_acct job of None \<Rightarrow> 0 | Some a \<Rightarrow> unat (TotalKernelTime a) div 10000000) \<and>
    field_int fs 4 = (case job_acct job of None \<Rightarrow> 0 | Some a \<Rightarrow> unat (TotalKernelTime a) mod 10000000 div 10) \<and>
    field_int fs 5 = (case job_peakMemory job of None \<Rightarrow> 0 | Some peak \<Rightarrow> unat peak div 1024) \<and>
    field_int fs 12 = (case job_acct job of None \<Rightarrow> 0 | Some a \<Rightarrow> unat (ReadOperationCount a)) \<and>
    field_int fs 13 = (case job_acct job of None \<Rightarrow> 0 | Some a \<Rightarrow> unat (WriteOperationCount a))"
proof -
  let ?usage = "read_usage job" and ?ru = "usage_message (read_usage job)"
  let ?msg = "ucast (push_bit 3 (1 :: u32) OR 2) # PutVarint [] (of_nat (length ?ru)) @ ?ru"
  let ?fs = "map (\<lambda>(k, v). (k, Varint (unat v))) (filter (\<lambda>(k, v). v \<noteq> 0)
       [(1, utimeSec ?usage), (2, utimeUsec ?usage), (3, stimeSec ?usage), (4, stimeUsec ?usage),
        (5, maxrssKb ?usage), (12, inBlock ?usage), (13, ouBlock ?usage)])"
  have tag: "(ucast (push_bit 3 (1 :: u32) OR 2) :: u8) = 10" by code_simp
  have msg: "WriteStats opens statsPath (Some job) = Some ?msg"
    using assms PutVarint_append [of "[10]" "[]" "of_nat (length ?ru)"] by (simp add: WriteStats_def Let_def tag)
  have "unat (of_nat (length ?ru) :: u64) = length ?ru"
    using usage_message_short [of ?usage] by (simp only: unat_of_nat) simp
  then have "read_field ?msg = Some ((1, Delimited ?ru), [])"
    unfolding tag using read_field_tag [of 10 "of_nat (length ?ru)" ?ru] by simp
  then have message: "read_message ?msg = Some [(1, Delimited ?ru)]"
    by (subst read_message.simps) (simp add: read_message.simps)
  have field: "field_int ?fs k = (case map_of
       [(1, utimeSec ?usage), (2, utimeUsec ?usage), (3, stimeSec ?usage), (4, stimeUsec ?usage),
        (5, maxrssKb ?usage), (12, inBlock ?usage), (13, ouBlock ?usage)] k of None \<Rightarrow> 0 | Some v \<Rightarrow> unat v)" for k
    by (rule field_int_written) simp
  have usage: "unat (utimeSec ?usage) = (case job_acct job of None \<Rightarrow> 0 | Some a \<Rightarrow> unat (TotalUserTime a) div 10000000)"
    "unat (utimeUsec ?usage) = (case job_acct job of None \<Rightarrow> 0 | Some a \<Rightarrow> unat (TotalUserTime a) mod 10000000 div 10)"
    "unat (stimeSec ?usage) = (case job_acct job of None \<Rightarrow> 0 | Some a \<Rightarrow> unat (TotalKernelTime a) div 10000000)"
    "unat (stimeUsec ?usage) = (case job_acct job of None \<Rightarrow> 0 | Some a \<Rightarrow> unat (TotalKernelTime a) mod 10000000 div 10)"
    "unat (maxrssKb ?usage) = (case job_peakMemory job of None \<Rightarrow> 0 | Some peak \<Rightarrow> unat peak div 1024)"
    "unat (inBlock ?usage) = (case job_acct job of None \<Rightarrow> 0 | Some a \<Rightarrow> unat (ReadOperationCount a))"
    "unat (ouBlock ?usage) = (case job_acct job of None \<Rightarrow> 0 | Some a \<Rightarrow> unat (WriteOperationCount a))"
    by (auto simp: read_usage_def Let_def unat_div unat_mod split: option.split)
  show ?thesis
    by (rule exI [of _ ?msg], rule exI [of _ ?ru], rule exI [of _ ?fs])
      (simp only: msg message read_message_usage field usage [symmetric], simp)
qed

theorem stats_roundtrip_witness:
  "\<exists>msg ru fs. WriteStats (\<lambda>p. True) (wide ''s'')
      (Some \<lparr>job_acct = Some \<lparr>TotalUserTime = 25000000, TotalKernelTime = 0, ReadOperationCount = 300, WriteOperationCount = 0\<rparr>,
             job_peakMemory = None\<rparr>) = Some msg \<and>
    read_message msg = Some [(1, Delimited ru)] \<and> read_message ru = Some fs \<and>
    field_int fs 1 = 2 \<and> field_int fs 2 = 500000 \<and> field_int fs 12 = 300 \<and> field_int fs 13 = 0"
proof -
  have "wide ''s'' \<noteq> []" by simp
  from stats_roundtrip [of "\<lambda>p. True" "wide ''s''" "\<lparr>job_acct = Some \<lparr>TotalUserTime = 25000000, TotalKernelTime = 0, ReadOperationCount = 300, WriteOperationCount = 0\<rparr>,
             job_peakMemory = None\<rparr>", OF TrueI this]
  obtain msg ru fs where
    "WriteStats (\<lambda>p. True) (wide ''s'')
      (Some \<lparr>job_acct = Some \<lparr>TotalUserTime = 25000000, TotalKernelTime = 0, ReadOperationCount = 300, WriteOperationCount = 0\<rparr>,
             job_peakMemory = None\<rparr>) = Some msg"
    "read_message msg = Some [(1, Delimited ru)]" "read_message ru = Some fs"
    "field_int fs 1 = unat (25000000 :: u64) div 10000000"
    "field_int fs 2 = unat (25000000 :: u64) mod 10000000 div 10"
    "field_int fs 12 = unat (300 :: u64)" "field_int fs 13 = unat (0 :: u64)"
    by (simp only: job_object.simps job_accounting.simps option.case) blast
  then show ?thesis by (intro exI [of _ msg] exI [of _ ru] exI [of _ fs]) simp
qed

end
