(* ===== verification/Launch_Options.thy ===== *)
theory Launch_Options
  imports Win32_Paths
begin

text \<open>
  The options of the launcher (\<open>src/main.cpp\<close>: \<open>Options\<close>, \<open>ToAbsolute\<close>, \<open>ExpandArguments\<close>,
  \<open>ParseUint\<close>, \<open>ParseOptions\<close>). Leaving the program is a value: the left side of a sum.
\<close>

section \<open>Options\<close>

definition kInfiniteTime :: u32 where "kInfiniteTime = 0"

record Options =
  o_workingDir :: wstr
  o_timeoutSecs :: u32
  o_killDelaySecs :: u32
  o_stdoutPath :: wstr
  o_stderrPath :: wstr
  o_readonlyFiles :: "wstr list"
  o_writableFiles :: "wstr list"
  o_blockedFiles :: "wstr list"
  o_debugPath :: wstr
  o_tracePath :: wstr
  o_statsPath :: wstr
  o_networkPolicy :: int
  o_hermetic :: bool
  o_filterInputs :: bool
  o_writeOverlay :: bool
  o_overlayDir :: wstr
  o_args :: "wstr list"

definition default_options :: Options where
  "default_options =
     \<lparr>o_workingDir = [], o_timeoutSecs = kInfiniteTime, o_killDelaySecs = kInfiniteTime,
      o_stdoutPath = [], o_stderrPath = [], o_readonlyFiles = [], o_writableFiles = [],
      o_blockedFiles = [], o_debugPath = [], o_tracePath = [], o_statsPath = [], o_networkPolicy = 0,
      o_hermetic = False, o_filterInputs = False, o_writeOverlay = False, o_overlayDir = [],
      o_args = []\<rparr>"

text \<open>\<open>exit(1)\<close> with a message, or the usage text and its exit code.\<close>

datatype launcher_exit = Die wstr | PrintUsage nat

text \<open>
  The services of parsing: \<open>GetFullPathNameW\<close>, the characters of a file opened as a stream,
  \<open>GetCurrentDirectoryW\<close>, \<open>GetEnvironmentVariableW\<close> and \<open>GetCurrentProcessId\<close>.
\<close>

record options_api =
  oa_fullPathName :: buffer_api
  oa_open :: "wstr \<Rightarrow> wstr option"
  oa_currentDirectory :: "nat \<Rightarrow> nat \<times> wstr"
  oa_getenv :: buffer_api
  oa_processId :: u32

definition ToAbsolute :: "buffer_api \<Rightarrow> wstr \<Rightarrow> launcher_exit + wstr" where
  "ToAbsolute fullPathName path =
     (let (n, buf) = fullPathName path MAX_PATH
      in if n = 0 then Inl (Die (wide ''cannot resolve path: '' @ path))
         else if n < MAX_PATH then Inr (take n buf)
         else (let (n2, big) = fullPathName path n in Inr (take n2 big)))"


section \<open>Response files\<close>

text \<open>\<open>std::getline\<close> until the end of the stream.\<close>

function getlines :: "wstr \<Rightarrow> wstr list" where
  "getlines s =
     (if s = [] then []
      else takeWhile (\<lambda>c. c \<noteq> 0x0A) s # getlines (drop 1 (dropWhile (\<lambda>c. c \<noteq> 0x0A) s)))"
  by pat_completeness auto
termination
proof (relation "measure length")
  fix s :: wstr
  assume "s \<noteq> []"
  have "length (dropWhile (\<lambda>c. c \<noteq> 0x0A) s) \<le> length s" by (rule length_dropWhile_le)
  moreover have "0 < length s" using \<open>s \<noteq> []\<close> by simp
  ultimately have "length (dropWhile (\<lambda>c. c \<noteq> 0x0A) s) - 1 < length s" by linarith
  then show "(drop 1 (dropWhile (\<lambda>c. c \<noteq> 0x0A) s), s) \<in> measure length"
    by (simp only: in_measure length_drop)
qed simp

declare getlines.simps [simp del]

definition strip_cr :: "wstr \<Rightarrow> wstr" where
  "strip_cr line = (if line \<noteq> [] \<and> last line = 0x0D then butlast line else line)"

definition dashdash :: wstr where "dashdash = wide ''--''"

abbreviation AT :: wchar where "AT \<equiv> 0x40"

fun ExpandArguments :: "(wstr \<Rightarrow> wstr option) \<Rightarrow> wstr list \<Rightarrow> launcher_exit + wstr list" where
  "ExpandArguments open_file [] = Inr []"
| "ExpandArguments open_file (a # args) =
     (if 1 < length a \<and> hd a = AT
      then (case open_file (tl a) of
              None \<Rightarrow> Inl (Die (wide ''cannot open response file: '' @ tl a))
            | Some content \<Rightarrow>
                map_sum id (\<lambda>out. map strip_cr (getlines content) @ out) (ExpandArguments open_file args))
      else if a = dashdash then Inr (a # args)
      else map_sum id (\<lambda>out. a # out) (ExpandArguments open_file args))"


section \<open>Numbers\<close>

text \<open>\<open>wcstoul(s, nullptr, 10)\<close>: white space, a sign, digits; too large a number is \<open>ULONG_MAX\<close>.\<close>

definition wspace :: "wchar \<Rightarrow> bool" where
  "wspace c \<longleftrightarrow> c = SPACE \<or> 0x09 \<le> c \<and> c \<le> 0x0D"

definition wdigit :: "wchar \<Rightarrow> bool" where
  "wdigit c \<longleftrightarrow> 0x30 \<le> c \<and> c \<le> 0x39"

definition decimal :: "wstr \<Rightarrow> nat" where
  "decimal ds = foldl (\<lambda>v c. v * 10 + unat (c - 0x30)) 0 ds"

definition ParseUint :: "wstr \<Rightarrow> u32" where
  "ParseUint s =
     (let s = dropWhile wspace (cstr s);
          negative = (s \<noteq> [] \<and> hd s = 0x2D);
          s = (if s \<noteq> [] \<and> (hd s = 0x2D \<or> hd s = 0x2B) then tl s else s);
          v = decimal (takeWhile wdigit s)
      in if 2 ^ 32 \<le> v then - 1 else if negative then - of_nat v else of_nat v)"

text \<open>\<open>std::to_wstring\<close> of an unsigned number.\<close>

fun to_wstring :: "nat \<Rightarrow> wstr" where
  "to_wstring n = (if n < 10 then [] else to_wstring (n div 10)) @ [0x30 + of_nat (n mod 10)]"

declare to_wstring.simps [simp del]


section \<open>Parsing\<close>

text \<open>
  \<open>with_value\<close> is \<open>next()\<close> and what is done with the value, \<open>with_path\<close> the same through
  \<open>ToAbsolute\<close>. \<open>parse_option\<close> handles \<open>arg\<close>, with the arguments after it.
\<close>

definition with_value :: "wstr \<Rightarrow> wstr list \<Rightarrow> (wstr \<Rightarrow> launcher_exit + Options) \<Rightarrow>
    launcher_exit + Options \<times> wstr list" where
  "with_value arg rest f =
     (case rest of
        [] \<Rightarrow> Inl (Die (wide ''missing value for '' @ arg))
      | v # rest \<Rightarrow> map_sum id (\<lambda>opts. (opts, rest)) (f v))"

definition with_path :: "options_api \<Rightarrow> wstr \<Rightarrow> wstr list \<Rightarrow> (wstr \<Rightarrow> Options) \<Rightarrow>
    launcher_exit + Options \<times> wstr list" where
  "with_path api arg rest f = with_value arg rest (\<lambda>v. map_sum id f (ToAbsolute (oa_fullPathName api) v))"

definition parse_option :: "options_api \<Rightarrow> Options \<Rightarrow> wstr \<Rightarrow> wstr list \<Rightarrow>
    launcher_exit + Options \<times> wstr list" where
  "parse_option api opts arg rest =
     (if 1 < length arg \<and> (hd arg = SLASH \<or> hd arg = 0x2D)
      then (let name = tl arg
            in if name = wide ''h'' then Inl (PrintUsage 0)
               else if name = wide ''W'' then with_path api arg rest (\<lambda>p. opts\<lparr>o_workingDir := p\<rparr>)
               else if name = wide ''T'' then with_value arg rest (\<lambda>v. Inr (opts\<lparr>o_timeoutSecs := ParseUint v\<rparr>))
               else if name = wide ''t'' then with_value arg rest (\<lambda>v. Inr (opts\<lparr>o_killDelaySecs := ParseUint v\<rparr>))
               else if name = wide ''l'' then with_path api arg rest (\<lambda>p. opts\<lparr>o_stdoutPath := p\<rparr>)
               else if name = wide ''L'' then with_path api arg rest (\<lambda>p. opts\<lparr>o_stderrPath := p\<rparr>)
               else if name = wide ''w'' then with_path api arg rest (\<lambda>p. opts\<lparr>o_writableFiles := o_writableFiles opts @ [p]\<rparr>)
               else if name = wide ''r'' then with_path api arg rest (\<lambda>p. opts\<lparr>o_readonlyFiles := o_readonlyFiles opts @ [p]\<rparr>)
               else if name = wide ''b'' then with_path api arg rest (\<lambda>p. opts\<lparr>o_blockedFiles := o_blockedFiles opts @ [p]\<rparr>)
               else if name = wide ''N''
               then if o_networkPolicy opts = 2 then Inl (Die (wide ''-N and -n are mutually exclusive''))
                    else Inr (opts\<lparr>o_networkPolicy := 1\<rparr>, rest)
               else if name = wide ''n''
               then if o_networkPolicy opts = 1 then Inl (Die (wide ''-N and -n are mutually exclusive''))
                    else Inr (opts\<lparr>o_networkPolicy := 2\<rparr>, rest)
               else if name = wide ''H'' \<or> name = wide ''-hermetic'' then Inr (opts\<lparr>o_hermetic := True\<rparr>, rest)
               else if name = wide ''-filter-inputs''
               then Inr (opts\<lparr>o_filterInputs := True, o_hermetic := True\<rparr>, rest)
               else if name = wide ''-write-overlay'' then Inr (opts\<lparr>o_writeOverlay := True\<rparr>, rest)
               else if name = wide ''-overlay-dir'' then with_path api arg rest (\<lambda>p. opts\<lparr>o_overlayDir := p\<rparr>)
               else if name = wide ''D'' then with_path api arg rest (\<lambda>p. opts\<lparr>o_debugPath := p\<rparr>)
               else if name = wide ''-trace'' then with_path api arg rest (\<lambda>p. opts\<lparr>o_tracePath := p\<rparr>)
               else if name = wide ''S'' then with_path api arg rest (\<lambda>p. opts\<lparr>o_statsPath := p\<rparr>)
               else Inl (Die (wide ''unknown option: '' @ arg)))
      else Inl (Die (wide ''unknown argument: '' @ arg)))"

lemma with_value_shorter: "with_value arg rest f = Inr (opts, rest') \<Longrightarrow> length rest' \<le> length rest"
  by (auto simp: with_value_def map_sum_def split: list.splits sum.splits)

lemma parse_option_shorter:
  "parse_option api opts arg rest = Inr (opts', rest') \<Longrightarrow> length rest' \<le> length rest"
  unfolding parse_option_def with_path_def Let_def
  by (auto dest: with_value_shorter split: if_splits)

function parse_options :: "options_api \<Rightarrow> Options \<Rightarrow> wstr list \<Rightarrow> launcher_exit + Options \<times> wstr list" where
  "parse_options api opts args =
     (case args of
        [] \<Rightarrow> Inr (opts, [])
      | arg # rest \<Rightarrow>
          if arg = dashdash then Inr (opts, args)
          else (case parse_option api opts arg rest of
                  Inl e \<Rightarrow> Inl e
                | Inr (opts, rest) \<Rightarrow> parse_options api opts rest))"
  by pat_completeness auto
termination
  by (relation "measure (\<lambda>(api, opts, args). length args)") (auto dest!: parse_option_shorter simp: le_imp_less_Suc)

declare parse_options.simps [simp del]

definition ParseOptions :: "options_api \<Rightarrow> wstr list \<Rightarrow> launcher_exit + Options" where
  "ParseOptions api args =
     (case ExpandArguments (oa_open api) args of
        Inl e \<Rightarrow> Inl e
      | Inr args \<Rightarrow>
          (case parse_options api default_options args of
             Inl e \<Rightarrow> Inl e
           | Inr (opts, rest) \<Rightarrow>
               if rest = [] then Inl (Die (wide ''command to sandbox not specified (missing --)''))
               else (let opts = opts\<lparr>o_args := tl rest\<rparr>
                     in if o_args opts = [] then Inl (Die (wide ''no command specified after --''))
                        else (let opts =
                                (if o_workingDir opts = []
                                 then opts\<lparr>o_workingDir := cstr (snd (oa_currentDirectory api MAX_PATH))\<rparr>
                                 else opts);
                              (n, envTrace) = oa_getenv api (wide ''BAZEL_SANDBOX_TRACE'') 1024
                              in Inr (if o_tracePath opts = [] \<and> 0 < n \<and> n < 1024
                                      then opts\<lparr>o_tracePath := cstr envTrace @ [DOT] @
                                                  to_wstring (unat (oa_processId api))\<rparr>
                                      else opts)))))"


section \<open>Writing options\<close>

text \<open>The arguments that a caller writes for a set of options.\<close>

definition flag :: "string \<Rightarrow> wstr" where "flag name = 0x2D # wide name"

definition path_arg :: "string \<Rightarrow> wstr \<Rightarrow> wstr list" where
  "path_arg name p = (if p = [] then [] else [flag name, p])"

definition uint_arg :: "string \<Rightarrow> u32 \<Rightarrow> wstr list" where
  "uint_arg name v = (if v = 0 then [] else [flag name, to_wstring (unat v)])"

definition path_args :: "string \<Rightarrow> wstr list \<Rightarrow> wstr list" where
  "path_args name ps = concat (map (\<lambda>p. [flag name, p]) ps)"

definition write_options :: "Options \<Rightarrow> wstr list" where
  "write_options opts =
     path_arg ''W'' (o_workingDir opts) @ uint_arg ''T'' (o_timeoutSecs opts) @
     uint_arg ''t'' (o_killDelaySecs opts) @ path_arg ''l'' (o_stdoutPath opts) @
     path_arg ''L'' (o_stderrPath opts) @ path_args ''w'' (o_writableFiles opts) @
     path_args ''r'' (o_readonlyFiles opts) @ path_args ''b'' (o_blockedFiles opts) @
     (if o_networkPolicy opts = 1 then [flag ''N''] else if o_networkPolicy opts = 2 then [flag ''n''] else []) @
     (if o_filterInputs opts then [flag ''-filter-inputs''] else if o_hermetic opts then [flag ''H''] else []) @
     (if o_writeOverlay opts then [flag ''-write-overlay''] else []) @
     path_arg ''-overlay-dir'' (o_overlayDir opts) @ path_arg ''D'' (o_debugPath opts) @
     path_arg ''-trace'' (o_tracePath opts) @ path_arg ''S'' (o_statsPath opts)"

text \<open>The options that arguments can express: absolute paths, and the invariant of \<open>ParseOptions\<close>.\<close>

definition options_ok :: "(wstr \<Rightarrow> wstr option) \<Rightarrow> Options \<Rightarrow> bool" where
  "options_ok full opts \<longleftrightarrow>
     (\<forall>p \<in> set ([o_stdoutPath opts, o_stderrPath opts, o_debugPath opts, o_tracePath opts, o_statsPath opts,
               o_overlayDir opts]). p = [] \<or> full p = Some p \<and> hd p \<noteq> AT \<and> p \<noteq> dashdash) \<and>
     (\<forall>p \<in> set (o_workingDir opts # o_writableFiles opts @ o_readonlyFiles opts @ o_blockedFiles opts).
        full p = Some p \<and> p \<noteq> [] \<and> hd p \<noteq> AT \<and> p \<noteq> dashdash) \<and>
     o_networkPolicy opts \<in> {0, 1, 2} \<and> (o_filterInputs opts \<longrightarrow> o_hermetic opts) \<and>
     o_args opts \<noteq> []"

lemma ToAbsolute_eq:
  assumes "returns_string api full"
  shows "ToAbsolute api path =
    (case full path of None \<Rightarrow> Inl (Die (wide ''cannot resolve path: '' @ path)) | Some p \<Rightarrow> Inr p)"
proof (cases "full path")
  case None
  with returns_stringD(1) [OF assms None] show ?thesis by (simp add: ToAbsolute_def)
next
  case (Some s)
  note D = returns_stringD(2-4) [OF assms Some]
  show ?thesis
  proof (cases "length s < MAX_PATH")
    case True
    with D Some show ?thesis by (simp add: ToAbsolute_def)
  next
    case False
    with D(1) [of "length s + 1"] D(2) [of MAX_PATH] D(3) Some show ?thesis by (simp add: ToAbsolute_def)
  qed
qed

lemma ExpandArguments_plain:
  "\<forall>a \<in> set args. \<not> (1 < length a \<and> hd a = AT) \<and> a \<noteq> dashdash \<Longrightarrow>
   ExpandArguments open_file (args @ dashdash # rest) = Inr (args @ dashdash # rest)"
  by (induction args) (auto simp: dashdash_def)

text \<open>Decimal numbers.\<close>

lemma to_wstring_digits: "list_all wdigit (to_wstring n) \<and> to_wstring n \<noteq> []"
proof (induction n rule: to_wstring.induct)
  case (1 n)
  have "wdigit (0x30 + of_nat (n mod 10))"
  proof -
    have "list_all (\<lambda>k. wdigit (0x30 + of_nat k)) [0..<10]" by code_simp
    then show ?thesis by (simp add: list_all_iff)
  qed
  with 1 show ?case by (subst (1 2) to_wstring.simps) auto
qed

lemma decimal_to_wstring: "decimal (to_wstring n) = n"
proof (induction n rule: to_wstring.induct)
  case (1 n)
  have snoc: "decimal (ds @ [c]) = decimal ds * 10 + unat (c - 0x30)" for ds c by (simp add: decimal_def)
  have digit: "unat ((0x30 + of_nat (n mod 10) :: wchar) - 0x30) = n mod 10"
  proof -
    have "n mod 10 < 2 ^ 16" by (simp add: less_trans [of _ 10])
    then show ?thesis by (simp add: unat_of_nat)
  qed
  show ?case
  proof (cases "n < 10")
    case True
    then show ?thesis using digit by (subst to_wstring.simps) (simp add: decimal_def)
  next
    case False
    with 1 digit show ?thesis by (subst to_wstring.simps) (simp add: snoc)
  qed
qed

lemma ParseUint_to_wstring: "ParseUint (to_wstring (unat v)) = v"
proof -
  let ?s = "to_wstring (unat v)"
  note d = to_wstring_digits [of "unat v"]
  have "cstr ?s = ?s" using d by (auto simp: cstr_def takeWhile_eq_all_conv list_all_iff wdigit_def)
  moreover have h: "wdigit (hd ?s)" using d by (cases ?s) auto
  then have "\<not> wspace (hd ?s)" "hd ?s \<noteq> 0x2D" "hd ?s \<noteq> 0x2B"
    by (auto simp: wspace_def wdigit_def dest: order.trans [of "0x30" "hd ?s" "0x0D"])
  moreover have "dropWhile wspace ?s = ?s" using calculation(2) d by (cases ?s) auto
  moreover have "takeWhile wdigit ?s = ?s" using d by (simp add: takeWhile_eq_all_conv list_all_iff)
  moreover have "unat v < 2 ^ 32" using unsigned_less [of v, where 'a = nat] by simp
  ultimately show ?thesis
    by (simp add: ParseUint_def Let_def decimal_to_wstring takeWhile_eq_all_conv [THEN iffD2])
qed

text \<open>Parsing one written option.\<close>

definition plain_value :: "wstr \<Rightarrow> bool" where
  "plain_value v \<longleftrightarrow> \<not> (1 < length v \<and> hd v = AT) \<and> v \<noteq> dashdash"

lemma parse_options_step:
  assumes "arg \<noteq> dashdash" "parse_option api opts arg rest = Inr (opts', rest')"
  shows "parse_options api opts (arg # rest) = parse_options api opts' rest'"
  using assms by (subst parse_options.simps) simp

lemma parse_options_dashdash: "parse_options api opts (dashdash # args) = Inr (opts, dashdash # args)"
  by (subst parse_options.simps) simp

lemma with_path_value:
  assumes "returns_string (oa_fullPathName api) full" "full p = Some p"
  shows "with_path api arg (p # rest) f = Inr (f p, rest)"
  using ToAbsolute_eq [OF assms(1), of p] assms(2) by (simp add: with_path_def with_value_def)

lemmas parse_written = parse_option_def flag_def dashdash_def with_path_value with_value_def ParseUint_to_wstring

lemma parse_path_arg:
  assumes "returns_string (oa_fullPathName api) full" "p = [] \<or> full p = Some p"
  shows
    "o_workingDir opts = [] \<Longrightarrow> parse_options api opts (path_arg ''W'' p @ rest) =
       parse_options api (opts\<lparr>o_workingDir := p\<rparr>) rest"
    "o_stdoutPath opts = [] \<Longrightarrow> parse_options api opts (path_arg ''l'' p @ rest) =
       parse_options api (opts\<lparr>o_stdoutPath := p\<rparr>) rest"
    "o_stderrPath opts = [] \<Longrightarrow> parse_options api opts (path_arg ''L'' p @ rest) =
       parse_options api (opts\<lparr>o_stderrPath := p\<rparr>) rest"
    "o_overlayDir opts = [] \<Longrightarrow> parse_options api opts (path_arg ''-overlay-dir'' p @ rest) =
       parse_options api (opts\<lparr>o_overlayDir := p\<rparr>) rest"
    "o_debugPath opts = [] \<Longrightarrow> parse_options api opts (path_arg ''D'' p @ rest) =
       parse_options api (opts\<lparr>o_debugPath := p\<rparr>) rest"
    "o_tracePath opts = [] \<Longrightarrow> parse_options api opts (path_arg ''-trace'' p @ rest) =
       parse_options api (opts\<lparr>o_tracePath := p\<rparr>) rest"
    "o_statsPath opts = [] \<Longrightarrow> parse_options api opts (path_arg ''S'' p @ rest) =
       parse_options api (opts\<lparr>o_statsPath := p\<rparr>) rest"
  using assms by (cases opts; auto simp: path_arg_def parse_written intro!: parse_options_step)+

lemma parse_uint_arg:
  "o_timeoutSecs opts = 0 \<Longrightarrow> parse_options api opts (uint_arg ''T'' v @ rest) =
     parse_options api (opts\<lparr>o_timeoutSecs := v\<rparr>) rest"
  "o_killDelaySecs opts = 0 \<Longrightarrow> parse_options api opts (uint_arg ''t'' v @ rest) =
     parse_options api (opts\<lparr>o_killDelaySecs := v\<rparr>) rest"
  by (cases opts; auto simp: uint_arg_def parse_written intro!: parse_options_step)+

lemma parse_path_args:
  assumes "returns_string (oa_fullPathName api) full" "\<forall>p \<in> set ps. full p = Some p"
  shows "parse_options api opts (path_args ''w'' ps @ rest) =
      parse_options api (opts\<lparr>o_writableFiles := o_writableFiles opts @ ps\<rparr>) rest \<and>
    parse_options api opts (path_args ''r'' ps @ rest) =
      parse_options api (opts\<lparr>o_readonlyFiles := o_readonlyFiles opts @ ps\<rparr>) rest \<and>
    parse_options api opts (path_args ''b'' ps @ rest) =
      parse_options api (opts\<lparr>o_blockedFiles := o_blockedFiles opts @ ps\<rparr>) rest"
  using assms(2)
proof (induction ps arbitrary: opts)
  case (Cons p ps)
  have p: "full p = Some p" using Cons.prems by simp
  have one: "parse_options api opts (flag ''w'' # p # rest') =
      parse_options api (opts\<lparr>o_writableFiles := o_writableFiles opts @ [p]\<rparr>) rest'"
    "parse_options api opts (flag ''r'' # p # rest') =
      parse_options api (opts\<lparr>o_readonlyFiles := o_readonlyFiles opts @ [p]\<rparr>) rest'"
    "parse_options api opts (flag ''b'' # p # rest') =
      parse_options api (opts\<lparr>o_blockedFiles := o_blockedFiles opts @ [p]\<rparr>) rest'" for opts rest'
    using assms(1) p by (auto simp: parse_written intro!: parse_options_step)
  show ?case using Cons.IH Cons.prems one by (simp add: path_args_def)
qed (simp add: path_args_def)

lemma parse_switches:
  "o_networkPolicy opts = 0 \<Longrightarrow> n \<in> {0, 1, 2} \<Longrightarrow> parse_options api opts
     ((if n = 1 then [flag ''N''] else if n = 2 then [flag ''n''] else []) @ rest) =
     parse_options api (opts\<lparr>o_networkPolicy := n\<rparr>) rest"
  "\<not> o_filterInputs opts \<Longrightarrow> \<not> o_hermetic opts \<Longrightarrow> (f \<longrightarrow> h) \<Longrightarrow> parse_options api opts
     ((if f then [flag ''-filter-inputs''] else if h then [flag ''H''] else []) @ rest) =
     parse_options api (opts\<lparr>o_filterInputs := f, o_hermetic := h\<rparr>) rest"
  "\<not> o_writeOverlay opts \<Longrightarrow> parse_options api opts ((if w then [flag ''-write-overlay''] else []) @ rest) =
     parse_options api (opts\<lparr>o_writeOverlay := w\<rparr>) rest"
  by (cases opts; auto simp: parse_written intro!: parse_options_step)+

lemma plain_flags:
  "list_all (\<lambda>name. plain_value (flag name))
     [''W'', ''T'', ''t'', ''l'', ''L'', ''w'', ''r'', ''b'', ''N'', ''n'', ''-filter-inputs'', ''H'', ''-write-overlay'',
      ''-overlay-dir'', ''D'', ''-trace'', ''S'']"
  by code_simp

lemma plain_written:
  "plain_value (flag name) \<Longrightarrow> p = [] \<or> plain_value p \<Longrightarrow> list_all plain_value (path_arg name p)"
  "plain_value (flag name) \<Longrightarrow> list_all plain_value (uint_arg name v)"
  "plain_value (flag name) \<Longrightarrow> \<forall>p \<in> set ps. plain_value p \<Longrightarrow> list_all plain_value (path_args name ps)"
proof -
  show "plain_value (flag name) \<Longrightarrow> p = [] \<or> plain_value p \<Longrightarrow> list_all plain_value (path_arg name p)"
    by (auto simp: path_arg_def)
  have "plain_value (to_wstring n)" for n
    using to_wstring_digits [of n]
    by (cases "to_wstring n") (auto simp: plain_value_def dashdash_def wdigit_def)
  then show "plain_value (flag name) \<Longrightarrow> list_all plain_value (uint_arg name v)" by (simp add: uint_arg_def)
  show "plain_value (flag name) \<Longrightarrow> \<forall>p \<in> set ps. plain_value p \<Longrightarrow> list_all plain_value (path_args name ps)"
    by (auto simp: path_args_def list_all_iff)
qed

lemma plain_write_options:
  assumes "options_ok full opts"
  shows "list_all plain_value (write_options opts)"
proof -
  have p: "o_workingDir opts = [] \<or> plain_value (o_workingDir opts)"
    "o_stdoutPath opts = [] \<or> plain_value (o_stdoutPath opts)"
    "o_stderrPath opts = [] \<or> plain_value (o_stderrPath opts)"
    "o_debugPath opts = [] \<or> plain_value (o_debugPath opts)"
    "o_tracePath opts = [] \<or> plain_value (o_tracePath opts)"
    "o_statsPath opts = [] \<or> plain_value (o_statsPath opts)"
    "o_overlayDir opts = [] \<or> plain_value (o_overlayDir opts)"
    using assms by (auto simp: options_ok_def plain_value_def)
  have ps: "\<forall>p \<in> set (o_writableFiles opts). plain_value p" "\<forall>p \<in> set (o_readonlyFiles opts). plain_value p"
    "\<forall>p \<in> set (o_blockedFiles opts). plain_value p"
    using assms by (auto simp: options_ok_def plain_value_def)
  note f = plain_flags [unfolded list.pred_inject]
  show ?thesis
    unfolding write_options_def list_all_append
    by (intro conjI plain_written p ps) (use f in simp_all)
qed


section \<open>Properties\<close>

text \<open>
  C25: every set of options can be written as arguments, and parsing those gives it back, with the
  command after \<open>--\<close> untouched: no argument of the command is taken for an option or expanded as a
  response file.
\<close>
theorem options_roundtrip:
  assumes "returns_string (oa_fullPathName api) full" "options_ok full opts"
    and "o_tracePath opts \<noteq> [] \<or> fst (oa_getenv api (wide ''BAZEL_SANDBOX_TRACE'') 1024) = 0"
  shows "ParseOptions api (write_options opts @ dashdash # o_args opts) = Inr opts"
proof -
  have expand: "ExpandArguments (oa_open api) (write_options opts @ dashdash # o_args opts) =
      Inr (write_options opts @ dashdash # o_args opts)"
    by (rule ExpandArguments_plain)
      (use plain_write_options [OF assms(2)] in \<open>simp add: list_all_iff plain_value_def\<close>)
  note ok = assms(2) [unfolded options_ok_def]
  have parse: "parse_options api default_options (write_options opts @ dashdash # o_args opts) =
      Inr (opts\<lparr>o_args := []\<rparr>, dashdash # o_args opts)"
  proof -
    have lists: "\<forall>p \<in> set (o_writableFiles opts). full p = Some p"
      "\<forall>p \<in> set (o_readonlyFiles opts). full p = Some p" "\<forall>p \<in> set (o_blockedFiles opts). full p = Some p"
      using ok by auto
    note many = parse_path_args [OF assms(1) lists(1), THEN conjunct1]
      parse_path_args [OF assms(1) lists(2), THEN conjunct2, THEN conjunct1]
      parse_path_args [OF assms(1) lists(3), THEN conjunct2, THEN conjunct2]
    have paths: "o_workingDir opts = [] \<or> full (o_workingDir opts) = Some (o_workingDir opts)"
      "o_stdoutPath opts = [] \<or> full (o_stdoutPath opts) = Some (o_stdoutPath opts)"
      "o_stderrPath opts = [] \<or> full (o_stderrPath opts) = Some (o_stderrPath opts)"
      "o_overlayDir opts = [] \<or> full (o_overlayDir opts) = Some (o_overlayDir opts)"
      "o_debugPath opts = [] \<or> full (o_debugPath opts) = Some (o_debugPath opts)"
      "o_tracePath opts = [] \<or> full (o_tracePath opts) = Some (o_tracePath opts)"
      "o_statsPath opts = [] \<or> full (o_statsPath opts) = Some (o_statsPath opts)"
      using ok by auto
    have switches: "o_networkPolicy opts \<in> {0, 1, 2}" "o_filterInputs opts \<longrightarrow> o_hermetic opts"
      using ok by simp_all
    note one = parse_path_arg [OF assms(1)]
    note written = one(1) [OF paths(1)] one(2) [OF paths(2)] one(3) [OF paths(3)] one(4) [OF paths(4)]
      one(5) [OF paths(5)] one(6) [OF paths(6)] one(7) [OF paths(7)] parse_uint_arg many
      parse_switches(1) [OF _ switches(1)] parse_switches(2) [OF _ _ switches(2)] parse_switches(3)
    show ?thesis
      unfolding write_options_def append_assoc default_options_def kInfiniteTime_def
      by (simp add: written parse_options_dashdash split del: if_split)
  qed
  obtain n env where g: "oa_getenv api (wide ''BAZEL_SANDBOX_TRACE'') 1024 = (n, env)" by fastforce
  have "o_tracePath opts \<noteq> [] \<or> n = 0" using assms(3) unfolding g by simp
  moreover have "o_workingDir opts \<noteq> []" "o_args opts \<noteq> []" using ok by simp_all
  ultimately show ?thesis unfolding ParseOptions_def expand sum.case parse prod.case Let_def g by auto
qed

definition example_options :: Options where
  "example_options = default_options
     \<lparr>o_workingDir := wide ''C:'' @ BACKSLASH # wide ''ws'', o_timeoutSecs := 60, o_writableFiles := [wide ''C:'' @ BACKSLASH # wide ''ws'' @ BACKSLASH # wide ''out''],
      o_networkPolicy := 1, o_hermetic := True, o_filterInputs := True, o_args := [wide ''tool'', wide ''@f'', wide ''-W'']\<rparr>"

definition example_options_api :: options_api where
  "example_options_api = \<lparr>oa_fullPathName = string_api identity_full, oa_open = (\<lambda>p. None),
     oa_currentDirectory = (\<lambda>n. (0, [])), oa_getenv = (\<lambda>name n. (0, [])), oa_processId = 7\<rparr>"

theorem options_roundtrip_witness:
  "ParseOptions example_options_api (write_options example_options @ dashdash # o_args example_options) =
     Inr example_options"
proof -
  have "returns_string (oa_fullPathName example_options_api) identity_full"
    using returns_identity_full by (simp add: example_options_api_def)
  moreover have "options_ok identity_full example_options" by code_simp
  moreover have "fst (oa_getenv example_options_api (wide ''BAZEL_SANDBOX_TRACE'') 1024) = 0"
    by (simp add: example_options_api_def)
  ultimately show ?thesis using options_roundtrip by blast
qed

end
