(* ===== verification/Launch_Scopes.thy ===== *)
theory Launch_Scopes
  imports Manifest_Tree Launch_Options
begin

text \<open>
  The scopes of an action (\<open>src/main.cpp\<close>, the middle of \<open>wmain\<close>): which directories get which
  policy for a set of options, the parent directories of the outputs, and what the policy of a path
  comes to. The tree that the scopes are added to is that of \<open>Manifest_Tree\<close>.
\<close>

section \<open>Flags\<close>

definition Flag_None :: u32 where "Flag_None = 0x0"
definition Flag_ReportFileAccesses :: u32 where "Flag_ReportFileAccesses = 0x8"
definition Flag_ReportUnexpectedFileAccesses :: u32 where "Flag_ReportUnexpectedFileAccesses = 0x10"
definition ExtraFlag_None :: u32 where "ExtraFlag_None = 0x0"
definition ExtraFlag_DeniedReadsAsNotFound :: u32 where "ExtraFlag_DeniedReadsAsNotFound = 0x400"
definition ExtraFlag_FilterDirectoryEnumeration :: u32 where "ExtraFlag_FilterDirectoryEnumeration = 0x800"
definition ExtraFlag_WriteOverlay :: u32 where "ExtraFlag_WriteOverlay = 0x1000"

definition manifest_flags :: "Options \<Rightarrow> u32" where
  "manifest_flags opts =
     (if o_tracePath opts \<noteq> [] then Flag_None OR (Flag_ReportFileAccesses OR Flag_ReportUnexpectedFileAccesses)
      else Flag_None)"

definition manifest_extraFlags :: "Options \<Rightarrow> u32" where
  "manifest_extraFlags opts =
     (let extraFlags = ExtraFlag_None;
          extraFlags = (if o_filterInputs opts
                        then extraFlags OR (ExtraFlag_DeniedReadsAsNotFound OR ExtraFlag_FilterDirectoryEnumeration)
                        else extraFlags)
      in if o_writeOverlay opts then extraFlags OR ExtraFlag_WriteOverlay else extraFlags)"


section \<open>Parent directories of outputs\<close>

definition IsStrictlyUnder :: "wstr \<Rightarrow> wstr \<Rightarrow> bool" where
  "IsStrictlyUnder path root =
     (if root = [] then False
      else (let rlen = (if last root = BACKSLASH \<or> last root = SLASH then length root - 1 else length root)
            in if length path \<le> rlen then False
               else if \<not> wcsnicmp_eq path root rlen then False
               else path ! rlen = BACKSLASH \<or> path ! rlen = SLASH))"

definition ParentDir :: "wstr \<Rightarrow> wstr" where
  "ParentDir path =
     (case find_last_of path {BACKSLASH, SLASH} of None \<Rightarrow> [] | Some pos \<Rightarrow> take pos path)"

lemma ParentDir_shorter: "path \<noteq> [] \<Longrightarrow> length (ParentDir path) < length path"
  by (auto simp: ParentDir_def dest: find_last_of_less split: option.split)

lemma IsStrictlyUnder_nonempty: "IsStrictlyUnder path root \<Longrightarrow> path \<noteq> []"
  by (auto simp: IsStrictlyUnder_def Let_def split: if_splits)

text \<open>The loop over the ancestors, from \<open>dir\<close> up.\<close>

function parents_below :: "wstr \<Rightarrow> wstr \<Rightarrow> wstr list" where
  "parents_below workingDir dir =
     (if IsStrictlyUnder dir workingDir then dir # parents_below workingDir (ParentDir dir) else [])"
  by pat_completeness auto
termination
  by (relation "measure (length \<circ> snd)") (auto intro: ParentDir_shorter dest: IsStrictlyUnder_nonempty)

declare parents_below.simps [simp del]

definition add_output_dir :: "wstr \<Rightarrow> wstr list \<Rightarrow> wstr list" where
  "add_output_dir dir outputDirs = (if dir \<in> set outputDirs then outputDirs else outputDirs @ [dir])"

text \<open>\<open>std::sort\<close> by length; it leaves the order of directories of one length open, here they keep it.\<close>

definition output_dirs :: "Options \<Rightarrow> wstr list" where
  "output_dirs opts =
     sort_key length
       (fold (\<lambda>p outputDirs. fold add_output_dir (parents_below (o_workingDir opts) (ParentDir p)) outputDirs)
          (o_writableFiles opts) [])"


section \<open>Scopes\<close>

definition workingDirPolicy :: "Options \<Rightarrow> u32" where
  "workingDirPolicy opts =
     (let policy = (if o_hermetic opts then Policy_Deny else Policy_AllowRead OR Policy_AllowReadIfNonExistent)
      in if o_writeOverlay opts
         then policy OR (Policy_AllowWrite OR Policy_AllowCreateDirectory OR
                         Policy_OverrideAllowWriteForExistingFiles)
         else policy)"

definition input_policy :: u32 where
  "input_policy = Policy_AllowRead OR Policy_AllowReadIfNonExistent OR Policy_DeclaredInput"

definition output_policy :: u32 where
  "output_policy = Policy_AllowAll OR Policy_DeclaredInput"

definition output_dir_policy :: u32 where
  "output_dir_policy = Policy_AllowRead OR Policy_AllowReadIfNonExistent OR Policy_AllowWrite OR
     Policy_AllowCreateDirectory OR Policy_DeclaredInput"

text \<open>The scopes in the order of the code, each with the message that goes with a failure.\<close>

definition root_scope :: scope_call where
  "root_scope = RootScope Policy_MaskAll (Policy_AllowRead OR Policy_AllowReadIfNonExistent)"

definition path_scopes :: "Options \<Rightarrow> wstr \<Rightarrow> (string \<times> scope_call) list" where
  "path_scopes opts toolPath =
     [(''bad working dir: '', ConeScope (o_workingDir opts) Policy_MaskAll (workingDirPolicy opts)),
      (''bad tool path: '', ConeScope toolPath Policy_MaskAll input_policy)] @
     map (\<lambda>p. (''bad -r: '', ConeScope p Policy_MaskAll input_policy)) (o_readonlyFiles opts) @
     map (\<lambda>p. (''bad -w: '', ConeScope p Policy_MaskAll output_policy)) (o_writableFiles opts) @
     map (\<lambda>p. (''bad -b: '', ConeScope p Policy_MaskAll Policy_Deny)) (o_blockedFiles opts)"

definition output_dir_scopes :: "Options \<Rightarrow> (string \<times> scope_call) list" where
  "output_dir_scopes opts =
     map (\<lambda>p. (''bad output dir: '', NodeScope p Policy_MaskAll output_dir_policy)) (output_dirs opts)"

definition overlay_scopes :: "wstr option \<Rightarrow> (string \<times> scope_call) list" where
  "overlay_scopes writeOverlayRoot =
     (case writeOverlayRoot of
        None \<Rightarrow> []
      | Some root \<Rightarrow> [(''bad write-overlay root: '', ConeScope root Policy_MaskAll Policy_AllowAll)])"

definition launcher_calls :: "Options \<Rightarrow> wstr \<Rightarrow> wstr option \<Rightarrow> scope_call list" where
  "launcher_calls opts toolPath writeOverlayRoot =
     root_scope # map snd (path_scopes opts toolPath @ output_dir_scopes opts @ overlay_scopes writeOverlayRoot)"

text \<open>Adding them one by one, or leaving.\<close>

fun add_or_die :: "buffer_api \<Rightarrow> (string \<times> scope_call) list \<Rightarrow> ManifestBuilder \<Rightarrow>
    launcher_exit + ManifestBuilder" where
  "add_or_die fullPathName [] mb = Inr mb"
| "add_or_die fullPathName ((msg, call) # calls) mb =
     (let (ok, mb) = (case call of
                        RootScope msk vals \<Rightarrow> (True, AddRootScope msk vals mb)
                      | ConeScope p msk vals \<Rightarrow> AddScope fullPathName p msk vals mb
                      | NodeScope p msk vals \<Rightarrow> AddNodeScope fullPathName p msk vals mb)
      in if \<not> ok then Inl (Die (wide msg @ call_path call)) else add_or_die fullPathName calls mb)"


section \<open>Lemmas\<close>

lemma add_or_die_Inr:
  "add_or_die fullPathName calls mb = Inr mb' \<Longrightarrow>
   mb' = add_scopes fullPathName (map snd calls) mb \<and>
   (\<forall>call \<in> set (map snd calls). call_keys fullPathName call \<noteq> None)"
proof (induction calls arbitrary: mb)
  case (Cons x calls)
  then show ?case
    by (cases x; cases "snd x")
      (auto simp: add_scopes_def AddScope_def AddNodeScope_def split: option.splits)
qed (simp add: add_scopes_def)

text \<open>The scopes of the launcher all mask everything; what they leave at a node.\<close>

definition cones_at :: "buffer_api \<Rightarrow> scope_call list \<Rightarrow> wstr list \<Rightarrow> scope_call list" where
  "cones_at fullPathName calls ks =
     filter (\<lambda>c. call_keys fullPathName c = Some ks \<and> (case c of NodeScope p m v \<Rightarrow> False | _ \<Rightarrow> True)) calls"

definition nodes_at :: "buffer_api \<Rightarrow> scope_call list \<Rightarrow> wstr list \<Rightarrow> scope_call list" where
  "nodes_at fullPathName calls ks =
     filter (\<lambda>c. call_keys fullPathName c = Some ks \<and> (case c of NodeScope p m v \<Rightarrow> True | _ \<Rightarrow> False)) calls"

definition all_values :: "scope_call list \<Rightarrow> u32" where
  "all_values calls = foldr (\<lambda>c v. call_values c OR v) calls 0"

fun masks_all :: "scope_call \<Rightarrow> bool" where
  "masks_all (RootScope m v) \<longleftrightarrow> m = 0"
| "masks_all (ConeScope p m v) \<longleftrightarrow> m = 0"
| "masks_all (NodeScope p m v) \<longleftrightarrow> m = 0"

lemma fold_call_at:
  assumes "\<forall>c \<in> set calls. masks_all c"
  shows "fold (call_at fullPathName ks) calls a =
    \<lparr>coneMask = (if cones_at fullPathName calls ks = [] then coneMask a else 0),
     coneValues = coneValues a OR all_values (cones_at fullPathName calls ks),
     nodeMask = (if nodes_at fullPathName calls ks = [] then nodeMask a else 0),
     nodeValues = nodeValues a OR all_values (nodes_at fullPathName calls ks)\<rparr>"
  using assms
proof (induction calls arbitrary: a)
  case Nil
  then show ?case by (simp add: cones_at_def nodes_at_def all_values_def)
next
  case (Cons c calls)
  then show ?case
    by (cases c)
      (auto simp: call_at_def apply_cone_def apply_node_def cones_at_def nodes_at_def all_values_def or.assoc or.commute or.left_commute)
qed

lemma scope_acc_at_masked:
  assumes "\<forall>c \<in> set calls. masks_all c"
  shows "scope_acc_at fullPathName calls ks =
    \<lparr>coneMask = (if cones_at fullPathName calls ks = [] then Policy_MaskNothing else 0),
     coneValues = all_values (cones_at fullPathName calls ks),
     nodeMask = (if nodes_at fullPathName calls ks = [] then Policy_MaskNothing else 0),
     nodeValues = all_values (nodes_at fullPathName calls ks)\<rparr>"
  using fold_call_at [OF assms, of fullPathName ks default_acc]
  by (simp add: scope_acc_at_def default_acc_def Policy_Deny_def)

lemma cone_along_append:
  "cone_along A p (ks @ ls) = (case ls of [] \<Rightarrow> cone_along A p ks
     | l # ls' \<Rightarrow> cone_along (\<lambda>m. A (ks @ l # m)) (cone_along A p ks) ls')"
  by (induction ks arbitrary: A p) (auto split: list.split)

lemma cone_along_unscoped:
  assumes "narrow p" "\<And>n. n \<le> length ks \<Longrightarrow> coneMask (A (take n ks)) = Policy_MaskNothing \<and> coneValues (A (take n ks)) = 0"
  shows "cone_along A p ks = p"
  using assms
proof (induction ks arbitrary: A)
  case Nil
  then show ?case using Nil.prems(2) [of 0] by (simp add: narrow_def)
next
  case (Cons k ks)
  have "coneMask (A (k # take n ks)) = Policy_MaskNothing \<and> coneValues (A (k # take n ks)) = 0"
    if "n \<le> length ks" for n
    using Cons.prems(2) [of "Suc n"] that by simp
  with Cons.IH [OF Cons.prems(1), of "\<lambda>l. A (k # l)"] Cons.prems(2) [of 0] Cons.prems(1)
  show ?case by (simp add: narrow_def)
qed

lemma cone_along_ends: "\<exists>q. cone_along A p ks = (q AND coneMask (A ks)) OR coneValues (A ks)"
  by (induction ks arbitrary: A p) auto

lemma all_values_narrow: "\<forall>c \<in> set calls. narrow (call_values c) \<Longrightarrow> narrow (all_values calls)"
  by (induction calls) (auto simp: all_values_def narrow_or)

text \<open>The deepest scope on the way decides, unless there is a scope on the node itself.\<close>

lemma policy_masked:
  assumes "\<forall>c \<in> set calls. masks_all c" "\<forall>c \<in> set calls. narrow (call_values c)"
    and "n \<le> length ks" "cones_at fullPathName calls (take n ks) \<noteq> []"
    and "\<And>m. n < m \<Longrightarrow> m \<le> length ks \<Longrightarrow> cones_at fullPathName calls (take m ks) = []"
  shows "policy_along (scope_acc_at fullPathName calls) p ks =
    (if nodes_at fullPathName calls ks = [] then all_values (cones_at fullPathName calls (take n ks))
     else all_values (nodes_at fullPathName calls ks))"
proof -
  let ?A = "scope_acc_at fullPathName calls" and ?v = "all_values (cones_at fullPathName calls (take n ks))"
  note A = scope_acc_at_masked [OF assms(1), of fullPathName]
  have v: "narrow ?v" using assms(2) by (intro all_values_narrow) (auto simp: cones_at_def)
  have top: "cone_along ?A p (take n ks) = ?v"
    using cone_along_ends [of ?A p "take n ks"] assms(4) by (auto simp: A)
  have "cone_along ?A p ks = ?v"
  proof (cases "drop n ks")
    case Nil
    then show ?thesis using top assms(3) by simp
  next
    case (Cons l ls)
    have "take (Suc (n + j)) ks = take n ks @ l # take j ls" if "j \<le> length ls" for j
      using that Cons assms(3) take_add [of n "Suc j" ks] by simp
    then have none: "cones_at fullPathName calls (take n ks @ l # take j ls) = []" if "j \<le> length ls" for j
      using that assms(5) [of "Suc (n + j)"] arg_cong [OF Cons, of length] by simp
    have "cone_along (\<lambda>m. ?A (take n ks @ l # m)) ?v ls = ?v"
      by (rule cone_along_unscoped [OF v]) (simp add: A none all_values_def)
    moreover have "ks = take n ks @ l # ls" using Cons by (metis append_take_drop_id)
    ultimately show ?thesis using cone_along_append [of ?A p "take n ks" "l # ls"] top by simp
  qed
  then show ?thesis using v by (simp add: policy_along_def A Policy_MaskNothing_def all_values_def)
qed

lemma launcher_calls_mask: "call \<in> set (launcher_calls opts toolPath root) \<Longrightarrow> masks_all call \<and> narrow (call_values call)"
  by (auto simp: launcher_calls_def root_scope_def path_scopes_def output_dir_scopes_def overlay_scopes_def
      workingDirPolicy_def input_policy_def output_policy_def output_dir_policy_def narrow_def policy_bits Let_def
      split: option.splits if_splits)

text \<open>Output directories.\<close>

lemma parents_below_parent:
  "d \<in> set (parents_below wd x) \<Longrightarrow> IsStrictlyUnder d wd \<and>
     (IsStrictlyUnder (ParentDir d) wd \<longrightarrow> ParentDir d \<in> set (parents_below wd x))"
proof (induction wd x rule: parents_below.induct)
  case (1 wd x)
  then have under: "IsStrictlyUnder x wd" by (subst (asm) (3) parents_below.simps) (auto split: if_splits)
  have eq: "parents_below wd x = x # parents_below wd (ParentDir x)"
    using under by (subst parents_below.simps) simp
  have "ParentDir x \<in> set (parents_below wd (ParentDir x))" if "IsStrictlyUnder (ParentDir x) wd"
    using that by (subst parents_below.simps) simp
  then show ?case using 1 under unfolding eq by auto
qed

lemma fold_add_output_dir:
  "set (fold add_output_dir ds acc) = set acc \<union> set ds \<and> (distinct acc \<longrightarrow> distinct (fold add_output_dir ds acc))"
  by (induction ds arbitrary: acc) (auto simp: add_output_dir_def)

lemma output_dirs_set:
  "set (output_dirs opts) = (\<Union>p \<in> set (o_writableFiles opts). set (parents_below (o_workingDir opts) (ParentDir p)))"
  "distinct (output_dirs opts)"
proof -
  let ?step = "\<lambda>p outputDirs. fold add_output_dir (parents_below (o_workingDir opts) (ParentDir p)) outputDirs"
  have "set (fold ?step ps acc) = set acc \<union> (\<Union>p \<in> set ps. set (parents_below (o_workingDir opts) (ParentDir p))) \<and>
      (distinct acc \<longrightarrow> distinct (fold ?step ps acc))" for ps acc
    by (induction ps arbitrary: acc) (auto simp: fold_add_output_dir)
  from this [of "o_writableFiles opts" "[]"]
  show "set (output_dirs opts) = (\<Union>p \<in> set (o_writableFiles opts). set (parents_below (o_workingDir opts) (ParentDir p)))"
    "distinct (output_dirs opts)"
    by (simp_all add: output_dirs_def)
qed


text \<open>The paths that the options name.\<close>

definition keys_of :: "buffer_api \<Rightarrow> wstr \<Rightarrow> wstr list option" where
  "keys_of fpn p = map_option path_keys (CanonicalizeForTree fpn p)"

definition named :: "buffer_api \<Rightarrow> wstr list \<Rightarrow> wstr list \<Rightarrow> bool" where
  "named fpn ps ks \<longleftrightarrow> list_ex (\<lambda>p. keys_of fpn p = Some ks) ps"

definition root_paths :: "wstr option \<Rightarrow> wstr list" where
  "root_paths root = (case root of None \<Rightarrow> [] | Some p \<Rightarrow> [p])"

definition option_paths :: "Options \<Rightarrow> wstr \<Rightarrow> wstr option \<Rightarrow> wstr list" where
  "option_paths opts toolPath root =
     o_workingDir opts # toolPath # o_readonlyFiles opts @ o_writableFiles opts @ o_blockedFiles opts @ root_paths root"

lemma named_iff: "named fpn ps ks \<longleftrightarrow> (\<exists>p \<in> set ps. keys_of fpn p = Some ks)"
  by (simp add: named_def list_ex_iff)

lemma all_values_bit: "all_values calls AND b \<noteq> 0 \<longleftrightarrow> (\<exists>c \<in> set calls. call_values c AND b \<noteq> 0)"
proof (induction calls)
  case (Cons c calls)
  have "(call_values c OR v) AND b \<noteq> 0 \<longleftrightarrow> call_values c AND b \<noteq> 0 \<or> v AND b \<noteq> 0" for v
    by (simp add: bit.conj_disj_distrib2 or_eq_0_iff)
  with Cons show ?case by (simp add: all_values_def)
qed (simp add: all_values_def)

lemma launcher_calls_lists:
  "launcher_calls opts toolPath root =
     [root_scope] @ map (\<lambda>p. ConeScope p Policy_MaskAll (workingDirPolicy opts)) [o_workingDir opts] @
     map (\<lambda>p. ConeScope p Policy_MaskAll input_policy) (toolPath # o_readonlyFiles opts) @
     map (\<lambda>p. ConeScope p Policy_MaskAll output_policy) (o_writableFiles opts) @
     map (\<lambda>p. ConeScope p Policy_MaskAll Policy_Deny) (o_blockedFiles opts) @
     map (\<lambda>p. NodeScope p Policy_MaskAll output_dir_policy) (output_dirs opts) @
     map (\<lambda>p. ConeScope p Policy_MaskAll Policy_AllowAll) (root_paths root)"
  by (simp add: launcher_calls_def path_scopes_def output_dir_scopes_def overlay_scopes_def root_paths_def comp_def
      split: option.split)

lemma scopes_at_simps:
  "cones_at fpn (xs @ ys) ks = cones_at fpn xs ks @ cones_at fpn ys ks"
  "nodes_at fpn (xs @ ys) ks = nodes_at fpn xs ks @ nodes_at fpn ys ks"
  "cones_at fpn [root_scope] ks = (if ks = [] then [root_scope] else [])"
  "nodes_at fpn [root_scope] ks = []"
  "cones_at fpn (map (\<lambda>p. ConeScope p m v) ps) ks = map (\<lambda>p. ConeScope p m v) (filter (\<lambda>p. keys_of fpn p = Some ks) ps)"
  "nodes_at fpn (map (\<lambda>p. ConeScope p m v) ps) ks = []"
  "cones_at fpn (map (\<lambda>p. NodeScope p m v) ps) ks = []"
  "nodes_at fpn (map (\<lambda>p. NodeScope p m v) ps) ks = map (\<lambda>p. NodeScope p m v) (filter (\<lambda>p. keys_of fpn p = Some ks) ps)"
  by (simp_all add: cones_at_def nodes_at_def root_scope_def keys_of_def filter_map comp_def)

lemmas scopes_at_launcher = launcher_calls_lists scopes_at_simps

lemma named_filter: "filter (\<lambda>p. keys_of fpn p = Some ks) ps = [] \<longleftrightarrow> \<not> named fpn ps ks"
  by (auto simp: named_iff filter_empty_conv)

lemma named_Cons: "named fpn (p # ps) ks \<longleftrightarrow> keys_of fpn p = Some ks \<or> named fpn ps ks"
  "named fpn (ps @ qs) ks \<longleftrightarrow> named fpn ps ks \<or> named fpn qs ks"
  "\<not> named fpn [] ks"
  by (auto simp: named_def)

lemma launcher_scopes_empty:
  "cones_at fpn (launcher_calls opts toolPath root) ks = [] \<longleftrightarrow>
     ks \<noteq> [] \<and> \<not> named fpn (option_paths opts toolPath root) ks"
  "nodes_at fpn (launcher_calls opts toolPath root) ks = [] \<longleftrightarrow> \<not> named fpn (output_dirs opts) ks"
  unfolding scopes_at_launcher append_is_Nil_conv map_is_Nil_conv named_filter
  by (auto simp: option_paths_def named_Cons)

text \<open>The permissions in the policies of the launcher.\<close>

lemma launcher_policy_bits:
  "input_policy AND Policy_AllowRead \<noteq> 0" "input_policy AND Policy_AllowWrite = 0" "input_policy AND Policy_DeclaredInput \<noteq> 0"
  "output_policy AND Policy_AllowRead \<noteq> 0" "output_policy AND Policy_AllowWrite \<noteq> 0"
  "output_policy AND Policy_DeclaredInput \<noteq> 0"
  "output_dir_policy AND Policy_AllowRead \<noteq> 0" "output_dir_policy AND Policy_AllowWrite \<noteq> 0"
  "output_dir_policy AND Policy_DeclaredInput \<noteq> 0"
  "Policy_AllowAll AND Policy_AllowRead \<noteq> 0" "Policy_AllowAll AND Policy_AllowWrite \<noteq> 0" "Policy_AllowAll AND Policy_DeclaredInput = 0"
  "call_values root_scope AND Policy_AllowRead \<noteq> 0" "call_values root_scope AND Policy_AllowWrite = 0"
  "call_values root_scope AND Policy_DeclaredInput = 0"
  by code_simp+

lemma workingDirPolicy_bits:
  "workingDirPolicy opts AND Policy_AllowRead \<noteq> 0 \<longleftrightarrow> \<not> o_hermetic opts"
  "workingDirPolicy opts AND Policy_AllowWrite \<noteq> 0 \<longleftrightarrow> o_writeOverlay opts"
  "workingDirPolicy opts AND Policy_DeclaredInput = 0"
  by (auto simp: workingDirPolicy_def policy_bits Let_def)

lemma all_values_named:
  "all_values (xs @ ys) AND b \<noteq> 0 \<longleftrightarrow> all_values xs AND b \<noteq> 0 \<or> all_values ys AND b \<noteq> 0"
  "all_values (map (\<lambda>p. ConeScope p m v) (filter (\<lambda>p. keys_of fpn p = Some ks) ps)) AND b \<noteq> 0 \<longleftrightarrow>
     named fpn ps ks \<and> v AND b \<noteq> 0"
  "all_values (map (\<lambda>p. NodeScope p m v) (filter (\<lambda>p. keys_of fpn p = Some ks) ps)) AND b \<noteq> 0 \<longleftrightarrow>
     named fpn ps ks \<and> v AND b \<noteq> 0"
  "all_values (if ks = [] then [root_scope] else []) AND b \<noteq> 0 \<longleftrightarrow> ks = [] \<and> call_values root_scope AND b \<noteq> 0"
  unfolding all_values_bit by (auto simp: named_iff)

lemma cone_bit:
  "all_values (cones_at fpn (launcher_calls opts toolPath root) ks) AND b \<noteq> 0 \<longleftrightarrow>
     ks = [] \<and> call_values root_scope AND b \<noteq> 0 \<or>
     named fpn [o_workingDir opts] ks \<and> workingDirPolicy opts AND b \<noteq> 0 \<or>
     named fpn (toolPath # o_readonlyFiles opts) ks \<and> input_policy AND b \<noteq> 0 \<or>
     named fpn (o_writableFiles opts) ks \<and> output_policy AND b \<noteq> 0 \<or>
     named fpn (root_paths root) ks \<and> Policy_AllowAll AND b \<noteq> 0"
  unfolding scopes_at_launcher append_Nil append_Nil2 all_values_named by (auto simp: Policy_Deny_def)

lemma node_bit:
  "all_values (nodes_at fpn (launcher_calls opts toolPath root) ks) AND b \<noteq> 0 \<longleftrightarrow>
     named fpn (output_dirs opts) ks \<and> output_dir_policy AND b \<noteq> 0"
  unfolding scopes_at_launcher append_Nil append_Nil2 all_values_named ..


section \<open>Properties\<close>


definition example_launch :: Options where
  "example_launch = default_options\<lparr>o_workingDir := wide ''C:/ws'',
     o_writableFiles := [wide ''C:/ws/a/b/out''], o_blockedFiles := [wide ''C:/ws/a/b/out''], o_hermetic := True\<rparr>"


text \<open>
  C27: the directories made for the outputs. They are the ancestors of the outputs strictly below the
  working directory, each once, and every one comes after its own parent, so that each can be
  created when its turn comes.
\<close>
theorem output_dirs_parents_first:
  "distinct (output_dirs opts) \<and>
   set (output_dirs opts) =
     (\<Union>p \<in> set (o_writableFiles opts). set (parents_below (o_workingDir opts) (ParentDir p))) \<and>
   (\<forall>i < length (output_dirs opts). IsStrictlyUnder (output_dirs opts ! i) (o_workingDir opts) \<and>
      (IsStrictlyUnder (ParentDir (output_dirs opts ! i)) (o_workingDir opts) \<longrightarrow>
         (\<exists>j < i. output_dirs opts ! j = ParentDir (output_dirs opts ! i))))"
proof -
  let ?ds = "output_dirs opts" and ?wd = "o_workingDir opts"
  have sorted: "sorted (map length ?ds)" by (simp add: output_dirs_def)
  have "IsStrictlyUnder (?ds ! i) ?wd \<and>
      (IsStrictlyUnder (ParentDir (?ds ! i)) ?wd \<longrightarrow> (\<exists>j < i. ?ds ! j = ParentDir (?ds ! i)))"
    if i: "i < length ?ds" for i
  proof -
    obtain p where p: "p \<in> set (o_writableFiles opts)" "?ds ! i \<in> set (parents_below ?wd (ParentDir p))"
      using nth_mem [OF i] output_dirs_set(1) [of opts] by auto
    note under = parents_below_parent [OF p(2)]
    moreover have "\<exists>j < i. ?ds ! j = ParentDir (?ds ! i)" if parent: "IsStrictlyUnder (ParentDir (?ds ! i)) ?wd"
    proof -
      have "ParentDir (?ds ! i) \<in> set ?ds" using under parent p(1) output_dirs_set(1) [of opts] by blast
      then obtain j where j: "j < length ?ds" "?ds ! j = ParentDir (?ds ! i)" by (auto simp: in_set_conv_nth)
      have "length (?ds ! j) < length (?ds ! i)"
        unfolding j(2) using under IsStrictlyUnder_nonempty ParentDir_shorter by blast
      moreover have "length (?ds ! i) \<le> length (?ds ! j)" if "i \<le> j"
        using sorted_nth_mono [OF sorted that] i j(1) by simp
      ultimately have "j < i" by linarith
      with j(2) show ?thesis by blast
    qed
    ultimately show ?thesis by blast
  qed
  then show ?thesis using output_dirs_set [of opts] by blast
qed

theorem output_dirs_parents_first_witness:
  "length (output_dirs example_launch) = 2 \<and>
   (\<exists>j < 1. output_dirs example_launch ! j = ParentDir (output_dirs example_launch ! 1))"
proof -
  have two: "length (output_dirs example_launch) = 2" by code_simp
  have "IsStrictlyUnder (ParentDir (output_dirs example_launch ! 1)) (o_workingDir example_launch)" by code_simp
  with two show ?thesis
    using output_dirs_parents_first [of example_launch, THEN conjunct2, THEN conjunct2, rule_format, of 1] by simp
qed

end
