(* ===== verification/Launch_Files.thy ===== *)
theory Launch_Files
  imports Launch_Options Exec_Stats
begin

text \<open>
  The files that the launcher itself touches (\<open>src/main.cpp\<close>): the backing store of the write overlay,
  made before and removed after the action, the machine type of the tool, its own directory, and the
  standard handles of the child.

  What the launcher does to the system is a log of calls, and what the system answers may depend on
  the log so far. So each operation takes the log and returns it longer.
\<close>

section \<open>The system\<close>

datatype os_call =
    CreateOutput wstr
  | CreateDir wstr
  | SetAttributes wstr u32
  | RemoveFile wstr
  | RemoveDir wstr
  | SetEnvironment wstr wstr
  | SetCurrentDir wstr
  | SetInheritable u64
  | CreateSuspended wstr wstr bytes bool
  | CopyPayload bytes bool
  | AssignToJob bool
  | ResumeThread
  | WaitProcess u32
  | TerminateProcess u32
  | TerminateJob u32
  | WriteFile wstr bytes
  | CloseJob

type_synonym os_log = "os_call list"

datatype wait_result = WaitObject0 | WaitTimeout | WaitFailed

text \<open>
  \<open>CreateFileW\<close> for a new output answers with a handle, and \<open>CreateDirectoryW\<close> with nothing or the last
  error. \<open>os_content\<close> is the file behind a path if it can be opened; \<open>os_listing\<close> the names and
  attributes that \<open>FindFirstFileW\<close> and \<open>FindNextFileW\<close> give for the files of a directory.
\<close>

record launcher_os =
  os_tempPath :: "nat \<Rightarrow> nat \<times> wstr"
  os_processId :: u32
  os_tickCount :: u64
  os_createOutput :: "os_log \<Rightarrow> wstr \<Rightarrow> u64 option"
  os_createDirectory :: "os_log \<Rightarrow> wstr \<Rightarrow> u32 option"
  os_exists :: "wstr \<Rightarrow> bool"
  os_content :: "wstr \<Rightarrow> bytes option"
  os_listing :: "os_log \<Rightarrow> wstr \<Rightarrow> (wstr \<times> u32) list option"
  os_moduleFileName :: "nat \<Rightarrow> nat \<times> wstr"
  os_multiByte :: "wstr \<Rightarrow> nat \<Rightarrow> nat \<times> bytes"
  os_stdHandles :: "u64 \<times> u64 \<times> u64"
  os_fileType :: "u64 \<Rightarrow> u32 \<times> u32"
  os_openNul :: "bool \<Rightarrow> u64"
  os_createJob :: bool
  os_createProcess :: "os_log \<Rightarrow> wstr \<Rightarrow> wstr \<Rightarrow> bytes \<Rightarrow> bool"
  os_copyPayload :: "os_log \<Rightarrow> bytes \<Rightarrow> bool"
  os_assign :: "os_log \<Rightarrow> bool"
  os_wait :: "os_log \<Rightarrow> u32 \<Rightarrow> wait_result"
  os_exitCode :: "os_log \<Rightarrow> u32 option"
  os_job :: "os_log \<Rightarrow> job_object"


section \<open>The backing store\<close>

definition ERROR_ALREADY_EXISTS :: u32 where "ERROR_ALREADY_EXISTS = 183"
definition FILE_ATTRIBUTE_DIRECTORY :: u32 where "FILE_ATTRIBUTE_DIRECTORY = 0x10"
definition FILE_ATTRIBUTE_REPARSE_POINT :: u32 where "FILE_ATTRIBUTE_REPARSE_POINT = 0x400"
definition FILE_ATTRIBUTE_NORMAL :: u32 where "FILE_ATTRIBUTE_NORMAL = 0x80"

definition create_if_absent :: "launcher_os \<Rightarrow> wstr \<Rightarrow> os_log \<Rightarrow> bool \<times> os_log" where
  "create_if_absent os dir log =
     (let answer = os_createDirectory os log dir
      in (answer = None \<or> answer = Some ERROR_ALREADY_EXISTS, log @ [CreateDir dir]))"

definition SetupWriteOverlayRoot :: "launcher_os \<Rightarrow> wstr \<Rightarrow> os_log \<Rightarrow> wstr \<times> os_log" where
  "SetupWriteOverlayRoot os explicitDir log =
     (let (base, log) =
        (if explicitDir = []
         then (let (n, tmp) = os_tempPath os MAX_PATH
               in (if n = 0 \<or> MAX_PATH \<le> n then None else Some (take n tmp), log))
         else (let (ok, log) = create_if_absent os explicitDir log
               in (if ok then Some explicitDir else None, log)))
      in case base of
           None \<Rightarrow> ([], log)
         | Some base \<Rightarrow>
             (let base = (if base \<noteq> [] \<and> last base \<noteq> BACKSLASH then base @ [BACKSLASH] else base);
                  base = base @ wide ''bzlsbx-'' @ to_wstring (unat (os_processId os)) @ wide ''-'' @
                         to_wstring (unat (os_tickCount os));
                  root = base @ BACKSLASH # wide ''overlay'';
                  (ok, log) = create_if_absent os base log
              in if \<not> ok then ([], log)
                 else (let (ok, log) = create_if_absent os root log
                       in if \<not> ok then ([], log) else (root, log))))"

text \<open>
  \<open>RemoveTreeRecursive\<close>: the loop over the entries that are left of \<open>dir\<close>, with the removal of \<open>dir\<close> at
  its end, and the call itself, which begins with the entries of the directory. \<open>None\<close> is not returning.
\<close>

definition dir_entries :: "launcher_os \<Rightarrow> os_log \<Rightarrow> wstr \<Rightarrow> (wstr \<times> u32) list" where
  "dir_entries os log dir = (case os_listing os log dir of None \<Rightarrow> [] | Some entries \<Rightarrow> entries)"

definition real_directory :: "u32 \<Rightarrow> bool" where
  "real_directory attrs \<longleftrightarrow>
     attrs AND FILE_ATTRIBUTE_DIRECTORY \<noteq> 0 \<and> attrs AND FILE_ATTRIBUTE_REPARSE_POINT = 0"

partial_function (option) RemoveTree_loop :: "launcher_os \<Rightarrow> wstr \<Rightarrow> (wstr \<times> u32) list \<Rightarrow> os_log \<Rightarrow>
    os_log option" where
  "RemoveTree_loop os dir entries log =
     (case entries of
        [] \<Rightarrow> Some (log @ [RemoveDir dir])
      | (name, attrs) # entries \<Rightarrow>
          if name = wide ''.'' \<or> name = wide ''..'' then RemoveTree_loop os dir entries log
          else if real_directory attrs
          then Option.bind
                 (RemoveTree_loop os (dir @ BACKSLASH # name) (dir_entries os log (dir @ BACKSLASH # name)) log)
                 (\<lambda>log. RemoveTree_loop os dir entries log)
          else RemoveTree_loop os dir entries
                 (log @ [SetAttributes (dir @ BACKSLASH # name) FILE_ATTRIBUTE_NORMAL,
                         RemoveFile (dir @ BACKSLASH # name)]))"

definition RemoveTreeRecursive :: "launcher_os \<Rightarrow> wstr \<Rightarrow> os_log \<Rightarrow> os_log option" where
  "RemoveTreeRecursive os dir log = RemoveTree_loop os dir (dir_entries os log dir) log"

definition CleanupWriteOverlay :: "launcher_os \<Rightarrow> wstr \<Rightarrow> os_log \<Rightarrow> os_log option" where
  "CleanupWriteOverlay os root log =
     (if root = [] then Some log
      else (case RemoveTreeRecursive os root log of
              None \<Rightarrow> None
            | Some log \<Rightarrow>
                Some (case find_last_of root {BACKSLASH} of
                        None \<Rightarrow> log
                      | Some sep \<Rightarrow> log @ [RemoveDir (take sep root)])))"


section \<open>The tool and the handles\<close>

definition IMAGE_DOS_SIGNATURE :: u16 where "IMAGE_DOS_SIGNATURE = 0x5A4D"
definition IMAGE_NT_SIGNATURE :: u32 where "IMAGE_NT_SIGNATURE = 0x00004550"
definition IMAGE_FILE_MACHINE_AMD64 :: u16 where "IMAGE_FILE_MACHINE_AMD64 = 0x8664"

text \<open>
  The DOS header has 64 bytes, with \<open>e_magic\<close> first and \<open>e_lfanew\<close> last, the file header 20. The file
  pointer cannot be moved before the beginning, and a read past the end comes back short.
\<close>

definition PeMachine :: "(wstr \<Rightarrow> bytes option) \<Rightarrow> wstr \<Rightarrow> u16 option" where
  "PeMachine content path =
     (case content path of
        None \<Rightarrow> None
      | Some file \<Rightarrow>
          if length file < 64 \<or> rd_u16 file 0 \<noteq> Some IMAGE_DOS_SIGNATURE then None
          else (case rd_u32 file 60 of
                  None \<Rightarrow> None
                | Some e_lfanew \<Rightarrow>
                    if sint e_lfanew < 0 then None
                    else (let fp = unat e_lfanew
                          in if rd_u32 file fp \<noteq> Some IMAGE_NT_SIGNATURE then None
                             else if length file < fp + 4 + 20 then None
                             else rd_u16 file (fp + 4))))"

definition ToAnsi :: "(wstr \<Rightarrow> nat \<Rightarrow> nat \<times> bytes) \<Rightarrow> wstr \<Rightarrow> bytes" where
  "ToAnsi multiByte w =
     (if w = [] then []
      else (let n = fst (multiByte w 0);
                s = snd (multiByte w n)
            in take n (s @ replicate n 0)))"

definition ExeDir :: "(nat \<Rightarrow> nat \<times> wstr) \<Rightarrow> wstr" where
  "ExeDir moduleFileName =
     (let (n, buf) = moduleFileName MAX_PATH;
          path = take n buf
      in case find_last_of path {BACKSLASH, SLASH} of None \<Rightarrow> wide ''.'' | Some slash \<Rightarrow> take slash path)"

definition OpenOutputFile :: "launcher_os \<Rightarrow> wstr \<Rightarrow> os_log \<Rightarrow> (launcher_exit + u64) \<times> os_log" where
  "OpenOutputFile os path log =
     (case os_createOutput os log path of
        None \<Rightarrow> (Inl (Die (wide ''cannot open output file: '' @ path)), log @ [CreateOutput path])
      | Some h \<Rightarrow> (Inr h, log @ [CreateOutput path]))"

abbreviation INVALID_HANDLE_VALUE :: u64 where "INVALID_HANDLE_VALUE \<equiv> - 1"

definition FILE_TYPE_UNKNOWN :: u32 where "FILE_TYPE_UNKNOWN = 0"
definition NO_ERROR :: u32 where "NO_ERROR = 0"
definition ERROR_INVALID_HANDLE :: u32 where "ERROR_INVALID_HANDLE = 6"

text \<open>
  \<open>os_fileType\<close> gives the type of the file behind a handle and the last error. The second component of
  the result is \<open>*openedNul\<close>.
\<close>

definition PrepareStdHandle :: "launcher_os \<Rightarrow> u64 \<Rightarrow> bool \<Rightarrow> os_log \<Rightarrow> (u64 \<times> u64) \<times> os_log" where
  "PrepareStdHandle os h forRead log =
     (let (kind, error) = (if h = 0 \<or> h = INVALID_HANDLE_VALUE then (FILE_TYPE_UNKNOWN, ERROR_INVALID_HANDLE)
                           else os_fileType os h)
      in if kind = FILE_TYPE_UNKNOWN \<and> error \<noteq> NO_ERROR
         then (let nul = os_openNul os forRead in ((nul, nul), log))
         else ((h, 0), log @ [SetInheritable h]))"


section \<open>A store\<close>

text \<open>
  What the calls of the cleanup do to a file system: a list of paths and kinds. A link is a directory
  symbolic link or a junction. \<open>DeleteFileW\<close> removes files only, and not those that are read-only;
  \<open>RemoveDirectoryW\<close> removes links and directories that are empty. Either call fails on a held file or
  directory, such as one that a process has open or works in, or a read-only directory: the
  sources go on after a failure.
\<close>

datatype entry_kind = FileEntry | ReadOnlyFile | HeldFile | DirEntry | HeldDir | LinkEntry

definition is_dir :: "entry_kind \<Rightarrow> bool" where
  "is_dir k \<longleftrightarrow> k = DirEntry \<or> k = HeldDir"

text \<open>What the cleanup cannot remove.\<close>

definition stays :: "entry_kind \<Rightarrow> bool" where
  "stays k \<longleftrightarrow> k = HeldFile \<or> k = HeldDir \<or> k = LinkEntry"

lemma kind_simps [simp]:
  "is_dir FileEntry = False" "is_dir ReadOnlyFile = False" "is_dir HeldFile = False" "is_dir DirEntry = True"
  "is_dir HeldDir = True" "is_dir LinkEntry = False"
  "stays FileEntry = False" "stays ReadOnlyFile = False" "stays HeldFile = True" "stays DirEntry = False"
  "stays HeldDir = True" "stays LinkEntry = True"
  by (simp_all add: is_dir_def stays_def)

abbreviation FILE_ATTRIBUTE_READONLY :: u32 where "FILE_ATTRIBUTE_READONLY \<equiv> 1"

type_synonym store = "(wstr \<times> entry_kind) list"

definition below :: "wstr \<Rightarrow> wstr \<Rightarrow> bool" where
  "below dir p \<longleftrightarrow> take (Suc (length dir)) p = dir @ [BACKSLASH]"

definition at_or_below :: "wstr \<Rightarrow> wstr \<Rightarrow> bool" where
  "at_or_below dir p \<longleftrightarrow> p = dir \<or> below dir p"

fun removal :: "os_call \<Rightarrow> store \<Rightarrow> store" where
  "removal (SetAttributes p attrs) S =
     map (\<lambda>(q, k). (q, if q = p \<and> k = ReadOnlyFile \<and> attrs AND FILE_ATTRIBUTE_READONLY = 0 then FileEntry else k)) S"
| "removal (RemoveFile p) S = filter (\<lambda>(q, k). \<not> (q = p \<and> k = FileEntry)) S"
| "removal (RemoveDir p) S =
     filter (\<lambda>(q, k). \<not> (q = p \<and> (k = LinkEntry \<or> k = DirEntry \<and> list_all (\<lambda>(r, l). \<not> below p r) S))) S"
| "removal call S = S"

definition store_after :: "store \<Rightarrow> os_log \<Rightarrow> store" where
  "store_after S log = fold removal log S"

text \<open>
  Something that stays, at or below a path; and the store without what is at or below \<open>dir\<close>, apart
  from what stays and the directories above it.
\<close>

definition keeps_some :: "store \<Rightarrow> wstr \<Rightarrow> bool" where
  "keeps_some S p \<longleftrightarrow> list_ex (\<lambda>(q, k). stays k \<and> at_or_below p q) S"

definition discarded :: "wstr \<Rightarrow> store \<Rightarrow> store" where
  "discarded dir S = filter (\<lambda>(p, k). \<not> at_or_below dir p \<or> keeps_some S p) S"

definition plain_name :: "wstr \<Rightarrow> bool" where
  "plain_name n \<longleftrightarrow> n \<noteq> [] \<and> BACKSLASH \<notin> set n \<and> n \<noteq> wide ''.'' \<and> n \<noteq> wide ''..''"

definition has_dir :: "store \<Rightarrow> wstr \<Rightarrow> bool" where
  "has_dir S d \<longleftrightarrow> (\<exists>k. (d, k) \<in> set S \<and> is_dir k)"

lemma has_dirI: "(d, DirEntry) \<in> set S \<Longrightarrow> has_dir S d"
  by (auto simp: has_dir_def)

text \<open>Below \<open>dir\<close>, every entry is in a directory of the store.\<close>

definition store_wf :: "wstr \<Rightarrow> store \<Rightarrow> bool" where
  "store_wf dir S \<longleftrightarrow> distinct (map fst S) \<and> has_dir S dir \<and>
     (\<forall>(p, k) \<in> set S. below dir p \<longrightarrow>
        (\<exists>d n. p = d @ BACKSLASH # n \<and> has_dir S d \<and> at_or_below dir d \<and> plain_name n))"

definition lists_children :: "store \<Rightarrow> wstr \<Rightarrow> (wstr \<times> u32) list \<Rightarrow> bool" where
  "lists_children S dir entries \<longleftrightarrow> distinct (map fst entries) \<and>
     (\<forall>(n, attrs) \<in> set entries. n \<noteq> wide ''.'' \<and> n \<noteq> wide ''..'' \<longrightarrow> plain_name n \<and>
        (\<exists>k. (dir @ BACKSLASH # n, k) \<in> set S \<and> (real_directory attrs \<longleftrightarrow> is_dir k))) \<and>
     (\<forall>(p, k) \<in> set S. \<forall>n. p = dir @ BACKSLASH # n \<and> plain_name n \<longrightarrow> n \<in> fst ` set entries)"

text \<open>The listings of the system are those of the store as the calls leave it.\<close>

definition lists_store :: "launcher_os \<Rightarrow> store \<Rightarrow> bool" where
  "lists_store os S \<longleftrightarrow>
     (\<forall>log dir. has_dir (store_after S log) dir \<longrightarrow>
        lists_children (store_after S log) dir (dir_entries os log dir))"

lemma below_iff: "below dir p \<longleftrightarrow> (\<exists>r. p = dir @ BACKSLASH # r)"
proof
  assume "below dir p"
  then have "p = (dir @ [BACKSLASH]) @ drop (Suc (length dir)) p"
    unfolding below_def using append_take_drop_id [of "Suc (length dir)" p] by simp
  then show "\<exists>r. p = dir @ BACKSLASH # r" by auto
qed (auto simp: below_def)

lemma below_longer: "below dir p \<Longrightarrow> length dir < length p"
  by (auto simp: below_iff)

lemma at_or_below_refl [simp]: "at_or_below p p"
  by (simp add: at_or_below_def)

lemma below_trans: "below a b \<Longrightarrow> below b c \<Longrightarrow> below a c"
  by (auto simp: below_iff)

lemma at_or_below_trans: "at_or_below a b \<Longrightarrow> at_or_below b c \<Longrightarrow> at_or_below a c"
  by (auto simp: at_or_below_def dest: below_trans)

lemma below_child: "at_or_below (dir @ BACKSLASH # n) p \<Longrightarrow> below dir p"
  by (auto simp: at_or_below_def below_iff)

lemma child_unique:
  assumes "at_or_below (dir @ BACKSLASH # n) p" "at_or_below (dir @ BACKSLASH # m) p"
    and "BACKSLASH \<notin> set n" "BACKSLASH \<notin> set m"
  shows "n = m"
proof -
  obtain r where r: "p = dir @ BACKSLASH # n @ r" "r = [] \<or> hd r = BACKSLASH"
    using assms(1) by (auto simp: at_or_below_def below_iff)
  obtain s where s: "p = dir @ BACKSLASH # m @ s" "s = [] \<or> hd s = BACKSLASH"
    using assms(2) by (auto simp: at_or_below_def below_iff)
  have "takeWhile (\<lambda>c. c \<noteq> BACKSLASH) (n @ r) = n"
    using r(2) assms(3) by (cases r) (auto simp: takeWhile_append takeWhile_eq_all_conv)
  moreover have "takeWhile (\<lambda>c. c \<noteq> BACKSLASH) (m @ s) = m"
    using s(2) assms(4) by (cases s) (auto simp: takeWhile_append takeWhile_eq_all_conv)
  ultimately show ?thesis using r(1) s(1) by simp
qed

lemma last_separator:
  assumes "d @ BACKSLASH # m = c @ BACKSLASH # r" "BACKSLASH \<notin> set m"
  shows "at_or_below c d"
proof -
  obtain us where "d = c @ us \<and> us @ BACKSLASH # m = BACKSLASH # r \<or> d @ us = c \<and> BACKSLASH # m = us @ BACKSLASH # r"
    using assms(1) by (auto simp: append_eq_append_conv2)
  then show ?thesis using assms(2) by (cases us) (auto simp: at_or_below_def below_iff)
qed

lemma keeps_some_iff: "keeps_some S p \<longleftrightarrow> (\<exists>q k. (q, k) \<in> set S \<and> stays k \<and> at_or_below p q)"
  by (force simp: keeps_some_def list_ex_iff)

lemma store_kind: "distinct (map fst S) \<Longrightarrow> (p, k) \<in> set S \<Longrightarrow> (p, l) \<in> set S \<Longrightarrow> k = l"
  by (metis eq_key_imp_eq_value)

text \<open>The entries below a directory are at or below one of its children.\<close>

lemma below_some_child:
  assumes "store_wf dir S"
  shows "(p, k) \<in> set S \<Longrightarrow> below dir p \<Longrightarrow>
    \<exists>n l. (dir @ BACKSLASH # n, l) \<in> set S \<and> plain_name n \<and> at_or_below (dir @ BACKSLASH # n) p"
proof (induction "length p" arbitrary: p k rule: less_induct)
  case less
  obtain d n j where dn: "p = d @ BACKSLASH # n" "(d, j) \<in> set S" "at_or_below dir d" "plain_name n"
    using assms less.prems by (fastforce simp: store_wf_def has_dir_def)
  show ?case
  proof (cases "d = dir")
    case True
    then show ?thesis using dn less.prems(1) by auto
  next
    case False
    then have "below dir d" using dn(3) by (simp add: at_or_below_def)
    then obtain m l where m: "(dir @ BACKSLASH # m, l) \<in> set S" "plain_name m" "at_or_below (dir @ BACKSLASH # m) d"
      using less.hyps [OF _ dn(2)] dn(1) by auto
    have "below d p" using dn(1) by (auto simp: below_iff)
    then have "at_or_below (dir @ BACKSLASH # m) p" using m(3) below_trans by (auto simp: at_or_below_def)
    with m show ?thesis by blast
  qed
qed

lemma nothing_below_file:
  assumes "store_wf dir S" "(c, k) \<in> set S" "below dir c" "\<not> is_dir k" "(p, l) \<in> set S"
  shows "\<not> below c p"
proof
  show "below c p \<Longrightarrow> False" using assms(5)
  proof (induction "length p" arbitrary: p l rule: less_induct)
    case less
    have "below dir p" using assms(3) less.prems(1) below_trans by blast
    then obtain d n j where dn: "p = d @ BACKSLASH # n" "(d, j) \<in> set S" "is_dir j" "plain_name n"
      using assms(1) less.prems(2) unfolding store_wf_def has_dir_def by blast
    have "d \<noteq> c" using store_kind [of S c k j] dn(2,3) assms(1,2,4) unfolding store_wf_def by blast
    obtain r where r: "d @ BACKSLASH # n = c @ BACKSLASH # r" using less.prems(1) dn(1) by (auto simp: below_iff)
    have "at_or_below c d" using last_separator [OF r] dn(4) by (simp add: plain_name_def)
    with \<open>d \<noteq> c\<close> show False using less.hyps [of d] dn by (auto simp: at_or_below_def)
  qed
qed


text \<open>The store when the entries named in \<open>ns\<close> of \<open>dir\<close> are done.\<close>

definition partly_discarded :: "wstr \<Rightarrow> wstr set \<Rightarrow> store \<Rightarrow> store" where
  "partly_discarded dir ns S =
     filter (\<lambda>(p, k). \<not> (\<exists>n \<in> ns. at_or_below (dir @ BACKSLASH # n) p) \<or> keeps_some S p) S"

lemma partly_discarded_entry:
  assumes "n \<notin> ns" "plain_name n" "\<forall>m \<in> ns. plain_name m" "at_or_below (dir @ BACKSLASH # n) p"
  shows "(p, k) \<in> set (partly_discarded dir ns S) \<longleftrightarrow> (p, k) \<in> set S"
proof -
  have "\<not> at_or_below (dir @ BACKSLASH # m) p" if "m \<in> ns" for m
    using child_unique [of dir n p m] assms that by (auto simp: plain_name_def)
  then show ?thesis by (auto simp: partly_discarded_def)
qed

lemma keeps_some_partly_discarded:
  assumes "n \<notin> ns" "plain_name n" "\<forall>m \<in> ns. plain_name m" "at_or_below (dir @ BACKSLASH # n) p"
  shows "keeps_some (partly_discarded dir ns S) p \<longleftrightarrow> keeps_some S p"
  unfolding keeps_some_iff using partly_discarded_entry [OF assms(1-3)] at_or_below_trans [OF assms(4)] by blast

lemma store_wf_child:
  assumes "store_wf dir S" "has_dir S (dir @ BACKSLASH # n)"
    and "n \<notin> ns" "plain_name n" "\<forall>m \<in> ns. plain_name m"
  shows "store_wf (dir @ BACKSLASH # n) (partly_discarded dir ns S)"
proof -
  let ?c = "dir @ BACKSLASH # n"
  note entry = partly_discarded_entry [OF assms(3-5), of dir]
  have "distinct (map fst (partly_discarded dir ns S))"
    using assms(1) by (auto simp: store_wf_def partly_discarded_def distinct_map_filter)
  moreover have "\<exists>d m. p = d @ BACKSLASH # m \<and> has_dir (partly_discarded dir ns S) d \<and>
      at_or_below ?c d \<and> plain_name m"
    if p: "(p, k) \<in> set (partly_discarded dir ns S)" "below ?c p" for p k
  proof -
    have pS: "(p, k) \<in> set S" using p(1) by (auto simp: partly_discarded_def)
    have "below dir p" using p(2) by (auto intro: below_child simp: at_or_below_def)
    then obtain d m where dm: "p = d @ BACKSLASH # m" "has_dir S d" "plain_name m"
      using assms(1) pS unfolding store_wf_def by blast
    obtain r where r: "d @ BACKSLASH # m = ?c @ BACKSLASH # r" using p(2) dm(1) by (auto simp: below_iff)
    have "at_or_below ?c d" using last_separator [OF r] dm(3) by (simp add: plain_name_def)
    with dm entry show ?thesis unfolding has_dir_def by blast
  qed
  moreover have "has_dir (partly_discarded dir ns S) ?c"
    using entry [of ?c] assms(2) unfolding has_dir_def by simp
  ultimately show ?thesis unfolding store_wf_def by blast
qed

lemma partly_discarded_none: "partly_discarded dir {} S = S"
  by (simp add: partly_discarded_def)

lemma discard_child:
  assumes "n \<notin> ns" "plain_name n" "\<forall>m \<in> ns. plain_name m"
  shows "discarded (dir @ BACKSLASH # n) (partly_discarded dir ns S) = partly_discarded dir (insert n ns) S"
proof -
  have "(\<not> at_or_below (dir @ BACKSLASH # n) p \<or> keeps_some (partly_discarded dir ns S) p) \<and>
      (\<not> (\<exists>m \<in> ns. at_or_below (dir @ BACKSLASH # m) p) \<or> keeps_some S p) \<longleftrightarrow>
      \<not> (\<exists>m \<in> insert n ns. at_or_below (dir @ BACKSLASH # m) p) \<or> keeps_some S p" for p
    using keeps_some_partly_discarded [OF assms, of dir p S] by blast
  then show ?thesis
    unfolding discarded_def by (simp add: partly_discarded_def split_beta' conj_commute case_prod_unfold)
qed


lemma store_after_append [simp]: "store_after S (done @ calls) = store_after (store_after S done) calls"
  by (simp add: store_after_def)

lemma store_after_simps [simp]: "store_after S [] = S" "store_after S (c # cs) = store_after (removal c S) cs"
  by (simp_all add: store_after_def)

text \<open>An entry that is not a real directory: the two calls leave the store as they should.\<close>

lemma remove_file:
  assumes "distinct (map fst S)" "(c, k) \<in> set S" "\<not> is_dir k"
    and other: "\<And>p l. (p, l) \<in> set S \<Longrightarrow> \<not> below c p"
  shows "removal (RemoveFile c) (removal (SetAttributes c FILE_ATTRIBUTE_NORMAL) S) = discarded c S"
proof -
  have link: "keeps_some S c \<longleftrightarrow> stays k"
    using assms(1,2) other store_kind [of S c] by (auto simp: keeps_some_iff at_or_below_def)
  have entry: "(p = c \<and> (l = FileEntry \<or> l = ReadOnlyFile)) \<longleftrightarrow> at_or_below c p \<and> \<not> keeps_some S p"
    if "(p, l) \<in> set S" for p l
  proof (cases "p = c")
    case True
    then have "l = k" using that assms(1,2) store_kind [of S c] by auto
    then show ?thesis using True link assms(3) by (cases k) auto
  qed (use other that in \<open>auto simp: at_or_below_def\<close>)
  have calls: "removal (RemoveFile c) (removal (SetAttributes c FILE_ATTRIBUTE_NORMAL) T) =
      filter (\<lambda>(q, l). \<not> (q = c \<and> (l = FileEntry \<or> l = ReadOnlyFile))) T" for T
  proof -
    have "FILE_ATTRIBUTE_NORMAL AND FILE_ATTRIBUTE_READONLY = 0" by (simp add: FILE_ATTRIBUTE_NORMAL_def)
    then show ?thesis by (induction T) auto
  qed
  show ?thesis
    unfolding calls discarded_def using entry by (intro filter_cong) auto
qed

text \<open>The end of the loop: the directory goes if nothing is left in it.\<close>

lemma remove_dir:
  assumes wf: "store_wf dir S" and all: "\<And>n l. (dir @ BACKSLASH # n, l) \<in> set S \<Longrightarrow> plain_name n \<Longrightarrow> n \<in> ns"
    and "\<forall>n \<in> ns. plain_name n"
  shows "removal (RemoveDir dir) (partly_discarded dir ns S) = discarded dir S"
proof -
  let ?T = "partly_discarded dir ns S"
  obtain j where dist: "distinct (map fst S)" and dir: "(dir, j) \<in> set S" "is_dir j"
    using wf by (auto simp: store_wf_def has_dir_def)
  have T: "(p, k) \<in> set ?T \<longleftrightarrow> (p, k) \<in> set S \<and> (\<not> below dir p \<or> keeps_some S p)" for p k
    using below_some_child [OF wf, of p k] all below_child by (fastforce simp: partly_discarded_def)
  have none_left: "list_all (\<lambda>(r, l). \<not> below dir r) ?T \<longleftrightarrow> \<not> keeps_some S dir" if j: "j = DirEntry"
  proof -
    have "\<exists>q l. (q, l) \<in> set ?T \<and> below dir q" if link: "keeps_some S dir"
    proof -
      obtain q k where q: "(q, k) \<in> set S" "stays k" "at_or_below dir q" using link by (auto simp: keeps_some_iff)
      then have "q \<noteq> dir" using store_kind [OF dist dir(1), of k] j by auto
      then have "below dir q" "keeps_some S q" using q by (auto simp: at_or_below_def keeps_some_iff)
      with T q(1) show ?thesis by blast
    qed
    moreover have "keeps_some S dir" if "(q, l) \<in> set ?T" "below dir q" for q l
    proof -
      have "keeps_some S q" using that T by blast
      then show ?thesis using that(2) at_or_below_trans [of dir q] by (auto simp: keeps_some_iff at_or_below_def)
    qed
    ultimately show ?thesis by (fastforce simp: list_all_iff)
  qed
  have "\<not> (q = dir \<and> (k = LinkEntry \<or> k = DirEntry \<and> list_all (\<lambda>(r, l). \<not> below dir r) ?T)) \<longleftrightarrow>
      \<not> at_or_below dir q \<or> keeps_some S q" if "(q, k) \<in> set ?T" for q k
  proof (cases "q = dir")
    case True
    then have "k = j" using that T store_kind [OF dist dir(1)] by blast
    show ?thesis
    proof (cases "j = DirEntry")
      case True
      with \<open>q = dir\<close> \<open>k = j\<close> none_left show ?thesis by simp
    next
      case False
      then have "j = HeldDir" using dir(2) by (simp add: is_dir_def)
      then have "keeps_some S dir"
        using dir(1) unfolding keeps_some_iff by (intro exI [of _ dir] exI [of _ HeldDir]) simp
      with \<open>q = dir\<close> \<open>k = j\<close> \<open>j = HeldDir\<close> show ?thesis by simp
    qed
  next
    case False
    then show ?thesis using that T by (auto simp: at_or_below_def)
  qed
  then have "removal (RemoveDir dir) ?T = filter (\<lambda>(q, k). \<not> at_or_below dir q \<or> keeps_some S q) ?T"
    unfolding removal.simps by (auto intro!: filter_cong)
  also have "\<dots> = discarded dir S"
    using below_child by (fastforce simp: partly_discarded_def discarded_def at_or_below_def intro!: filter_cong)
  finally show ?thesis .
qed


lemma RemoveTree_loop_simps:
  "RemoveTree_loop os dir [] done = Some (done @ [RemoveDir dir])"
  "name = wide ''.'' \<or> name = wide ''..'' \<Longrightarrow>
     RemoveTree_loop os dir ((name, attrs) # entries) done = RemoveTree_loop os dir entries done"
  "plain_name name \<Longrightarrow> real_directory attrs \<Longrightarrow>
     RemoveTree_loop os dir ((name, attrs) # entries) done =
       Option.bind (RemoveTreeRecursive os (dir @ BACKSLASH # name) done) (RemoveTree_loop os dir entries)"
  "plain_name name \<Longrightarrow> \<not> real_directory attrs \<Longrightarrow>
     RemoveTree_loop os dir ((name, attrs) # entries) done =
       RemoveTree_loop os dir entries
         (done @ [SetAttributes (dir @ BACKSLASH # name) FILE_ATTRIBUTE_NORMAL, RemoveFile (dir @ BACKSLASH # name)])"
  by (subst RemoveTree_loop.simps, force simp: plain_name_def RemoveTreeRecursive_def)+

lemma length_filter_filter: "length (filter P (filter Q xs)) \<le> length (filter P xs)"
  by (induction xs) auto

lemma fewer_below_child:
  assumes "(dir @ BACKSLASH # n, k) \<in> set S"
  shows "length (filter (\<lambda>(p, k). below (dir @ BACKSLASH # n) p) S) < length (filter (\<lambda>(p, k). below dir p) S)"
  using assms
proof (induction S)
  case (Cons x S)
  have mono: "below (dir @ BACKSLASH # n) p \<Longrightarrow> below dir p" for p by (auto simp: below_iff)
  have here: "below dir (dir @ BACKSLASH # n)" "\<not> below (dir @ BACKSLASH # n) (dir @ BACKSLASH # n)"
    by (auto simp: below_iff)
  have le: "length (filter (\<lambda>(p, k). below (dir @ BACKSLASH # n) p) S) \<le> length (filter (\<lambda>(p, k). below dir p) S)"
    by (induction S) (auto dest: mono)
  show ?case using Cons le here mono by (cases x) (auto simp: less_Suc_eq_le)
qed simp

text \<open>
  One entry of a directory \<open>dir\<close>, in a store \<open>T\<close> from which the entries \<open>ns\<close> are discarded already, given
  that the call for a subdirectory works.
\<close>

lemma remove_entry:
  assumes wf: "store_wf dir T" and entry: "(dir @ BACKSLASH # n, k) \<in> set T" "real_directory attrs \<longleftrightarrow> is_dir k"
    and names: "n \<notin> ns" "plain_name n" "\<forall>m \<in> ns. plain_name m"
    and now: "store_after S done = partly_discarded dir ns T"
    and sub: "store_wf (dir @ BACKSLASH # n) (store_after S done) \<Longrightarrow>
      \<exists>calls. RemoveTreeRecursive os (dir @ BACKSLASH # n) done = Some (done @ calls) \<and>
        store_after S (done @ calls) = discarded (dir @ BACKSLASH # n) (store_after S done)"
  obtains calls where
    "RemoveTree_loop os dir ((n, attrs) # entries) done = RemoveTree_loop os dir entries (done @ calls)"
    "store_after S (done @ calls) = partly_discarded dir (insert n ns) T"
proof -
  let ?c = "dir @ BACKSLASH # n" and ?U = "store_after S done"
  have child: "partly_discarded dir (insert n ns) T = discarded ?c ?U"
    unfolding now by (rule discard_child [OF names, symmetric])
  show thesis
  proof (cases "is_dir k")
    case True
    have "store_wf ?c ?U" unfolding now using store_wf_child [OF wf _ names] entry(1) True by (auto simp: has_dir_def)
    with sub obtain calls where "RemoveTreeRecursive os ?c done = Some (done @ calls)"
      "store_after S (done @ calls) = discarded ?c ?U" by blast
    with that [of calls] show thesis using names(2) entry(2) True child by (simp add: RemoveTree_loop_simps)
  next
    case False
    have "below dir ?c" by (auto simp: below_iff)
    then have "\<not> below ?c p" if "(p, l) \<in> set ?U" for p l
      using nothing_below_file [OF wf entry(1) _ False] that unfolding now by (auto simp: partly_discarded_def)
    moreover have "distinct (map fst ?U)"
      using wf unfolding now by (auto simp: store_wf_def partly_discarded_def distinct_map_filter)
    moreover have "(?c, k) \<in> set ?U"
      unfolding now using partly_discarded_entry [OF names at_or_below_refl] entry(1) by blast
    ultimately have "removal (RemoveFile ?c) (removal (SetAttributes ?c FILE_ATTRIBUTE_NORMAL) ?U) = discarded ?c ?U"
      using remove_file False by blast
    with that [of "[SetAttributes ?c FILE_ATTRIBUTE_NORMAL, RemoveFile ?c]"] show thesis
      using names(2) entry(2) False child by (simp add: RemoveTree_loop_simps del: removal.simps)
  qed
qed

text \<open>The rest of a directory, by induction on the entries that are left.\<close>

lemma remove_entries:
  assumes wf: "store_wf dir T"
    and sub: "\<And>n before ns. has_dir T (dir @ BACKSLASH # n) \<Longrightarrow>
        store_after S before = partly_discarded dir ns T \<Longrightarrow>
        store_wf (dir @ BACKSLASH # n) (store_after S before) \<Longrightarrow>
        \<exists>calls. RemoveTreeRecursive os (dir @ BACKSLASH # n) before = Some (before @ calls) \<and>
          store_after S (before @ calls) = discarded (dir @ BACKSLASH # n) (store_after S before)"
  shows "lists_children T dir (es1 @ es2) \<Longrightarrow>
    store_after S done = partly_discarded dir {n \<in> fst ` set es1. plain_name n} T \<Longrightarrow>
    \<exists>calls. RemoveTree_loop os dir es2 done = Some (done @ calls) \<and>
      store_after S (done @ calls) = discarded dir T"
proof (induction es2 arbitrary: es1 "done")
  case Nil
  have "removal (RemoveDir dir) (store_after S done) = discarded dir T"
    unfolding Nil.prems(2) using Nil.prems(1) by (intro remove_dir [OF wf]) (auto simp: lists_children_def)
  then show ?case by (intro exI [of _ "[RemoveDir dir]"]) (simp add: RemoveTree_loop_simps del: removal.simps)
next
  case (Cons e es2)
  obtain n attrs where e: "e = (n, attrs)" by fastforce
  let ?ns = "{n \<in> fst ` set es1. plain_name n}" and ?ns' = "{n \<in> fst ` set (es1 @ [e]). plain_name n}"
  have es: "lists_children T dir ((es1 @ [e]) @ es2)" using Cons.prems(1) by simp
  show ?case
  proof (cases "n = wide ''.'' \<or> n = wide ''..''")
    case True
    then have "?ns' = ?ns" by (auto simp: e plain_name_def)
    then show ?thesis using Cons.IH [OF es] Cons.prems(2) True by (simp add: e RemoveTree_loop_simps)
  next
    case False
    then obtain k where k: "(dir @ BACKSLASH # n, k) \<in> set T" "real_directory attrs \<longleftrightarrow> is_dir k"
      and n: "plain_name n" "n \<notin> ?ns"
      using Cons.prems(1) by (auto simp: lists_children_def e)
    have ns: "insert n ?ns = ?ns'" using n(1) by (auto simp: e)
    obtain calls where calls:
      "RemoveTree_loop os dir (e # es2) done = RemoveTree_loop os dir es2 (done @ calls)"
      "store_after S (done @ calls) = partly_discarded dir ?ns' T"
      unfolding e ns [unfolded e, symmetric]
    proof (rule remove_entry [OF wf k n(2,1) _ Cons.prems(2)])
      assume "store_wf (dir @ BACKSLASH # n) (store_after S done)"
      moreover have "has_dir T (dir @ BACKSLASH # n)"
        using calculation Cons.prems(2) by (auto simp: store_wf_def has_dir_def partly_discarded_def)
      ultimately show "\<exists>calls. RemoveTreeRecursive os (dir @ BACKSLASH # n) done = Some (done @ calls) \<and>
          store_after S (done @ calls) = discarded (dir @ BACKSLASH # n) (store_after S done)"
        using sub Cons.prems(2) by blast
    qed auto
    from Cons.IH [OF es calls(2)] calls(1) show ?thesis by (metis append.assoc)
  qed
qed

text \<open>The whole directory, by induction on what is below it.\<close>

lemma remove_tree:
  assumes os: "lists_store os S"
  shows "store_wf dir (store_after S done) \<Longrightarrow>
    \<exists>calls. RemoveTreeRecursive os dir done = Some (done @ calls) \<and>
      store_after S (done @ calls) = discarded dir (store_after S done)"
proof (induction "length (filter (\<lambda>(p, k). below dir p) (store_after S done))" arbitrary: dir "done" rule: less_induct)
  case less
  let ?T = "store_after S done"
  have children: "lists_children ?T dir ([] @ dir_entries os done dir)"
    using os less.prems by (auto simp: lists_store_def store_wf_def)
  have "\<exists>calls. RemoveTree_loop os dir (dir_entries os done dir) done = Some (done @ calls) \<and>
      store_after S (done @ calls) = discarded dir ?T"
  proof (rule remove_entries [OF less.prems _ children])
    fix n before ns
    let ?c = "dir @ BACKSLASH # n"
    assume "has_dir ?T ?c" and now: "store_after S before = partly_discarded dir ns ?T"
      and wf: "store_wf ?c (store_after S before)"
    then obtain k where k: "(?c, k) \<in> set ?T" by (auto simp: has_dir_def)
    from now have "length (filter (\<lambda>(p, k). below ?c p) (store_after S before)) < length (filter (\<lambda>(p, k). below dir p) ?T)"
      using le_less_trans [OF length_filter_filter fewer_below_child [OF k]] unfolding partly_discarded_def by fastforce
    with less.hyps wf show "\<exists>calls. RemoveTreeRecursive os ?c before = Some (before @ calls) \<and>
        store_after S (before @ calls) = discarded ?c (store_after S before)" by blast
  qed (simp add: partly_discarded_none)
  then show ?case by (simp add: RemoveTreeRecursive_def)
qed


lemma find_last_of_sep: "BACKSLASH \<notin> set n \<Longrightarrow> find_last_of (d @ BACKSLASH # n) {BACKSLASH} = Some (length d)"
  by (induction d) (simp_all add: find_last_of_None split: option.split)


section \<open>Property\<close>

text \<open>
  C28: after the action the cleanup discards of the backing store what can be removed, and nothing else. It
  returns; every file, also a read-only one, and every directory in the wrapper directory of the store
  is gone with the wrapper itself, and no other entry is touched. What is left behind is exactly what the calls
  fail on, that is directory links, held files, and held or read-only directories, with the directories above.
\<close>
theorem overlay_discarded:
  assumes os: "lists_store os S"
    and wf: "store_wf wrapper (store_after S done)" "plain_name n"
      "has_dir (store_after S done) (wrapper @ BACKSLASH # n)"
    and alone: "\<And>p k. (p, k) \<in> set (store_after S done) \<Longrightarrow> below wrapper p \<Longrightarrow>
      at_or_below (wrapper @ BACKSLASH # n) p"
  shows "\<exists>calls. CleanupWriteOverlay os (wrapper @ BACKSLASH # n) done = Some (done @ calls) \<and>
    store_after S (done @ calls) = discarded wrapper (store_after S done)"
proof -
  let ?T = "store_after S done" and ?root = "wrapper @ BACKSLASH # n"
  have part: "partly_discarded wrapper {n} ?T = discarded ?root ?T"
    using discard_child [of n "{}" wrapper ?T] wf(2) by (simp add: partly_discarded_none)
  have "store_wf ?root ?T"
    using store_wf_child [OF wf(1,3), of "{}"] wf(2) by (simp add: partly_discarded_none)
  then obtain calls where calls: "RemoveTreeRecursive os ?root done = Some (done @ calls)"
    "store_after S (done @ calls) = discarded ?root ?T" using remove_tree [OF os] by blast
  have sep: "find_last_of ?root {BACKSLASH} = Some (length wrapper)"
    using wf(2) find_last_of_sep by (simp add: plain_name_def)
  have "m = n" if "(wrapper @ BACKSLASH # m, l) \<in> set ?T" "plain_name m" for m l
  proof -
    have "at_or_below ?root (wrapper @ BACKSLASH # m)" using alone [OF that(1)] by (auto simp: below_iff)
    from child_unique [OF this at_or_below_refl] show ?thesis using that(2) wf(2) by (simp add: plain_name_def)
  qed
  then have "removal (RemoveDir wrapper) (discarded ?root ?T) = discarded wrapper ?T"
    unfolding part [symmetric] using wf(2) by (intro remove_dir [OF wf(1)]) auto
  then show ?thesis
    using calls by (intro exI [of _ "calls @ [RemoveDir wrapper]"]) (simp add: CleanupWriteOverlay_def sep)
qed

text \<open>A system whose listings are those of a store.\<close>

fun kind_attrs :: "entry_kind \<Rightarrow> u32" where
  "kind_attrs FileEntry = FILE_ATTRIBUTE_NORMAL"
| "kind_attrs ReadOnlyFile = FILE_ATTRIBUTE_READONLY"
| "kind_attrs HeldFile = FILE_ATTRIBUTE_NORMAL"
| "kind_attrs DirEntry = FILE_ATTRIBUTE_DIRECTORY"
| "kind_attrs HeldDir = FILE_ATTRIBUTE_DIRECTORY"
| "kind_attrs LinkEntry = FILE_ATTRIBUTE_DIRECTORY OR FILE_ATTRIBUTE_REPARSE_POINT"

definition store_listing :: "store \<Rightarrow> os_log \<Rightarrow> wstr \<Rightarrow> (wstr \<times> u32) list option" where
  "store_listing S done dir =
     Some (map (\<lambda>(p, k). (drop (Suc (length dir)) p, kind_attrs k))
        (filter (\<lambda>(p, k). below dir p \<and> plain_name (drop (Suc (length dir)) p)) (store_after S done)))"

lemma real_directory_kind: "real_directory (kind_attrs k) \<longleftrightarrow> is_dir k"
  by (cases k) (simp_all add: real_directory_def FILE_ATTRIBUTE_DIRECTORY_def FILE_ATTRIBUTE_REPARSE_POINT_def
      FILE_ATTRIBUTE_NORMAL_def)

definition store_os :: "store \<Rightarrow> launcher_os" where
  "store_os S =
     \<lparr>os_tempPath = (\<lambda>n. (0, [])), os_processId = 7, os_tickCount = 9,
      os_createOutput = (\<lambda>done p. Some 1), os_createDirectory = (\<lambda>done p. None), os_exists = (\<lambda>p. True),
      os_content = (\<lambda>p. None), os_listing = store_listing S, os_moduleFileName = (\<lambda>n. (0, [])),
      os_multiByte = (\<lambda>w n. (length w, map ucast w)), os_stdHandles = (1, 2, 3), os_fileType = (\<lambda>h. (1, 0)),
      os_openNul = (\<lambda>r. 4), os_createJob = True, os_createProcess = (\<lambda>done c d dll. True),
      os_copyPayload = (\<lambda>done p. True), os_assign = (\<lambda>done. True), os_wait = (\<lambda>done ms. WaitObject0),
      os_exitCode = (\<lambda>done. Some 0), os_job = (\<lambda>done. \<lparr>job_acct = None, job_peakMemory = None\<rparr>)\<rparr>"

lemma distinct_store_after: "distinct (map fst S) \<Longrightarrow> distinct (map fst (store_after S done))"
proof (induction "done" arbitrary: S)
  case (Cons c "done")
  have "distinct (map fst (removal c S))" using Cons.prems by (cases c) (auto simp: distinct_map_filter comp_def split_beta')
  then show ?case using Cons.IH by simp
qed simp

lemma distinct_listing:
  assumes "distinct (map fst T)"
  shows "distinct (map (\<lambda>(p, k). drop (Suc (length dir)) p)
    (filter (\<lambda>(p, k). below dir p \<and> plain_name (drop (Suc (length dir)) p)) T))"
proof -
  let ?P = "\<lambda>p. below dir p \<and> plain_name (drop (Suc (length dir)) p)"
  have "map (\<lambda>(p, k). drop (Suc (length dir)) p) (filter (\<lambda>(p, k). ?P p) T) =
      map (drop (Suc (length dir))) (filter ?P (map fst T))"
    by (simp add: filter_map comp_def split_beta')
  moreover have "inj_on (drop (Suc (length dir))) {p. ?P p}" by (auto simp: inj_on_def below_iff)
  ultimately show ?thesis using assms by (auto simp: distinct_map intro: inj_on_subset)
qed

lemma lists_store_os:
  assumes "distinct (map fst S)"
  shows "lists_store (store_os S) S"
proof -
  have "lists_children T dir (the (store_listing S done dir))" if T: "T = store_after S done" for dir T "done"
  proof -
    let ?es = "the (store_listing S done dir)"
    have es: "(n, a) \<in> set ?es \<longleftrightarrow> plain_name n \<and> (\<exists>k. (dir @ BACKSLASH # n, k) \<in> set T \<and> a = kind_attrs k)" for n a
      by (force simp: store_listing_def T [symmetric] below_iff)
    have dist: "distinct (map fst T)" unfolding T by (rule distinct_store_after [OF assms])
    have "distinct (map fst ?es)"
      using distinct_listing [OF dist, of dir] by (simp add: store_listing_def T [symmetric] comp_def split_beta')
    moreover have "n \<in> fst ` set ?es" if "(dir @ BACKSLASH # n, k) \<in> set T" "plain_name n" for n k
      using es [of n "kind_attrs k"] that by force
    moreover have "plain_name n \<and> (\<exists>k. (dir @ BACKSLASH # n, k) \<in> set T \<and> (real_directory a \<longleftrightarrow> is_dir k))"
      if "(n, a) \<in> set ?es" for n a
      using es [of n a, THEN iffD1, OF that] real_directory_kind by metis
    ultimately show ?thesis unfolding lists_children_def split_paired_all by fastforce
  qed
  then show ?thesis by (simp add: lists_store_def dir_entries_def store_os_def store_listing_def)
qed

definition example_store :: store where
  "example_store =
     [(wide ''t'', DirEntry), (wide ''t'' @ BACKSLASH # wide ''w'', DirEntry),
      (wide ''t'' @ BACKSLASH # wide ''w'' @ BACKSLASH # wide ''o'', DirEntry),
      (wide ''t'' @ BACKSLASH # wide ''w'' @ BACKSLASH # wide ''o'' @ BACKSLASH # wide ''f'', FileEntry),
      (wide ''t'' @ BACKSLASH # wide ''w'' @ BACKSLASH # wide ''o'' @ BACKSLASH # wide ''d'', DirEntry),
      (wide ''t'' @ BACKSLASH # wide ''w'' @ BACKSLASH # wide ''o'' @ BACKSLASH # wide ''d'' @ BACKSLASH # wide ''g'', ReadOnlyFile),
      (wide ''t'' @ BACKSLASH # wide ''wx'', FileEntry)]"

lemma parent_found:
  assumes "list_all (\<lambda>(p, k). below dir p \<longrightarrow>
      (case find_last_of p {BACKSLASH} of
         None \<Rightarrow> False
       | Some i \<Rightarrow> (take i p, DirEntry) \<in> set S \<and> at_or_below dir (take i p) \<and> plain_name (drop (Suc i) p))) S"
    and "(p, k) \<in> set S" "below dir p"
  shows "\<exists>d n. p = d @ BACKSLASH # n \<and> (d, DirEntry) \<in> set S \<and> at_or_below dir d \<and> plain_name n"
proof -
  obtain i where i: "find_last_of p {BACKSLASH} = Some i" "(take i p, DirEntry) \<in> set S"
    "at_or_below dir (take i p)" "plain_name (drop (Suc i) p)"
    using assms by (fastforce simp: list_all_iff split: option.splits)
  have "p = take i p @ BACKSLASH # drop (Suc i) p" using find_last_of_Some [OF i(1)] id_take_nth_drop [of i p] by auto
  with i show ?thesis by blast
qed

theorem overlay_discarded_witness:
  "\<exists>calls. CleanupWriteOverlay (store_os example_store) (wide ''t'' @ BACKSLASH # wide ''w'' @ BACKSLASH # wide ''o'') [] =
       Some calls \<and>
     store_after example_store calls = [(wide ''t'', DirEntry), (wide ''t'' @ BACKSLASH # wide ''wx'', FileEntry)]"
proof -
  let ?w = "wide ''t'' @ BACKSLASH # wide ''w''" and ?n = "wide ''o''"
  have "lists_store (store_os example_store) example_store" by (rule lists_store_os) code_simp
  moreover have "store_wf ?w (store_after example_store [])"
  proof -
    have "\<exists>d n. p = d @ BACKSLASH # n \<and> (d, DirEntry) \<in> set example_store \<and> at_or_below ?w d \<and> plain_name n"
      if "(p, k) \<in> set example_store" "below ?w p" for p k
      using that by (intro parent_found) code_simp
    moreover have "distinct (map fst example_store)" "(?w, DirEntry) \<in> set example_store" by code_simp+
    ultimately show ?thesis using has_dirI [of _ example_store] unfolding store_wf_def store_after_simps by blast
  qed
  moreover have "plain_name ?n" by code_simp
  moreover have "has_dir (store_after example_store []) (?w @ BACKSLASH # ?n)" by (rule has_dirI) code_simp
  moreover have "at_or_below (?w @ BACKSLASH # ?n) p"
    if "(p, k) \<in> set (store_after example_store [])" "below ?w p" for p k
  proof -
    have "list_all (\<lambda>(p, k). below ?w p \<longrightarrow> at_or_below (?w @ BACKSLASH # ?n) p) example_store" by code_simp
    with that show ?thesis by (auto simp: list_all_iff)
  qed
  moreover have "discarded ?w (store_after example_store []) =
      [(wide ''t'', DirEntry), (wide ''t'' @ BACKSLASH # wide ''wx'', FileEntry)]" by code_simp
  ultimately show ?thesis
    using overlay_discarded [of "store_os example_store" example_store ?w "[]" ?n] by simp
qed

end
