(* ===== verification/Launcher.thy ===== *)
theory Launcher
  imports Launch_Scopes Launch_Files Payload_Injector Command_Line Network_Policy
begin

text \<open>
  The launcher's main function (\<open>src/main.cpp\<close>, \<open>wmain\<close>): the checks before a process exists, the
  manifest, the environment and the handles of the child, the child itself, and what is done once it
  has ended. The result is the way the program ends and the log of what it did to the system; the
  outer \<open>None\<close> is a run that does not return. The debug log is left out but for its opening.
\<close>

section \<open>Before the child\<close>

definition open_debug :: "launcher_os \<Rightarrow> Options \<Rightarrow> os_log \<Rightarrow> (launcher_exit + unit) \<times> os_log" where
  "open_debug os opts done =
     (if o_debugPath opts = [] then (Inr (), done)
      else (case os_createOutput os done (o_debugPath opts) of
              None \<Rightarrow> (Inl (Die (wide ''cannot open debug file: '' @ o_debugPath opts)), done @ [CreateOutput (o_debugPath opts)])
            | Some h \<Rightarrow> (Inr (), done @ [CreateOutput (o_debugPath opts)])))"

definition normalize_tool :: "Options \<Rightarrow> Options" where
  "normalize_tool opts =
     opts\<lparr>o_args := map (\<lambda>c. if c = SLASH then BACKSLASH else c) (hd (o_args opts)) # tl (o_args opts)\<rparr>"

definition foreign_machine :: "launcher_os \<Rightarrow> wstr \<Rightarrow> bool" where
  "foreign_machine os toolPath =
     (case PeMachine (os_content os) toolPath of None \<Rightarrow> False | Some machine \<Rightarrow> machine \<noteq> IMAGE_FILE_MACHINE_AMD64)"

definition dll_path :: "launcher_os \<Rightarrow> wstr" where
  "dll_path os = ExeDir (os_moduleFileName os) @ BACKSLASH # wide ''DetoursServices.dll''"

definition truncate_trace :: "launcher_os \<Rightarrow> Options \<Rightarrow> os_log \<Rightarrow> (launcher_exit + unit) \<times> os_log" where
  "truncate_trace os opts done =
     (if o_tracePath opts = [] then (Inr (), done)
      else (case os_createOutput os done (o_tracePath opts) of
              None \<Rightarrow> (Inl (Die (wide ''cannot open trace file: '' @ o_tracePath opts)), done @ [CreateOutput (o_tracePath opts)])
            | Some h \<Rightarrow> (Inr (), done @ [CreateOutput (o_tracePath opts)])))"


section \<open>The manifest\<close>

text \<open>The scopes, with the work on the file system between them; the result is the builder and the root of the overlay.\<close>

definition overlay_manifest :: "launcher_os \<Rightarrow> buffer_api \<Rightarrow> Options \<Rightarrow> ManifestBuilder \<Rightarrow> os_log \<Rightarrow>
    (launcher_exit + ManifestBuilder \<times> wstr) \<times> os_log" where
  "overlay_manifest os fullPathName opts mb done =
     (if \<not> o_writeOverlay opts then (Inr (mb, []), done)
      else (let (root, done) = SetupWriteOverlayRoot os (o_overlayDir opts) done
            in if root = [] then (Inl (Die (wide ''cannot create write-overlay backing store'')), done)
               else (case add_or_die fullPathName (overlay_scopes (Some root)) mb of
                       Inl e \<Rightarrow> (Inl e, done)
                     | Inr mb \<Rightarrow>
                         (Inr (SetOverlaySourceRoot (o_workingDir opts) (SetWriteOverlayRoot root mb), root), done))))"

definition scoped_manifest :: "launcher_os \<Rightarrow> buffer_api \<Rightarrow> Options \<Rightarrow> wstr \<Rightarrow> bytes \<Rightarrow> os_log \<Rightarrow>
    (launcher_exit + ManifestBuilder \<times> wstr) \<times> os_log" where
  "scoped_manifest os fullPathName opts toolPath dllAnsi done =
     (let mb = new_ManifestBuilder (manifest_flags opts) (manifest_extraFlags opts) dllAnsi dllAnsi;
          mb = SetReportPath (o_tracePath opts) mb;
          mb = AddRootScope Policy_MaskAll (Policy_AllowRead OR Policy_AllowReadIfNonExistent) mb
      in case add_or_die fullPathName (path_scopes opts toolPath) mb of
           Inl e \<Rightarrow> (Inl e, done)
         | Inr mb \<Rightarrow>
             (let done = done @ map CreateDir (output_dirs opts)
              in case add_or_die fullPathName (output_dir_scopes opts) mb of
                   Inl e \<Rightarrow> (Inl e, done)
                 | Inr mb \<Rightarrow> overlay_manifest os fullPathName opts mb done))"

text \<open>The network policy and the current directory.\<close>

definition set_network_policy :: "Options \<Rightarrow> os_log \<Rightarrow> os_log" where
  "set_network_policy opts done =
     (if o_networkPolicy opts = 1 then done @ [SetEnvironment (wide ''BAZEL_SANDBOX_NETWORK'') (wide ''loopback'')]
      else if o_networkPolicy opts = 2 then done @ [SetEnvironment (wide ''BAZEL_SANDBOX_NETWORK'') (wide ''block'')]
      else done)"

definition redirect :: "launcher_os \<Rightarrow> wstr \<Rightarrow> u64 \<Rightarrow> os_log \<Rightarrow> (launcher_exit + u64) \<times> os_log" where
  "redirect os path h done = (if path = [] then (Inr h, done) else OpenOutputFile os path done)"

text \<open>The handles for input, output and errors.\<close>

definition child_handles :: "launcher_os \<Rightarrow> Options \<Rightarrow> os_log \<Rightarrow> (launcher_exit + u64 \<times> u64 \<times> u64) \<times> os_log" where
  "child_handles os opts done =
     (let (hStdIn, hStdOut, hStdErr) = os_stdHandles os
      in case redirect os (o_stdoutPath opts) hStdOut done of
           (Inl e, done) \<Rightarrow> (Inl e, done)
         | (Inr hStdOut, done) \<Rightarrow>
             (case redirect os (o_stderrPath opts) hStdErr done of
                (Inl e, done) \<Rightarrow> (Inl e, done)
              | (Inr hStdErr, done) \<Rightarrow>
                  (let ((hStdIn, nulIn), done) = PrepareStdHandle os hStdIn True done;
                       ((hStdOut, nulOut), done) = PrepareStdHandle os hStdOut False done;
                       ((hStdErr, nulErr), done) = PrepareStdHandle os hStdErr False done
                   in (Inr (hStdIn, hStdOut, hStdErr), done))))"


section \<open>The child\<close>

definition INFINITE :: u32 where "INFINITE = 0xFFFFFFFF"

definition wait_ms :: "u32 \<Rightarrow> u32" where
  "wait_ms timeoutSecs = (if timeoutSecs = kInfiniteTime then INFINITE else timeoutSecs * 1000)"

text \<open>From the wait to the exit code.\<close>

definition await_child :: "launcher_os \<Rightarrow> Options \<Rightarrow> os_log \<Rightarrow> u32 \<times> os_log" where
  "await_child os opts done =
     (let waitMs = wait_ms (o_timeoutSecs opts);
          wr = os_wait os done waitMs;
          done = done @ [WaitProcess waitMs]
      in if wr = WaitTimeout
         then (let done = (if o_killDelaySecs opts \<noteq> kInfiniteTime
                           then done @ [WaitProcess (o_killDelaySecs opts * 1000)] else done);
                   done = done @ [if os_createJob os then TerminateJob 1 else TerminateProcess 1];
                   done = done @ [WaitProcess 5000]
               in (1, done))
         else (case os_exitCode os done of None \<Rightarrow> 0 | Some exitCode \<Rightarrow> exitCode, done))"

definition finish_child :: "launcher_os \<Rightarrow> Options \<Rightarrow> wstr \<Rightarrow> os_log \<Rightarrow> os_log option" where
  "finish_child os opts writeOverlayRoot done =
     (let done = (case WriteStats (\<lambda>p. os_createOutput os done p \<noteq> None) (o_statsPath opts)
                         (if os_createJob os then Some (os_job os done) else None) of
                    None \<Rightarrow> done
                  | Some msg \<Rightarrow> done @ [WriteFile (o_statsPath opts) msg]);
          cleaned = (if o_writeOverlay opts \<and> o_debugPath opts = []
                     then CleanupWriteOverlay os writeOverlayRoot done else Some done)
      in map_option (\<lambda>done. if os_createJob os then done @ [CloseJob] else done) cleaned)"

definition run_child :: "launcher_os \<Rightarrow> Options \<Rightarrow> bytes \<Rightarrow> bytes \<Rightarrow> wstr \<Rightarrow> os_log \<Rightarrow> (u32 \<times> os_log) option" where
  "run_child os opts dllAnsi payload writeOverlayRoot done =
     (let cmdLine = BuildChildCommandLine (o_args opts);
          created = os_createProcess os done cmdLine (o_workingDir opts) dllAnsi;
          done = done @ [CreateSuspended cmdLine (o_workingDir opts) dllAnsi created]
      in if \<not> created then Some (2, done)
         else (let copied = os_copyPayload os done payload;
                   done = done @ [CopyPayload payload copied]
               in if \<not> copied then Some (2, done @ TerminateProcess 1 # (if os_createJob os then [CloseJob] else []))
                  else (let done = (if os_createJob os then done @ [AssignToJob (os_assign os done)] else done);
                            (exitCode, done) = await_child os opts (done @ [ResumeThread])
                        in map_option (\<lambda>done. (exitCode, done)) (finish_child os opts writeOverlayRoot done))))"

text \<open>From the trace file to the end.\<close>

definition launch :: "launcher_os \<Rightarrow> buffer_api \<Rightarrow> Options \<Rightarrow> wstr \<Rightarrow> bytes \<Rightarrow> os_log \<Rightarrow>
    ((launcher_exit + u32) \<times> os_log) option" where
  "launch os fullPathName opts toolPath dllAnsi done =
     (case truncate_trace os opts done of
        (Inl e, done) \<Rightarrow> Some (Inl e, done)
      | (Inr u, done) \<Rightarrow>
          (case scoped_manifest os fullPathName opts toolPath dllAnsi done of
             (Inl e, done) \<Rightarrow> Some (Inl e, done)
           | (Inr (mb, writeOverlayRoot), done) \<Rightarrow>
               (case Build mb of
                  None \<Rightarrow> None
                | Some manifest \<Rightarrow>
                    (let payload = launcher_wrapper manifest;
                         done = set_network_policy opts done @ [SetCurrentDir (o_workingDir opts)]
                     in case child_handles os opts done of
                          (Inl e, done) \<Rightarrow> Some (Inl e, done)
                        | (Inr handles, done) \<Rightarrow>
                            map_option (\<lambda>(exitCode, done). (Inr exitCode, done))
                              (run_child os opts dllAnsi payload writeOverlayRoot done)))))"

definition wmain :: "launcher_os \<Rightarrow> options_api \<Rightarrow> wstr list \<Rightarrow> ((launcher_exit + u32) \<times> os_log) option" where
  "wmain os api argv =
     (case ParseOptions api argv of
        Inl e \<Rightarrow> Some (Inl e, [])
      | Inr opts \<Rightarrow>
          (case open_debug os opts [] of
             (Inl e, done) \<Rightarrow> Some (Inl e, done)
           | (Inr u, done) \<Rightarrow>
               (let opts = normalize_tool opts
                in case ToAbsolute (oa_fullPathName api) (hd (o_args opts)) of
                     Inl e \<Rightarrow> Some (Inl e, done)
                   | Inr toolPath \<Rightarrow>
                       if foreign_machine os toolPath then Some (Inr 3, done)
                       else if \<not> os_exists os (dll_path os)
                       then Some (Inl (Die (wide ''cannot find DetoursServices.dll next to BazelSandbox.exe'')), done)
                       else launch os (oa_fullPathName api) opts toolPath (ToAnsi (os_multiByte os) (dll_path os)) done)))"


section \<open>The life of a child\<close>

text \<open>
  The states that the process of the action goes through, and what each call does to it. A child that
  has the DLL in its imports is \<open>Suspended\<close>; with the payload it is \<open>Sealed\<close>, and only a sealed child may
  be resumed. The last component says whether it is in the job, and so ends with it.
\<close>

datatype child_state =
    NoChild
  | Suspended bytes
  | Sealed bytes bytes bool
  | Running bytes bytes bool
  | Ended

fun about_child :: "os_call \<Rightarrow> bool" where
  "about_child (CreateSuspended cmd dir dll ok) = True"
| "about_child (CopyPayload payload ok) = True"
| "about_child (AssignToJob ok) = True"
| "about_child ResumeThread = True"
| "about_child (TerminateProcess code) = True"
| "about_child (TerminateJob code) = True"
| "about_child CloseJob = True"
| "about_child call = False"

fun in_job :: "child_state \<Rightarrow> bool" where
  "in_job (Sealed dll payload j) = j"
| "in_job (Running dll payload j) = j"
| "in_job s = False"

inductive child_step :: "child_state \<Rightarrow> os_call \<Rightarrow> child_state \<Rightarrow> bool" where
  other: "\<not> about_child call \<Longrightarrow> child_step s call s"
| create: "child_step NoChild (CreateSuspended cmd dir dll True) (Suspended dll)"
| no_create: "child_step NoChild (CreateSuspended cmd dir dll False) NoChild"
| seal: "child_step (Suspended dll) (CopyPayload payload True) (Sealed dll payload False)"
| no_seal: "child_step (Suspended dll) (CopyPayload payload False) (Suspended dll)"
| assign: "child_step (Sealed dll payload j) (AssignToJob ok) (Sealed dll payload ok)"
| resume: "child_step (Sealed dll payload j) ResumeThread (Running dll payload j)"
| kill: "child_step s (TerminateProcess code) Ended"
| kill_job: "child_step s (TerminateJob code) (if in_job s then Ended else s)"
| close_job: "child_step s CloseJob (if in_job s then Ended else s)"

inductive child_run :: "child_state \<Rightarrow> os_log \<Rightarrow> child_state \<Rightarrow> bool" where
  child_run_Nil: "child_run s [] s"
| child_run_Cons: "child_step s call s' \<Longrightarrow> child_run s' calls s'' \<Longrightarrow> child_run s (call # calls) s''"

inductive_simps child_step_simps:
  "child_step s (CreateSuspended cmd dir dll ok) s'"
  "child_step s (CopyPayload payload ok) s'"
  "child_step s (AssignToJob ok) s'"
  "child_step s ResumeThread s'"
  "child_step s (TerminateProcess code) s'"
  "child_step s (TerminateJob code) s'"
  "child_step s CloseJob s'"

inductive_simps child_run_simps: "child_run s [] s'" "child_run s (call # calls) s'"

lemma child_run_append:
  "child_run s (xs @ ys) s'' \<longleftrightarrow> (\<exists>s'. child_run s xs s' \<and> child_run s' ys s'')"
  by (induction xs arbitrary: s) (auto simp: child_run_simps)

lemma child_step_other: "\<not> about_child call \<Longrightarrow> child_step s call s' \<longleftrightarrow> s' = s"
  by (auto intro: child_step.other elim: child_step.cases)

lemma child_run_other: "list_all (\<lambda>call. \<not> about_child call) calls \<Longrightarrow> child_run s calls s' \<longleftrightarrow> s' = s"
  by (induction calls) (auto simp: child_run_simps child_step_other)


section \<open>Quiet steps\<close>

text \<open>Most of the launcher does nothing to the child and nothing to the environment.\<close>

fun sets_environment :: "os_call \<Rightarrow> bool" where
  "sets_environment (SetEnvironment name v) = True"
| "sets_environment call = False"

definition quiet :: "os_log \<Rightarrow> os_log \<Rightarrow> bool" where
  "quiet done done' \<longleftrightarrow>
     (\<exists>calls. done' = done @ calls \<and> list_all (\<lambda>call. \<not> about_child call \<and> \<not> sets_environment call) calls)"

lemma quiet_refl [simp]: "quiet done done"
  by (simp add: quiet_def)

lemma quiet_trans: "quiet a b \<Longrightarrow> quiet b c \<Longrightarrow> quiet a c"
  by (auto simp: quiet_def)

lemma quiet_snoc: "\<not> about_child call \<Longrightarrow> \<not> sets_environment call \<Longrightarrow> quiet done (done @ [call])"
  by (simp add: quiet_def)

lemma quiet_open_debug: "open_debug os opts done = (r, done') \<Longrightarrow> quiet done done'"
  by (auto simp: open_debug_def quiet_snoc split: if_splits option.splits)

lemma quiet_truncate_trace: "truncate_trace os opts done = (r, done') \<Longrightarrow> quiet done done'"
  by (auto simp: truncate_trace_def quiet_snoc split: if_splits option.splits)

lemma quiet_create: "create_if_absent os dir done = (ok, done') \<Longrightarrow> quiet done done'"
  by (auto simp: create_if_absent_def Let_def quiet_snoc)

lemma quiet_setup_overlay: "SetupWriteOverlayRoot os dir done = (root, done') \<Longrightarrow> quiet done done'"
  by (auto simp: SetupWriteOverlayRoot_def Let_def dest!: quiet_create split: if_splits prod.splits option.splits
      intro: quiet_trans)

lemma quiet_overlay_manifest: "overlay_manifest os fpn opts mb done = (r, done') \<Longrightarrow> quiet done done'"
  by (auto simp: overlay_manifest_def dest!: quiet_setup_overlay split: if_splits prod.splits sum.splits)

lemma quiet_create_dirs: "quiet done (done @ map CreateDir dirs)"
  by (simp add: quiet_def list_all_iff)

lemma quiet_scoped_manifest: "scoped_manifest os fpn opts toolPath dll done = (r, done') \<Longrightarrow> quiet done done'"
  by (auto simp: scoped_manifest_def Let_def dest!: quiet_overlay_manifest split: sum.splits
      intro: quiet_trans quiet_create_dirs)

lemma quiet_redirect: "redirect os path h done = (r, done') \<Longrightarrow> quiet done done'"
  by (auto simp: redirect_def OpenOutputFile_def quiet_snoc split: if_splits option.splits)

lemma quiet_std_handle: "PrepareStdHandle os h forRead done = (r, done') \<Longrightarrow> quiet done done'"
  by (auto simp: PrepareStdHandle_def Let_def quiet_snoc split: if_splits prod.splits)

lemma quiet_child_handles: "child_handles os opts done = (r, done') \<Longrightarrow> quiet done done'"
  by (auto simp: child_handles_def Let_def dest!: quiet_redirect quiet_std_handle split: prod.splits sum.splits)
    (meson quiet_trans)+

lemma quiet_remove_loop:
  assumes "RemoveTree_loop os dir entries done = Some done'"
  shows "quiet done done'"
proof (rule RemoveTree_loop.raw_induct [where P = "\<lambda>os dir entries before after. quiet before after", OF _ assms])
  fix loop os dir entries before after
  assume IH: "\<And>os dir entries before after. loop os dir entries before = Some after \<Longrightarrow> quiet before after"
    and step: "(case entries of
        [] \<Rightarrow> Some (before @ [RemoveDir dir])
      | (name, attrs) # entries \<Rightarrow>
          if name = wide ''.'' \<or> name = wide ''..'' then loop os dir entries before
          else if real_directory attrs
          then Option.bind (loop os (dir @ BACKSLASH # name) (dir_entries os before (dir @ BACKSLASH # name)) before)
                 (\<lambda>done. loop os dir entries done)
          else loop os dir entries
                 (before @ [SetAttributes (dir @ BACKSLASH # name) FILE_ATTRIBUTE_NORMAL,
                            RemoveFile (dir @ BACKSLASH # name)])) = Some after"
  have two: "quiet before (before @ [SetAttributes p a, RemoveFile p])" for p a by (simp add: quiet_def)
  show "quiet before after"
    using step
    by (auto split: list.splits if_splits simp: bind_eq_Some_conv quiet_snoc dest!: IH)
      (use two quiet_trans in blast)+
qed

lemma quiet_cleanup: "CleanupWriteOverlay os root done = Some done' \<Longrightarrow> quiet done done'"
  by (auto simp: CleanupWriteOverlay_def RemoveTreeRecursive_def dest!: quiet_remove_loop split: if_splits option.splits)
    (auto intro: quiet_trans [OF _ quiet_snoc])


lemma quiet_run: "quiet done done' \<Longrightarrow> child_run s done s' \<Longrightarrow> child_run s done' s'"
  by (auto simp: quiet_def child_run_append child_run_other list_all_iff)


section \<open>What happens to the child\<close>

text \<open>The calls from the resumption on leave the child running or, if they can, end it.\<close>

fun starts_child :: "os_call \<Rightarrow> bool" where
  "starts_child (CreateSuspended cmd dir dll ok) = True"
| "starts_child (CopyPayload payload ok) = True"
| "starts_child ResumeThread = True"
| "starts_child call = False"

lemma await_child_run:
  assumes "await_child os opts done = (code, done')"
  shows "\<exists>calls. done' = done @ calls \<and> list_all (\<lambda>call. \<not> starts_child call) calls \<and>
    (\<exists>s. child_run (Running dll payload j) calls s \<and> (s = Ended \<or> s = Running dll payload j))"
  using assms
  by (auto simp: await_child_def Let_def child_run_simps child_step_simps child_step_other split: if_splits option.splits)

lemma finish_child_run:
  assumes "finish_child os opts root done = Some done'"
  obtains mid where "quiet done mid" "done' = mid @ (if os_createJob os then [CloseJob] else [])"
proof -
  let ?stats = "WriteStats (\<lambda>p. os_createOutput os done p \<noteq> None) (o_statsPath opts)
    (if os_createJob os then Some (os_job os done) else None)"
  let ?done = "case ?stats of None \<Rightarrow> done | Some msg \<Rightarrow> done @ [WriteFile (o_statsPath opts) msg]"
  have q: "quiet done ?done" by (auto simp: quiet_snoc split: option.split)
  obtain mid where mid: "(if o_writeOverlay opts \<and> o_debugPath opts = [] then CleanupWriteOverlay os root ?done
      else Some ?done) = Some mid" "done' = (if os_createJob os then mid @ [CloseJob] else mid)"
    using assms unfolding finish_child_def Let_def by (auto simp del: not_None_eq)
  have "quiet ?done mid" using mid(1) by (auto dest: quiet_cleanup split: if_splits)
  with q have "quiet done mid" by (rule quiet_trans)
  with mid(2) that show thesis by (cases "os_createJob os") simp_all
qed

lemma finish_child_extends: "finish_child os opts root done = Some done' \<Longrightarrow> \<exists>calls. done' = done @ calls"
  by (erule finish_child_run) (auto simp: quiet_def)

text \<open>The three ways a launch can go, by what the system answers.\<close>

lemma run_child_cases:
  assumes "run_child os opts dll payload root done = Some (code, done')"
  defines "cmd \<equiv> BuildChildCommandLine (o_args opts)"
  obtains (not_created) "code = 2" "done' = done @ [CreateSuspended cmd (o_workingDir opts) dll False]"
  | (not_sealed) "code = 2"
      "done' = done @ [CreateSuspended cmd (o_workingDir opts) dll True, CopyPayload payload False, TerminateProcess 1] @
        (if os_createJob os then [CloseJob] else [])"
  | (resumed) before after where
      "before = done @ [CreateSuspended cmd (o_workingDir opts) dll True, CopyPayload payload True]"
      "await_child os opts (before @ (if os_createJob os then [AssignToJob (os_assign os before)] else []) @
        [ResumeThread]) = (code, after)"
      "finish_child os opts root after = Some done'"
proof -
  let ?created = "os_createProcess os done cmd (o_workingDir opts) dll"
  let ?b1 = "done @ [CreateSuspended cmd (o_workingDir opts) dll ?created]"
  note run = assms(1) [unfolded run_child_def Let_def, folded cmd_def]
  show thesis
  proof (cases ?created)
    case False
    then show thesis using run not_created by auto
  next
    case created: True
    let ?copied = "os_copyPayload os ?b1 payload"
    let ?before = "?b1 @ [CopyPayload payload ?copied]"
    show thesis
    proof (cases ?copied)
      case False
      then show thesis using run created not_sealed by auto
    next
      case True
      let ?now = "?before @ (if os_createJob os then [AssignToJob (os_assign os ?before)] else [])"
      have "(if os_createJob os then ?before @ [AssignToJob (os_assign os ?before)] else ?before) = ?now" by simp
      then obtain after where "await_child os opts (?now @ [ResumeThread]) = (code, after)"
        "finish_child os opts root after = Some done'"
        using run created True by (auto split: prod.splits)
      then show thesis using resumed [of ?before after] created True by simp
    qed
  qed
qed

text \<open>Hence the states the child goes through, and the one it is left in.\<close>

lemma run_child_run:
  assumes "run_child os opts dll payload root done = Some (code, done')"
  obtains calls s where "done' = done @ calls" "child_run NoChild calls s"
    "s = NoChild \<or> s = Ended \<or> s = Running dll payload False \<and> (\<not> os_createJob os \<or> AssignToJob False \<in> set calls)"
    "ResumeThread \<in> set calls \<longrightarrow> (\<exists>before after j. calls = before @ ResumeThread # after \<and>
       child_run NoChild before (Sealed dll payload j))"
  using assms
proof (cases rule: run_child_cases)
  case not_created
  then show thesis using that by (simp add: child_run_simps child_step_simps)
next
  case not_sealed
  then show thesis using that by (simp add: child_run_simps child_step_simps split: if_splits)
next
  case (resumed before after)
  let ?j = "os_createJob os \<and> os_assign os before"
  let ?assign = "if os_createJob os then [AssignToJob (os_assign os before)] else []"
  let ?close = "if os_createJob os then [CloseJob] else []"
  have start: "child_run NoChild
      [CreateSuspended (BuildChildCommandLine (o_args opts)) (o_workingDir opts) dll True, CopyPayload payload True]
      (Sealed dll payload False)" by (simp add: child_run_simps child_step_simps)
  have sealed: "child_run (Sealed dll payload False) ?assign (Sealed dll payload ?j)"
    by (cases "os_createJob os") (auto simp: child_run_simps child_step_simps)
  have go: "child_run (Sealed dll payload False) (?assign @ [ResumeThread]) (Running dll payload ?j)"
    using sealed unfolding child_run_append by (auto simp: child_run_simps child_step_simps)
  obtain wait s where wait: "after = before @ ?assign @ [ResumeThread] @ wait"
    "child_run (Running dll payload ?j) wait s" "s = Ended \<or> s = Running dll payload ?j"
    using await_child_run [OF resumed(2), of dll payload ?j] by auto
  obtain mid where mid: "quiet after mid" "done' = mid @ ?close" using finish_child_run [OF resumed(3)] .
  then obtain rest where rest: "done' = after @ rest @ ?close" "child_run s rest s"
    by (auto simp: quiet_def child_run_other list_all_iff)
  have close: "child_run s ?close (if ?j then Ended else s)"
    using wait(3) by (auto simp: child_run_simps child_step_simps)
  let ?calls = "[CreateSuspended (BuildChildCommandLine (o_args opts)) (o_workingDir opts) dll True,
      CopyPayload payload True] @ (?assign @ [ResumeThread]) @ wait @ rest @ ?close"
  show thesis
  proof (rule that [of ?calls])
    show "done' = done @ ?calls" using rest(1) wait(1) resumed(1) by simp
    show "child_run NoChild ?calls (if ?j then Ended else s)"
      using start go wait(2) rest(2) close unfolding child_run_append by blast
    show "(if ?j then Ended else s) = NoChild \<or> (if ?j then Ended else s) = Ended \<or>
        (if ?j then Ended else s) = Running dll payload False \<and> (\<not> os_createJob os \<or> AssignToJob False \<in> set ?calls)"
      by (cases "os_createJob os"; cases "os_assign os before") (use wait(3) in simp_all)
    have "child_run NoChild ([CreateSuspended (BuildChildCommandLine (o_args opts)) (o_workingDir opts) dll True,
        CopyPayload payload True] @ ?assign) (Sealed dll payload ?j)"
      using start sealed unfolding child_run_append by blast
    then show "ResumeThread \<in> set ?calls \<longrightarrow> (\<exists>before after j. ?calls = before @ ResumeThread # after \<and>
        child_run NoChild before (Sealed dll payload j))"
      by (intro impI exI [of _ "[CreateSuspended (BuildChildCommandLine (o_args opts)) (o_workingDir opts) dll True,
          CopyPayload payload True] @ ?assign"] exI [of _ "wait @ rest @ ?close"] exI [of _ ?j]) simp
  qed
qed


text \<open>How a launch can go, and a run of the whole program.\<close>

definition no_child :: "os_log \<Rightarrow> os_log \<Rightarrow> bool" where
  "no_child done done' \<longleftrightarrow> (\<exists>calls. done' = done @ calls \<and> list_all (\<lambda>call. \<not> about_child call) calls)"

lemma quiet_no_child: "quiet done done' \<Longrightarrow> no_child done done'"
  by (auto simp: quiet_def no_child_def list_all_iff)

lemma no_child_trans: "no_child a b \<Longrightarrow> no_child b c \<Longrightarrow> no_child a c"
  by (auto simp: no_child_def)

lemma no_child_network: "no_child done (set_network_policy opts done)"
  by (simp add: no_child_def set_network_policy_def)

lemma dies:
  "add_or_die fpn calls mb = Inl e \<Longrightarrow> \<exists>msg. e = Die msg"
  "open_debug os opts done = (Inl e, done') \<Longrightarrow> \<exists>msg. e = Die msg"
  "truncate_trace os opts done = (Inl e, done') \<Longrightarrow> \<exists>msg. e = Die msg"
  "redirect os path h done = (Inl e, done') \<Longrightarrow> \<exists>msg. e = Die msg"
  "ToAbsolute fpn path = Inl e \<Longrightarrow> \<exists>msg. e = Die msg"
proof -
  show "add_or_die fpn calls mb = Inl e \<Longrightarrow> \<exists>msg. e = Die msg"
    by (induction fpn calls mb rule: add_or_die.induct) (auto simp: Let_def split: prod.splits if_splits)
qed (auto simp: open_debug_def truncate_trace_def redirect_def OpenOutputFile_def ToAbsolute_def Let_def
    split: if_splits option.splits prod.splits)

lemma overlay_manifest_dies: "overlay_manifest os fpn opts mb done = (Inl e, done') \<Longrightarrow> \<exists>msg. e = Die msg"
  by (auto simp: overlay_manifest_def dest: dies(1) split: if_splits prod.splits sum.splits)

lemma scoped_manifest_dies: "scoped_manifest os fpn opts toolPath dll done = (Inl e, done') \<Longrightarrow> \<exists>msg. e = Die msg"
  by (auto simp: scoped_manifest_def Let_def dest: dies(1) overlay_manifest_dies split: sum.splits)

lemma child_handles_dies: "child_handles os opts done = (Inl e, done') \<Longrightarrow> \<exists>msg. e = Die msg"
  by (auto simp: child_handles_def Let_def dest: dies(4) split: prod.splits sum.splits)

lemma launch_cases:
  assumes "launch os fpn opts toolPath dll done = Some (res, done')"
  obtains (early) msg where "res = Inl (Die msg)" "no_child done done'"
  | (run) built mb root built' manifest before code where
      "quiet done built" "scoped_manifest os fpn opts toolPath dll built = (Inr (mb, root), built')"
      "Build mb = Some manifest" "quiet (set_network_policy opts built') before"
      "run_child os opts dll (launcher_wrapper manifest) root before = Some (code, done')" "res = Inr code"
      "no_child done before"
proof -
  obtain r built where trace: "truncate_trace os opts done = (r, built)" by fastforce
  note q1 = quiet_truncate_trace [OF trace]
  obtain r2 built' where scoped: "scoped_manifest os fpn opts toolPath dll built = (r2, built')" by fastforce
  have q2: "quiet done built'" using q1 quiet_scoped_manifest [OF scoped] by (rule quiet_trans)
  show thesis
  proof (cases r)
    case (Inl e)
    then show thesis using assms trace early dies(3) [of os opts "done" e built] quiet_no_child [OF q1]
      by (auto simp: launch_def)
  next
    case r: (Inr u)
    show thesis
    proof (cases r2)
      case (Inl e)
      then show thesis
        using assms trace scoped r early scoped_manifest_dies [of os fpn opts toolPath dll built e built'] quiet_no_child [OF q2]
        by (auto simp: launch_def)
    next
      case (Inr m)
      obtain mb root where m: "m = (mb, root)" by fastforce
      let ?set = "set_network_policy opts built' @ [SetCurrentDir (o_workingDir opts)]"
      obtain h before where handles: "child_handles os opts ?set = (h, before)" by fastforce
      have q3: "quiet (set_network_policy opts built') before"
        using quiet_trans [OF quiet_snoc quiet_child_handles [OF handles]] by simp
      obtain manifest where build: "Build mb = Some manifest"
        using assms trace scoped r Inr m by (cases "Build mb") (auto simp: launch_def)
      have before: "no_child done before"
        using quiet_no_child [OF q2] no_child_network quiet_no_child [OF q3] no_child_trans by blast
      show thesis
      proof (cases h)
        case (Inl e)
        with before show thesis
          using assms trace scoped r Inr m build handles Inl early child_handles_dies [of os opts ?set e before]
          by (auto simp: launch_def Let_def)
      next
        case (Inr hs)
        then show thesis
          using assms trace scoped r \<open>r2 = Inr m\<close> m build handles run [OF q1 scoped [unfolded \<open>r2 = Inr m\<close> m] build q3 _ _ before]
          by (auto simp: launch_def Let_def)
      qed
    qed
  qed
qed


text \<open>The parser leaves with a message, or with the usage text on request.\<close>

lemma ParseOptions_leaves:
  assumes "ParseOptions api argv = Inl e"
  shows "e = PrintUsage 0 \<or> (\<exists>msg. e = Die msg)"
proof -
  have expand: "\<exists>msg. e = Die msg" if "ExpandArguments open_file args = Inl e" for open_file args e
    using that by (induction open_file args rule: ExpandArguments.induct) (auto split: if_splits option.splits simp: map_sum_def split: sum.splits)
  have val: "\<exists>msg. e = Die msg" if "with_value arg rest f = Inl e" "\<And>v e. f v = Inl e \<Longrightarrow> \<exists>msg. e = Die msg" for arg rest f e
    using that by (auto simp: with_value_def map_sum_def split: list.splits sum.splits)
  have path: "\<exists>msg. e = Die msg" if "with_path api arg rest f = Inl e" for api arg rest f e
    using that unfolding with_path_def
    by (rule val) (auto simp: map_sum_def dest: dies(5) split: sum.splits)
  have opt: "e = PrintUsage 0 \<or> (\<exists>msg. e = Die msg)" if "parse_option api opts arg rest = Inl e" for api opts arg rest e
    using that unfolding parse_option_def Let_def
    by (auto split: if_splits dest: path dest!: val)
  have all: "e = PrintUsage 0 \<or> (\<exists>msg. e = Die msg)" if "parse_options api opts args = Inl e" for opts args e
    using that
  proof (induction api opts args rule: parse_options.induct)
    case (1 api opts args)
    obtain arg rest where args: "args = arg # rest" "arg \<noteq> dashdash"
      using 1(2) by (subst (asm) parse_options.simps) (auto split: list.splits if_splits)
    show ?case
    proof (cases "parse_option api opts arg rest")
      case (Inl e')
      then have "e' = e" using 1(2) args by (subst (asm) parse_options.simps) simp
      with Inl opt show ?thesis by blast
    next
      case (Inr r)
      obtain opts' rest' where "r = (opts', rest')" by fastforce
      then have "parse_options api opts' rest' = Inl e" using 1(2) args Inr by (subst (asm) parse_options.simps) simp
      with 1(1) args Inr \<open>r = (opts', rest')\<close> show ?thesis by blast
    qed
  qed
  show ?thesis
    using assms expand all unfolding ParseOptions_def by (auto simp: Let_def split: sum.splits prod.splits if_splits)
qed

text \<open>A run of \<open>wmain\<close> with options that parse is over at once or a launch.\<close>

lemma wmain_cases:
  assumes "wmain os api argv = Some (res, done)"
  obtains (usage) "res = Inl (PrintUsage 0)" "done = []"
  | (early) "(\<exists>msg. res = Inl (Die msg)) \<or> res = Inr 3" "no_child [] done"
  | (launched) opts toolPath opened where "ParseOptions api argv = Inr opts"
      "ToAbsolute (oa_fullPathName api) (hd (o_args (normalize_tool opts))) = Inr toolPath"
      "\<not> foreign_machine os toolPath" "os_exists os (dll_path os)" "quiet [] opened"
      "launch os (oa_fullPathName api) (normalize_tool opts) toolPath (ToAnsi (os_multiByte os) (dll_path os)) opened =
         Some (res, done)"
proof (cases "ParseOptions api argv")
  case (Inl e)
  then show thesis
    using assms ParseOptions_leaves [OF Inl] usage early by (auto simp: wmain_def no_child_def)
next
  case (Inr opts)
  obtain r opened where opened: "open_debug os opts [] = (r, opened)" by fastforce
  note q = quiet_open_debug [OF opened]
  note n = quiet_no_child [OF q]
  show thesis
  proof (cases r)
    case r: (Inl e)
    then show thesis using assms Inr opened n early dies(2) [of os opts "[]" e opened] by (auto simp: wmain_def)
  next
    case r: (Inr u)
    let ?tool = "ToAbsolute (oa_fullPathName api) (hd (o_args (normalize_tool opts)))"
    show thesis
    proof (cases ?tool)
      case (Inl e)
      then show thesis using assms Inr opened r n early dies(5) [OF Inl] by (auto simp: wmain_def Let_def)
    next
      case (Inr toolPath)
      then show thesis
        using assms \<open>ParseOptions api argv = Inr opts\<close> opened r n q early launched
        by (auto simp: wmain_def Let_def split: if_splits)
    qed
  qed
qed


text \<open>What a run in which the child was given a payload did before.\<close>

lemma not_started: "no_child done done' \<Longrightarrow> call \<in> set done' \<Longrightarrow> starts_child call \<Longrightarrow> call \<in> set done"
  by (cases call) (fastforce simp: no_child_def list_all_iff)+

lemma run_child_started:
  assumes "run_child os opts dll payload root done = Some (code, done')" "call \<in> set done'" "starts_child call"
    and "call \<notin> set done"
  shows "call \<in> {CreateSuspended (BuildChildCommandLine (o_args opts)) (o_workingDir opts) dll True,
     CreateSuspended (BuildChildCommandLine (o_args opts)) (o_workingDir opts) dll False,
     CopyPayload payload True, CopyPayload payload False, ResumeThread}"
  using assms(1)
proof (cases rule: run_child_cases)
  case (resumed before after)
  obtain mid where mid: "quiet after mid" "done' = mid @ (if os_createJob os then [CloseJob] else [])"
    using finish_child_run [OF resumed(3)] .
  have "call \<in> set mid" using assms(2,3) mid(2) by (auto split: if_splits)
  then have "call \<in> set after" using not_started [OF quiet_no_child [OF mid(1)]] assms(3) by blast
  moreover obtain calls where "after = before @ (if os_createJob os then [AssignToJob (os_assign os before)] else []) @
      [ResumeThread] @ calls" "list_all (\<lambda>call. \<not> starts_child call) calls"
    using await_child_run [OF resumed(2), of dll payload False] by auto
  ultimately show ?thesis
    using resumed(1) assms(3,4) by (cases "os_createJob os") (auto simp: list_all_iff)
qed (use assms in \<open>auto split: if_splits\<close>)

lemma launched_with:
  assumes "wmain os api argv = Some (res, done)" "CopyPayload payload True \<in> set done"
  obtains opts toolPath built mb root built' manifest where
    "ParseOptions api argv = Inr opts" "\<not> foreign_machine os toolPath"
    "ToAbsolute (oa_fullPathName api) (hd (o_args (normalize_tool opts))) = Inr toolPath"
    "scoped_manifest os (oa_fullPathName api) (normalize_tool opts) toolPath
       (ToAnsi (os_multiByte os) (dll_path os)) built = (Inr (mb, root), built')"
    "Build mb = Some manifest" "payload = launcher_wrapper manifest"
  using assms(1)
proof (cases rule: wmain_cases)
  case (launched opts toolPath opened)
  from launched(6) show thesis
  proof (cases rule: launch_cases)
    case (early msg)
    then show thesis
      using assms(2) not_started [OF no_child_trans [OF quiet_no_child [OF launched(5)]], of "done" "CopyPayload payload True"] by simp
  next
    case (run built mb root built' manifest before code)
    have "no_child [] before" using quiet_no_child [OF launched(5)] run(7) by (rule no_child_trans)
    then have "CopyPayload payload True \<notin> set before" using not_started [of "[]" before "CopyPayload payload True"] by auto
    then have "payload = launcher_wrapper manifest" using run_child_started [OF run(5) assms(2)] by simp
    with launched run that show thesis by blast
  qed
qed (use assms(2) not_started in fastforce)+


lemma child_run_no_child: "no_child done done' \<Longrightarrow> child_run s done s' \<Longrightarrow> child_run s done' s'"
  by (auto simp: no_child_def child_run_append child_run_other list_all_iff)

end
