(* ===== verification/Launcher_Run.thy ===== *)
theory Launcher_Run
  imports Launcher
begin

text \<open>
  What a run of the launcher comes to: the builder that it ends with, an example run, and the properties
  of \<open>wmain\<close>.
\<close>

section \<open>The builder of a launch\<close>

lemma scope_step_frame: "scope_step fpn call mb = mb\<lparr>mb_root := mb_root (scope_step fpn call mb)\<rparr>"
  by (cases call) (simp_all add: AddRootScope_def AddScope_def AddNodeScope_def split: option.split)

lemma add_scopes_frame: "add_scopes fpn calls mb = mb\<lparr>mb_root := mb_root (add_scopes fpn calls mb)\<rparr>"
proof (induction calls arbitrary: mb)
  case (Cons c calls)
  show ?case
    using Cons.IH [of "scope_step fpn c mb"] scope_step_frame [of fpn c mb]
    by (simp add: add_scopes_def) (metis ManifestBuilder.update_convs(8) ManifestBuilder.surjective)
qed (simp add: add_scopes_def)

lemma add_scopes_paths:
  "mb_writeOverlayRoot (add_scopes fpn calls mb) = mb_writeOverlayRoot mb"
  "mb_overlaySourceRoot (add_scopes fpn calls mb) = mb_overlaySourceRoot mb"
  by (subst add_scopes_frame, simp)+

lemma add_scopes_root: "mb_root mb = mb_root mb' \<Longrightarrow> mb_root (add_scopes fpn calls mb) = mb_root (add_scopes fpn calls mb')"
proof (induction calls arbitrary: mb mb')
  case (Cons c calls)
  have "mb_root (scope_step fpn c mb) = mb_root (scope_step fpn c mb')"
    unfolding scope_step_root Cons.prems by simp
  from Cons.IH [OF this] show ?case by (simp add: add_scopes_def)
qed (simp add: add_scopes_def)

lemma add_scopes_append: "add_scopes fpn (xs @ ys) mb = add_scopes fpn ys (add_scopes fpn xs mb)"
  by (simp add: add_scopes_def)

definition new_builder :: "Options \<Rightarrow> bytes \<Rightarrow> ManifestBuilder" where
  "new_builder opts dll = SetReportPath (o_tracePath opts)
     (new_ManifestBuilder (manifest_flags opts) (manifest_extraFlags opts) dll dll)"

text \<open>The builder that \<open>scoped_manifest\<close> ends with has had all of the scopes of \<open>launcher_calls\<close>.\<close>

lemma scoped_manifest_builder:
  assumes "scoped_manifest os fpn opts toolPath dll done = (Inr (mb, root), done')"
  defines "calls \<equiv> launcher_calls opts toolPath (if o_writeOverlay opts then Some root else None)"
  shows "mb = (add_scopes fpn calls (new_builder opts dll))
      \<lparr>mb_writeOverlayRoot := root, mb_overlaySourceRoot := (if o_writeOverlay opts then o_workingDir opts else [])\<rparr>"
    and "\<forall>call \<in> set calls. call_keys fpn call \<noteq> None"
proof -
  let ?path = "AddRootScope Policy_MaskAll (Policy_AllowRead OR Policy_AllowReadIfNonExistent) (new_builder opts dll)"
  obtain mb1 mb2 done2 where paths: "add_or_die fpn (path_scopes opts toolPath) ?path = Inr mb1"
    and dirs: "add_or_die fpn (output_dir_scopes opts) mb1 = Inr mb2"
    and overlay: "overlay_manifest os fpn opts mb2 done2 = (Inr (mb, root), done')"
    using assms(1) by (auto simp: scoped_manifest_def Let_def new_builder_def split: sum.splits)
  note p = add_or_die_Inr [OF paths] and d = add_or_die_Inr [OF dirs]
  let ?pd = "map snd (path_scopes opts toolPath @ output_dir_scopes opts)"
  have mb2: "mb2 = add_scopes fpn (root_scope # ?pd) (new_builder opts dll)"
    using p d by (simp add: add_scopes_def root_scope_def)
  have root: "call_keys fpn root_scope \<noteq> None" by (simp add: root_scope_def)
  have "mb = (add_scopes fpn calls (new_builder opts dll))
      \<lparr>mb_writeOverlayRoot := root, mb_overlaySourceRoot := (if o_writeOverlay opts then o_workingDir opts else [])\<rparr> \<and>
    (\<forall>call \<in> set calls. call_keys fpn call \<noteq> None)"
  proof (cases "o_writeOverlay opts")
    case False
    have "mb_writeOverlayRoot mb2 = []" "mb_overlaySourceRoot mb2 = []"
      by (simp_all add: mb2 add_scopes_paths new_builder_def new_ManifestBuilder_def SetReportPath_def)
    then show ?thesis
      using False overlay mb2 p d root
      by (auto simp: overlay_manifest_def calls_def launcher_calls_def overlay_scopes_def)
  next
    case True
    then obtain mb3 where mb3: "add_or_die fpn (overlay_scopes (Some root)) mb2 = Inr mb3"
      "mb = SetOverlaySourceRoot (o_workingDir opts) (SetWriteOverlayRoot root mb3)"
      using overlay by (auto simp: overlay_manifest_def split: prod.splits if_splits sum.splits)
    have calls: "calls = (root_scope # ?pd) @ map snd (overlay_scopes (Some root))"
      using True by (simp add: calls_def launcher_calls_def)
    note o = add_or_die_Inr [OF mb3(1)]
    have "mb3 = add_scopes fpn calls (new_builder opts dll)"
      unfolding calls add_scopes_append mb2 [symmetric] using o by blast
    moreover have "\<forall>call \<in> set calls. call_keys fpn call \<noteq> None"
      unfolding calls using p d o root by auto
    ultimately show ?thesis using True mb3(2) by (simp add: SetOverlaySourceRoot_def SetWriteOverlayRoot_def)
  qed
  then show "mb = (add_scopes fpn calls (new_builder opts dll))
      \<lparr>mb_writeOverlayRoot := root, mb_overlaySourceRoot := (if o_writeOverlay opts then o_workingDir opts else [])\<rparr>"
    "\<forall>call \<in> set calls. call_keys fpn call \<noteq> None" by blast+
qed


lemma scoped_manifest_plain:
  assumes "scoped_manifest os fpn opts toolPath dll done = (Inr (mb, root), done')" "\<not> o_writeOverlay opts"
  shows "mb = add_scopes fpn (launcher_calls opts toolPath None) (new_builder opts dll)"
proof -
  have "root = []" using assms by (auto simp: scoped_manifest_def overlay_manifest_def Let_def split: sum.splits)
  moreover have "mb_writeOverlayRoot (add_scopes fpn calls (new_builder opts dll)) = []"
    "mb_overlaySourceRoot (add_scopes fpn calls (new_builder opts dll)) = []" for calls
    by (simp_all add: add_scopes_paths new_builder_def new_ManifestBuilder_def SetReportPath_def)
  ultimately show ?thesis using scoped_manifest_builder(1) [OF assms(1)] assms(2) by simp
qed

text \<open>
  A path below the working directory that no option declares: it is at or below neither the tool nor any
  path of \<open>-r\<close> or \<open>-w\<close>, and it is not a directory that an output needs.
\<close>

definition covers :: "buffer_api \<Rightarrow> wstr list \<Rightarrow> wstr \<Rightarrow> bool" where
  "covers fpn ks p = (case keys_of fpn p of None \<Rightarrow> False | Some kp \<Rightarrow> take (length kp) ks = kp)"

definition undeclared :: "buffer_api \<Rightarrow> Options \<Rightarrow> wstr \<Rightarrow> wstr list \<Rightarrow> bool" where
  "undeclared fpn opts toolPath ks \<longleftrightarrow>
     covers fpn ks (o_workingDir opts) \<and> keys_of fpn (o_workingDir opts) \<noteq> Some [] \<and>
     list_all (\<lambda>p. \<not> covers fpn ks p) (toolPath # o_readonlyFiles opts @ o_writableFiles opts) \<and>
     list_all (\<lambda>d. keys_of fpn d \<noteq> Some ks) (output_dirs opts)"

lemma all_values_0: "\<forall>c \<in> set calls. call_values c = 0 \<Longrightarrow> all_values calls = 0"
  by (induction calls) (auto simp: all_values_def)

lemma undeclared_denied:
  assumes und: "undeclared fpn opts toolPath ks" and "o_hermetic opts" "\<not> o_writeOverlay opts"
  shows "policy_along (scope_acc_at fpn (launcher_calls opts toolPath None)) Policy_Deny ks = Policy_Deny"
proof -
  let ?calls = "launcher_calls opts toolPath None"
  let ?M = "{m. m \<le> length ks \<and> cones_at fpn ?calls (take m ks) \<noteq> []}"
  obtain kw where kw: "keys_of fpn (o_workingDir opts) = Some kw" "take (length kw) ks = kw" "kw \<noteq> []"
    using und by (auto simp: undeclared_def covers_def split: option.splits)
  have wd: "ConeScope (o_workingDir opts) Policy_MaskAll (workingDirPolicy opts) \<in> set ?calls"
    by (simp add: launcher_calls_def path_scopes_def)
  then have "ConeScope (o_workingDir opts) Policy_MaskAll (workingDirPolicy opts) \<in> set (cones_at fpn ?calls kw)"
    using kw(1) by (simp add: cones_at_def keys_of_def)
  then have "cones_at fpn ?calls (take (length kw) ks) \<noteq> []" unfolding kw(2) by auto
  moreover have "length kw \<le> length ks" using arg_cong [OF kw(2), of length] by simp
  ultimately have "length kw \<in> ?M" by blast
  moreover have fin: "finite ?M" by simp
  ultimately have max: "Max ?M \<in> ?M" "length kw \<le> Max ?M" using Max_in [of ?M] Max_ge [of ?M] by blast+
  obtain n where n: "n \<le> length ks" "cones_at fpn ?calls (take n ks) \<noteq> []" "length kw \<le> n"
    and deepest: "\<And>m. n < m \<Longrightarrow> m \<le> length ks \<Longrightarrow> cones_at fpn ?calls (take m ks) = []"
  proof
    show "Max ?M \<le> length ks" "cones_at fpn ?calls (take (Max ?M) ks) \<noteq> []" using max(1) by blast+
    show "length kw \<le> Max ?M" by (rule max(2))
    show "cones_at fpn ?calls (take m ks) = []" if "Max ?M < m" "m \<le> length ks" for m
    proof (rule ccontr)
      assume "cones_at fpn ?calls (take m ks) \<noteq> []"
      then have "m \<in> ?M" using that(2) by blast
      with Max_ge [OF fin] that(1) show False by (simp add: leD)
    qed
  qed
  have other: "\<not> covers fpn ks p" if "p \<in> set (toolPath # o_readonlyFiles opts @ o_writableFiles opts)" for p
    using und that by (auto simp: undeclared_def list_all_iff)
  have "call_values c = 0" if "c \<in> set (cones_at fpn ?calls (take n ks))" for c
  proof -
    have c: "c \<in> set ?calls" "call_keys fpn c = Some (take n ks)" "case c of NodeScope p m v \<Rightarrow> False | _ \<Rightarrow> True"
      using that by (auto simp: cones_at_def)
    have "0 < n" using kw(3) n(3) by (meson length_greater_0_conv less_le_trans)
    then have ne: "take n ks \<noteq> []" using n(1) by auto
    have "covers fpn ks p" if "c = ConeScope p m v" for p m v
      using c(2) that n(1) by (auto simp: covers_def keys_of_def min_def)
    then show ?thesis
      using c other ne assms(2,3)
      by (auto simp: launcher_calls_def path_scopes_def output_dir_scopes_def overlay_scopes_def root_scope_def
          workingDirPolicy_def Policy_Deny_def)
  qed
  then have "all_values (cones_at fpn ?calls (take n ks)) = 0" by (intro all_values_0) blast
  moreover have "nodes_at fpn ?calls ks = []"
    using und by (auto simp: nodes_at_def filter_empty_conv launcher_calls_def path_scopes_def output_dir_scopes_def
        overlay_scopes_def root_scope_def undeclared_def list_all_iff keys_of_def)
  moreover have masks: "\<forall>c \<in> set ?calls. masks_all c" "\<forall>c \<in> set ?calls. narrow (call_values c)"
    using launcher_calls_mask by blast+
  ultimately show ?thesis
    using policy_masked [OF masks n(1,2) deepest, of Policy_Deny] by (simp add: Policy_Deny_def)
qed

text \<open>\<open>--filter-inputs\<close> implies \<open>--hermetic\<close>.\<close>

lemma parse_option_hermetic:
  assumes "parse_option api opts arg rest = Inr (opts', rest')" "o_filterInputs opts \<longrightarrow> o_hermetic opts"
  shows "o_filterInputs opts' \<longrightarrow> o_hermetic opts'"
  using assms unfolding parse_option_def with_path_def with_value_def Let_def
  by (auto split: if_splits list.splits sum.splits simp: map_sum_def)

lemma parse_options_hermetic:
  "parse_options api opts args = Inr (opts', rest') \<Longrightarrow> o_filterInputs opts \<longrightarrow> o_hermetic opts \<Longrightarrow>
   o_filterInputs opts' \<longrightarrow> o_hermetic opts'"
proof (induction api opts args rule: parse_options.induct)
  case (1 api opts args)
  show ?case
  proof (cases "args = [] \<or> hd args = dashdash")
    case True
    then show ?thesis using 1(2,3) by (subst (asm) parse_options.simps) (auto split: list.splits)
  next
    case False
    then obtain arg rest where args: "args = arg # rest" "arg \<noteq> dashdash" by (cases args) auto
    then obtain opts1 rest1 where step: "parse_option api opts arg rest = Inr (opts1, rest1)"
      "parse_options api opts1 rest1 = Inr (opts', rest')"
      using 1(2) by (subst (asm) parse_options.simps) (auto split: sum.splits)
    show ?thesis using 1(1) args step parse_option_hermetic [OF step(1) 1(3)] by blast
  qed
qed

lemma ParseOptions_hermetic:
  assumes "ParseOptions api argv = Inr opts" "o_filterInputs opts"
  shows "o_hermetic opts"
  using assms unfolding ParseOptions_def
  by (auto simp: Let_def default_options_def split: sum.splits prod.splits if_splits dest!: parse_options_hermetic)

text \<open>The other direction, without an overlay.\<close>

lemma add_or_die_ok:
  "\<forall>call \<in> set (map snd calls). call_keys fpn call \<noteq> None \<Longrightarrow>
   add_or_die fpn calls mb = Inr (add_scopes fpn (map snd calls) mb)"
proof (induction calls arbitrary: mb)
  case (Cons x calls)
  then show ?case
    by (cases x; cases "snd x") (auto simp: add_scopes_def AddScope_def AddNodeScope_def split: option.splits)
qed (simp add: add_scopes_def)

lemma scoped_manifest_ok:
  assumes "\<not> o_writeOverlay opts" "\<forall>call \<in> set (launcher_calls opts toolPath None). call_keys fpn call \<noteq> None"
  shows "scoped_manifest os fpn opts toolPath dll done =
    (Inr (add_scopes fpn (launcher_calls opts toolPath None) (new_builder opts dll), []),
     done @ map CreateDir (output_dirs opts))"
proof -
  have keys: "\<forall>call \<in> set (map snd (path_scopes opts toolPath)). call_keys fpn call \<noteq> None"
    "\<forall>call \<in> set (map snd (output_dir_scopes opts)). call_keys fpn call \<noteq> None"
    using assms(2) by (auto simp: launcher_calls_def)
  have "AddRootScope Policy_MaskAll (Policy_AllowRead OR Policy_AllowReadIfNonExistent) mb = add_scopes fpn [root_scope] mb" for mb
    by (simp add: add_scopes_def root_scope_def)
  then show ?thesis
    using assms(1) add_or_die_ok [OF keys(1)] add_or_die_ok [OF keys(2)]
    by (simp add: scoped_manifest_def overlay_manifest_def launcher_calls_def overlay_scopes_def
        add_scopes_append [symmetric] new_builder_def [symmetric] Let_def)
qed


section \<open>An example\<close>

text \<open>The action \<open>--filter-inputs -N -- t\<close> in the directory \<open>C:\w\<close>.\<close>

definition example_cwd :: wstr where "example_cwd = wide ''C:'' @ BACKSLASH # wide ''w''"
definition example_tool :: wstr where "example_tool = wide ''C:'' @ BACKSLASH # wide ''t''"

definition example_full :: "wstr \<Rightarrow> wstr option" where
  "example_full p = map_option (\<lambda>p. if BACKSLASH \<in> set p then p else wide ''C:'' @ BACKSLASH # p) (identity_full p)"

definition example_main_api :: options_api where
  "example_main_api = \<lparr>oa_fullPathName = string_api example_full, oa_open = (\<lambda>p. None),
     oa_currentDirectory = (\<lambda>n. (length example_cwd, example_cwd)), oa_getenv = (\<lambda>name n. (0, [])), oa_processId = 7\<rparr>"

definition example_argv :: "wstr list" where
  "example_argv = [wide ''--filter-inputs'', wide ''-N'', wide ''--'', wide ''t'']"

definition example_main_options :: Options where
  "example_main_options = default_options
     \<lparr>o_workingDir := example_cwd, o_networkPolicy := 1, o_hermetic := True, o_filterInputs := True,
      o_args := [wide ''t'']\<rparr>"

definition example_dll :: bytes where
  "example_dll = ToAnsi (os_multiByte (store_os [])) (dll_path (store_os []))"

definition example_main_builder :: ManifestBuilder where
  "example_main_builder = add_scopes (string_api example_full) (launcher_calls example_main_options example_tool None)
     (new_builder example_main_options example_dll)"

lemma returns_example_full: "returns_string (string_api example_full) example_full"
  by (rule returns_string_string_api) (auto simp: example_full_def identity_full_def split: if_splits)

lemma example_parse: "ParseOptions example_main_api example_argv = Inr example_main_options"
  by code_simp

lemma example_calls:
  "launcher_calls example_main_options example_tool None =
     [root_scope, ConeScope example_cwd Policy_MaskAll Policy_Deny, ConeScope example_tool Policy_MaskAll input_policy]"
proof -
  have "output_dirs example_main_options = []" by code_simp
  then show ?thesis
    by (simp add: launcher_calls_def path_scopes_def output_dir_scopes_def overlay_scopes_def example_main_options_def
        default_options_def workingDirPolicy_def)
qed

lemma example_canon:
  "CanonicalizeForTree (string_api example_full) example_cwd = Some example_cwd"
  "CanonicalizeForTree (string_api example_full) example_tool = Some example_tool"
  "path_keys example_cwd = [wide ''C:'', wide ''W'']" "path_keys example_tool = [wide ''C:'', wide ''T'']"
  by code_simp+

lemma example_tree:
  "mb_root example_main_builder =
     update_at (map_acc (apply_cone Policy_MaskAll input_policy)) [wide ''C:'', wide ''T'']
       (update_at (map_acc (apply_cone Policy_MaskAll Policy_Deny)) [wide ''C:'', wide ''W'']
         (map_acc (apply_cone Policy_MaskAll (Policy_AllowRead OR Policy_AllowReadIfNonExistent)) root_node))"
  by (simp add: example_main_builder_def example_calls add_scopes_def new_builder_def new_ManifestBuilder_def
      SetReportPath_def root_scope_def AddRootScope_def AddScope_def AddPathFragments_eq example_canon del: wide_Cons)

lemma example_main_size: "node_size (mb_root example_main_builder) \<le> 1000"
  by (simp add: example_tree root_node_def fresh_node_def bucketCount_of_def fragment_bytes_def
      length_u16_string pad_length_def)


lemma example_builder_fields:
  "mb_reportPath example_main_builder = []" "mb_writeOverlayRoot example_main_builder = []"
  "mb_overlaySourceRoot example_main_builder = []" "mb_dllX86 example_main_builder = example_dll"
  "mb_dllX64 example_main_builder = example_dll" "mb_extraFlags example_main_builder = 0xC00"
  unfolding example_main_builder_def
  by (subst add_scopes_frame, simp add: new_builder_def new_ManifestBuilder_def SetReportPath_def
      example_main_options_def default_options_def manifest_extraFlags_def ExtraFlag_None_def
      ExtraFlag_DeniedReadsAsNotFound_def ExtraFlag_FilterDirectoryEnumeration_def)+

lemma example_dll_bytes: "length example_dll = 21" "0 \<notin> set example_dll"
  by code_simp+

lemma example_manifest_ok: "manifest_ok example_main_builder"
  using example_main_size
  by (simp add: manifest_ok_def example_builder_fields path_ok_def path_option_def example_dll_bytes)

lemma example_run:
  assumes "Build example_main_builder = Some m"
  shows "wmain (store_os []) example_main_api example_argv = Some (Inr 0,
    [SetEnvironment (wide ''BAZEL_SANDBOX_NETWORK'') (wide ''loopback''), SetCurrentDir example_cwd,
     SetInheritable 1, SetInheritable 2, SetInheritable 3, CreateSuspended (wide ''t'') example_cwd example_dll True,
     CopyPayload (launcher_wrapper m) True, AssignToJob True, ResumeThread, WaitProcess INFINITE, CloseJob])"
proof -
  let ?os = "store_os []" and ?opts = example_main_options
  have "open_debug ?os ?opts [] = (Inr (), [])" "truncate_trace ?os ?opts [] = (Inr (), [])"
    "normalize_tool ?opts = ?opts" "ToAbsolute (oa_fullPathName example_main_api) (hd (o_args ?opts)) = Inr example_tool"
    "\<not> foreign_machine ?os example_tool" "os_exists ?os (dll_path ?os)" "output_dirs ?opts = []"
    "BuildChildCommandLine (o_args ?opts) = wide ''t''" "finish_child ?os ?opts [] xs = Some (xs @ [CloseJob])" for xs
    by (code_simp | simp add: finish_child_def WriteStats_def example_main_options_def default_options_def store_os_def)+
  moreover have "scoped_manifest ?os (oa_fullPathName example_main_api) ?opts example_tool example_dll [] =
      (Inr (example_main_builder, []), [])"
  proof -
    have "\<not> o_writeOverlay ?opts" "output_dirs ?opts = []" by code_simp+
    moreover have "\<forall>call \<in> set (launcher_calls ?opts example_tool None).
        call_keys (string_api example_full) call \<noteq> None"
      unfolding example_calls by (simp add: example_canon root_scope_def del: wide_Cons)
    ultimately show ?thesis
      using scoped_manifest_ok [of ?opts example_tool "string_api example_full" ?os example_dll "[]"]
      by (simp add: example_main_api_def example_main_builder_def)
  qed
  moreover have "child_handles ?os ?opts done = (Inr (1, 2, 3), done @ [SetInheritable 1, SetInheritable 2, SetInheritable 3])" for "done"
    by (simp add: child_handles_def redirect_def PrepareStdHandle_def FILE_TYPE_UNKNOWN_def NO_ERROR_def store_os_def
        example_main_options_def default_options_def)
  moreover have "await_child ?os ?opts done = (0, done @ [WaitProcess INFINITE])" for "done"
    by (simp add: await_child_def wait_ms_def store_os_def example_main_options_def default_options_def)
  moreover have "o_workingDir ?opts = example_cwd" "o_networkPolicy ?opts = 1"
    by (simp_all add: example_main_options_def)
  moreover have "os_createProcess ?os = (\<lambda>d c p b. True)" "os_copyPayload ?os = (\<lambda>d p. True)" "os_createJob ?os"
    "os_assign ?os = (\<lambda>d. True)"
    by (simp_all add: store_os_def)
  ultimately show ?thesis
    using assms example_parse
    by (simp add: wmain_def launch_def run_child_def set_network_policy_def example_dll_def [symmetric] Let_def
        del: wide_Cons)
qed

lemma example_run_exists:
  obtains m where "Build example_main_builder = Some m"
    "wmain (store_os []) example_main_api example_argv = Some (Inr 0,
       [SetEnvironment (wide ''BAZEL_SANDBOX_NETWORK'') (wide ''loopback''), SetCurrentDir example_cwd,
        SetInheritable 1, SetInheritable 2, SetInheritable 3, CreateSuspended (wide ''t'') example_cwd example_dll True,
        CopyPayload (launcher_wrapper m) True, AssignToJob True, ResumeThread, WaitProcess INFINITE, CloseJob])"
  using Build_writes [OF example_manifest_ok] example_run by blast


section \<open>Properties\<close>

text \<open>
  C3: the action never runs outside the sandbox. In every run of the launcher that returns, the calls take
  the child through the states above. If the child is resumed, then it has before that been created with the
  DLL of the launcher in its imports and been given the payload, the manifest built from the
  scopes of the options in its wrapper. At the end there is no child, or it has been ended, or there was
  no job object or the child could not be put in it (the launcher does not look at the result of
  \<open>AssignProcessToJobObject\<close>); only in the last two cases may it still run then, in the sandbox but not in a job.
\<close>
theorem no_unsandboxed_run:
  assumes "wmain os api argv = Some (res, done)"
  shows "\<exists>s. child_run NoChild done s \<and>
    (s = NoChild \<or> s = Ended \<or>
     (\<exists>dll payload. s = Running dll payload False \<and> (\<not> os_createJob os \<or> AssignToJob False \<in> set done))) \<and>
    (ResumeThread \<in> set done \<longrightarrow>
     (\<exists>opts toolPath built mb root built' manifest before after j.
        ParseOptions api argv = Inr opts \<and>
        scoped_manifest os (oa_fullPathName api) (normalize_tool opts) toolPath (ToAnsi (os_multiByte os) (dll_path os)) built =
          (Inr (mb, root), built') \<and> Build mb = Some manifest \<and> done = before @ ResumeThread # after \<and>
        child_run NoChild before (Sealed (ToAnsi (os_multiByte os) (dll_path os)) (launcher_wrapper manifest) j)))"
  using assms
proof (cases rule: wmain_cases)
  case (launched opts toolPath opened)
  note opened = quiet_no_child [OF launched(5)]
  let ?dll = "ToAnsi (os_multiByte os) (dll_path os)"
  from launched(6) show ?thesis
  proof (cases rule: launch_cases)
    case (early msg)
    then have "no_child [] done" using no_child_trans [OF opened] by blast
    then show ?thesis using child_run_no_child [OF _ child_run_Nil] not_started [of "[]" "done" ResumeThread] by auto
  next
    case (run built mb root built' manifest before code)
    obtain calls s where calls: "done = before @ calls" "child_run NoChild calls s"
      "s = NoChild \<or> s = Ended \<or> s = Running ?dll (launcher_wrapper manifest) False \<and>
         (\<not> os_createJob os \<or> AssignToJob False \<in> set calls)"
      "ResumeThread \<in> set calls \<longrightarrow> (\<exists>b a j. calls = b @ ResumeThread # a \<and>
         child_run NoChild b (Sealed ?dll (launcher_wrapper manifest) j))" using run_child_run [OF run(5)] .
    have quiet: "no_child [] before" using no_child_trans [OF opened run(7)] .
    then have before: "child_run NoChild before NoChild" using child_run_no_child [OF _ child_run_Nil] by blast
    then have "child_run NoChild done s" using calls(1,2) child_run_append by blast
    moreover have "\<exists>opts toolPath built mb root built' manifest before after j. ParseOptions api argv = Inr opts \<and>
        scoped_manifest os (oa_fullPathName api) (normalize_tool opts) toolPath ?dll built = (Inr (mb, root), built') \<and>
        Build mb = Some manifest \<and> done = before @ ResumeThread # after \<and>
        child_run NoChild before (Sealed ?dll (launcher_wrapper manifest) j)"
      if "ResumeThread \<in> set done"
    proof -
      have "ResumeThread \<in> set calls" using that not_started [of "[]" before ResumeThread] quiet calls(1) by auto
      then obtain b a j where "calls = b @ ResumeThread # a" "child_run NoChild b (Sealed ?dll (launcher_wrapper manifest) j)"
        using calls(4) by blast
      then have "done = (before @ b) @ ResumeThread # a" "child_run NoChild (before @ b) (Sealed ?dll (launcher_wrapper manifest) j)"
        using calls(1) before child_run_append by auto
      with launched(1) run(2,3) show ?thesis by blast
    qed
    moreover have "s = NoChild \<or> s = Ended \<or>
        (\<exists>dll payload. s = Running dll payload False \<and> (\<not> os_createJob os \<or> AssignToJob False \<in> set done))"
      using calls(1,3) by auto
    ultimately show ?thesis by blast
  qed
qed (use child_run_no_child [OF _ child_run_Nil] child_run_Nil not_started in fastforce)+

theorem no_unsandboxed_run_witness:
  "\<exists>done s. wmain (store_os []) example_main_api example_argv = Some (Inr 0, done) \<and> ResumeThread \<in> set done \<and>
     child_run NoChild done s \<and> (s = NoChild \<or> s = Ended)"
proof -
  obtain "done" where run: "wmain (store_os []) example_main_api example_argv = Some (Inr 0, done)"
    "ResumeThread \<in> set done" "AssignToJob False \<notin> set done"
    by (rule example_run_exists) simp
  from no_unsandboxed_run [OF run(1)] run show ?thesis by (auto simp: store_os_def)
qed

definition exit_status :: "launcher_exit + u32 \<Rightarrow> u32" where
  "exit_status res = (case res of Inl (Die msg) \<Rightarrow> 1 | Inl (PrintUsage code) \<Rightarrow> of_nat code | Inr code \<Rightarrow> code)"

lemma await_child_code:
  assumes "await_child os opts done = (code, done')"
  shows "\<exists>rest. done' = done @ WaitProcess (wait_ms (o_timeoutSecs opts)) # rest \<and>
    (if os_wait os done (wait_ms (o_timeoutSecs opts)) = WaitTimeout
     then code = 1 \<and> (if os_createJob os then TerminateJob 1 else TerminateProcess 1) \<in> set rest
     else code = (case os_exitCode os (done @ [WaitProcess (wait_ms (o_timeoutSecs opts))]) of None \<Rightarrow> 0 | Some c \<Rightarrow> c))"
  using assms by (auto simp: await_child_def Let_def split: if_splits)

text \<open>
  C29: the exit status tells what happened. A launcher that never resumed the child, whatever went wrong,
  ends with 1, 2 or 3, but for the usage text on request. One that did waits for the child for the time
  limit, and ends with the child's own exit code, or, after the limit, with 1 and a call that kills.
\<close>
theorem launcher_exit_status:
  assumes "wmain os api argv = Some (res, done)"
  shows "(ResumeThread \<notin> set done \<and> (res = Inl (PrintUsage 0) \<or> exit_status res \<in> {1, 2, 3})) \<or>
    (\<exists>opts before after.
       ParseOptions api argv = Inr opts \<and>
       done = before @ ResumeThread # WaitProcess (wait_ms (o_timeoutSecs opts)) # after \<and>
       (if os_wait os (before @ [ResumeThread]) (wait_ms (o_timeoutSecs opts)) = WaitTimeout
        then exit_status res = 1 \<and> (if os_createJob os then TerminateJob 1 else TerminateProcess 1) \<in> set after
        else exit_status res = (case os_exitCode os (before @ [ResumeThread, WaitProcess (wait_ms (o_timeoutSecs opts))])
                                of None \<Rightarrow> 0 | Some code \<Rightarrow> code)))"
  using assms
proof (cases rule: wmain_cases)
  case early
  then show ?thesis using not_started [of "[]" "done" ResumeThread] by (auto simp: exit_status_def)
next
  case (launched opts toolPath opened)
  note opened = quiet_no_child [OF launched(5)]
  have timeout: "o_timeoutSecs (normalize_tool opts) = o_timeoutSecs opts" by (simp add: normalize_tool_def)
  from launched(6) show ?thesis
  proof (cases rule: launch_cases)
    case (early msg)
    then show ?thesis
      using not_started [OF no_child_trans [OF opened], of "done" ResumeThread] by (auto simp: exit_status_def)
  next
    case (run built mb root built' manifest before code)
    have fresh: "ResumeThread \<notin> set before" using not_started [OF no_child_trans [OF opened run(7)]] by fastforce
    from run(5) show ?thesis
    proof (cases rule: run_child_cases)
      case (resumed started ended)
      obtain rest where "done = ended @ rest" using finish_child_extends [OF resumed(3)] by blast
      moreover let ?b = "started @ (if os_createJob os then [AssignToJob (os_assign os started)] else [])"
      obtain rest2 where "ended = ?b @ ResumeThread # WaitProcess (wait_ms (o_timeoutSecs opts)) # rest2"
        "if os_wait os (?b @ [ResumeThread]) (wait_ms (o_timeoutSecs opts)) = WaitTimeout
         then code = 1 \<and> (if os_createJob os then TerminateJob 1 else TerminateProcess 1) \<in> set rest2
         else code = (case os_exitCode os (?b @ [ResumeThread, WaitProcess (wait_ms (o_timeoutSecs opts))]) of
                        None \<Rightarrow> 0 | Some c \<Rightarrow> c)"
        using await_child_code [OF resumed(2)] by (auto simp: timeout)
      ultimately show ?thesis
        using launched(1) run(6)
        by (intro disjI2 exI [of _ opts] exI [of _ ?b] exI [of _ "rest2 @ rest"]) (simp add: exit_status_def split: if_splits)
    qed (use fresh run(6) in \<open>auto simp: exit_status_def\<close>)
  qed
qed simp

theorem launcher_exit_status_witness:
  "\<exists>done before after. wmain (store_os []) example_main_api example_argv = Some (Inr 0, done) \<and>
     done = before @ ResumeThread # WaitProcess INFINITE # after"
proof -
  obtain "done" where run: "wmain (store_os []) example_main_api example_argv = Some (Inr 0, done)"
    "ResumeThread \<in> set done"
    by (rule example_run_exists) simp
  from launcher_exit_status [OF run(1)] run example_parse show ?thesis
    by (auto simp: example_main_options_def default_options_def wait_ms_def)
qed

text \<open>
  The environment that the child inherits: that of the launcher at the creation of the process, if one is
  created.
\<close>

fun child_environment :: "(wstr \<Rightarrow> wstr option) \<Rightarrow> os_log \<Rightarrow> (wstr \<Rightarrow> wstr option) option" where
  "child_environment env [] = None"
| "child_environment env (SetEnvironment name v # calls) = child_environment (env(name := Some v)) calls"
| "child_environment env (CreateSuspended cmd dir dll True # calls) = Some env"
| "child_environment env (call # calls) = child_environment env calls"

definition chosen_policy :: "Options \<Rightarrow> (wstr \<Rightarrow> wstr option) \<Rightarrow> (wstr \<Rightarrow> wstr option)" where
  "chosen_policy opts env =
     (if o_networkPolicy opts = 1 then env(kNetworkEnvVar := Some (wide ''loopback''))
      else if o_networkPolicy opts = 2 then env(kNetworkEnvVar := Some (wide ''block''))
      else env)"

lemma child_environment_skip:
  assumes "list_all (\<lambda>call. \<not> about_child call \<and> \<not> sets_environment call) xs"
  shows "child_environment env (xs @ calls) = child_environment env calls"
  using assms
proof (induction xs)
  case (Cons c xs)
  then show ?case by (cases c) auto
qed simp

lemma child_environment_quiet:
  assumes "quiet done done'" "no_child [] done"
  shows "child_environment env (done' @ calls) = child_environment env (done @ calls)"
proof -
  obtain xs where xs: "done' = done @ xs" "list_all (\<lambda>call. \<not> about_child call \<and> \<not> sets_environment call) xs"
    using assms(1) by (auto simp: quiet_def)
  have "list_all (\<lambda>call. \<not> about_child call) done" using assms(2) by (simp add: no_child_def)
  then have "child_environment env (done @ xs @ calls) = child_environment env (done @ calls)"
  proof (induction "done" arbitrary: env)
    case Nil
    then show ?case using child_environment_skip [OF xs(2)] by simp
  next
    case (Cons c "done")
    then show ?case by (cases c) auto
  qed
  then show ?thesis by (simp add: xs(1))
qed

lemma child_environment_none:
  assumes "no_child [] done"
  shows "child_environment env done = None"
proof -
  have "list_all (\<lambda>call. \<not> about_child call) done" using assms by (simp add: no_child_def)
  then show ?thesis
  proof (induction "done" arbitrary: env)
    case (Cons c "done")
    then show ?case by (cases c) auto
  qed simp
qed

lemma child_environment_network:
  "quiet [] done \<Longrightarrow> child_environment env (set_network_policy opts done @ calls) =
     child_environment (chosen_policy opts env) calls"
  using child_environment_quiet [of "[]" "done" env]
  by (simp add: set_network_policy_def chosen_policy_def kNetworkEnvVar_def no_child_def del: wide_Cons)

lemma child_environment_run:
  assumes "wmain os api argv = Some (res, done)" "child_environment env0 done = Some env" "ParseOptions api argv = Inr opts"
  shows "env = chosen_policy opts env0"
  using assms(1)
proof (cases rule: wmain_cases)
  case (launched opts' toolPath opened)
  have policy: "chosen_policy (normalize_tool opts') = chosen_policy opts"
    using launched(1) assms(3) by (auto simp: chosen_policy_def normalize_tool_def)
  from launched(6) show ?thesis
  proof (cases rule: launch_cases)
    case (early msg)
    then show ?thesis
      using assms(2) child_environment_none [OF no_child_trans [OF quiet_no_child [OF launched(5)]]] by simp
  next
    case (run built mb root built' manifest before code)
    have q: "quiet [] built'" using launched(5) run(1) quiet_scoped_manifest [OF run(2)] quiet_trans by blast
    have before: "child_environment env0 (before @ calls) = child_environment (chosen_policy opts env0) calls" for calls
      using child_environment_quiet [OF run(4) no_child_trans [OF quiet_no_child [OF q] no_child_network]]
        child_environment_network [OF q, of env0 "normalize_tool opts'" calls] policy by simp
    from run(5) show ?thesis
    proof (cases rule: run_child_cases)
      case (resumed started ended)
      then obtain more where "done = before @ CreateSuspended (BuildChildCommandLine (o_args (normalize_tool opts')))
          (o_workingDir (normalize_tool opts')) (ToAnsi (os_multiByte os) (dll_path os)) True # more"
        using finish_child_extends [OF resumed(3)] await_child_run [OF resumed(2), of "[]" "[]" False] by auto
      then show ?thesis using before assms(2) by simp
    qed (use before assms(2) in \<open>auto split: if_splits\<close>)
  qed
qed (use assms(2) child_environment_none in \<open>auto simp: no_child_def\<close>)

text \<open>
  C30: the network policy of the options reaches the child. The environment in which the process of the
  action is created makes the DLL, wherever it is loaded with that environment, take the policy that was
  chosen and attach all of its detours; without \<open>-N\<close> and \<open>-n\<close> the environment is the launcher's own.
\<close>
theorem network_policy_inherited:
  assumes "wmain os api argv = Some (res, done)" "ParseOptions api argv = Inr opts"
    and "child_environment env0 done = Some env" "returns_string getenv env"
  shows "(o_networkPolicy opts = 1 \<longrightarrow>
      InitializeAndAttachNetworkDetours getenv True True initial_net_globals =
        \<lparr>g_policy = LoopbackOnly, g_attached = True, attached_detours = network_detours\<rparr>) \<and>
    (o_networkPolicy opts = 2 \<longrightarrow>
      InitializeAndAttachNetworkDetours getenv True True initial_net_globals =
        \<lparr>g_policy = BlockAll, g_attached = True, attached_detours = network_detours\<rparr>) \<and>
    (o_networkPolicy opts \<noteq> 1 \<and> o_networkPolicy opts \<noteq> 2 \<longrightarrow> env = env0)"
proof -
  have env: "env = chosen_policy opts env0" using child_environment_run [OF assms(1,3,2)] .
  have read: "env kNetworkEnvVar = Some v \<Longrightarrow> length v < 32 \<Longrightarrow> getenv kNetworkEnvVar 32 = (length v, v)" for v
    using returns_stringD(2) [OF assms(4)] .
  have "wcsicmp_eq (wide ''loopback'') (wide ''loopback'')" "wcsicmp_eq (wide ''block'') (wide ''block'')"
    by (simp_all only: wcsicmp_eq_def)
  moreover have "\<not> wcsicmp_eq (wide ''block'') (wide ''loopback'')" by code_simp
  moreover have "length (wide ''loopback'') = 8" "length (wide ''block'') = 5" by simp_all
  ultimately show ?thesis
    using read [of "wide ''loopback''"] read [of "wide ''block''"]
    by (simp add: env chosen_policy_def InitializeAndAttachNetworkDetours_def initial_net_globals_def del: wide_Cons)
qed

theorem network_policy_inherited_witness:
  "\<exists>done env. wmain (store_os []) example_main_api example_argv = Some (Inr 0, done) \<and>
     child_environment (\<lambda>name. None) done = Some env \<and>
     GetNetworkPolicy (InitializeAndAttachNetworkDetours (string_api env) True True initial_net_globals) = LoopbackOnly"
proof -
  let ?env = "(\<lambda>name. None)(kNetworkEnvVar := Some (wide ''loopback''))"
  obtain "done" where run: "wmain (store_os []) example_main_api example_argv = Some (Inr 0, done)"
    "child_environment (\<lambda>name. None) done = Some ?env"
    by (rule example_run_exists) (simp add: kNetworkEnvVar_def del: wide_Cons)
  have "returns_string (string_api ?env) ?env"
    by (rule returns_string_string_api) (auto split: if_splits)
  with network_policy_inherited [OF run(1) example_parse run(2)] run show ?thesis
    by (simp add: GetNetworkPolicy_def example_main_options_def)
qed

text \<open>
  The time limit. The wait is unlimited exactly when no limit is asked for, and a limit of \<open>s\<close>
  seconds is \<open>1000 s\<close> milliseconds modulo \<open>2 ^ 32\<close>: as asked up to 4,294,967 seconds, and much less
  from there on.
\<close>
theorem time_limit:
  "(wait_ms secs = INFINITE \<longleftrightarrow> secs = kInfiniteTime) \<and>
   (secs \<noteq> kInfiniteTime \<longrightarrow> unat (wait_ms secs) = 1000 * unat secs mod 2 ^ 32) \<and>
   (secs \<noteq> kInfiniteTime \<longrightarrow> (unat (wait_ms secs) = 1000 * unat secs \<longleftrightarrow> unat secs \<le> 4294967))"
proof -
  have ms: "unat (secs * 1000) = 1000 * unat secs mod 2 ^ 32" by (simp add: unat_word_ariths mult.commute)
  have "secs * 1000 \<noteq> INFINITE"
  proof
    assume "secs * 1000 = INFINITE"
    then have "1000 * unat secs mod 2 ^ 32 = 4294967295" using ms by (simp add: INFINITE_def)
    then have "1000 * unat secs mod 2 ^ 32 mod 8 = (7 :: nat)" by simp
    moreover have "1000 * unat secs mod 2 ^ 32 mod 8 = (0 :: nat)" by (simp add: mod_mod_cancel)
    ultimately show False by simp
  qed
  moreover have "1000 * unat secs mod 2 ^ 32 = 1000 * unat secs \<longleftrightarrow> unat secs \<le> 4294967"
  proof (cases "unat secs \<le> 4294967")
    case False
    then have "2 ^ 32 < 1000 * unat secs" by simp
    moreover have "1000 * unat secs mod 2 ^ 32 < 2 ^ 32" by simp
    ultimately show ?thesis using False by linarith
  qed simp
  ultimately show ?thesis using ms by (simp add: wait_ms_def)
qed

theorem time_limit_witness: "unat (wait_ms 60) = 60000 \<and> unat (wait_ms 4294968) = 704"
proof -
  have "unat (wait_ms 60) = 1000 * unat (60 :: u32) mod 2 ^ 32"
    "unat (wait_ms 4294968) = 1000 * unat (4294968 :: u32) mod 2 ^ 32"
    using time_limit [THEN conjunct2, THEN conjunct1] by (simp_all only: kInfiniteTime_def) simp_all
  then show ?thesis by simp
qed

end
