(* ===== verification/Spec2Isabelle.thy ===== *)
theory Spec2Isabelle
  imports Policy_Result Payload_Injector Hook_Verdicts Find_Hooks Path_Hooks Network_Policy Command_Line Exec_Stats Launcher_Run
begin

text \<open>
  A model of the Bazel sandbox for Windows. A launcher (\<open>src/src/main.cpp\<close>) builds a
  \<^emph>\<open>manifest\<close> of file-access policies and starts a build action with a DLL injected; the DLL
  (\<open>src/vendor/detours-services\<close>, with the project's own \<open>src/src/overlay_engine.cpp\<close>) is handed
  the manifest, passes it on to every child process, looks up the policy of each path that the action
  touches, and either refuses the access or redirects it to a private write overlay. The development
  follows one path from the scopes that the launcher adds to the verdict and the file of the access,
  and one directory listing from the operating system's buffer to what the caller reads.

  \<^bold>\<open>Theories.\<close>

  \<^item> \<open>Sandbox_Base\<close>: words, wide strings (lists of 16-bit characters), little-endian bytes and
    buffers, the shared lemmas on them, and the constants of the Windows headers.
  \<^item> \<open>String_Operations\<close> (\<open>StringOperations.{h,cpp}\<close>) and \<open>Win32_Paths\<close>: characters, hashes,
    prefixes, tree containment, roots, command lines; path functions of the system as parameters.
  \<^item> \<open>Manifest_Tree\<close>, \<open>Bucket_Table\<close>, \<open>Manifest_Serialize\<close> (\<open>manifest_builder.{h,cpp}\<close>): the
    policy tree and its scopes, the hash table of children that a node is written with, and the bytes
    of the manifest.
  \<^item> \<open>Policy_Search\<close> (\<open>PolicySearch.{h,cpp}\<close>, \<open>DataTypes.h\<close>) and \<open>Manifest_Parse\<close>
    (\<open>DetoursHelpers.cpp\<close>): the reader of those bytes. Reads outside the payload are \<open>None\<close>.
  \<^item> \<open>Payload_Injector\<close> (\<open>DetouredProcessInjector.{h,cpp}\<close>): the wrapper in which the manifest
    reaches a process and the processes that it starts.
  \<^item> \<open>Access_Check\<close> (\<open>FileAccessHelpers.{h,cpp}\<close>) and \<open>Policy_Result\<close>
    (\<open>PolicyResult*.{h,cpp}\<close>, \<open>CanonicalizedPath.{h,cpp}\<close>): verdicts and their error codes.
  \<^item> \<open>Overlay_Paths\<close>, \<open>Overlay_Redirect\<close> (\<open>overlay_engine.cpp\<close>, first half): virtual and backing
    paths, and where an open, a delete, a rename or a probe goes. The file system is a parameter, a
    record of operations on a world type.
  \<^item> \<open>Dir_Records\<close>, \<open>Enum_Filter\<close>, \<open>Enum_Insert\<close>, \<open>Enum_Scan\<close> (\<open>overlay_engine.cpp\<close>, second
    half; \<open>HandleOverlay.h\<close>): the chain of records in a directory buffer, the filter that hides
    undeclared files, and the splice that adds the overlay's own.
  \<^item> \<open>Enum_Hooks\<close> (\<open>DetouredFunctions.cpp\<close>, \<open>HandleOverlay.cpp\<close>): the registry of handles, and the hooks
    that list a directory. \<open>hook_lists_merged_directory\<close> composes filter and splice over repeated calls, and
    \<open>trace_disarms_listing\<close>, at the end of this theory, shows when the hooks stop doing either.
  \<^item> \<open>File_Hooks\<close> (\<open>DetouredFunctions.cpp\<close>, \<open>DetoursHelpers.cpp\<close>): the hooks of \<open>CreateFileW\<close>, \<open>CloseHandle\<close>,
    \<open>GetFileAttributesW\<close> and \<open>ExW\<close>, \<open>DeleteFileW\<close>, \<open>CreateDirectoryW\<close>, \<open>RemoveDirectoryW\<close>, and of the copies and moves
    by path. Windows is a record \<open>file_os\<close> of functions on a world; a hook returns its result, the last
    error and the world and registry after it.
  \<^item> \<open>Hook_Runs\<close>: sequences of these calls. \<open>real_files_kept\<close> says what none of them changes, and
    \<open>registered_handles_allowed\<close> what the registry holds; both are invariants of a locale of calls,
    shown call by call.
  \<^item> \<open>Hook_Verdicts\<close>: what one call answers. Every call returns, an open for reading hands out a handle
    exactly where it should, the two probes agree; and three calls that get past the policies or the
    overlay.
  \<^item> \<open>Find_Hooks\<close> (\<open>DetouredFunctions.cpp\<close>, \<open>overlay_engine.cpp\<close>): \<open>FindFirstFileW\<close> and \<open>ExW\<close>,
    \<open>FindNextFileW\<close>, \<open>FindClose\<close>, and the search made up for what only the overlay has. The searches of Windows are
    functions on a state. \<open>find_lists_merged_directory\<close> follows a caller to the end of a search.
  \<^item> \<open>Path_Hooks\<close> (\<open>DetouredFunctions.cpp\<close>): \<open>GetCurrentDirectoryW\<close> and
    \<open>GetFinalPathNameByHandleW\<close>, which report virtual paths.
  \<^item> \<open>Network_Policy\<close> (\<open>network_detours.{h,cpp}\<close>): the policy read from the environment, the detours of
    Winsock, and their attachment. Winsock is a record of answers, its last error part of the result.
  \<^item> \<open>Command_Line\<close>, \<open>Launch_Options\<close>, \<open>Launch_Scopes\<close>, \<open>Exec_Stats\<close> (\<open>main.cpp\<close>): the quoting of the
    child's arguments, the options and response files, the scopes and directories that the options ask
    for, and the protobuf message of resource usage.
  \<^item> \<open>Launch_Files\<close>, \<open>Launcher\<close>, \<open>Launcher_Run\<close> (\<open>main.cpp\<close>): the launcher itself. Windows is a
    record \<open>launcher_os\<close> of answers; a run yields the list of its calls (\<open>os_call\<close>) and an exit status,
    \<open>Inl\<close> for an exit by \<open>Die\<close> or \<open>PrintUsage\<close>, \<open>Inr\<close> for the return of \<open>wmain\<close>. The relation \<open>child_step\<close> reads such a
    list as the life of the child process, from its creation, suspended, to its end.

  \<^bold>\<open>How the parts meet.\<close> \<open>Build\<close> writes what \<open>ParseFileAccessManifest\<close> and
  \<open>FindFileAccessPolicyInTreeEx\<close> read; the relation \<open>record_at\<close> says that bytes hold a tree, and the
  search of the bytes refines \<open>tree_search\<close>. The policies of a tree are \<open>acc_of\<close>, and
  \<open>policy_end_to_end\<close> below composes all of it. The overlay's functions take their decisions from a
  \<open>PolicyResult\<close>; \<open>merged_visible\<close> is the file system that an action should see, and the theorems on
  redirection relate every operation to it. \<open>wmain\<close> adds the scopes of \<open>launcher_calls\<close> to a
  builder and hands the bytes of \<open>Build\<close> to the child: \<open>undeclared_inputs_hidden\<close>, at the end of this
  theory, follows the arguments of the launcher to the verdict on a path in any descendant. The hooks
  join all parts of the DLL: \<open>with_policy\<close> is the search of the manifest, \<open>checks_in\<close> the access checks in
  the present world, and the \<open>ResolveOverlay\<close> functions pick the path that Windows is given. Interfaces that several parts rely on are locales (the
  little-endian fields of the manifest, the probing of the child table, a listing with a cursor), each
  interpreted on the definitions of the model.

  \<^bold>\<open>Loops, bounds and faults.\<close> Searches recurse on the path or on the buckets left; loops of the
  sources that may not end on bad data are \<open>partial_function (option)\<close> where \<open>None\<close> is not returning,
  and reads outside a buffer are a second \<open>None\<close>. Offsets and sizes are words of the width of the
  sources. \<open>drain\<close> and \<open>walk_chain\<close> stand for a caller and take a number of steps; the theorems ask
  for as many as there are entries, or bytes in the buffer. The removal of the backing store recurses
  over a tree that the file system holds; \<open>overlay_discarded\<close> shows that it returns on every finite one.

  \<^bold>\<open>Not modelled.\<close> The other detour hooks (\<open>DetouredFunctions.cpp\<close>): the native opens and
  \<open>NtSetInformationFile\<close>, the ANSI entry points, hard and symbolic links, \<open>ReplaceFileW\<close>,
  process creation, and the transacted copies and moves; the attachment of the hooks
  (\<open>DetoursServices.cpp\<close>); in the modelled hooks, what a call with a null pointer or a delayed move does
  beyond its early return; locks; a tree of paths that nothing calls (\<open>PathTree.cpp\<close>, \<open>TreeNode.cpp\<close>); reports and the debug log
  (\<open>SendReport.cpp\<close>, the lines that \<open>dbg\<close> and \<open>dline\<close> print), which no decision depends on; the structures
  that \<open>MetadataOverrides.cpp\<close> overwrites; \<open>TryDecomposePath\<close> and \<open>NormalizePath\<close>, which only call the C
  runtime; the Detours library, the C runtime and Windows, which are parameters wherever they are
  called: path expansion, attributes, directory listings, the matching of wildcards, processes.
\<close>

section \<open>From scopes to verdicts\<close>

text \<open>A canonical path, as the search sees it, that no special case covers.\<close>

definition ordinary_path :: "CanonicalizedPath \<Rightarrow> bool" where
  "ordinary_path p \<longleftrightarrow>
     \<not> cp_IsNull p \<and> clean_path (GetPathStringWithoutTypePrefix p) \<and>
     0 \<notin> set (GetPathStringWithoutTypePrefix p) \<and>
     GetSpecialCaseRulesForWindows (GetPathStringWithoutTypePrefix p) = None \<and>
     GetSpecialCaseRulesForCoverageAndSpecialDevices (GetPathStringWithoutTypePrefix p)
       (cp_Type p) = None"

lemma mb_root_new: "acc_of (mb_root (new_ManifestBuilder fl ex d86 d64)) ks = default_acc"
  by (simp add: new_ManifestBuilder_def root_node_def acc_of_fresh)

lemma acc_of_scopes:
  assumes "returns_string fullPathName full" "\<forall>call \<in> set calls. 0 \<notin> set (call_path call)"
  shows "acc_of (mb_root (add_scopes fullPathName calls (new_ManifestBuilder fl ex d86 d64))) ks =
    scope_acc_at fullPathName calls ks"
  using acc_of_add_scopes [OF assms tree_wf_new, of fl ex d86 d64 ks]
  by (simp add: scope_acc_at_def mb_root_new)

lemma Initialize_tree:
  assumes "record_at mem root n" "tree_wf n" "ordinary_path p"
  shows "\<exists>pr. Initialize_canonical mem root p = Some pr \<and> \<not> m_isIndeterminate pr \<and>
    m_policy pr = policy_of (tree_search (path_keys (GetPathStringWithoutTypePrefix p)) n)"
proof -
  let ?t = "GetPathStringWithoutTypePrefix p"
  note p = assms(3) [unfolded ordinary_path_def]
  have "search_keys ?t = path_keys ?t" using p search_keys_clean by blast
  with p Initialize_searched [OF assms(1,2), of p] show ?thesis by metis
qed

text \<open>From a builder with the scopes to the policy of a path.\<close>

lemma parsed_policy:
  assumes gfp: "returns_string fullPathName full"
    and calls: "\<forall>call \<in> set calls. 0 \<notin> set (call_path call) \<and> narrow (call_values call)"
    and root: "mb_root mb = mb_root (add_scopes fullPathName calls (new_ManifestBuilder fl ex d86 d64))"
    and ok: "manifest_ok mb" "mb_reportPath mb \<noteq> [] \<Longrightarrow> openReport (mb_reportPath mb)"
    and p: "ordinary_path p"
  obtains manifest pr where "Build mb = Some manifest" "manifest \<noteq> []"
    "ParseFileAccessManifest openReport manifest = Some (Some (parsed_from mb))"
    "Initialize_canonical manifest (g_manifestTreeRoot (parsed_from mb)) p = Some pr"
    "m_policy pr = policy_along (scope_acc_at fullPathName calls) Policy_Deny
       (path_keys (GetPathStringWithoutTypePrefix p))"
proof -
  have nul: "\<forall>call \<in> set calls. 0 \<notin> set (call_path call)" using calls by blast
  have wf: "tree_wf (mb_root mb)"
    unfolding root by (rule tree_wf_scope_steps [OF gfp nul tree_wf_new])
  obtain manifest where build: "Build mb = Some manifest"
    "ParseFileAccessManifest openReport manifest = Some (Some (parsed_from mb))"
    "record_at manifest (g_manifestTreeRoot (parsed_from mb)) (Finalize Policy_Deny (mb_root mb))"
    using Parse_Build [OF ok(1), of openReport] ok(2) by auto
  have ne: "manifest \<noteq> []"
  proof
    assume "manifest = []"
    with build(2) show False by (simp add: ParseFileAccessManifest_def rd_u32_def)
  qed
  obtain pr where pr:
    "Initialize_canonical manifest (g_manifestTreeRoot (parsed_from mb)) p = Some pr"
    "m_policy pr = policy_of (tree_search (path_keys (GetPathStringWithoutTypePrefix p))
       (Finalize Policy_Deny (mb_root mb)))"
    using Initialize_tree [OF build(3) tree_wf_Finalize [OF wf] p] by blast
  have acc: "acc_of (mb_root mb) = scope_acc_at fullPathName calls"
    unfolding root by (rule ext) (rule acc_of_scopes [OF gfp nul])
  have "narrow (coneValues (acc_of (mb_root mb) l))" for l
    unfolding acc by (rule scope_acc_at_narrow) (use calls in blast)
  moreover have "narrow Policy_Deny" by (simp add: Policy_Deny_def)
  ultimately have "m_policy pr = policy_along (scope_acc_at fullPathName calls) Policy_Deny
      (path_keys (GetPathStringWithoutTypePrefix p))"
    using policy_of_tree_search [of Policy_Deny "mb_root mb"] pr(2) acc by simp
  with build ne pr(1) that show thesis by blast
qed

text \<open>
  C1: the policy that the DLL applies to a path is the one the launcher's scopes say. The launcher
  adds scopes, builds the manifest and wraps it; the injected process unwraps it, parses it and
  searches it for a path, byte by byte. The result is the policy computed from the list of scopes
  alone: from the root down, each scope on an ancestor masks and adds to the inherited policy, and
  the node scopes on the path itself do so last.
\<close>
theorem policy_end_to_end:
  assumes gfp: "returns_string fullPathName full"
    and calls: "\<forall>call \<in> set calls. 0 \<notin> set (call_path call) \<and> narrow (call_values call)"
    and mb: "mb = (add_scopes fullPathName calls (new_ManifestBuilder fl ex d86 d64))
      \<lparr>mb_reportPath := rep, mb_writeOverlayRoot := ov, mb_overlaySourceRoot := src\<rparr>"
    and ok: "manifest_ok mb" "rep \<noteq> [] \<Longrightarrow> openReport rep"
    and fits: "\<And>m. Build mb = Some m \<Longrightarrow> 8 + length m < 2 ^ 32"
    and p: "ordinary_path p"
  shows "\<exists>manifest payload child parsed pr.
    Build mb = Some manifest \<and>
    Init is64 False (Some (launcher_wrapper manifest)) new_injector =
      Some (Inr (Some payload, of_nat (length payload)), child) \<and>
    ParseFileAccessManifest openReport payload = Some (Some parsed) \<and>
    Initialize_canonical payload (g_manifestTreeRoot parsed) p = Some pr \<and>
    m_policy pr = policy_along (scope_acc_at fullPathName calls) Policy_Deny
      (path_keys (GetPathStringWithoutTypePrefix p))"
proof -
  have root: "mb_root mb = mb_root (add_scopes fullPathName calls (new_ManifestBuilder fl ex d86 d64))"
    and rep: "mb_reportPath mb = rep" by (simp_all add: mb)
  obtain manifest pr where m: "Build mb = Some manifest" "manifest \<noteq> []"
    "ParseFileAccessManifest openReport manifest = Some (Some (parsed_from mb))"
    "Initialize_canonical manifest (g_manifestTreeRoot (parsed_from mb)) p = Some pr"
    "m_policy pr = policy_along (scope_acc_at fullPathName calls) Policy_Deny
       (path_keys (GetPathStringWithoutTypePrefix p))"
    using parsed_policy [OF gfp calls root ok(1) _ p, of openReport] ok(2) rep by blast
  have "Init is64 False (Some (launcher_wrapper manifest)) new_injector =
      Some (Inr (Some manifest, of_nat (length manifest)),
        new_injector\<lparr>inj_otherHandles := [], inj_payloadSize := of_nat (length manifest),
          inj_payload := Some manifest, inj_initialized := True\<rparr>)"
    by (rule Init_launcher [OF fits [OF m(1)] m(2)]) (simp_all add: new_injector_def)
  with m show ?thesis by blast
qed


subsection \<open>An example manifest\<close>

definition example_calls :: "scope_call list" where
  "example_calls = [RootScope 0 5, ConeScope (wide ''C:'' @ [BACKSLASH] @ wide ''a'') 0 3]"

definition example_builder :: ManifestBuilder where
  "example_builder =
     (add_scopes (string_api identity_full) example_calls (new_ManifestBuilder 8 0x400 [0x61] [0x62]))
       \<lparr>mb_reportPath := [], mb_writeOverlayRoot := wide ''o'', mb_overlaySourceRoot := []\<rparr>"

definition example_path :: CanonicalizedPath where
  "example_path = \<lparr>cp_Type = Win32,
     cp_value = wide ''c:'' @ [BACKSLASH] @ wide ''A'' @ [BACKSLASH] @ wide ''b''\<rparr>"

lemma example_keys: "path_keys (wide ''C:'' @ [BACKSLASH] @ wide ''a'') = [wide ''C:'', wide ''A'']"
  by code_simp

lemma example_root:
  "mb_root example_builder = update_at (map_acc (apply_cone 0 3)) [wide ''C:'', wide ''A'']
     (map_acc (apply_cone 0 5) root_node)"
  by (simp add: example_builder_def example_calls_def add_scopes_def new_ManifestBuilder_def
      AddRootScope_def AddScope_def AddPathFragments_eq CanonicalizeForTree_def
      two_call_eq [OF returns_identity_full] identity_full_def Let_def)
    (simp add: example_keys [unfolded wide_def, simplified])

lemma example_node_size: "node_size (mb_root example_builder) = 72"
  by (simp add: example_root root_node_def fresh_node_def bucketCount_of_def fragment_bytes_def
      length_u16_string pad_length_def)

lemma example_fields:
  "mb_reportPath example_builder = []" "mb_writeOverlayRoot example_builder = wide ''o''"
  "mb_overlaySourceRoot example_builder = []" "mb_dllX86 example_builder = [0x61]"
  "mb_dllX64 example_builder = [0x62]"
  by code_simp+

lemma example_ok: "manifest_ok example_builder"
  by (simp add: manifest_ok_def example_fields example_node_size path_ok_def path_option_def)

lemma example_fits: "Build example_builder = Some m \<Longrightarrow> 8 + length m < 2 ^ 32"
  using Build_writes [OF example_ok]
  by (auto simp: writes_node_def node_size_Finalize example_node_size manifest_header_def
      example_fields path_option_def dll_block_def padded_ansi_def length_u16_string pad_length_def)

theorem policy_end_to_end_witness:
  "\<exists>manifest payload child parsed pr.
    Build example_builder = Some manifest \<and>
    Init True False (Some (launcher_wrapper manifest)) new_injector =
      Some (Inr (Some payload, of_nat (length payload)), child) \<and>
    ParseFileAccessManifest (\<lambda>p. False) payload = Some (Some parsed) \<and>
    Initialize_canonical payload (g_manifestTreeRoot parsed) example_path = Some pr \<and>
    m_policy pr = 3"
proof -
  have calls: "\<forall>call \<in> set example_calls. 0 \<notin> set (call_path call) \<and> narrow (call_values call)"
    by (simp add: example_calls_def narrow_def Policy_MaskNothing_def)
  have path: "ordinary_path example_path" by code_simp
  have "policy_along (scope_acc_at (string_api identity_full) example_calls) Policy_Deny
      (path_keys (GetPathStringWithoutTypePrefix example_path)) = 3" by code_simp
  then show ?thesis
    using policy_end_to_end [OF returns_identity_full calls example_builder_def example_ok _ example_fits path,
        of "\<lambda>p. False" True] by simp
qed


section \<open>From options to verdicts\<close>

text \<open>
  What the launch has to satisfy besides: the paths of its scopes are C strings, and the manifest fits
  the 32-bit fields that describe it.
\<close>

definition launch_fits :: "buffer_api \<Rightarrow> Options \<Rightarrow> wstr \<Rightarrow> bytes \<Rightarrow> bool" where
  "launch_fits fpn opts toolPath dll \<longleftrightarrow>
     (let calls = launcher_calls opts toolPath None; mb = add_scopes fpn calls (new_builder opts dll)
      in list_all (\<lambda>call. 0 \<notin> set (call_path call)) calls \<and> manifest_ok mb \<and>
         (case Build mb of None \<Rightarrow> True | Some m \<Rightarrow> 8 + length m < 2 ^ 32))"

text \<open>The checks of a path without any permission.\<close>

lemma denied_checks:
  assumes "m_policy pr = 0"
  shows "acr_Result (CheckExistingFileReadAccess env pr) = Deny"
    and "DenialError_masked True (CheckExistingFileReadAccess env pr) = ERROR_FILE_NOT_FOUND"
    and "acr_Result (CheckWriteAccess env basedOnPolicy pr) = Deny"
  using assms
  by (simp_all add: CheckExistingFileReadAccess_def CheckReadAccess_def AllowRead_def
      OverrideAllowWriteForExistingFiles_def access_check_def Access_None_def Access_Write_def
      CheckWriteAccess_def CreateAccessCheckResult_def AllowWrite_def DenialError_masked_def IsReadOnlyAccess_def Let_def)

text \<open>
  C2: what an action does not declare it does not see. When the launcher has handed the payload to an action with
  \<open>--filter-inputs\<close> and without \<open>--write-overlay\<close>, then in every process of its tree in which the DLL attaches the
  globals and the injector hold the launcher's manifest; and in it the DLL finds no permission for an ordinary path
  in the working directory that is not in the tool or a path of \<open>-r\<close> or \<open>-w\<close> and is no output directory: an
  existing file there is not read, and the error is that of a file that does not exist; nor is one written. (With
  \<open>--write-overlay\<close> the scope of the working directory grants writes, which go to the overlay.)
\<close>
theorem undeclared_inputs_hidden:
  assumes run: "wmain os api argv = Some (res, done)" "CopyPayload payload True \<in> set done"
    and opts: "ParseOptions api argv = Inr opts" "o_filterInputs opts" "\<not> o_writeOverlay opts"
    and tool: "ToAbsolute (oa_fullPathName api) (hd (o_args (normalize_tool opts))) = Inr toolPath"
    and gfp: "returns_string (oa_fullPathName api) full"
    and fits: "launch_fits (oa_fullPathName api) (normalize_tool opts) toolPath (ToAnsi (os_multiByte os) (dll_path os))"
    and report: "o_tracePath opts = [] \<or> openReport (o_tracePath opts)"
    and p: "ordinary_path p"
      "undeclared (oa_fullPathName api) (normalize_tool opts) toolPath (path_keys (GetPathStringWithoutTypePrefix p))"
  shows "\<exists>manifest parsed pr. payload = launcher_wrapper manifest \<and>
    (\<forall>g self. process_tree manifest g self \<longrightarrow> g = parsed \<and> inj_payload self = Some manifest) \<and>
    ParseFileAccessManifest openReport manifest = Some (Some parsed) \<and>
    Initialize_canonical manifest (g_manifestTreeRoot parsed) p = Some pr \<and>
    acr_Result (CheckExistingFileReadAccess env pr) = Deny \<and>
    DenialError_masked (ShouldDeniedReadsAsNotFound (g_fileAccessManifestExtraFlags parsed))
      (CheckExistingFileReadAccess env pr) = ERROR_FILE_NOT_FOUND \<and>
    acr_Result (CheckWriteAccess env basedOnPolicy pr) = Deny"
proof -
  let ?fpn = "oa_fullPathName api" and ?opts = "normalize_tool opts" and ?dll = "ToAnsi (os_multiByte os) (dll_path os)"
  let ?calls = "launcher_calls ?opts toolPath None"
  obtain built mb root built' manifest where launched:
    "scoped_manifest os ?fpn ?opts toolPath ?dll built = (Inr (mb, root), built')"
    "Build mb = Some manifest" "payload = launcher_wrapper manifest"
    using launched_with [OF run] opts(1) tool by (metis Inr_inject)
  have plain: "\<not> o_writeOverlay ?opts" "o_hermetic ?opts" "o_filterInputs ?opts" "o_tracePath ?opts = o_tracePath opts"
    using opts ParseOptions_hermetic by (simp_all add: normalize_tool_def)
  let ?mb = "add_scopes ?fpn ?calls (new_builder ?opts ?dll)"
  have mb: "mb = ?mb" using scoped_manifest_plain [OF launched(1)] plain(1) by simp
  have fields: "mb_root ?mb = mb_root (add_scopes ?fpn ?calls (new_ManifestBuilder (manifest_flags ?opts)
        (manifest_extraFlags ?opts) ?dll ?dll))"
    "mb_reportPath ?mb = o_tracePath opts" "mb_extraFlags ?mb = manifest_extraFlags ?opts"
  proof -
    show "mb_root ?mb = mb_root (add_scopes ?fpn ?calls (new_ManifestBuilder (manifest_flags ?opts)
        (manifest_extraFlags ?opts) ?dll ?dll))"
      by (rule add_scopes_root) (simp add: new_builder_def SetReportPath_def)
    show "mb_reportPath ?mb = o_tracePath opts" "mb_extraFlags ?mb = manifest_extraFlags ?opts"
      by (subst add_scopes_frame, simp add: new_builder_def new_ManifestBuilder_def SetReportPath_def plain(4))+
  qed
  have calls: "\<forall>call \<in> set ?calls. 0 \<notin> set (call_path call) \<and> narrow (call_values call)"
    and ok: "manifest_ok ?mb" and small: "8 + length manifest < 2 ^ 32"
    using fits launcher_calls_mask launched(2) mb by (auto simp: launch_fits_def Let_def list_all_iff)
  obtain pr where pr: "manifest \<noteq> []"
    "ParseFileAccessManifest openReport manifest = Some (Some (parsed_from ?mb))"
    "Initialize_canonical manifest (g_manifestTreeRoot (parsed_from ?mb)) p = Some pr"
    "m_policy pr = policy_along (scope_acc_at ?fpn ?calls) Policy_Deny (path_keys (GetPathStringWithoutTypePrefix p))"
    using parsed_policy [OF gfp calls fields(1) ok _ p(1), of openReport] report fields(2) launched(2) mb
    by (metis option.inject)
  have deny: "m_policy pr = 0" using pr(4) undeclared_denied [OF p(2) plain(2,1)] by (simp add: Policy_Deny_def)
  have "ShouldDeniedReadsAsNotFound (g_fileAccessManifestExtraFlags (parsed_from ?mb))"
    using plain(1,3) by (simp add: parsed_from_def fields(3) manifest_extraFlags_def ShouldDeniedReadsAsNotFound_def
        ExtraFlag_None_def ExtraFlag_DeniedReadsAsNotFound_def ExtraFlag_FilterDirectoryEnumeration_def)
  moreover have "g = parsed_from ?mb \<and> inj_payload self = Some manifest" if "process_tree manifest g self" for g self
    using process_tree_sealed [OF that pr(2) small] by (simp add: sealed_def)
  ultimately show ?thesis
    using launched(3) pr(2,3) denied_checks [OF deny]
    by (intro exI [of _ manifest] exI [of _ "parsed_from ?mb"] exI [of _ pr]) simp
qed


definition example_hidden :: CanonicalizedPath where
  "example_hidden = \<lparr>cp_Type = Win32, cp_value = wide ''c:'' @ BACKSLASH # wide ''W'' @ BACKSLASH # wide ''x''\<rparr>"

theorem undeclared_inputs_hidden_witness:
  "\<forall>env. \<exists>done manifest parsed pr.
    wmain (store_os []) example_main_api example_argv = Some (Inr 0, done) \<and>
    CopyPayload (launcher_wrapper manifest) True \<in> set done \<and>
    ParseFileAccessManifest (\<lambda>p. False) manifest = Some (Some parsed) \<and>
    Initialize_canonical manifest (g_manifestTreeRoot parsed) example_hidden = Some pr \<and>
    DenialError_masked (ShouldDeniedReadsAsNotFound (g_fileAccessManifestExtraFlags parsed))
      (CheckExistingFileReadAccess env pr) = ERROR_FILE_NOT_FOUND"
proof
  fix env :: check_env
  let ?opts = example_main_options
  obtain "done" m where run: "wmain (store_os []) example_main_api example_argv = Some (Inr 0, done)"
    "CopyPayload (launcher_wrapper m) True \<in> set done" "Build example_main_builder = Some m"
    by (rule example_run_exists) simp
  have api: "oa_fullPathName example_main_api = string_api example_full" by (simp add: example_main_api_def)
  have tool: "normalize_tool ?opts = ?opts" "o_filterInputs ?opts" "\<not> o_writeOverlay ?opts" "o_tracePath ?opts = []"
    "ToAbsolute (string_api example_full) (hd (o_args ?opts)) = Inr example_tool" by code_simp+
  have "list_all (\<lambda>call. 0 \<notin> set (call_path call)) (launcher_calls ?opts example_tool None)"
    unfolding example_calls by code_simp
  moreover have "8 + length m < 2 ^ 32"
    using Build_writes [OF example_manifest_ok] run(3) example_main_size
    by (auto simp: writes_node_def node_size_Finalize manifest_header_def example_builder_fields path_option_def
        dll_block_def padded_ansi_def length_u16_string pad_length_def example_dll_bytes)
  ultimately have fits: "launch_fits (string_api example_full) ?opts example_tool example_dll"
    using run(3) example_manifest_ok by (simp add: launch_fits_def Let_def example_main_builder_def)
  have ordinary: "ordinary_path example_hidden" by code_simp
  have hidden: "undeclared (string_api example_full) ?opts example_tool (path_keys (GetPathStringWithoutTypePrefix example_hidden))"
  proof -
    have "path_keys (GetPathStringWithoutTypePrefix example_hidden) = [wide ''C:'', wide ''W'', wide ''X'']"
      "output_dirs ?opts = []" by code_simp+
    then show ?thesis
      unfolding undeclared_def covers_def keys_of_def
      by (simp add: example_canon example_main_options_def default_options_def)
  qed
  have report: "o_tracePath ?opts = [] \<or> (\<lambda>p. False) (o_tracePath ?opts)" using tool(4) by simp
  have "\<exists>manifest parsed pr. launcher_wrapper m = launcher_wrapper manifest \<and>
      ParseFileAccessManifest (\<lambda>p. False) manifest = Some (Some parsed) \<and>
      Initialize_canonical manifest (g_manifestTreeRoot parsed) example_hidden = Some pr \<and>
      DenialError_masked (ShouldDeniedReadsAsNotFound (g_fileAccessManifestExtraFlags parsed))
        (CheckExistingFileReadAccess env pr) = ERROR_FILE_NOT_FOUND"
    using undeclared_inputs_hidden [OF run(1,2) example_parse tool(2,3), where toolPath = example_tool and full = example_full
        and openReport = "\<lambda>p. False" and p = example_hidden and env = env and basedOnPolicy = True,
        unfolded tool(1) api, OF tool(5) returns_example_full fits[unfolded example_dll_def] report ordinary hidden]
    by blast
  then obtain manifest parsed pr where seen: "launcher_wrapper m = launcher_wrapper manifest"
    "ParseFileAccessManifest (\<lambda>p. False) manifest = Some (Some parsed)"
    "Initialize_canonical manifest (g_manifestTreeRoot parsed) example_hidden = Some pr"
    "DenialError_masked (ShouldDeniedReadsAsNotFound (g_fileAccessManifestExtraFlags parsed))
      (CheckExistingFileReadAccess env pr) = ERROR_FILE_NOT_FOUND"
    by blast
  show "\<exists>done manifest parsed pr.
    wmain (store_os []) example_main_api example_argv = Some (Inr 0, done) \<and>
    CopyPayload (launcher_wrapper manifest) True \<in> set done \<and>
    ParseFileAccessManifest (\<lambda>p. False) manifest = Some (Some parsed) \<and>
    Initialize_canonical manifest (g_manifestTreeRoot parsed) example_hidden = Some pr \<and>
    DenialError_masked (ShouldDeniedReadsAsNotFound (g_fileAccessManifestExtraFlags parsed))
      (CheckExistingFileReadAccess env pr) = ERROR_FILE_NOT_FOUND"
    using run(1) run(2)[unfolded seen(1)] seen(2-) by (intro exI [of _ "done"] exI [of _ manifest] exI [of _ parsed] exI [of _ pr]) simp
qed



section \<open>Listings under a trace\<close>

text \<open>
  C32: a trace turns the enumeration hooks off. In an action launched with \<open>--trace\<close>, once a call of
  \<open>NtQueryDirectoryFile\<close> on a handle to a directory has succeeded, every later call on that handle gives
  the buffer of the operating system as it is, with the hidden names and without the overlay's,
  whatever filter and overlay the action was launched with.
\<close>

theorem trace_disarms_listing:
  assumes "g_fileAccessManifestFlags (he_globals env) = manifest_flags opts" "o_tracePath opts \<noteq> []"
    and "overlays handle = Some ov" "ho_Type ov = HT_Directory" "\<not> leaves_alone (he_disabled env) (Some ov)"
    and "Detoured_NtQueryDirectoryFile env realFn handle Length infoClass single FileName RestartScan (buf, q, overlays) =
      Some (Some (status, buf', q', overlays'))" "NT_SUCCESS status"
  shows "Detoured_NtQueryDirectoryFile env realFn handle Length' infoClass' single' FileName' RestartScan' (b, p, overlays') =
    (case realFn RestartScan' b p of (status', error, b', p') \<Rightarrow> Some (Some (status', b', p', overlays')))"
proof -
  have report: "CheckReportAnyAccess (g_fileAccessManifestFlags (he_globals env)) False"
    using assms(1,2)
    by (simp add: manifest_flags_def CheckReportAnyAccess_def CheckReportAllFileAccesses_def Flag_None_def
        Flag_ReportFileAccesses_def Flag_ReportUnexpectedFileAccesses_def)
  obtain ov' where "overlays' handle = Some ov'" "EnumerationHasBeenReported ov'"
    using assms(3-7) report
    unfolding Detoured_NtQueryDirectoryFile_def query_hook_def show_entries_def Let_def prod.case
      TryLookupHandleOverlay_def
    by (auto simp: ShouldReport_def access_check_def split: prod.splits if_split_asm)
  then show ?thesis
    by (simp add: Detoured_NtQueryDirectoryFile_def query_hook_def TryLookupHandleOverlay_def leaves_alone_def
        split: prod.splits)
qed


definition traced_options :: Options where
  "traced_options = default_options\<lparr>o_tracePath := wide ''t'', o_filterInputs := True\<rparr>"

definition traced_env :: "unit hook_env" where
  "traced_env = listing_env\<lparr>he_globals := he_globals listing_env
     \<lparr>g_fileAccessManifestFlags := manifest_flags traced_options\<rparr>\<rparr>"

theorem trace_disarms_listing_witness:
  "\<exists>buf q overlays.
    Detoured_NtQueryDirectoryFile traced_env example_query 7 30 12 False None False example_state =
      Some (Some (kStatusSuccess, buf, q, overlays)) \<and>
    Detoured_NtQueryDirectoryFile traced_env example_query 7 30 12 False None False (buf, (1, (0, 0)), overlays) =
      Some (Some (kStatusSuccess, example_listing, (0, (0, 0)), overlays))"
proof -
  have "map_option (map_option fst) (Detoured_NtQueryDirectoryFile traced_env example_query 7 30 12 False None False
      example_state) = Some (Some kStatusSuccess)" by code_simp
  then obtain buf q overlays where first: "Detoured_NtQueryDirectoryFile traced_env example_query 7 30 12 False None False
      (example_listing, (2, (0, 0)), [(7 :: nat) \<mapsto> example_overlay]) = Some (Some (kStatusSuccess, buf, q, overlays))"
    by (auto simp: example_state_def)
  have "g_fileAccessManifestFlags (he_globals traced_env) = manifest_flags traced_options"
    "o_tracePath traced_options \<noteq> []" "ho_Type example_overlay = HT_Directory"
    "\<not> leaves_alone (he_disabled traced_env) (Some example_overlay)" by code_simp+
  from trace_disarms_listing [OF this(1,2) _ this(3,4) first] have
    "Detoured_NtQueryDirectoryFile traced_env example_query 7 30 12 False None False (buf, (1, (0, 0)), overlays) =
      Some (Some (kStatusSuccess, example_listing, (0, (0, 0)), overlays))"
    by (simp add: example_query_def)
  with first show ?thesis
    unfolding example_state_def by (intro exI [of _ buf] exI [of _ q] exI [of _ overlays] conjI)
qed

end
